(* ===== verification/Loris_Prelude.thy ===== *)
theory Loris_Prelude
  imports Main "HOL-Library.Word"
begin

text \<open>
  Shared foundation of the development: the machine integers of the i386 target, the byte
  addressed memory with its little endian accessors, the faults a kernel routine can end in,
  the sequencing of fallible routines, and the generic lemmas on words and memory ranges that
  the component theories use.
\<close>

unbundle bit_operations_syntax

type_synonym u8 = "8 word"
type_synonym u16 = "16 word"
type_synonym u32 = "32 word"

text \<open>The linear address space, one byte per address.\<close>

type_synonym memory = "u32 \<Rightarrow> u8"

named_theorems mem_simps \<open>read-over-write rules of the byte memory\<close>
named_theorems unat_simps \<open>moving word arithmetic to the natural numbers\<close>

subsection \<open>Faults and sequencing\<close>

text \<open>
  How a routine can fail to return normally: control flows off the end of a function that must
  return a value, a diagnostic is printed and the CPU spins, a loop exceeds the fuel it was
  given, an integer division by zero traps, an indirect call goes to an address that is no
  known function, a method is called through a null object pointer, or the processor is left with a
  value in CR3 that is not the address of a page directory.
\<close>

datatype fault = MissingReturn | Spin string | OutOfFuel | DivideError | BadCall u32 | NullThis | BadDirectory

definition rbind :: "'e + 'a \<Rightarrow> ('a \<Rightarrow> 'e + 'b) \<Rightarrow> 'e + 'b" where
  "rbind r f = (case r of Inl e \<Rightarrow> Inl e | Inr x \<Rightarrow> f x)"

lemma rbind_simps [simp]:
  "rbind (Inl e) f = Inl e"
  "rbind (Inr x) f = f x"
  by (simp_all add: rbind_def)

lemma rbind_Inr_iff: "rbind r f = Inr y \<longleftrightarrow> (\<exists>x. r = Inr x \<and> f x = Inr y)"
  by (cases r) auto

lemma rbind_InrE [elim]:
  assumes "rbind r f = Inr y"
  obtains x where "r = Inr x" and "f x = Inr y"
  using assms by (auto simp: rbind_Inr_iff)

subsection \<open>Words\<close>

lemma unat_add_no_wrap [unat_simps]:
  "unat a + unat b < 4294967296 \<Longrightarrow> unat (a + b :: u32) = unat a + unat b"
  using unat_add_lem [of a b] by simp

lemma unat_sub_no_wrap [unat_simps]:
  "unat b \<le> unat a \<Longrightarrow> unat (a - b :: u32) = unat a - unat b"
  by (simp add: unat_sub_if')

lemma unat_lt_2p32 [simp]: "unat (a :: u32) < 4294967296"
  using unsigned_less [of a, where ?'a = nat] by simp

lemma unat_le_max32: "unat (a :: u32) \<le> 4294967295"
  using unat_lt_2p32 [of a] by linarith

lemma unat_minus_one32 [simp]: "unat (-1 :: u32) = 4294967295"
  by (simp add: unsigned_minus_1_eq_mask mask_eq_exp_minus_1)

lemma unat_of_nat32 [unat_simps]: "n < 4294967296 \<Longrightarrow> unat (of_nat n :: u32) = n"
  by (simp add: unat_of_nat take_bit_nat_eq_self)

lemma unat_plus_one: "(i :: u32) < n \<Longrightarrow> unat (i + 1) = Suc (unat i)"
proof -
  assume "i < n"
  then have "unat i < unat n" by (simp add: word_less_nat_alt)
  then have "unat i + unat (1 :: u32) < 4294967296" using unat_le_max32 [of n] by simp
  then show ?thesis by (subst unat_add_no_wrap) simp_all
qed

lemma word_less_unat: "(a :: u32) < b \<longleftrightarrow> unat a < unat b"
  by (rule word_less_nat_alt)

lemma word_le_unat: "(a :: u32) \<le> b \<longleftrightarrow> unat a \<le> unat b"
  by (rule word_le_nat_alt)

lemma word_eq_unat: "(a :: u32) = b \<longleftrightarrow> unat a = unat b"
  by (rule word_unat_eq_iff)

lemma unat_mult4 [unat_simps]:
  "4 * unat i < 4294967296 \<Longrightarrow> unat (4 * i :: u32) = 4 * unat i"
  using unat_mult_lem [of 4 i] by simp

subsection \<open>Counting loops\<close>

text \<open>
  The loop \<^verbatim>\<open>while (i < n && !p(i)) i++\<close> with an unsigned 32 bit counter: the
  position where it stops.
\<close>

function scan :: "(u32 \<Rightarrow> bool) \<Rightarrow> u32 \<Rightarrow> u32 \<Rightarrow> u32" where
  "scan p n i = (if i < n \<and> \<not> p i then scan p n (i + 1) else i)"
  by pat_completeness auto
termination
  by (relation "measure (\<lambda>(p, n, i). unat n - unat i)")
     (auto simp: unat_plus_one word_less_unat)

declare scan.simps [simp del]

lemma scan_spec:
  assumes "i \<le> n"
  shows "i \<le> scan p n i \<and> scan p n i \<le> n
    \<and> (\<forall>j. i \<le> j \<and> j < scan p n i \<longrightarrow> \<not> p j)
    \<and> (scan p n i < n \<longrightarrow> p (scan p n i))"
  using assms
proof (induction p n i rule: scan.induct)
  case (1 p n i)
  show ?case
  proof (cases "i < n \<and> \<not> p i")
    case True
    then have le: "i + 1 \<le> n"
      by (metis inc_le)
    have IH: "i + 1 \<le> scan p n (i + 1) \<and> scan p n (i + 1) \<le> n
      \<and> (\<forall>j. i + 1 \<le> j \<and> j < scan p n (i + 1) \<longrightarrow> \<not> p j)
      \<and> (scan p n (i + 1) < n \<longrightarrow> p (scan p n (i + 1)))"
      using 1 True le by blast
    have step: "i + 1 \<le> j" if "i \<le> j" "j \<noteq> i" for j
      using that True by (metis inc_le order_le_neq_trans)
    have "i \<le> i + 1"
      using True unat_plus_one [of i n] by (simp add: word_le_unat)
    with IH True step show ?thesis
      by (subst (1 2 3 4 5) scan.simps) (auto intro: order_trans)
  next
    case False
    with "1.prems" show ?thesis
      by (subst (1 2 3 4 5) scan.simps) auto
  qed
qed

lemma scan_le: "i \<le> n \<Longrightarrow> scan p n i \<le> n"
  using scan_spec by blast

lemma scan_hit: "i \<le> n \<Longrightarrow> scan p n i < n \<Longrightarrow> p (scan p n i)"
  using scan_spec by blast

lemma scan_before: "i \<le> n \<Longrightarrow> i \<le> j \<Longrightarrow> j < scan p n i \<Longrightarrow> \<not> p j"
  using scan_spec by blast

lemma scan_miss: "i \<le> n \<Longrightarrow> \<not> scan p n i < n \<Longrightarrow> scan p n i = n"
  using scan_spec [of i n p] by auto

text \<open>Testing one bit with a mask.\<close>

lemma and_power_bit: "(w :: 'a :: len word) AND 2 ^ k = of_bool (bit w k) * 2 ^ k"
  by (rule bit_word_eqI) (auto simp: bit_simps)

subsection \<open>Byte memory: little endian accessors\<close>

definition load16 :: "memory \<Rightarrow> u32 \<Rightarrow> u16" where
  "load16 m a = ucast (m a) OR push_bit 8 (ucast (m (a + 1)))"

definition store16 :: "memory \<Rightarrow> u32 \<Rightarrow> u16 \<Rightarrow> memory" where
  "store16 m a v = m(a := ucast v, a + 1 := ucast (drop_bit 8 v))"

definition load32 :: "memory \<Rightarrow> u32 \<Rightarrow> u32" where
  "load32 m a = ucast (m a) OR push_bit 8 (ucast (m (a + 1)))
     OR push_bit 16 (ucast (m (a + 2))) OR push_bit 24 (ucast (m (a + 3)))"

definition store32 :: "memory \<Rightarrow> u32 \<Rightarrow> u32 \<Rightarrow> memory" where
  "store32 m a v = m(a := ucast v, a + 1 := ucast (drop_bit 8 v),
     a + 2 := ucast (drop_bit 16 v), a + 3 := ucast (drop_bit 24 v))"

lemma bytes_of_u32:
  "(ucast (ucast v :: u8) :: u32) OR push_bit 8 (ucast (ucast (drop_bit 8 v) :: u8))
     OR push_bit 16 (ucast (ucast (drop_bit 16 v) :: u8))
     OR push_bit 24 (ucast (ucast (drop_bit 24 v) :: u8)) = (v :: u32)"
proof (rule bit_word_eqI)
  fix n assume n: "n < LENGTH(32)"
  consider "n < 8" | "8 \<le> n" "n < 16" | "16 \<le> n" "n < 24" | "24 \<le> n" "n < 32"
    using n by fastforce
  then show "bit ((ucast (ucast v :: u8) :: u32) OR push_bit 8 (ucast (ucast (drop_bit 8 v) :: u8))
     OR push_bit 16 (ucast (ucast (drop_bit 16 v) :: u8))
     OR push_bit 24 (ucast (ucast (drop_bit 24 v) :: u8))) n = bit v n"
    by cases (auto simp: bit_simps)
qed

lemma bytes_of_u16:
  "(ucast (ucast v :: u8) :: u16) OR push_bit 8 (ucast (ucast (drop_bit 8 v) :: u8)) = (v :: u16)"
proof (rule bit_word_eqI)
  fix n assume n: "n < LENGTH(16)"
  consider "n < 8" | "8 \<le> n" "n < 16" using n by fastforce
  then show "bit ((ucast (ucast v :: u8) :: u16)
      OR push_bit 8 (ucast (ucast (drop_bit 8 v) :: u8))) n = bit v n"
    by cases (auto simp: bit_simps)
qed

lemma load32_store32_same [mem_simps, simp]: "load32 (store32 m a v) a = v"
  by (simp add: load32_def store32_def bytes_of_u32)

lemma load16_store16_same [mem_simps, simp]: "load16 (store16 m a v) a = v"
  by (simp add: load16_def store16_def bytes_of_u16)


text \<open>
  Address \<open>x\<close> lies among the \<open>n\<close> bytes from \<open>a\<close> on, circularly, iff the unsigned
  difference \<open>x - a\<close> is below \<open>n\<close>.
\<close>

lemma store32_frame: "\<not> x - a < 4 \<Longrightarrow> store32 m a v x = m x"
  by (auto simp: store32_def)

lemma store16_frame: "\<not> x - a < 2 \<Longrightarrow> store16 m a v x = m x"
  by (auto simp: store16_def)

lemma load32_cong: "(\<And>x. x - b < 4 \<Longrightarrow> m x = m' x) \<Longrightarrow> load32 m b = load32 m' b"
  by (simp add: load32_def)

lemma load16_cong: "(\<And>x. x - b < 2 \<Longrightarrow> m x = m' x) \<Longrightarrow> load16 m b = load16 m' b"
  by (simp add: load16_def)

lemma offset_less_iff:
  assumes "unat a + unat n \<le> 4294967296"
  shows "(x :: u32) - a < n \<longleftrightarrow> unat a \<le> unat x \<and> unat x < unat a + unat n"
proof (cases "unat a \<le> unat x")
  case True
  then show ?thesis by (auto simp: word_less_unat unat_sub_no_wrap)
next
  case False
  then have "unat (x - a) = unat x + 4294967296 - unat a"
    by (simp add: unat_sub_if')
  with assms False show ?thesis by (auto simp: word_less_unat)
qed

text \<open>Separated accesses commute: the conditions are on the natural-number addresses.\<close>

definition apart :: "u32 \<Rightarrow> nat \<Rightarrow> u32 \<Rightarrow> nat \<Rightarrow> bool" where
  "apart a n b k \<longleftrightarrow> unat a + n \<le> 4294967296 \<and> unat b + k \<le> 4294967296
     \<and> (unat a + n \<le> unat b \<or> unat b + k \<le> unat a)"

lemma load32_store32_apart [mem_simps]:
  assumes "apart a 4 b 4"
  shows "load32 (store32 m a v) b = load32 m b"
proof (rule load32_cong)
  fix x assume "x - b < 4"
  with assms have "unat b \<le> unat x \<and> unat x < unat b + 4"
    using offset_less_iff [of b 4 x] by (simp add: apart_def)
  with assms have "\<not> x - a < 4"
    using offset_less_iff [of a 4 x] by (auto simp: apart_def)
  then show "store32 m a v x = m x" by (rule store32_frame)
qed

lemma load32_upd_apart [mem_simps]:
  assumes "apart a 1 b 4"
  shows "load32 (m(a := v)) b = load32 m b"
proof (rule load32_cong)
  fix x assume "x - b < 4"
  with assms have "unat b \<le> unat x \<and> unat x < unat b + 4"
    using offset_less_iff [of b 4 x] by (simp add: apart_def)
  with assms have "x \<noteq> a" by (auto simp: apart_def)
  then show "(m(a := v)) x = m x" by simp
qed

lemma store32_byte_apart [mem_simps]:
  assumes "apart a 4 x 1"
  shows "store32 m a v x = m x"
  using assms offset_less_iff [of a 4 x] by (intro store32_frame) (auto simp: apart_def)

text \<open>Accesses at small constant distances from one base, without any bound on the base.\<close>

lemma load32_store32_disp [mem_simps]:
  assumes "4 \<le> b - a" and "4 \<le> a - b"
  shows "load32 (store32 m a v) b = load32 m b"
proof (rule load32_cong)
  fix x assume x: "x - b < 4"
  have "\<not> x - a < 4"
  proof
    assume "x - a < 4"
    moreover have "b - a = (x - a) - (x - b)" by simp
    moreover have "a - b = (x - b) - (x - a)" by simp
    ultimately show False using x assms by unat_arith
  qed
  then show "store32 m a v x = m x" by (rule store32_frame)
qed

lemma load32_upd_disp [mem_simps]:
  assumes "4 \<le> a - b"
  shows "load32 (m(a := v)) b = load32 m b"
proof (rule load32_cong)
  fix x assume "x - b < 4"
  with assms have "x \<noteq> a" by auto
  then show "(m(a := v)) x = m x" by simp
qed

lemma store32_byte_disp [mem_simps]: "4 \<le> x - a \<Longrightarrow> store32 m a v x = m x"
  by (rule store32_frame) simp

subsection \<open>Frames: memories that differ only inside a range\<close>

definition same_outside :: "nat \<Rightarrow> nat \<Rightarrow> memory \<Rightarrow> memory \<Rightarrow> bool" where
  "same_outside lo hi m m' \<longleftrightarrow> (\<forall>x. unat x < lo \<or> hi \<le> unat x \<longrightarrow> m' x = m x)"

lemma same_outside_refl [simp, intro]: "same_outside lo hi m m"
  by (simp add: same_outside_def)

lemma same_outside_trans [trans]:
  "same_outside lo hi m m' \<Longrightarrow> same_outside lo hi m' m'' \<Longrightarrow> same_outside lo hi m m''"
  by (simp add: same_outside_def)

lemma same_outside_mono:
  "same_outside lo hi m m' \<Longrightarrow> lo' \<le> lo \<Longrightarrow> hi \<le> hi' \<Longrightarrow> same_outside lo' hi' m m'"
  by (auto simp: same_outside_def)

lemma same_outside_byte:
  "same_outside lo hi m m' \<Longrightarrow> unat x < lo \<or> hi \<le> unat x \<Longrightarrow> m' x = m x"
  by (auto simp: same_outside_def)

lemma same_outside_load32:
  assumes "same_outside lo hi m m'" and "unat b + 4 \<le> 4294967296"
    and "unat b + 4 \<le> lo \<or> hi \<le> unat b"
  shows "load32 m' b = load32 m b"
proof (rule load32_cong)
  fix x assume "x - b < 4"
  with assms(2) have "unat b \<le> unat x \<and> unat x < unat b + 4"
    using offset_less_iff [of b 4 x] by simp
  with assms(1,3) show "m' x = m x" by (auto simp: same_outside_def)
qed

lemma same_outside_store32:
  assumes "same_outside lo hi m m'" and "lo \<le> unat a" and "unat a + 4 \<le> hi"
    and "hi \<le> 4294967296"
  shows "same_outside lo hi m (store32 m' a v)"
  unfolding same_outside_def
proof (intro allI impI)
  fix x :: u32 assume "unat x < lo \<or> hi \<le> unat x"
  with assms have "\<not> x - a < 4" and "m' x = m x"
    using offset_less_iff [of a 4 x] by (auto simp: same_outside_def)
  then show "store32 m' a v x = m x" by (simp add: store32_frame)
qed

lemma same_outside_upd:
  "same_outside lo hi m m' \<Longrightarrow> lo \<le> unat a \<Longrightarrow> unat a < hi \<Longrightarrow> same_outside lo hi m (m'(a := v))"
  by (auto simp: same_outside_def)

text \<open>What survives every change outside a range survives if the memories agree on the range.\<close>

lemma load32_bytes:
  assumes "unat b + 4 \<le> 4294967296" and "\<And>x. unat b \<le> unat x \<Longrightarrow> unat x < unat b + 4 \<Longrightarrow> m' x = m x"
  shows "load32 m' b = load32 m b"
  by (rule load32_cong, rule assms(2)) (use assms(1) in \<open>auto simp: offset_less_iff\<close>)

lemma same_inside_cong:
  assumes frame: "\<And>lo hi m m'. same_outside lo hi m m' \<Longrightarrow> b \<le> lo \<or> hi \<le> a \<Longrightarrow> F m' = F m"
    and same: "\<And>x. a \<le> unat x \<Longrightarrow> unat x < b \<Longrightarrow> m' x = m x"
  shows "F m' = F m"
proof -
  define m1 where "m1 = (\<lambda>x. if unat x < a then m' x else m x)"
  have "same_outside 0 a m m1" by (simp add: same_outside_def m1_def)
  moreover have "same_outside b 4294967296 m1 m'"
    unfolding same_outside_def m1_def using same by (auto simp: not_le dest: less_le_trans [OF unat_lt_2p32])
  ultimately show ?thesis using frame [of 0 a m m1] frame [of b "4294967296" m1 m'] by simp
qed

lemmas same_outside_intros = same_outside_store32 same_outside_upd

end
