(* ===== verification/Word_Arrays.thy ===== *)
theory Word_Arrays
  imports Loris_Prelude
begin

text \<open>
  Arrays of 32 bit words inside the byte memory, as the kernel uses them for the heap index,
  the frame bitmap and the page directories. The contract of an array is a locale with the
  read-over-write laws; the list view of an array and the effect of the shifting loops are
  proved once from the contract, and the contract is discharged for the byte memory.
\<close>

locale word_array =
  fixes get :: "'h \<Rightarrow> 'm \<Rightarrow> nat \<Rightarrow> 'v"
    and put :: "'h \<Rightarrow> 'm \<Rightarrow> nat \<Rightarrow> 'v \<Rightarrow> 'm"
    and cap :: "'h \<Rightarrow> nat"
    and wf :: "'h \<Rightarrow> bool"
  assumes get_put_same: "wf h \<Longrightarrow> k < cap h \<Longrightarrow> get h (put h m k v) k = v"
    and get_put_other:
      "wf h \<Longrightarrow> k < cap h \<Longrightarrow> j < cap h \<Longrightarrow> j \<noteq> k \<Longrightarrow> get h (put h m k v) j = get h m j"
begin

definition view :: "'h \<Rightarrow> 'm \<Rightarrow> nat \<Rightarrow> 'v list" where
  "view h m n = map (get h m) [0..<n]"

lemma length_view [simp]: "length (view h m n) = n"
  by (simp add: view_def)

lemma nth_view [simp]: "k < n \<Longrightarrow> view h m n ! k = get h m k"
  by (simp add: view_def)

lemma view_Suc: "view h m (Suc n) = view h m n @ [get h m n]"
  by (simp add: view_def)

lemma view_put:
  assumes "wf h" and "k < n" and "n \<le> cap h"
  shows "view h (put h m k v) n = (view h m n)[k := v]"
proof (rule nth_equalityI)
  fix i assume "i < length (view h (put h m k v) n)"
  then have "i < n" by simp
  with assms show "view h (put h m k v) n ! i = (view h m n)[k := v] ! i"
    by (cases "i = k") (simp_all add: get_put_same get_put_other)
qed simp

lemma view_put_beyond:
  assumes "wf h" and "n \<le> k" and "k < cap h"
  shows "view h (put h m k v) n = view h m n"
  using assms by (intro nth_equalityI) (simp_all add: get_put_other)

text \<open>Moving the cells from \<open>i\<close> on one place up, with \<open>v\<close> put into the gap.\<close>

primrec shift_up :: "'h \<Rightarrow> nat \<Rightarrow> nat \<Rightarrow> 'v \<Rightarrow> 'm \<Rightarrow> 'm" where
  "shift_up h 0 i v m = m"
| "shift_up h (Suc c) i v m = shift_up h c (Suc i) (get h m (Suc i)) (put h m (Suc i) v)"

lemma get_shift_up:
  assumes "wf h"
  shows "i + c < cap h \<Longrightarrow> j \<le> i + c \<Longrightarrow>
    get h (shift_up h c i v m) j =
      (if j \<le> i then get h m j else if j = Suc i then v else get h m (j - 1))"
proof (induction c arbitrary: i v m)
  case (Suc c)
  have IH: "get h (shift_up h c (Suc i) (get h m (Suc i)) (put h m (Suc i) v)) j =
      (if j \<le> Suc i then get h (put h m (Suc i) v) j
       else if j = Suc (Suc i) then get h m (Suc i)
       else get h (put h m (Suc i) v) (j - 1))"
    using Suc by simp
  show ?case
    using IH Suc.prems assms
    by (cases "j = Suc i"; cases "j = Suc (Suc i)") (auto simp: get_put_same get_put_other)
qed simp

text \<open>Moving the cells after \<open>i\<close> one place down.\<close>

primrec shift_down :: "'h \<Rightarrow> nat \<Rightarrow> nat \<Rightarrow> 'm \<Rightarrow> 'm" where
  "shift_down h 0 i m = m"
| "shift_down h (Suc c) i m = shift_down h c (Suc i) (put h m i (get h m (Suc i)))"

lemma get_shift_down:
  assumes "wf h"
  shows "i + c \<le> cap h \<Longrightarrow> Suc j < i + c \<Longrightarrow>
    get h (shift_down h c i m) j = (if j < i then get h m j else get h m (Suc j))"
proof (induction c arbitrary: i m)
  case (Suc c)
  show ?case
  proof (cases "c = 0")
    case True
    with Suc.prems assms show ?thesis by (simp add: get_put_other)
  next
    case False
    have "get h (shift_down h c (Suc i) (put h m i (get h m (Suc i)))) j =
        (if j < Suc i then get h (put h m i (get h m (Suc i))) j
         else get h (put h m i (get h m (Suc i))) (Suc j))"
      using Suc False by simp
    with Suc.prems assms show ?thesis
      by (cases "j = i") (auto simp: get_put_same get_put_other)
  qed
qed simp

end

subsection \<open>The byte memory provides word arrays\<close>

type_synonym array_handle = "u32 \<times> nat"

definition arr_get :: "array_handle \<Rightarrow> memory \<Rightarrow> nat \<Rightarrow> u32" where
  "arr_get h m k = load32 m (fst h + 4 * of_nat k)"

definition arr_put :: "array_handle \<Rightarrow> memory \<Rightarrow> nat \<Rightarrow> u32 \<Rightarrow> memory" where
  "arr_put h m k v = store32 m (fst h + 4 * of_nat k) v"

definition arr_wf :: "array_handle \<Rightarrow> bool" where
  "arr_wf h \<longleftrightarrow> unat (fst h) + 4 * snd h \<le> 4294967296"

lemma unat_cell:
  assumes "unat (b :: u32) + 4 * n \<le> 4294967296" and "k < n"
  shows "unat (b + 4 * of_nat k) = unat b + 4 * k"
proof -
  have "unat (of_nat k :: u32) = k" using assms by (intro unat_of_nat32) linarith
  moreover then have "unat (4 * of_nat k :: u32) = 4 * k"
    using assms by (subst unat_mult4) auto
  ultimately show ?thesis using assms by (subst unat_add_no_wrap) auto
qed

interpretation w32: word_array arr_get arr_put snd arr_wf
proof
  fix h :: array_handle and k m v
  assume "arr_wf h" and "k < snd h"
  then show "arr_get h (arr_put h m k v) k = v"
    by (simp add: arr_get_def arr_put_def)
next
  fix h :: array_handle and k j m v
  assume "arr_wf h" and "k < snd h" and "j < snd h" and "j \<noteq> k"
  then have "apart (fst h + 4 * of_nat k) 4 (fst h + 4 * of_nat j) 4"
    by (auto simp: apart_def arr_wf_def unat_cell [of "fst h" "snd h"])
  then show "arr_get h (arr_put h m k v) j = arr_get h m j"
    by (simp add: arr_get_def arr_put_def load32_store32_apart)
qed

lemma arr_put_frame:
  assumes "arr_wf h" and "k < snd h" and "unat x < unat (fst h) \<or> unat (fst h) + 4 * snd h \<le> unat x"
  shows "arr_put h m k v x = m x"
proof -
  have "apart (fst h + 4 * of_nat k) 4 x 1"
    using assms unat_cell [of "fst h" "snd h" k] unat_lt_2p32 [of x]
    by (auto simp: apart_def arr_wf_def simp del: unat_lt_2p32)
  then show ?thesis by (simp add: arr_put_def store32_byte_apart)
qed

end
