(* ===== verification/Libc_String.thy ===== *)
theory Libc_String
  imports Loris_Prelude
begin

text \<open>
  The freestanding C string routines of \<^verbatim>\<open>libc/string\<close>: memset, memcpy, memmove, memcmp,
  strlen, strcpy and strcmp over the byte memory. The copying loops are shown equal to one
  closed form of a block copy, the string routines to return on terminated strings with the
  expected result.
\<close>

subsection \<open>memset, memcpy, memmove, memcmp\<close>

function memset_from :: "u32 \<Rightarrow> u32 \<Rightarrow> u32 \<Rightarrow> u32 \<Rightarrow> memory \<Rightarrow> memory" where
  "memset_from buf val n i m =
     (if i < n then memset_from buf val n (i + 1) (m(buf + i := ucast val)) else m)"
  by pat_completeness auto
termination
  by (relation "measure (\<lambda>(buf, val, n, i, m). unat n - unat i)")
     (auto simp: unat_plus_one word_less_unat)

definition memset :: "memory \<Rightarrow> u32 \<Rightarrow> u32 \<Rightarrow> u32 \<Rightarrow> memory" where
  "memset m buf val n = memset_from buf val n 0 m"

function memcpy_from :: "u32 \<Rightarrow> u32 \<Rightarrow> u32 \<Rightarrow> u32 \<Rightarrow> memory \<Rightarrow> memory" where
  "memcpy_from dst src n i m =
     (if i < n then memcpy_from dst src n (i + 1) (m(dst + i := m (src + i))) else m)"
  by pat_completeness auto
termination
  by (relation "measure (\<lambda>(dst, src, n, i, m). unat n - unat i)")
     (auto simp: unat_plus_one word_less_unat)

definition memcpy :: "memory \<Rightarrow> u32 \<Rightarrow> u32 \<Rightarrow> u32 \<Rightarrow> memory" where
  "memcpy m dst src n = memcpy_from dst src n 0 m"

function memmove_down :: "u32 \<Rightarrow> u32 \<Rightarrow> u32 \<Rightarrow> memory \<Rightarrow> memory" where
  "memmove_down dst src i m =
     (if i \<noteq> 0 then memmove_down dst src (i - 1) (m(dst + (i - 1) := m (src + (i - 1)))) else m)"
  by pat_completeness auto
termination
  by (relation "measure (\<lambda>(dst, src, i, m). unat i)")
     (auto simp: unat_sub_if' word_eq_unat)

definition memmove :: "memory \<Rightarrow> u32 \<Rightarrow> u32 \<Rightarrow> u32 \<Rightarrow> memory" where
  "memmove m dst src n =
     (if dst < src then memcpy_from dst src n 0 m else memmove_down dst src n m)"

function memcmp_from :: "memory \<Rightarrow> u32 \<Rightarrow> u32 \<Rightarrow> u32 \<Rightarrow> u32 \<Rightarrow> int" where
  "memcmp_from m a b n i =
     (if i < n then
        (if m (a + i) < m (b + i) then -1
         else if m (b + i) < m (a + i) then 1
         else memcmp_from m a b n (i + 1))
      else 0)"
  by pat_completeness auto
termination
  by (relation "measure (\<lambda>(m, a, b, n, i). unat n - unat i)")
     (auto simp: unat_plus_one word_less_unat)

definition memcmp :: "memory \<Rightarrow> u32 \<Rightarrow> u32 \<Rightarrow> u32 \<Rightarrow> int" where
  "memcmp m a b n = memcmp_from m a b n 0"

declare memset_from.simps [simp del] memcpy_from.simps [simp del] memmove_down.simps [simp del]
  memcmp_from.simps [simp del]

subsection \<open>strlen, strcpy, strcmp\<close>

text \<open>The loops run until they meet a terminating byte; \<open>None\<close> is a loop that never ends.\<close>

partial_function (option) strlen_from :: "memory \<Rightarrow> u32 \<Rightarrow> u32 \<Rightarrow> u32 option" where
  "strlen_from m str len =
     (if m (str + len) \<noteq> 0 then strlen_from m str (len + 1) else Some len)"

definition strlen :: "memory \<Rightarrow> u32 \<Rightarrow> u32 option" where
  "strlen m str = strlen_from m str 0"

partial_function (option) strcpy_from :: "u32 \<Rightarrow> u32 \<Rightarrow> memory \<Rightarrow> memory option" where
  "strcpy_from destination source m =
     (if m source \<noteq> 0
      then strcpy_from (destination + 1) (source + 1) (m(destination := m source))
      else Some (m(destination := 0)))"

text \<open>The returned pointer is 0 exactly when the destination is the null pointer.\<close>

definition strcpy :: "memory \<Rightarrow> u32 \<Rightarrow> u32 \<Rightarrow> (memory \<times> u32) option" where
  "strcpy m destination source =
     (if destination = 0 then Some (m, 0)
      else map_option (\<lambda>m'. (m', destination)) (strcpy_from destination source m))"

partial_function (option) strcmp_from :: "memory \<Rightarrow> u32 \<Rightarrow> u32 \<Rightarrow> int option" where
  "strcmp_from m x y =
     (if m x \<noteq> 0 \<and> m x = m y then strcmp_from m (x + 1) (y + 1)
      else Some (uint (m x) - uint (m y)))"

definition strcmp :: "memory \<Rightarrow> u32 \<Rightarrow> u32 \<Rightarrow> int option" where
  "strcmp m x y = strcmp_from m x y"

subsection \<open>The block copy and fill the loops compute\<close>

definition filled :: "memory \<Rightarrow> u32 \<Rightarrow> u8 \<Rightarrow> u32 \<Rightarrow> memory" where
  "filled m a v n = (\<lambda>x. if x - a < n then v else m x)"

definition blit :: "memory \<Rightarrow> u32 \<Rightarrow> u32 \<Rightarrow> u32 \<Rightarrow> memory" where
  "blit m dst src n = (\<lambda>x. if x - dst < n then m (src + (x - dst)) else m x)"

lemma offset_less_Suc:
  assumes "(i :: u32) < n"
  shows "x - a < i + 1 \<longleftrightarrow> x - a < i \<or> x = a + i"
proof -
  have "x - a < i + 1 \<longleftrightarrow> x - a < i \<or> x - a = i"
    using unat_plus_one [OF assms] by (auto simp: word_less_unat word_eq_unat)
  also have "x - a = i \<longleftrightarrow> x = a + i" by (auto simp: algebra_simps)
  finally show ?thesis .
qed

lemma filled_step:
  "i < n \<Longrightarrow> (filled m a v i)(a + i := v) = filled m a v (i + 1)"
  by (rule ext) (auto simp: filled_def offset_less_Suc)

lemma memset_from_filled:
  "i \<le> n \<Longrightarrow> memset_from buf val n i (filled m buf (ucast val) i) = filled m buf (ucast val) n"
proof (induction "unat n - unat i" arbitrary: i)
  case 0
  then have "i = n" by (simp add: word_le_unat word_eq_unat)
  then show ?case by (simp add: memset_from.simps)
next
  case (Suc k)
  then have lt: "i < n" by (simp add: word_less_unat)
  then have "i + 1 \<le> n" by (rule inc_le)
  moreover have "k = unat n - unat (i + 1)" using Suc.hyps(2) unat_plus_one [OF lt] by simp
  ultimately show ?case
    using Suc.hyps(1) lt by (simp add: memset_from.simps [of buf val n i] filled_step)
qed

lemma memset_eq_filled: "memset m buf val n = filled m buf (ucast val) n"
proof -
  have "filled m buf (ucast val) 0 = m" by (simp add: filled_def)
  with memset_from_filled [of 0 n buf val m] show ?thesis by (simp add: memset_def)
qed

lemma memset_frame:
  "unat a + unat n \<le> 4294967295 \<Longrightarrow> same_outside (unat a) (unat a + unat n) m (memset m a v n)"
  by (auto simp: same_outside_def memset_eq_filled filled_def offset_less_iff)

text \<open>
  An ascending copy is the block copy when the destination does not start inside the source
  range after its first byte.
\<close>

definition ascending_safe :: "u32 \<Rightarrow> u32 \<Rightarrow> u32 \<Rightarrow> bool" where
  "ascending_safe dst src n \<longleftrightarrow> dst = src \<or> n \<le> dst - src"

lemma blit_source:
  assumes "i < n" and "ascending_safe dst src n"
  shows "blit m dst src i (src + i) = m (src + i)"
proof -
  have "\<not> src + i - dst < i"
  proof (cases "dst = src")
    case False
    define d where "d = dst - src"
    have eq: "src + i - dst = i - d" by (simp add: d_def)
    have "unat i < unat d"
      using assms False
      by (simp add: ascending_safe_def d_def [symmetric] word_less_unat word_le_unat)
    then show ?thesis
      unfolding eq using unat_le_max32 [of d] by (simp add: word_less_unat unat_sub_if')
  qed simp
  then show ?thesis by (simp add: blit_def)
qed

lemma blit_step:
  assumes "i < n"
  shows "(blit m dst src i)(dst + i := m (src + i)) = blit m dst src (i + 1)"
  using assms by (intro ext) (auto simp: blit_def offset_less_Suc)

lemma memcpy_from_blit:
  assumes "ascending_safe dst src n"
  shows "i \<le> n \<Longrightarrow> memcpy_from dst src n i (blit m dst src i) = blit m dst src n"
proof (induction "unat n - unat i" arbitrary: i)
  case 0
  then have "i = n" by (simp add: word_le_unat word_eq_unat)
  then show ?case by (simp add: memcpy_from.simps)
next
  case (Suc k)
  then have lt: "i < n" by (simp add: word_less_unat)
  then have "i + 1 \<le> n" by (rule inc_le)
  moreover have "k = unat n - unat (i + 1)" using Suc.hyps(2) unat_plus_one [OF lt] by simp
  ultimately show ?case
    using Suc.hyps(1) lt
    by (simp add: memcpy_from.simps [of dst src n i] blit_source [OF lt assms] blit_step [OF lt])
qed

lemma memcpy_from_0:
  "ascending_safe dst src n \<Longrightarrow> memcpy_from dst src n 0 m = blit m dst src n"
  using memcpy_from_blit [of dst src n 0 m] by (simp add: blit_def)


subsection \<open>memmove on overlapping ranges\<close>

definition tail_blit :: "memory \<Rightarrow> u32 \<Rightarrow> u32 \<Rightarrow> u32 \<Rightarrow> u32 \<Rightarrow> memory" where
  "tail_blit m dst src i n =
     (\<lambda>x. if i \<le> x - dst \<and> x - dst < n then m (src + (x - dst)) else m x)"

lemma offset_ge_pred:
  assumes "(i :: u32) \<noteq> 0" and "i \<le> n"
  shows "i - 1 \<le> x - a \<and> x - a < n \<longleftrightarrow> i \<le> x - a \<and> x - a < n \<or> x = a + (i - 1)"
proof -
  define y where "y = x - a"
  have x: "x = a + (i - 1) \<longleftrightarrow> y = i - 1" by (auto simp: y_def algebra_simps)
  have "unat (i - 1) = unat i - 1" and "0 < unat i"
    using assms(1) by (simp_all add: unat_sub_if' word_eq_unat)
  then show ?thesis
    unfolding x y_def [symmetric] using assms(2)
    by (auto simp: word_less_unat word_le_unat word_eq_unat)
qed

lemma tail_blit_step:
  assumes "i \<noteq> 0" and "i \<le> n" and "src \<le> dst" and "unat dst + unat n \<le> 4294967296"
  shows "(tail_blit m dst src i n)(dst + (i - 1) := tail_blit m dst src i n (src + (i - 1)))
    = tail_blit m dst src (i - 1) n"
proof -
  define d where "d = dst - src"
  have d: "unat d + unat n \<le> 4294967296"
    using assms(3,4) by (simp add: d_def word_le_unat unat_sub_no_wrap)
  have eq: "src + (i - 1) - dst = (i - 1) - d" by (simp add: d_def)
  have i1: "unat (i - 1) = unat i - 1" "0 < unat i"
    using assms(1) by (simp_all add: unat_sub_if' word_eq_unat)
  have "\<not> (i \<le> src + (i - 1) - dst \<and> src + (i - 1) - dst < n)"
    unfolding eq using d i1 assms(2)
    by (simp add: word_less_unat word_le_unat unat_sub_if' [of "i - 1" d]) arith
  then have "tail_blit m dst src i n (src + (i - 1)) = m (src + (i - 1))"
    unfolding tail_blit_def by (rule if_not_P)
  with assms(1,2) show ?thesis
    unfolding tail_blit_def by (intro ext) (auto simp: offset_ge_pred)
qed

lemma memmove_down_blit:
  assumes "src \<le> dst" and "unat dst + unat n \<le> 4294967296"
  shows "i \<le> n \<Longrightarrow> memmove_down dst src i (tail_blit m dst src i n) = blit m dst src n"
proof (induction "unat i" arbitrary: i)
  case 0
  then have "i = 0" by (simp add: word_eq_unat)
  then show ?case by (simp add: memmove_down.simps tail_blit_def blit_def)
next
  case (Suc k)
  then have i: "i \<noteq> 0" by auto
  then have "k = unat (i - 1)" using Suc.hyps(2) by (simp add: unat_sub_if' word_eq_unat)
  moreover have "i - 1 \<le> n"
    using Suc.prems i by (simp add: word_le_unat unat_sub_if' word_eq_unat)
  ultimately show ?case
    using Suc i by (simp add: memmove_down.simps [of dst src i] tail_blit_step assms)
qed

text \<open>
  C26: memmove copies the \<open>n\<close> bytes at the source, as they were, to the destination and changes
  nothing else, for every overlap of the two ranges, as long as neither range runs past the end
  of the address space.
\<close>

theorem memmove_correct:
  assumes "unat dst + unat n \<le> 4294967296" and "unat src + unat n \<le> 4294967296"
  shows "memmove m dst src n = blit m dst src n"
proof (cases "dst < src")
  case True
  then have "ascending_safe dst src n"
    using assms(2)
    by (auto simp: ascending_safe_def word_less_unat word_le_unat unat_sub_if')
  with True show ?thesis by (simp add: memmove_def memcpy_from_0)
next
  case False
  have "tail_blit m dst src n n = m" by (rule ext) (auto simp: tail_blit_def dest: leD)
  then have "memmove_down dst src n m = blit m dst src n"
    using False assms memmove_down_blit [of src dst n n m] by simp
  with False show ?thesis
    by (simp add: memmove_def)
qed

theorem memmove_correct_witness:
  "memmove (\<lambda>a. if a = 100 then 7 else 9) 101 100 4 101 = 7"
  using memmove_correct [of 101 4 100 "\<lambda>a. if a = 100 then 7 else 9"] by (simp add: blit_def)

text \<open>memcpy agrees with memmove wherever its ascending loop does not overtake the source.\<close>

lemma memcpy_eq_blit: "ascending_safe dst src n \<Longrightarrow> memcpy m dst src n = blit m dst src n"
  by (simp add: memcpy_def memcpy_from_0)

lemma blit_outside: "\<not> x - dst < n \<Longrightarrow> blit m dst src n x = m x"
  by (simp add: blit_def)

lemma blit_inside: "i < n \<Longrightarrow> blit m dst src n (dst + i) = m (src + i)"
  by (simp add: blit_def)


subsection \<open>memcmp\<close>

lemma memcmp_from_spec:
  "i \<le> n \<Longrightarrow>
   (memcmp_from m a b n i = 0 \<longleftrightarrow> (\<forall>j. i \<le> j \<and> j < n \<longrightarrow> m (a + j) = m (b + j)))
   \<and> memcmp_from m a b n i \<in> {-1, 0, 1}"
proof (induction m a b n i rule: memcmp_from.induct)
  case (1 m a b n i)
  show ?case
  proof (cases "i < n \<and> m (a + i) = m (b + i)")
    case True
    then have "i + 1 \<le> n" by (blast intro: inc_le)
    moreover have "i \<le> j \<longleftrightarrow> j = i \<or> i + 1 \<le> j" for j
      using True unat_plus_one [of i n] by (auto simp: word_le_unat word_eq_unat)
    ultimately show ?thesis
      using 1 True by (auto simp: memcmp_from.simps [of m a b n i])
  next
    case False
    then show ?thesis
      by (auto simp: memcmp_from.simps [of m a b n i] neq_iff)
  qed
qed

lemma memcmp_zero_iff: "memcmp m a b n = 0 \<longleftrightarrow> (\<forall>j < n. m (a + j) = m (b + j))"
  using memcmp_from_spec [of 0 n m a b] by (simp add: memcmp_def)

subsection \<open>Terminated strings\<close>

fun cstr :: "memory \<Rightarrow> u32 \<Rightarrow> u8 list \<Rightarrow> bool" where
  "cstr m s [] \<longleftrightarrow> m s = 0"
| "cstr m s (x # xs) \<longleftrightarrow> x \<noteq> 0 \<and> m s = x \<and> cstr m (s + 1) xs"

lemma strlen_from_cstr:
  "cstr m (s + n) xs \<Longrightarrow> strlen_from m s n = Some (n + of_nat (length xs))"
proof (induction xs arbitrary: n)
  case (Cons x xs)
  then have "cstr m (s + (n + 1)) xs" by (simp add: add.assoc)
  with Cons show ?case by (simp add: strlen_from.simps [of m s n] algebra_simps)
qed (simp add: strlen_from.simps)

lemma strlen_cstr: "cstr m s xs \<Longrightarrow> strlen m s = Some (of_nat (length xs))"
  using strlen_from_cstr [of m s 0 xs] by (simp add: strlen_def)

lemma strcpy_from_cstr:
  assumes "ascending_safe d s n"
  shows "cstr m (s + i) xs \<Longrightarrow> unat i + length xs < unat n \<Longrightarrow>
    strcpy_from (d + i) (s + i) (blit m d s i) = Some (blit m d s (i + of_nat (length xs) + 1))"
proof (induction xs arbitrary: i)
  case Nil
  then have "i < n" by (simp add: word_less_unat)
  with Nil assms show ?case
    using blit_step [of i n m d s]
    by (simp add: strcpy_from.simps [of "d + i"] blit_source)
next
  case (Cons x xs)
  have lt: "i < n" using Cons.prems by (simp add: word_less_unat)
  have "cstr m (s + (i + 1)) xs" using Cons.prems by (simp add: add.assoc)
  moreover have "unat (i + 1) + length xs < unat n"
    using Cons.prems unat_plus_one [OF lt] by simp
  ultimately have "strcpy_from (d + (i + 1)) (s + (i + 1)) (blit m d s (i + 1))
      = Some (blit m d s (i + 1 + of_nat (length xs) + 1))"
    by (rule Cons.IH)
  then show ?case
    using Cons.prems(1) blit_step [OF lt, of m d s]
    by (simp add: strcpy_from.simps [of "d + i"] blit_source [OF lt assms] add.assoc)
qed

lemma strcpy_spec:
  assumes "cstr m s xs" and "d \<noteq> 0" and "length xs + 1 < 4294967296"
    and "ascending_safe d s (of_nat (length xs + 1))"
  shows "strcpy m d s = Some (blit m d s (of_nat (length xs + 1)), d)"
proof -
  have "unat (of_nat (length xs + 1) :: u32) = length xs + 1"
    using assms(3) by (rule unat_of_nat32)
  with strcpy_from_cstr [OF assms(4), of m 0 xs] assms(1,2)
  have "strcpy_from d s m = Some (blit m d s (of_nat (length xs + 1)))"
    by (simp add: blit_def add.commute)
  with assms(2) show ?thesis by (simp add: strcpy_def)
qed

text \<open>
  Strcpy returns on every terminated source string and copies exactly the string with its
  terminator, when the destination is not null and does not begin inside the copied range.
\<close>

lemma strcpy_correct:
  assumes "cstr m s xs" and "d \<noteq> 0" and "length xs + 1 < 4294967296"
    and "ascending_safe d s (of_nat (length xs + 1))"
  shows "strcpy m d s = Some (blit m d s (of_nat (length xs + 1)), d)"
  using assms by (rule strcpy_spec)

lemma strcmp_spec:
  assumes "cstr m x xs" and "cstr m y ys"
  shows "\<exists>r. strcmp m x y = Some r \<and> (r = 0 \<longleftrightarrow> xs = ys) \<and> (r < 0 \<longleftrightarrow> ord_class.lexordp xs ys)"
  using assms unfolding strcmp_def
proof (induction xs arbitrary: x y ys)
  case Nil
  then show ?case
    by (cases ys) (auto simp: strcmp_from.simps [of m x y] uint_0_iff word_less_def
        intro: order_le_neq_trans)
next
  case (Cons a xs)
  show ?case
  proof (cases ys)
    case Nil
    with Cons.prems show ?thesis
      by (auto simp: strcmp_from.simps [of m x y] uint_0_iff)
  next
    case (Cons b ys')
    then show ?thesis
      using Cons.IH [of "x + 1" "y + 1" ys'] Cons.prems
      by (cases "a = b") (auto simp: strcmp_from.simps [of m x y] word_less_def word_uint_eq_iff)
  qed
qed

text \<open>
  C27: strcmp returns on terminated strings; its result is zero exactly on equal strings and
  negative exactly when the first string comes first in the unsigned lexicographic order.
\<close>

theorem strcmp_correct:
  assumes "cstr m x xs" and "cstr m y ys"
  shows "\<exists>r. strcmp m x y = Some r \<and> (r = 0 \<longleftrightarrow> xs = ys) \<and> (r < 0 \<longleftrightarrow> ord_class.lexordp xs ys)"
  using assms by (rule strcmp_spec)

theorem strcmp_correct_witness:
  "\<exists>r. strcmp (\<lambda>a. if a = 50 then 65 else if a = 60 then 66 else 0) 50 60 = Some r \<and> r < 0"
  using strcmp_correct [of "\<lambda>a. if a = 50 then 65 else if a = 60 then 66 else 0" 50 "[65]" 60 "[66]"]
  by auto

end
