(* ===== verification/Ordered_List.thy ===== *)
theory Ordered_List
  imports Word_Arrays Libc_String "HOL-Library.Multiset"
begin

text \<open>
  \<^verbatim>\<open>Util/OrderedList.h\<close>: the ordered array of pointers that the heap keeps its holes in.
  The object is a record, the elements live in the byte memory, and the ordering predicate reads
  the memory, as the function pointer of the source does. The contract \<open>ordered_index\<close> states
  what the class promises its clients.
\<close>

record OrderedList =
  m_elements :: u32
  m_size :: u32
  m_maxSize :: u32
  m_lessThanPredicate :: "memory \<Rightarrow> u32 \<Rightarrow> u32 \<Rightarrow> bool"

text \<open>The constructor that places the elements at a given address; a pointer has 4 bytes.\<close>

definition OrderedList_at ::
    "u32 \<Rightarrow> u32 \<Rightarrow> (memory \<Rightarrow> u32 \<Rightarrow> u32 \<Rightarrow> bool) \<Rightarrow> memory \<Rightarrow> OrderedList \<times> memory" where
  "OrderedList_at elementsMemAddress maxSize lessThanPredicate m =
     (\<lparr>m_elements = elementsMemAddress, m_size = 0, m_maxSize = maxSize,
       m_lessThanPredicate = lessThanPredicate\<rparr>,
      memset m elementsMemAddress 0 (maxSize * 4))"

definition GetItemAtIndex :: "OrderedList \<Rightarrow> memory \<Rightarrow> u32 \<Rightarrow> u32" where
  "GetItemAtIndex ol m index = load32 m (m_elements ol + 4 * index)"

definition set_element :: "OrderedList \<Rightarrow> memory \<Rightarrow> u32 \<Rightarrow> u32 \<Rightarrow> memory" where
  "set_element ol m index item = store32 m (m_elements ol + 4 * index) item"

definition Size :: "OrderedList \<Rightarrow> u32" where
  "Size ol = m_size ol"

text \<open>The inner loop of Insert: the displaced element travels up in \<open>tmp\<close>.\<close>

function Insert_shift :: "OrderedList \<Rightarrow> u32 \<Rightarrow> u32 \<Rightarrow> memory \<Rightarrow> memory" where
  "Insert_shift ol iterator tmp m =
     (if iterator < m_size ol then
        let iterator' = iterator + 1; tmp2 = GetItemAtIndex ol m iterator'
        in Insert_shift ol iterator' tmp2 (set_element ol m iterator' tmp)
      else m)"
  by pat_completeness auto
termination
  by (relation "measure (\<lambda>(ol, iterator, tmp, m). unat (m_size ol) - unat iterator)")
     (auto simp: unat_plus_one word_less_unat)

definition Insert :: "OrderedList \<Rightarrow> memory \<Rightarrow> u32 \<Rightarrow> OrderedList \<times> memory" where
  "Insert ol m item =
     (let iterator = scan (\<lambda>i. \<not> m_lessThanPredicate ol m (GetItemAtIndex ol m i) item) (m_size ol) 0
      in if iterator = m_size ol
         then (ol\<lparr>m_size := m_size ol + 1\<rparr>, set_element ol m (m_size ol) item)
         else let tmp = GetItemAtIndex ol m iterator;
                  m1 = set_element ol m iterator item;
                  m2 = Insert_shift ol iterator tmp m1
              in (ol\<lparr>m_size := m_size ol + 1\<rparr>, m2))"

function Remove_shift :: "OrderedList \<Rightarrow> u32 \<Rightarrow> memory \<Rightarrow> memory" where
  "Remove_shift ol index m =
     (if index < m_size ol
      then Remove_shift ol (index + 1) (set_element ol m index (GetItemAtIndex ol m (index + 1)))
      else m)"
  by pat_completeness auto
termination
  by (relation "measure (\<lambda>(ol, index, m). unat (m_size ol) - unat index)")
     (auto simp: unat_plus_one word_less_unat)

definition Remove :: "OrderedList \<Rightarrow> memory \<Rightarrow> u32 \<Rightarrow> OrderedList \<times> memory" where
  "Remove ol m index = (ol\<lparr>m_size := m_size ol - 1\<rparr>, Remove_shift ol index m)"

declare Insert_shift.simps [simp del] Remove_shift.simps [simp del]

subsection \<open>The contract of an ordered index\<close>

text \<open>
  An index holds a list of items; insertion puts the new item in front of the first one that is
  not less than it, removal by position drops that item. Everything the heap needs of its index
  follows from these laws.
\<close>

definition place :: "('a \<Rightarrow> 'a \<Rightarrow> bool) \<Rightarrow> 'a \<Rightarrow> 'a list \<Rightarrow> 'a list" where
  "place lt x xs = takeWhile (\<lambda>y. lt y x) xs @ x # dropWhile (\<lambda>y. lt y x) xs"

definition drop_nth :: "nat \<Rightarrow> 'a list \<Rightarrow> 'a list" where
  "drop_nth i xs = take i xs @ drop (Suc i) xs"

lemma set_place [simp]: "set (place lt x xs) = insert x (set xs)"
  unfolding place_def by (metis Un_insert_right list.set(2) set_append takeWhile_dropWhile_id)

lemma length_place [simp]: "length (place lt x xs) = Suc (length xs)"
  unfolding place_def by (metis add_Suc_right length_Cons length_append takeWhile_dropWhile_id)

lemma distinct_place: "distinct (place lt x xs) \<longleftrightarrow> x \<notin> set xs \<and> distinct xs"
proof -
  have "distinct (ys @ x # zs) \<longleftrightarrow> x \<notin> set (ys @ zs) \<and> distinct (ys @ zs)" for ys zs
    by auto
  then show ?thesis unfolding place_def by (simp only: takeWhile_dropWhile_id)
qed

lemma length_drop_nth: "i < length xs \<Longrightarrow> length (drop_nth i xs) = length xs - 1"
  by (simp add: drop_nth_def)

lemma drop_nth_split: "i < length xs \<Longrightarrow> xs = take i xs @ xs ! i # drop (Suc i) xs"
  by (rule id_take_nth_drop)

lemma set_drop_nth:
  assumes "distinct xs" and "i < length xs"
  shows "set (drop_nth i xs) = set xs - {xs ! i}"
proof -
  have "distinct (take i xs @ xs ! i # drop (Suc i) xs)"
    using assms drop_nth_split [of i xs] by simp
  then have "set (drop_nth i xs) = set (take i xs @ xs ! i # drop (Suc i) xs) - {xs ! i}"
    by (auto simp: drop_nth_def)
  with assms(2) show ?thesis by (simp flip: drop_nth_split)
qed

lemma distinct_drop_nth: "distinct xs \<Longrightarrow> distinct (drop_nth i xs)"
  unfolding drop_nth_def by (simp add: set_take_disj_set_drop_if_distinct)

text \<open>For a strict order given by a key, placing keeps the list ordered.\<close>

lemma sorted_place:
  fixes key :: "'a \<Rightarrow> 'k :: linorder"
  assumes "sorted (map key xs)"
  shows "sorted (map key (place (\<lambda>y z. key y < key z) x xs))"
  using assms
proof (induction xs)
  case (Cons a xs)
  then show ?case
    by (cases "key a < key x") (auto simp: place_def dest!: set_takeWhileD set_dropWhileD)
qed (simp add: place_def)

lemma mset_place [simp]: "mset (place lt x xs) = add_mset x (mset xs)"
proof -
  have "mset (ys @ x # zs) = add_mset x (mset (ys @ zs))" for ys zs by simp
  then show ?thesis unfolding place_def by (simp only: takeWhile_dropWhile_id)
qed

lemma sorted_drop_nth: "sorted (map key xs) \<Longrightarrow> sorted (map key (drop_nth i xs))"
proof -
  assume "sorted (map key xs)"
  then have "sorted (map key (take i xs) @ map key (drop i xs))"
    by (simp flip: map_append)
  moreover have "set (drop (Suc i) xs) \<subseteq> set (drop i xs)"
    by (rule set_drop_subset_set_drop) simp
  moreover have "sorted (map key (drop (Suc i) xs))"
    using \<open>sorted (map key xs)\<close> by (metis drop_map sorted_wrt_drop)
  ultimately show ?thesis by (auto simp: drop_nth_def sorted_append)
qed

locale ordered_index =
  fixes items :: "'ix \<Rightarrow> memory \<Rightarrow> u32 list"
    and size_of :: "'ix \<Rightarrow> u32"
    and get :: "'ix \<Rightarrow> memory \<Rightarrow> u32 \<Rightarrow> u32"
    and ins :: "'ix \<Rightarrow> memory \<Rightarrow> u32 \<Rightarrow> 'ix \<times> memory"
    and del :: "'ix \<Rightarrow> memory \<Rightarrow> u32 \<Rightarrow> 'ix \<times> memory"
    and lt :: "'ix \<Rightarrow> memory \<Rightarrow> u32 \<Rightarrow> u32 \<Rightarrow> bool"
    and wf :: "'ix \<Rightarrow> bool"
    and room :: "'ix \<Rightarrow> bool"
    and lo :: "'ix \<Rightarrow> nat" and hi :: "'ix \<Rightarrow> nat"
  assumes size_items: "unat (size_of ix) = length (items ix m)"
    and get_items: "i < size_of ix \<Longrightarrow> get ix m i = items ix m ! unat i"
    and items_ins: "wf ix \<Longrightarrow> room ix \<Longrightarrow> ins ix m x = (ix', m') \<Longrightarrow>
      items ix' m' = place (lt ix m) x (items ix m) \<and> wf ix' \<and> same_outside (lo ix) (hi ix) m m'"
    and items_del: "wf ix \<Longrightarrow> i < size_of ix \<Longrightarrow> del ix m i = (ix', m') \<Longrightarrow>
      items ix' m' = drop_nth (unat i) (items ix m) \<and> wf ix' \<and> room ix'
        \<and> same_outside (lo ix) (hi ix) m m'"
    and ins_keeps: "ins ix m x = (ix', m') \<Longrightarrow> lt ix' = lt ix \<and> lo ix' = lo ix \<and> hi ix' = hi ix"
    and del_keeps: "del ix m i = (ix', m') \<Longrightarrow> lt ix' = lt ix \<and> lo ix' = lo ix \<and> hi ix' = hi ix"
    and items_frame: "wf ix \<Longrightarrow> same_outside a b m m' \<Longrightarrow> hi ix \<le> a \<or> b \<le> lo ix \<Longrightarrow>
      items ix m' = items ix m"
begin

lemma search_spec:
  defines "r \<equiv> \<lambda>ix m p. scan (\<lambda>i. p (get ix m i)) (size_of ix) 0"
  shows "r ix m p < size_of ix \<Longrightarrow>
      p (items ix m ! unat (r ix m p)) \<and> (\<forall>k < unat (r ix m p). \<not> p (items ix m ! k))"
    and "\<not> r ix m p < size_of ix \<Longrightarrow> r ix m p = size_of ix \<and> (\<forall>x \<in> set (items ix m). \<not> p x)"
proof -
  let ?r = "r ix m p"
  have before: "\<not> p (items ix m ! k)" if "k < unat ?r" "?r \<le> size_of ix" for k
  proof -
    have k: "k < 4294967296" using that(1) unat_lt_2p32 [of ?r] by linarith
    then have "of_nat k < ?r" using that(1) by (simp add: word_less_unat unat_of_nat32)
    moreover then have "of_nat k < size_of ix" using that(2) by (rule less_le_trans)
    ultimately show ?thesis
      using scan_before [of 0 "size_of ix" "of_nat k" "\<lambda>i. p (get ix m i)"] k
      by (simp add: r_def get_items unat_of_nat32)
  qed
  show "p (items ix m ! unat ?r) \<and> (\<forall>k < unat ?r. \<not> p (items ix m ! k))" if "?r < size_of ix"
    using scan_hit [of 0 "size_of ix" "\<lambda>i. p (get ix m i)"] that before
    by (auto simp: r_def get_items)
  show "?r = size_of ix \<and> (\<forall>x \<in> set (items ix m). \<not> p x)" if miss: "\<not> ?r < size_of ix"
  proof -
    have eq: "?r = size_of ix"
      using scan_miss [of 0 "size_of ix" "\<lambda>i. p (get ix m i)"] miss by (simp add: r_def)
    with before size_items [of ix m] show ?thesis by (auto simp: in_set_conv_nth)
  qed
qed

lemma set_ins:
  "wf ix \<Longrightarrow> room ix \<Longrightarrow> ins ix m x = (ix', m') \<Longrightarrow> set (items ix' m') = insert x (set (items ix m))"
  using items_ins by fastforce

lemma distinct_ins:
  "wf ix \<Longrightarrow> room ix \<Longrightarrow> ins ix m x = (ix', m') \<Longrightarrow> x \<notin> set (items ix m) \<Longrightarrow>
   distinct (items ix m) \<Longrightarrow> distinct (items ix' m')"
  using items_ins by (simp add: distinct_place)

lemma set_del:
  "wf ix \<Longrightarrow> i < size_of ix \<Longrightarrow> del ix m i = (ix', m') \<Longrightarrow> distinct (items ix m) \<Longrightarrow>
   set (items ix' m') = set (items ix m) - {items ix m ! unat i} \<and> distinct (items ix' m')"
  using items_del [of ix i m ix' m'] size_items [of ix m]
  by (simp add: set_drop_nth distinct_drop_nth word_less_unat)

end

subsection \<open>OrderedList fulfils the contract\<close>

definition handle :: "OrderedList \<Rightarrow> array_handle" where
  "handle ol = (m_elements ol, unat (m_maxSize ol))"

definition ol_wf :: "OrderedList \<Rightarrow> bool" where
  "ol_wf ol \<longleftrightarrow> arr_wf (handle ol) \<and> m_size ol \<le> m_maxSize ol"

definition ol_room :: "OrderedList \<Rightarrow> bool" where
  "ol_room ol \<longleftrightarrow> m_size ol < m_maxSize ol"

definition ol_items :: "OrderedList \<Rightarrow> memory \<Rightarrow> u32 list" where
  "ol_items ol m = map (\<lambda>k. GetItemAtIndex ol m (of_nat k)) [0..<unat (m_size ol)]"

definition ol_lo :: "OrderedList \<Rightarrow> nat" where
  "ol_lo ol = unat (m_elements ol)"

definition ol_hi :: "OrderedList \<Rightarrow> nat" where
  "ol_hi ol = unat (m_elements ol) + 4 * unat (m_maxSize ol)"

lemmas ol_defs = handle_def ol_wf_def ol_room_def ol_lo_def ol_hi_def

lemma GetItem_arr: "GetItemAtIndex ol m i = arr_get (handle ol) m (unat i)"
  by (simp add: GetItemAtIndex_def arr_get_def handle_def)

lemma set_element_arr: "set_element ol m i v = arr_put (handle ol) m (unat i) v"
  by (simp add: set_element_def arr_put_def handle_def)

lemma ol_items_view: "ol_items ol m = w32.view (handle ol) m (unat (m_size ol))"
  unfolding ol_items_def w32.view_def
  by (rule map_cong) (simp_all add: GetItemAtIndex_def arr_get_def handle_def)

lemma Insert_shift_up:
  "it \<le> m_size ol \<Longrightarrow> Insert_shift ol it tmp m
     = w32.shift_up (handle ol) (unat (m_size ol) - unat it) (unat it) tmp m"
proof (induction "unat (m_size ol) - unat it" arbitrary: it tmp m)
  case 0
  then show ?case by (simp add: Insert_shift.simps word_less_unat)
next
  case (Suc c)
  then have lt: "it < m_size ol" by (simp add: word_less_unat)
  then have le: "it + 1 \<le> m_size ol" by (rule inc_le)
  have c: "c = unat (m_size ol) - unat (it + 1)"
    using Suc.hyps(2) unat_plus_one [OF lt] by simp
  show ?case
    using Suc.hyps(1) [OF c le] lt c Suc.hyps(2) [symmetric] unat_plus_one [OF lt]
    by (simp add: Insert_shift.simps [of ol it] Let_def GetItem_arr set_element_arr)
qed

lemma Remove_shift_down:
  "index \<le> m_size ol \<Longrightarrow> Remove_shift ol index m
     = w32.shift_down (handle ol) (unat (m_size ol) - unat index) (unat index) m"
proof (induction "unat (m_size ol) - unat index" arbitrary: index m)
  case 0
  then show ?case by (simp add: Remove_shift.simps word_less_unat)
next
  case (Suc c)
  then have lt: "index < m_size ol" by (simp add: word_less_unat)
  then have le: "index + 1 \<le> m_size ol" by (rule inc_le)
  have c: "c = unat (m_size ol) - unat (index + 1)"
    using Suc.hyps(2) unat_plus_one [OF lt] by simp
  show ?case
    using Suc.hyps(1) [OF c le] lt c Suc.hyps(2) [symmetric] unat_plus_one [OF lt]
    by (simp add: Remove_shift.simps [of ol index] GetItem_arr set_element_arr)
qed

lemma shift_up_frame:
  assumes "arr_wf h" and "unat x < unat (fst h) \<or> unat (fst h) + 4 * snd h \<le> unat x"
  shows "i + c < snd h \<Longrightarrow> w32.shift_up h c i v m x = m x"
  by (induction c arbitrary: i v m) (simp_all add: arr_put_frame assms)

lemma shift_down_frame:
  assumes "arr_wf h" and "unat x < unat (fst h) \<or> unat (fst h) + 4 * snd h \<le> unat x"
  shows "i + c \<le> snd h \<Longrightarrow> w32.shift_down h c i m x = m x"
  by (induction c arbitrary: i m) (simp_all add: arr_put_frame assms)

lemma place_at:
  assumes "k \<le> length xs" and "\<And>i. i < k \<Longrightarrow> lt (xs ! i) x" and "k < length xs \<Longrightarrow> \<not> lt (xs ! k) x"
  shows "place lt x xs = take k xs @ x # drop k xs"
proof -
  have "takeWhile (\<lambda>y. lt y x) xs = take k xs"
    using assms by (intro takeWhile_eq_take_P_nth) auto
  moreover from this assms(1) have "dropWhile (\<lambda>y. lt y x) xs = drop k xs"
    by (simp add: dropWhile_eq_drop)
  ultimately show ?thesis by (simp add: place_def)
qed

lemma Insert_memory:
  fixes ol :: OrderedList and m :: memory and x :: u32
  defines "k \<equiv> scan (\<lambda>i. \<not> m_lessThanPredicate ol m (GetItemAtIndex ol m i) x) (m_size ol) 0"
  shows "snd (Insert ol m x) = w32.shift_up (handle ol) (unat (m_size ol) - unat k) (unat k)
    (arr_get (handle ol) m (unat k)) (arr_put (handle ol) m (unat k) x)"
proof -
  have "k \<le> m_size ol" unfolding k_def by (rule scan_le) simp
  moreover have "snd (Insert ol m x) = (if k = m_size ol then set_element ol m (m_size ol) x
      else Insert_shift ol k (GetItemAtIndex ol m k) (set_element ol m k x))"
    by (simp add: Insert_def Let_def k_def)
  ultimately show ?thesis
    by (simp add: Insert_shift_up GetItem_arr set_element_arr)
qed

lemma Insert_items:
  assumes "ol_wf ol" and "ol_room ol"
  shows "ol_items (fst (Insert ol m x)) (snd (Insert ol m x))
    = place (m_lessThanPredicate ol m) x (ol_items ol m)"
proof -
  let ?p = "\<lambda>i. \<not> m_lessThanPredicate ol m (GetItemAtIndex ol m i) x"
  define k where "k = scan ?p (m_size ol) 0"
  define n where "n = unat (m_size ol)"
  define xs where "xs = ol_items ol m"
  have len: "length xs = n" by (simp add: xs_def n_def ol_items_view)
  have kn: "unat k \<le> n" using scan_le [of 0 "m_size ol" ?p] by (simp add: k_def n_def word_le_unat)
  have wf: "arr_wf (handle ol)" and room: "n < snd (handle ol)"
    using assms by (simp_all add: ol_defs n_def word_less_unat)
  have nth: "xs ! j = arr_get (handle ol) m j" if "j < n" for j
    using that by (simp add: xs_def ol_items_view n_def)
  have fst: "unat (m_size (fst (Insert ol m x))) = Suc n" "handle (fst (Insert ol m x)) = handle ol"
    using assms unat_plus_one [of "m_size ol"]
    by (auto simp: Insert_def Let_def handle_def n_def ol_room_def)
  have before: "m_lessThanPredicate ol m (xs ! i) x" if "i < unat k" for i
  proof -
    have i: "unat (of_nat i :: u32) = i"
      using that unat_le_max32 [of k] by (intro unat_of_nat32) linarith
    then have "\<not> ?p (of_nat i)"
      using scan_before [of 0 "m_size ol" "of_nat i" ?p] that
      unfolding k_def [symmetric] by (simp add: word_less_unat)
    with i that kn nth show ?thesis by (simp add: GetItem_arr)
  qed
  have hit: "\<not> m_lessThanPredicate ol m (xs ! unat k) x" if "unat k < n"
  proof -
    have "?p k" using scan_hit [of 0 "m_size ol" ?p] that
      unfolding k_def [symmetric] by (simp add: word_less_unat n_def)
    with that nth show ?thesis by (simp add: GetItem_arr)
  qed
  have "ol_items (fst (Insert ol m x)) (snd (Insert ol m x))
      = take (unat k) xs @ x # drop (unat k) xs"
  proof (rule nth_equalityI)
    fix j assume "j < length (ol_items (fst (Insert ol m x)) (snd (Insert ol m x)))"
    then have j: "j \<le> n" by (simp add: ol_items_view fst)
    have "ol_items (fst (Insert ol m x)) (snd (Insert ol m x)) ! j
        = arr_get (handle ol) (snd (Insert ol m x)) j"
      using j by (simp add: ol_items_view fst)
    also have "\<dots> = (if j \<le> unat k then arr_get (handle ol) (arr_put (handle ol) m (unat k) x) j
        else if j = Suc (unat k) then arr_get (handle ol) m (unat k)
        else arr_get (handle ol) (arr_put (handle ol) m (unat k) x) (j - 1))"
      using w32.get_shift_up [OF wf, of "unat k" "n - unat k" j] kn room j
      by (simp add: Insert_memory k_def [symmetric] n_def [symmetric])
    also have "\<dots> = (take (unat k) xs @ x # drop (unat k) xs) ! j"
      using wf room kn j len nth w32.get_put_same w32.get_put_other
      by (auto simp: nth_append nth_Cons' min_def)
    finally show "ol_items (fst (Insert ol m x)) (snd (Insert ol m x)) ! j
        = (take (unat k) xs @ x # drop (unat k) xs) ! j" .
  qed (simp add: ol_items_view fst len kn)
  then show ?thesis
    using place_at [of "unat k" xs] kn len before hit by (simp add: xs_def)
qed

lemma Insert_frame:
  assumes "ol_wf ol" and "ol_room ol"
  shows "same_outside (ol_lo ol) (ol_hi ol) m (snd (Insert ol m x))"
  unfolding same_outside_def
proof (intro allI impI)
  fix y :: u32 assume y: "unat y < ol_lo ol \<or> ol_hi ol \<le> unat y"
  let ?k = "scan (\<lambda>i. \<not> m_lessThanPredicate ol m (GetItemAtIndex ol m i) x) (m_size ol) 0"
  have "unat ?k \<le> unat (m_size ol)"
    using scan_le [of 0 "m_size ol"] by (simp add: word_le_unat)
  with assms y show "snd (Insert ol m x) y = m y"
    unfolding Insert_memory
    by (subst shift_up_frame) (auto simp: ol_defs word_less_unat arr_put_frame)
qed

lemma Remove_items:
  assumes "ol_wf ol" and "i < m_size ol"
  shows "ol_items (fst (Remove ol m i)) (snd (Remove ol m i)) = drop_nth (unat i) (ol_items ol m)"
proof -
  define n where "n = unat (m_size ol)"
  have wf: "arr_wf (handle ol)" and cap: "n \<le> snd (handle ol)" and i: "unat i < n"
    using assms by (simp_all add: ol_wf_def handle_def n_def word_le_unat word_less_unat)
  have fst: "unat (m_size (fst (Remove ol m i))) = n - 1" "handle (fst (Remove ol m i)) = handle ol"
    using i by (simp_all add: Remove_def handle_def n_def unat_sub_no_wrap)
  show ?thesis
  proof (rule nth_equalityI)
    fix j assume "j < length (ol_items (fst (Remove ol m i)) (snd (Remove ol m i)))"
    then have j: "Suc j < n" using fst by (simp add: ol_items_view)
    have "ol_items (fst (Remove ol m i)) (snd (Remove ol m i)) ! j
        = arr_get (handle ol) (w32.shift_down (handle ol) (n - unat i) (unat i) m) j"
      using j assms(2) by (simp add: ol_items_view fst) (simp add: Remove_def Remove_shift_down n_def)
    also have "\<dots> = (if j < unat i then arr_get (handle ol) m j else arr_get (handle ol) m (Suc j))"
      using w32.get_shift_down [OF wf, of "unat i" "n - unat i" j] i j cap by simp
    also have "\<dots> = drop_nth (unat i) (ol_items ol m) ! j"
      using i j by (auto simp: drop_nth_def ol_items_view nth_append n_def [symmetric] min_def)
    finally show "ol_items (fst (Remove ol m i)) (snd (Remove ol m i)) ! j
        = drop_nth (unat i) (ol_items ol m) ! j" .
  qed (use i in \<open>simp add: ol_items_view fst length_drop_nth n_def\<close>)
qed

lemma Remove_frame:
  assumes "ol_wf ol" and "i < m_size ol"
  shows "same_outside (ol_lo ol) (ol_hi ol) m (snd (Remove ol m i))"
  unfolding same_outside_def
proof (intro allI impI)
  fix y :: u32 assume "unat y < ol_lo ol \<or> ol_hi ol \<le> unat y"
  with assms show "snd (Remove ol m i) y = m y"
    by (simp add: Remove_def Remove_shift_down shift_down_frame ol_defs word_le_unat word_less_unat)
qed

lemma ol_items_frame:
  assumes "ol_wf ol" and "same_outside a b m m'" and "ol_hi ol \<le> a \<or> b \<le> ol_lo ol"
  shows "ol_items ol m' = ol_items ol m"
  unfolding ol_items_view
proof (rule nth_equalityI)
  fix j assume "j < length (w32.view (handle ol) m' (unat (m_size ol)))"
  then have j: "j < unat (m_maxSize ol)" "j < unat (m_size ol)"
    using assms(1) by (simp_all add: ol_wf_def word_le_unat)
  have "unat (m_elements ol + 4 * of_nat j) = unat (m_elements ol) + 4 * j"
    using assms(1) j by (intro unat_cell) (simp_all add: ol_wf_def arr_wf_def handle_def)
  then have "arr_get (handle ol) m' j = arr_get (handle ol) m j"
    using assms j unfolding arr_get_def
    by (intro same_outside_load32 [OF assms(2)]) (auto simp: ol_defs arr_wf_def)
  with j show "w32.view (handle ol) m' (unat (m_size ol)) ! j
      = w32.view (handle ol) m (unat (m_size ol)) ! j" by simp
qed simp

interpretation ol: ordered_index ol_items Size GetItemAtIndex Insert Remove
    m_lessThanPredicate ol_wf ol_room ol_lo ol_hi
proof
  fix ix :: OrderedList and m m' :: memory and x i :: u32 and ix' :: OrderedList and a b :: nat
  show "unat (Size ix) = length (ol_items ix m)"
    by (simp add: Size_def ol_items_def)
  show "GetItemAtIndex ix m i = ol_items ix m ! unat i" if "i < Size ix"
    using that by (simp add: Size_def ol_items_def word_less_unat)
  show "ol_items ix' m' = place (m_lessThanPredicate ix m) x (ol_items ix m) \<and> ol_wf ix'
      \<and> same_outside (ol_lo ix) (ol_hi ix) m m'"
    if "ol_wf ix" "ol_room ix" "Insert ix m x = (ix', m')"
    using that Insert_items [of ix m x] Insert_frame [of ix m x] inc_le [of "m_size ix" "m_maxSize ix"]
    by (auto simp: Insert_def Let_def ol_defs split: if_splits)
  show "ol_items ix' m' = drop_nth (unat i) (ol_items ix m) \<and> ol_wf ix' \<and> ol_room ix'
      \<and> same_outside (ol_lo ix) (ol_hi ix) m m'"
    if "ol_wf ix" "i < Size ix" "Remove ix m i = (ix', m')"
    using that Remove_items [of ix i m] Remove_frame [of ix i m]
    by (auto simp: Remove_def ol_defs Size_def word_less_unat word_le_unat unat_sub_no_wrap)
  show "m_lessThanPredicate ix' = m_lessThanPredicate ix \<and> ol_lo ix' = ol_lo ix \<and> ol_hi ix' = ol_hi ix"
    if "Insert ix m x = (ix', m')"
    using that by (auto simp: Insert_def Let_def ol_defs split: if_splits)
  show "m_lessThanPredicate ix' = m_lessThanPredicate ix \<and> ol_lo ix' = ol_lo ix \<and> ol_hi ix' = ol_hi ix"
    if "Remove ix m i = (ix', m')"
    using that by (auto simp: Remove_def ol_defs)
  show "ol_items ix m' = ol_items ix m"
    if "ol_wf ix" "same_outside a b m m'" "ol_hi ix \<le> a \<or> b \<le> ol_lo ix"
    using that by (rule ol_items_frame)
qed

subsection \<open>What the class guarantees\<close>

text \<open>
  C22: Insert on an index that has room puts the item in front of the first element that is not less
  than it. An index sorted by a key the predicate compares stays sorted, gains exactly the new item,
  and nothing outside the element array is written.
\<close>

theorem Insert_keeps_order:
  fixes key :: "memory \<Rightarrow> u32 \<Rightarrow> 'k :: linorder"
  assumes wf: "ol_wf ol" and room: "ol_room ol"
    and pred: "\<And>m a b. m_lessThanPredicate ol m a b \<longleftrightarrow> key m a < key m b"
    and ins: "Insert ol m item = (ol', m')"
  shows "ol_wf ol' \<and> ol_items ol' m' = place (m_lessThanPredicate ol m) item (ol_items ol m)
    \<and> mset (ol_items ol' m') = add_mset item (mset (ol_items ol m))
    \<and> (sorted (map (key m) (ol_items ol m)) \<longrightarrow> sorted (map (key m) (ol_items ol' m')))
    \<and> same_outside (ol_lo ol) (ol_hi ol) m m'"
proof -
  have lt: "m_lessThanPredicate ol m = (\<lambda>y z. key m y < key m z)" using pred by (intro ext) simp
  from ol.items_ins [OF wf room ins] show ?thesis
    unfolding lt by (simp add: sorted_place mset_place)
qed

definition demo_list :: OrderedList where
  "demo_list = \<lparr>m_elements = 0x1000, m_size = 1, m_maxSize = 4, m_lessThanPredicate = (\<lambda>m a b. a < b)\<rparr>"

lemma demo_list_wf: "ol_wf demo_list \<and> ol_room demo_list"
  by (simp add: demo_list_def ol_wf_def ol_room_def arr_wf_def handle_def)

theorem Insert_keeps_order_witness:
  "\<exists>ol' m'. Insert demo_list (\<lambda>_. 0) 7 = (ol', m') \<and> ol_wf ol'
     \<and> mset (ol_items ol' m') = {#7, 0#} \<and> sorted (ol_items ol' m')"
proof -
  obtain ol' m' where ins: "Insert demo_list (\<lambda>_. 0) 7 = (ol', m')" by fastforce
  have items: "ol_items demo_list (\<lambda>_. 0) = [0]"
    by (simp add: demo_list_def ol_items_def GetItemAtIndex_def load32_def)
  show ?thesis
    using Insert_keeps_order [where key = "\<lambda>m x. x", OF demo_list_wf [THEN conjunct1]
        demo_list_wf [THEN conjunct2] _ ins] ins items
    by (simp add: demo_list_def place_def)
qed

text \<open>
  Remove at a position of the index drops exactly the element at that position, keeps the order
  of the others, and writes nothing outside the element array.
\<close>

lemma Remove_drops_one:
  assumes wf: "ol_wf ol" and i: "index < Size ol" and del: "Remove ol m index = (ol', m')"
  shows "ol_wf ol' \<and> ol_items ol' m' = drop_nth (unat index) (ol_items ol m)
    \<and> Size ol' = Size ol - 1
    \<and> (sorted (map key (ol_items ol m)) \<longrightarrow> sorted (map key (ol_items ol' m')))
    \<and> same_outside (ol_lo ol) (ol_hi ol) m m'"
  using ol.items_del [OF wf i del] del sorted_drop_nth [of key "ol_items ol m" "unat index"]
  by (auto simp: Size_def Remove_def)

text \<open>
  Remove does not test its argument: for a position that is not in a non-empty index it leaves
  the memory alone and shortens the index, so the last element is lost.
\<close>

lemma Remove_missing_loses_last:
  assumes "Size ol \<le> index" and "Size ol \<noteq> 0"
  shows "snd (Remove ol m index) = m
    \<and> ol_items (fst (Remove ol m index)) (snd (Remove ol m index)) = butlast (ol_items ol m)"
proof -
  have n: "unat (m_size ol - 1) = unat (m_size ol) - 1"
    using assms(2) by (intro trans [OF unat_sub_no_wrap]) (auto simp: Size_def unat_gt_0 Suc_le_eq)
  have "butlast (ol_items ol m) = map (\<lambda>k. GetItemAtIndex ol m (of_nat k)) (butlast [0..<unat (m_size ol)])"
    by (simp add: ol_items_def map_butlast)
  also have "butlast [0..<unat (m_size ol)] = [0..<unat (m_size ol) - 1]"
    by (cases "unat (m_size ol)") simp_all
  finally show ?thesis
    using assms n
    by (simp add: Remove_def Remove_shift.simps Size_def ol_items_def GetItemAtIndex_def not_less [symmetric])
qed

end
