(* ===== verification/Kernel_Heap.thy ===== *)
theory Kernel_Heap
  imports Ordered_List
begin

text \<open>
  \<^verbatim>\<open>kernel/Heap.h\<close> and the parts of \<^verbatim>\<open>kernel/Heap.cpp\<close> that only touch the heap object and the
  linear memory: the constructor, the search for a hole, carving a block out of a hole, and the
  merging of a freed block with its neighbours. Growing and shrinking the heap need the page
  tables and are in theory Memory_Manager.

  The well-formedness of a heap is that its range is tiled by blocks, each with a header and a
  footer in memory, and that the index holds exactly the addresses of the holes.
\<close>

definition HEAP_INDEX_SIZE :: u32 where "HEAP_INDEX_SIZE = 0x20000"
definition HEAP_MAGIC :: u32 where "HEAP_MAGIC = 0x12345678"
definition HEAP_MIN_SIZE :: u32 where "HEAP_MIN_SIZE = 0x70000"
definition KHEAP_START :: u32 where "KHEAP_START = 0xC0000000"
definition KHEAP_INITIAL_SIZE :: u32 where "KHEAP_INITIAL_SIZE = 0x100000"

subsection \<open>Headers and footers in memory\<close>

text \<open>
  The layout of struct Header on i386: magic at offset 0, the byte is_hole at 4, size at 8, in all
  12 bytes; of struct Footer: magic at 0, the header pointer at 4, in all 8 bytes.
\<close>

definition sizeof_Header :: u32 where "sizeof_Header = 12"
definition sizeof_Footer :: u32 where "sizeof_Footer = 8"

lemmas heap_sizes = sizeof_Header_def sizeof_Footer_def

definition header_magic :: "memory \<Rightarrow> u32 \<Rightarrow> u32" where
  "header_magic m p = load32 m p"

definition header_is_hole :: "memory \<Rightarrow> u32 \<Rightarrow> u8" where
  "header_is_hole m p = m (p + 4)"

definition header_size :: "memory \<Rightarrow> u32 \<Rightarrow> u32" where
  "header_size m p = load32 m (p + 8)"

definition set_is_hole :: "memory \<Rightarrow> u32 \<Rightarrow> bool \<Rightarrow> memory" where
  "set_is_hole m p hole = m(p + 4 := of_bool hole)"

definition set_size :: "memory \<Rightarrow> u32 \<Rightarrow> u32 \<Rightarrow> memory" where
  "set_size m p n = store32 m (p + 8) n"

definition set_header :: "memory \<Rightarrow> u32 \<Rightarrow> bool \<Rightarrow> u32 \<Rightarrow> memory" where
  "set_header m p hole n = set_size (set_is_hole (store32 m p HEAP_MAGIC) p hole) p n"

definition footer_magic :: "memory \<Rightarrow> u32 \<Rightarrow> u32" where
  "footer_magic m f = load32 m f"

definition footer_header :: "memory \<Rightarrow> u32 \<Rightarrow> u32" where
  "footer_header m f = load32 m (f + 4)"

definition set_footer_header :: "memory \<Rightarrow> u32 \<Rightarrow> u32 \<Rightarrow> memory" where
  "set_footer_header m f p = store32 m (f + 4) p"

definition set_footer :: "memory \<Rightarrow> u32 \<Rightarrow> u32 \<Rightarrow> memory" where
  "set_footer m f p = set_footer_header (store32 m f HEAP_MAGIC) f p"

definition HeaderLessThan :: "memory \<Rightarrow> u32 \<Rightarrow> u32 \<Rightarrow> bool" where
  "HeaderLessThan m a b \<longleftrightarrow> header_size m a < header_size m b"

subsection \<open>The heap object\<close>

record Heap =
  m_index :: OrderedList
  m_startAddress :: u32
  m_endAddress :: u32
  m_maxAddress :: u32
  m_supervisor :: bool
  m_readonly :: bool

text \<open>A comparison used as an operand of \<^verbatim>\<open>&\<close> is the integer 0 or 1.\<close>

definition int_of_bool :: "bool \<Rightarrow> u32" where
  "int_of_bool b = (if b then 1 else 0)"

text \<open>
  The constructor. \<open>junk\<close> is the storage the object is built in: the constructor assigns the
  parameters m_supervisor and m_readonly, which shadow the members, to themselves, assigns
  \<open>max_addr\<close> to m_startAddress and never assigns m_maxAddress, so those members keep what the storage
  held. The alignment test is parsed as \<^verbatim>\<open>start & (0xFFFFF000 != 0)\<close>.
\<close>

definition Heap_init ::
    "Heap \<Rightarrow> u32 \<Rightarrow> u32 \<Rightarrow> u32 \<Rightarrow> bool \<Rightarrow> bool \<Rightarrow> memory \<Rightarrow> Heap \<times> memory" where
  "Heap_init junk start end_addr max_addr supervisor readonly m =
     (let (ix, m) = OrderedList_at start HEAP_INDEX_SIZE HeaderLessThan m;
          start = start + 4 * HEAP_INDEX_SIZE;
          start = (if start AND int_of_bool ((0xFFFFF000 :: u32) \<noteq> 0) \<noteq> 0
                   then (start AND 0xFFFFF000) + 0x1000 else start);
          h = junk\<lparr>m_index := ix, m_startAddress := start, m_endAddress := end_addr\<rparr>;
          h = h\<lparr>m_startAddress := max_addr\<rparr>;
          m = set_header m start True (end_addr - start);
          (ix, m) = Insert ix m start
      in (h\<lparr>m_index := ix\<rparr>, m))"

text \<open>
  FindSmallestHole: the first index position whose hole is large enough, or \<open>-1\<close>. The alignment
  test is again parsed as a test of the lowest bit.
\<close>

definition hole_fits :: "memory \<Rightarrow> u32 \<Rightarrow> bool \<Rightarrow> u32 \<Rightarrow> bool" where
  "hole_fits m n pageAlign header =
     (if pageAlign then
        let location = header;
            offset = (if (location + sizeof_Header) AND int_of_bool ((0xFFFFF000 :: u32) \<noteq> 0) \<noteq> 0
                      then 0x1000 - (location + sizeof_Header) mod 0x1000 else 0);
            hole_size = header_size m header - offset
        in hole_size \<ge> n
      else header_size m header \<ge> n)"

definition FindSmallestHole :: "Heap \<Rightarrow> memory \<Rightarrow> u32 \<Rightarrow> bool \<Rightarrow> u32" where
  "FindSmallestHole h m n pageAlign =
     (let iterator = scan (\<lambda>i. hole_fits m n pageAlign (GetItemAtIndex (m_index h) m i))
                       (Size (m_index h)) 0
      in if iterator = Size (m_index h) then -1 else iterator)"

text \<open>
  The second half of Alloc, from the moment a hole was found at position \<open>iterator\<close> of the
  index: returns the address handed out, the heap object and the memory.
\<close>

definition alloc_in_hole :: "Heap \<Rightarrow> memory \<Rightarrow> u32 \<Rightarrow> u32 \<Rightarrow> bool \<Rightarrow> u32 \<times> Heap \<times> memory" where
  "alloc_in_hole h m iterator n page_align =
     (let new_size = n + sizeof_Header + sizeof_Footer;
          orig_hole_pos = GetItemAtIndex (m_index h) m iterator;
          orig_hole_size = header_size m orig_hole_pos;
          (n, new_size) =
            (if orig_hole_size - new_size < sizeof_Header + sizeof_Footer
             then (n + (orig_hole_size - new_size), orig_hole_size) else (n, new_size));
          (orig_hole_pos, orig_hole_size, ix, m) =
            (if page_align \<and> orig_hole_pos AND 0xFFFFF000 \<noteq> 0
             then let new_location = orig_hole_pos + 0x1000 - (orig_hole_pos AND 0xFFF) - sizeof_Header;
                      m = set_header m orig_hole_pos True
                            (0x1000 - (orig_hole_pos AND 0xFFF) - sizeof_Header);
                      m = set_footer m (new_location - sizeof_Footer) orig_hole_pos
                  in (new_location, orig_hole_size - header_size m orig_hole_pos, m_index h, m)
             else let (ix, m) = Remove (m_index h) m iterator
                  in (orig_hole_pos, orig_hole_size, ix, m));
          m = set_header m orig_hole_pos False new_size;
          m = set_footer m (orig_hole_pos + sizeof_Header + n) orig_hole_pos;
          (ix, m) =
            (if orig_hole_size - new_size > 0
             then let hole_header = orig_hole_pos + sizeof_Header + n + sizeof_Footer;
                      m = set_header m hole_header True (orig_hole_size - new_size);
                      hole_footer = hole_header + orig_hole_size - new_size - sizeof_Footer;
                      m = (if hole_footer < m_endAddress h
                           then set_footer m hole_footer hole_header else m)
                  in Insert ix m hole_header
             else (ix, m))
      in (orig_hole_pos + sizeof_Header, h\<lparr>m_index := ix\<rparr>, m))"

text \<open>
  The first half of Free, up to the test whether the heap can contract: the freed block is marked
  as a hole and merged with a hole to its left and to its right.
\<close>

definition free_merge ::
    "Heap \<Rightarrow> memory \<Rightarrow> u32 \<Rightarrow> u32 \<times> u32 \<times> u32 \<times> bool \<times> Heap \<times> memory" where
  "free_merge h m p =
     (let header = p - sizeof_Header;
          footer = header + header_size m header - sizeof_Footer;
          m = set_is_hole m header True;
          test_footer = header - sizeof_Footer;
          (header, m, do_add) =
            (if footer_magic m test_footer = HEAP_MAGIC
                \<and> header_is_hole m (footer_header m test_footer) = 1
             then let cache_size = header_size m header;
                      header = footer_header m test_footer;
                      m = set_footer_header m footer header;
                      m = set_size m header (header_size m header + cache_size)
                  in (header, m, False)
             else (header, m, True));
          test_header = footer + sizeof_Footer;
          (footer, ix, m) =
            (if header_magic m test_header = HEAP_MAGIC \<and> header_is_hole m test_header \<noteq> 0
             then let m = set_size m header (header_size m header + header_size m test_header);
                      footer = test_header + header_size m test_header - sizeof_Footer;
                      iterator = scan (\<lambda>i. GetItemAtIndex (m_index h) m i = test_header)
                                   (Size (m_index h)) 0;
                      (ix, m) = Remove (m_index h) m iterator
                  in (footer, ix, m)
             else (footer, m_index h, m))
      in (header, footer, test_header, do_add, h\<lparr>m_index := ix\<rparr>, m))"

subsection \<open>Reading back headers and footers\<close>

lemma header_set_header [simp]:
  "header_magic (set_header m p hole n) p = HEAP_MAGIC"
  "header_is_hole (set_header m p hole n) p = of_bool hole"
  "header_size (set_header m p hole n) p = n"
  by (simp_all add: header_magic_def header_is_hole_def header_size_def set_header_def set_size_def
      set_is_hole_def mem_simps)

lemma footer_set_footer [simp]:
  "footer_magic (set_footer m f p) f = HEAP_MAGIC"
  "footer_header (set_footer m f p) f = p"
  by (simp_all add: footer_magic_def footer_header_def set_footer_def set_footer_header_def mem_simps)

lemma header_set_is_hole [simp]:
  "header_magic (set_is_hole m p b) p = header_magic m p"
  "header_is_hole (set_is_hole m p b) p = of_bool b"
  "header_size (set_is_hole m p b) p = header_size m p"
  by (simp_all add: header_magic_def header_is_hole_def header_size_def set_is_hole_def mem_simps)

lemma header_set_size [simp]:
  "header_magic (set_size m p n) p = header_magic m p"
  "header_is_hole (set_size m p n) p = header_is_hole m p"
  "header_size (set_size m p n) p = n"
  by (simp_all add: header_magic_def header_is_hole_def header_size_def set_size_def mem_simps)

lemma footer_set_footer_header [simp]:
  "footer_magic (set_footer_header m f p) f = footer_magic m f"
  "footer_header (set_footer_header m f p) f = p"
  by (simp_all add: footer_magic_def footer_header_def set_footer_header_def mem_simps)

lemma unat_plus_numeral:
  "unat (p :: u32) + unat (numeral k :: u32) < 4294967296 \<Longrightarrow>
   unat (p + numeral k) = unat p + unat (numeral k :: u32)"
  by (rule unat_add_no_wrap)

lemma set_is_hole_frame:
  "unat p + 12 \<le> 4294967296 \<Longrightarrow> same_outside (unat p) (unat p + 12) m (set_is_hole m p b)"
  unfolding set_is_hole_def by (intro same_outside_intros) (auto simp: unat_plus_numeral)

lemma set_size_frame:
  "unat p + 12 \<le> 4294967296 \<Longrightarrow> same_outside (unat p) (unat p + 12) m (set_size m p n)"
  unfolding set_size_def by (intro same_outside_intros) (auto simp: unat_plus_numeral)

lemma set_header_frame:
  "unat p + 12 \<le> 4294967296 \<Longrightarrow> same_outside (unat p) (unat p + 12) m (set_header m p b n)"
  unfolding set_header_def set_is_hole_def set_size_def
  by (intro same_outside_intros) (auto simp: unat_plus_numeral)

lemma set_footer_frame:
  "unat f + 8 \<le> 4294967296 \<Longrightarrow> same_outside (unat f) (unat f + 8) m (set_footer m f p)"
  unfolding set_footer_def set_footer_header_def
  by (intro same_outside_intros) (auto simp: unat_plus_numeral)

lemma set_footer_header_frame:
  "unat f + 8 \<le> 4294967296 \<Longrightarrow> same_outside (unat f) (unat f + 8) m (set_footer_header m f p)"
  unfolding set_footer_header_def
  by (intro same_outside_intros) (auto simp: unat_plus_numeral)

lemma header_frame:
  assumes "same_outside lo hi m m'" and "unat p + 12 \<le> 4294967296"
    and "unat p + 12 \<le> lo \<or> hi \<le> unat p"
  shows "header_magic m' p = header_magic m p" and "header_is_hole m' p = header_is_hole m p"
    and "header_size m' p = header_size m p"
proof -
  show "header_magic m' p = header_magic m p" unfolding header_magic_def
    by (rule same_outside_load32 [OF assms(1)]) (use assms in auto)
  show "header_is_hole m' p = header_is_hole m p" unfolding header_is_hole_def
    by (rule same_outside_byte [OF assms(1)]) (use assms in \<open>auto simp: unat_plus_numeral\<close>)
  show "header_size m' p = header_size m p" unfolding header_size_def
    by (rule same_outside_load32 [OF assms(1)]) (use assms in \<open>auto simp: unat_plus_numeral\<close>)
qed

lemma footer_frame:
  assumes "same_outside lo hi m m'" and "unat f + 8 \<le> 4294967296"
    and "unat f + 8 \<le> lo \<or> hi \<le> unat f"
  shows "footer_magic m' f = footer_magic m f" and "footer_header m' f = footer_header m f"
proof -
  show "footer_magic m' f = footer_magic m f" unfolding footer_magic_def
    by (rule same_outside_load32 [OF assms(1)]) (use assms in auto)
  show "footer_header m' f = footer_header m f" unfolding footer_header_def
    by (rule same_outside_load32 [OF assms(1)]) (use assms in \<open>auto simp: unat_plus_numeral\<close>)
qed

subsection \<open>The heap as a tiling of blocks\<close>

type_synonym block = "nat \<times> bool"

definition header_ok :: "memory \<Rightarrow> nat \<Rightarrow> nat \<Rightarrow> bool \<Rightarrow> bool" where
  "header_ok m a n hole \<longleftrightarrow> header_magic m (of_nat a) = HEAP_MAGIC
     \<and> header_is_hole m (of_nat a) = of_bool hole \<and> header_size m (of_nat a) = of_nat n"

definition footer_ok :: "memory \<Rightarrow> nat \<Rightarrow> nat \<Rightarrow> bool" where
  "footer_ok m a n \<longleftrightarrow> footer_magic m (of_nat (a + n - 8)) = HEAP_MAGIC
     \<and> footer_header m (of_nat (a + n - 8)) = of_nat a"

text \<open>
  \<open>blocks m E a bs e\<close>: from \<open>a\<close> to \<open>e\<close> the memory is tiled by the blocks \<open>bs\<close>. The hole that
  ends at the end \<open>E\<close> of the heap need not have a footer: the constructor writes none.
\<close>

fun blocks :: "memory \<Rightarrow> nat \<Rightarrow> nat \<Rightarrow> block list \<Rightarrow> nat \<Rightarrow> bool" where
  "blocks m E a [] e \<longleftrightarrow> a = e"
| "blocks m E a ((n, hole) # bs) e \<longleftrightarrow> 20 \<le> n \<and> header_ok m a n hole
     \<and> (footer_ok m a n \<or> hole \<and> a + n = E) \<and> blocks m E (a + n) bs e"

fun holes :: "nat \<Rightarrow> block list \<Rightarrow> nat list" where
  "holes a [] = []"
| "holes a ((n, hole) # bs) = (if hole then a # holes (a + n) bs else holes (a + n) bs)"

definition extent :: "block list \<Rightarrow> nat" where
  "extent bs = sum_list (map fst bs)"

lemma extent_simps [simp]:
  "extent [] = 0" "extent ((n, hole) # bs) = n + extent bs" "extent (bs @ cs) = extent bs + extent cs"
  by (simp_all add: extent_def)

lemma blocks_end: "blocks m E a bs e \<Longrightarrow> e = a + extent bs"
proof (induction bs arbitrary: a)
  case (Cons b bs)
  obtain n hole where b: "b = (n, hole)" by fastforce
  with Cons.prems have "e = a + n + extent bs" by (intro Cons.IH) simp
  with b show ?case by simp
qed simp

lemma blocks_append:
  "blocks m E a (bs @ cs) e \<longleftrightarrow>
   blocks m E a bs (a + extent bs) \<and> blocks m E (a + extent bs) cs e"
  by (induction bs arbitrary: a) (auto simp: add.assoc)

lemma holes_append [simp]: "holes a (bs @ cs) = holes a bs @ holes (a + extent bs) cs"
  by (induction bs arbitrary: a) (auto simp: add.assoc)

lemma holes_bounds: "blocks m E a bs e \<Longrightarrow> x \<in> set (holes a bs) \<Longrightarrow> a \<le> x \<and> x + 20 \<le> e"
proof (induction bs arbitrary: a)
  case (Cons b bs)
  obtain n hole where b: "b = (n, hole)" by fastforce
  have "e = a + n + extent bs" using Cons.prems(1) b blocks_end by fastforce
  with Cons b show ?case by (auto split: if_splits dest: add_leD1)
qed simp

lemma distinct_holes: "blocks m E a bs e \<Longrightarrow> distinct (holes a bs)"
proof (induction bs arbitrary: a)
  case (Cons b bs)
  obtain n hole where b: "b = (n, hole)" by fastforce
  have "a \<notin> set (holes (a + n) bs)"
    using holes_bounds [of m E "a + n" bs e a] Cons.prems b by auto
  with Cons b show ?case by auto
qed simp

lemma holes_split:
  "x \<in> set (holes a bs) \<Longrightarrow> \<exists>bs1 n bs2. bs = bs1 @ (n, True) # bs2 \<and> x = a + extent bs1"
proof (induction bs arbitrary: a)
  case (Cons b bs)
  obtain n hole where b: "b = (n, hole)" by fastforce
  show ?case
  proof (cases "hole \<and> x = a")
    case True
    with b have "b # bs = [] @ (n, True) # bs \<and> x = a + extent []" by simp
    then show ?thesis by blast
  next
    case False
    with Cons.prems b have "x \<in> set (holes (a + n) bs)" by (auto split: if_splits)
    from Cons.IH [OF this] obtain bs1 k bs2
      where "bs = bs1 @ (k, True) # bs2" and "x = a + n + extent bs1" by blast
    with b have "b # bs = (b # bs1) @ (k, True) # bs2 \<and> x = a + extent (b # bs1)" by simp
    then show ?thesis by blast
  qed
qed simp

lemma header_ok_frame:
  assumes "same_outside lo hi m m'" and "a + 12 \<le> 4294967295" and "a + 12 \<le> lo \<or> hi \<le> a"
  shows "header_ok m' a n hole = header_ok m a n hole"
proof -
  have "unat (of_nat a :: u32) = a" using assms(2) by (intro unat_of_nat32) linarith
  then show ?thesis
    unfolding header_ok_def using header_frame [OF assms(1), of "of_nat a"] assms(2,3) by simp
qed

lemma footer_ok_frame:
  assumes "same_outside lo hi m m'" and "8 \<le> n" and "a + n \<le> 4294967295"
    and "a + n \<le> lo \<or> hi \<le> a + n - 8"
  shows "footer_ok m' a n = footer_ok m a n"
proof -
  define f where "f = (of_nat (a + n - 8) :: u32)"
  have "unat f = a + n - 8" unfolding f_def using assms(3) by (intro unat_of_nat32) linarith
  then show ?thesis
    unfolding footer_ok_def f_def [symmetric]
    using footer_frame [OF assms(1), of f] assms(2,3,4) by simp
qed

lemma blocks_frame:
  assumes "same_outside lo hi m m'" and "e \<le> 4294967295"
  shows "blocks m E a bs e \<Longrightarrow> e \<le> lo \<or> hi \<le> a \<Longrightarrow> blocks m' E a bs e"
proof (induction bs arbitrary: a)
  case (Cons b bs)
  obtain n hole where b: "b = (n, hole)" by fastforce
  have e: "e = a + n + extent bs" and n: "20 \<le> n"
    using Cons.prems(1) b blocks_end [of m E "a + n" bs e] by auto
  have "header_ok m' a n hole = header_ok m a n hole"
    using Cons.prems(2) e n assms(2) by (intro header_ok_frame [OF assms(1)]) auto
  moreover have "footer_ok m' a n = footer_ok m a n"
    using Cons.prems(2) e n assms(2) by (intro footer_ok_frame [OF assms(1)]) auto
  ultimately show ?case using Cons b by auto
qed simp

end
