(* ===== verification/Kernel_State.thy ===== *)
theory Kernel_State
  imports Kernel_Heap
begin

text \<open>
  The state of the kernel: the linear memory the code runs in, the physical memory that the
  copying of page frames works on, and one field per global variable of
  \<^verbatim>\<open>kmalloc.cpp\<close>, \<^verbatim>\<open>paging.cpp\<close> and \<^verbatim>\<open>Task.cpp\<close>, with the control registers and the interrupt
  flag the inline assembly works on.

  \<open>kheap\<close> is the object the global pointer of that name points to, \<open>None\<close> for the null pointer.
  \<open>indeterminate\<close> is the value an uninitialised local variable has.
\<close>

record kernel =
  ram :: memory
  phys :: memory
  placement_address :: u32
  kheap :: "Heap option"
  nframes :: u32
  frames :: u32
  kernel_directory :: u32
  current_directory :: u32
  cr0 :: u32
  cr3 :: u32
  interrupt_flag :: bool
  current_task :: u32
  ready_queue :: u32
  next_pid :: u32
  indeterminate :: u32

end
