(* ===== verification/Page_Frames.thy ===== *)
theory Page_Frames
  imports Kernel_State
begin

text \<open>
  The page frame bitmap of \<^verbatim>\<open>kernel/paging.cpp\<close> (for the copy in
  \<^verbatim>\<open>kernel/PageFrameAllocator.cpp\<close> see Frame_Allocator): marking, clearing and testing
  frames, the search for a free frame, and giving a frame to a page or taking it away.
\<close>

subsection \<open>The bitmap\<close>

definition INDEX_FROM_BIT :: "u32 \<Rightarrow> u32" where
  "INDEX_FROM_BIT a = a div (8 * 4)"

definition OFFSET_FROM_BIT :: "u32 \<Rightarrow> u32" where
  "OFFSET_FROM_BIT a = a mod (8 * 4)"

definition frame_word :: "kernel \<Rightarrow> u32 \<Rightarrow> u32" where
  "frame_word s idx = load32 (ram s) (frames s + 4 * idx)"

definition set_frame_word :: "kernel \<Rightarrow> u32 \<Rightarrow> u32 \<Rightarrow> kernel" where
  "set_frame_word s idx w = s\<lparr>ram := store32 (ram s) (frames s + 4 * idx) w\<rparr>"

definition set_frame :: "u32 \<Rightarrow> kernel \<Rightarrow> kernel" where
  "set_frame frame_addr s =
     (let frame = frame_addr div 0x1000; idx = INDEX_FROM_BIT frame; off = OFFSET_FROM_BIT frame
      in set_frame_word s idx (frame_word s idx OR push_bit (unat off) 1))"

definition clear_frame :: "u32 \<Rightarrow> kernel \<Rightarrow> kernel" where
  "clear_frame frame_addr s =
     (let frame = frame_addr div 0x1000; idx = INDEX_FROM_BIT frame; off = OFFSET_FROM_BIT frame
      in set_frame_word s idx (frame_word s idx AND NOT (push_bit (unat off) 1)))"

definition test_frame :: "u32 \<Rightarrow> kernel \<Rightarrow> u32" where
  "test_frame frame_addr s =
     (let frame = frame_addr div 0x1000; idx = INDEX_FROM_BIT frame; off = OFFSET_FROM_BIT frame
      in frame_word s idx AND push_bit (unat off) 1)"

text \<open>
  The two loops of first_frame. When no word of the bitmap has a clear bit, control flows off the
  end of the function, which has a return type: that is undefined behaviour, the fault
  \<^const>\<open>MissingReturn\<close>.
\<close>

function first_clear_bit :: "u32 \<Rightarrow> u32 \<Rightarrow> u32 option" where
  "first_clear_bit w j =
     (if j < 32 then
        let toTest = push_bit (unat j) 1
        in if w AND toTest = 0 then Some j else first_clear_bit w (j + 1)
      else None)"
  by pat_completeness auto
termination
  by (relation "measure (\<lambda>(w, j). unat (32 :: u32) - unat j)")
     (auto simp: unat_plus_one [of _ 32] dest: word_less_unat [THEN iffD1])

function first_frame_from :: "kernel \<Rightarrow> u32 \<Rightarrow> fault + u32" where
  "first_frame_from s i =
     (if i < INDEX_FROM_BIT (nframes s) then
        if frame_word s i \<noteq> 0xFFFFFFFF then
          (case first_clear_bit (frame_word s i) 0 of
             Some j \<Rightarrow> Inr (i * 4 * 8 + j)
           | None \<Rightarrow> first_frame_from s (i + 1))
        else first_frame_from s (i + 1)
      else Inl MissingReturn)"
  by pat_completeness auto
termination
  by (relation "measure (\<lambda>(s, i). unat (INDEX_FROM_BIT (nframes s)) - unat i)")
     (auto simp: unat_plus_one word_less_unat)

definition first_frame :: "kernel \<Rightarrow> fault + u32" where
  "first_frame s = first_frame_from s 0"

declare first_clear_bit.simps [simp del] first_frame_from.simps [simp del]

subsection \<open>Page table entries\<close>

text \<open>
  struct Page is a 32 bit word of bit fields, allocated from the least significant bit: Present,
  ReadWrite, User, Accessed, Dirty, seven unused bits and the 20 bits of Frame.
\<close>

datatype page_bit = Present | ReadWrite | User | Accessed | Dirty

primrec flag_bit :: "page_bit \<Rightarrow> nat" where
  "flag_bit Present = 0"
| "flag_bit ReadWrite = 1"
| "flag_bit User = 2"
| "flag_bit Accessed = 3"
| "flag_bit Dirty = 4"

definition page_flag :: "page_bit \<Rightarrow> u32 \<Rightarrow> bool" where
  "page_flag f w = bit w (flag_bit f)"

definition with_flag :: "page_bit \<Rightarrow> bool \<Rightarrow> u32 \<Rightarrow> u32" where
  "with_flag f b w = (if b then set_bit (flag_bit f) w else unset_bit (flag_bit f) w)"

definition page_Frame :: "u32 \<Rightarrow> u32" where
  "page_Frame w = drop_bit 12 w"

definition with_Frame :: "u32 \<Rightarrow> u32 \<Rightarrow> u32" where
  "with_Frame f w = take_bit 12 w OR push_bit 12 f"

definition update_page :: "(u32 \<Rightarrow> u32) \<Rightarrow> u32 \<Rightarrow> kernel \<Rightarrow> kernel" where
  "update_page g page s = s\<lparr>ram := store32 (ram s) page (g (load32 (ram s) page))\<rparr>"

definition alloc_frame :: "u32 \<Rightarrow> bool \<Rightarrow> bool \<Rightarrow> kernel \<Rightarrow> fault + kernel" where
  "alloc_frame page isKernel isWritable s =
     (if page_Frame (load32 (ram s) page) \<noteq> 0 then Inr s
      else rbind (first_frame s) (\<lambda>idx.
        if idx = -1 then Inl (Spin ''No free frames!'')
        else let s = set_frame (idx * 0x1000) s;
                 s = update_page (with_flag Present True) page s;
                 s = update_page (with_flag ReadWrite isWritable) page s;
                 s = update_page (with_flag User (\<not> isKernel)) page s;
                 s = update_page (with_Frame idx) page s
             in Inr s))"

definition free_frame :: "u32 \<Rightarrow> kernel \<Rightarrow> kernel" where
  "free_frame page s =
     (let frame = page_Frame (load32 (ram s) page)
      in if frame = 0 then s
         else update_page (with_Frame 0) page (clear_frame frame s))"

subsection \<open>The contract of a frame pool\<close>

text \<open>
  A pool of numbered frames: claiming marks one frame as used, releasing marks it as free,
  picking finds the lowest free frame or fails when all are used.
\<close>

locale frame_pool =
  fixes used :: "'s \<Rightarrow> nat \<Rightarrow> bool"
    and limit :: "'s \<Rightarrow> nat"
    and ok :: "'s \<Rightarrow> bool"
    and claim :: "nat \<Rightarrow> 's \<Rightarrow> 's"
    and release :: "nat \<Rightarrow> 's \<Rightarrow> 's"
    and pick :: "'s \<Rightarrow> fault + nat"
  assumes claim_ok: "ok s \<Longrightarrow> f < limit s \<Longrightarrow> ok (claim f s) \<and> limit (claim f s) = limit s"
    and used_claim: "ok s \<Longrightarrow> f < limit s \<Longrightarrow> g < limit s \<Longrightarrow> used (claim f s) g \<longleftrightarrow> g = f \<or> used s g"
    and release_ok: "ok s \<Longrightarrow> f < limit s \<Longrightarrow> ok (release f s) \<and> limit (release f s) = limit s"
    and used_release:
      "ok s \<Longrightarrow> f < limit s \<Longrightarrow> g < limit s \<Longrightarrow> used (release f s) g \<longleftrightarrow> g \<noteq> f \<and> used s g"
    and pick_free: "ok s \<Longrightarrow> pick s = Inr f \<Longrightarrow> f < limit s \<and> \<not> used s f \<and> (\<forall>g < f. used s g)"
    and pick_none: "ok s \<Longrightarrow> pick s = Inl e \<Longrightarrow> e = MissingReturn \<and> (\<forall>g < limit s. used s g)"
begin

definition free_set :: "'s \<Rightarrow> nat set" where
  "free_set s = {f. f < limit s \<and> \<not> used s f}"

lemma finite_free_set [simp]: "finite (free_set s)"
  by (simp add: free_set_def)

lemma free_set_claim: "ok s \<Longrightarrow> f < limit s \<Longrightarrow> free_set (claim f s) = free_set s - {f}"
  using claim_ok used_claim by (auto simp: free_set_def)

text \<open>Picking and claiming \<open>n\<close> times in a row.\<close>

primrec grab :: "nat \<Rightarrow> 's \<Rightarrow> fault + (nat list \<times> 's)" where
  "grab 0 s = Inr ([], s)"
| "grab (Suc n) s =
     rbind (pick s) (\<lambda>f. rbind (grab n (claim f s)) (\<lambda>(fs, s'). Inr (f # fs, s')))"

lemma pick_least:
  assumes "ok s" and "free_set s \<noteq> {}"
  shows "pick s = Inr (Min (free_set s))"
proof (cases "pick s")
  case (Inl e)
  with assms pick_none [OF assms(1)] show ?thesis by (auto simp: free_set_def)
next
  case (Inr f)
  from pick_free [OF assms(1) Inr] have "f \<in> free_set s" and "\<forall>g \<in> free_set s. f \<le> g"
    by (auto simp: free_set_def not_less [symmetric])
  then have "Min (free_set s) = f" by (intro Min_eqI) auto
  with Inr show ?thesis by simp
qed

lemma grab_spec:
  assumes "ok s" and "n \<le> card (free_set s)"
  shows "\<exists>fs s'. grab n s = Inr (fs, s') \<and> ok s' \<and> limit s' = limit s \<and> length fs = n
    \<and> distinct fs \<and> set fs \<subseteq> free_set s \<and> free_set s' = free_set s - set fs"
  using assms
proof (induction n arbitrary: s)
  case (Suc n)
  then have ne: "free_set s \<noteq> {}" by auto
  let ?f = "Min (free_set s)"
  have mem: "?f \<in> free_set s" using ne by (intro Min_in) simp_all
  then have lt: "?f < limit s" by (simp add: free_set_def)
  have eq: "free_set (claim ?f s) = free_set s - {?f}" using Suc.prems(1) lt by (rule free_set_claim)
  have "n \<le> card (free_set (claim ?f s))" using Suc.prems(2) mem eq by simp
  then obtain fs s' where "grab n (claim ?f s) = Inr (fs, s')" "ok s'" "limit s' = limit (claim ?f s)"
    "length fs = n" "distinct fs" "set fs \<subseteq> free_set s - {?f}" "free_set s' = free_set s - {?f} - set fs"
    using Suc.IH [of "claim ?f s"] claim_ok [OF Suc.prems(1) lt] eq by auto
  with mem claim_ok [OF Suc.prems(1) lt] show ?case
    by (auto simp: pick_least [OF Suc.prems(1) ne])
qed simp

end

subsection \<open>The bitmap is a frame pool\<close>

definition frame_limit :: "kernel \<Rightarrow> nat" where
  "frame_limit s = 32 * unat (INDEX_FROM_BIT (nframes s))"

definition frame_used :: "kernel \<Rightarrow> nat \<Rightarrow> bool" where
  "frame_used s f \<longleftrightarrow> bit (frame_word s (of_nat (f div 32))) (f mod 32)"

definition bitmap_ok :: "kernel \<Rightarrow> bool" where
  "bitmap_ok s \<longleftrightarrow> nframes s \<le> 0x100000
     \<and> arr_wf (frames s, unat (INDEX_FROM_BIT (nframes s)))"

lemma unat_nframes: "bitmap_ok s \<Longrightarrow> unat (nframes s) \<le> 1048576"
  by (simp add: bitmap_ok_def word_le_unat)

lemma unat_INDEX: "unat (INDEX_FROM_BIT a) = unat a div 32"
  by (simp add: INDEX_FROM_BIT_def unat_div)

lemma frame_limit_le: "bitmap_ok s \<Longrightarrow> frame_limit s \<le> 1048576"
  using unat_nframes [of s] by (simp add: frame_limit_def unat_INDEX)

lemma frame_of_addr:
  assumes "f < 1048576"
  shows "(of_nat f * 0x1000 :: u32) div 0x1000 = of_nat f"
proof -
  have "unat (of_nat f :: u32) = f" using assms by (intro unat_of_nat32) simp
  moreover from this have "unat (of_nat f * 0x1000 :: u32) = f * 4096"
    using assms by (simp add: unat_word_ariths)
  ultimately show ?thesis by (simp add: word_eq_unat unat_div)
qed

lemma INDEX_of_nat: "f < 4294967296 \<Longrightarrow> INDEX_FROM_BIT (of_nat f) = of_nat (f div 32)"
  by (simp add: word_eq_unat unat_INDEX unat_of_nat32)

lemma OFFSET_of_nat: "f < 4294967296 \<Longrightarrow> unat (OFFSET_FROM_BIT (of_nat f)) = f mod 32"
  by (simp add: OFFSET_FROM_BIT_def unat_mod unat_of_nat32)

lemma frame_word_arr: "frame_word s (of_nat k) = arr_get (frames s, n) (ram s) k"
  by (simp add: frame_word_def arr_get_def)

lemma frame_word_set:
  assumes "bitmap_ok s" and "k < unat (INDEX_FROM_BIT (nframes s))" and "j < unat (INDEX_FROM_BIT (nframes s))"
  shows "frame_word (set_frame_word s (of_nat k) w) (of_nat j) = (if j = k then w else frame_word s (of_nat j))"
proof -
  let ?h = "(frames s, unat (INDEX_FROM_BIT (nframes s)))"
  have "frame_word (set_frame_word s (of_nat k) w) (of_nat j) = arr_get ?h (arr_put ?h (ram s) k w) j"
    by (simp add: frame_word_def set_frame_word_def arr_get_def arr_put_def)
  then show ?thesis
    using assms w32.get_put_same [of ?h k] w32.get_put_other [of ?h k j]
    by (auto simp: bitmap_ok_def frame_word_arr [of s j "unat (INDEX_FROM_BIT (nframes s))"])
qed

lemma bitmap_ok_set_word [simp]:
  "bitmap_ok (set_frame_word s k w) = bitmap_ok s" "frame_limit (set_frame_word s k w) = frame_limit s"
  by (simp_all add: bitmap_ok_def frame_limit_def set_frame_word_def)

lemma frame_used_set_word:
  assumes "bitmap_ok s" and "f < frame_limit s" and "g < frame_limit s"
  shows "frame_used (set_frame_word s (of_nat (f div 32)) w) g =
    (if g div 32 = f div 32 then bit w (g mod 32) else frame_used s g)"
proof -
  have "f div 32 < unat (INDEX_FROM_BIT (nframes s))" "g div 32 < unat (INDEX_FROM_BIT (nframes s))"
    using assms(2,3) by (auto simp: frame_limit_def)
  then show ?thesis
    using frame_word_set [OF assms(1), of "f div 32" "g div 32" w] by (simp add: frame_used_def)
qed

lemma set_frame_at:
  "f < 1048576 \<Longrightarrow> set_frame (of_nat f * 0x1000) s =
     set_frame_word s (of_nat (f div 32)) (frame_word s (of_nat (f div 32)) OR push_bit (f mod 32) 1)"
  unfolding set_frame_def Let_def by (subst (1 2 3) frame_of_addr) (simp_all add: INDEX_of_nat OFFSET_of_nat)

lemma clear_frame_at:
  "f < 1048576 \<Longrightarrow> clear_frame (of_nat f * 0x1000) s =
     set_frame_word s (of_nat (f div 32)) (frame_word s (of_nat (f div 32)) AND NOT (push_bit (f mod 32) 1))"
  unfolding clear_frame_def Let_def by (subst (1 2 3) frame_of_addr) (simp_all add: INDEX_of_nat OFFSET_of_nat)

lemma same_frame: "g div 32 = f div 32 \<Longrightarrow> g mod 32 = f mod 32 \<Longrightarrow> g = (f :: nat)"
  by (metis div_mult_mod_eq)

lemma frame_used_set_frame:
  assumes "bitmap_ok s" and "f < frame_limit s" and "g < frame_limit s"
  shows "frame_used (set_frame (of_nat f * 0x1000) s) g \<longleftrightarrow> g = f \<or> frame_used s g"
proof -
  have f: "f < 1048576" using frame_limit_le [OF assms(1)] assms(2) by simp
  show ?thesis
    unfolding set_frame_at [OF f] frame_used_set_word [OF assms]
    by (auto simp: bit_simps frame_used_def intro: same_frame)
qed

lemma frame_used_clear_frame:
  assumes "bitmap_ok s" and "f < frame_limit s" and "g < frame_limit s"
  shows "frame_used (clear_frame (of_nat f * 0x1000) s) g \<longleftrightarrow> g \<noteq> f \<and> frame_used s g"
proof -
  have f: "f < 1048576" using frame_limit_le [OF assms(1)] assms(2) by simp
  show ?thesis
    unfolding clear_frame_at [OF f] frame_used_set_word [OF assms]
    by (auto simp: bit_simps frame_used_def dest: same_frame)
qed

subsection \<open>The search for a free frame\<close>

lemma first_clear_bit_spec:
  "j \<le> 32 \<Longrightarrow> (case first_clear_bit w j of
      Some k \<Rightarrow> unat k < 32 \<and> \<not> bit w (unat k) \<and> (\<forall>i. unat j \<le> i \<and> i < unat k \<longrightarrow> bit w i)
    | None \<Rightarrow> (\<forall>i. unat j \<le> i \<and> i < 32 \<longrightarrow> bit w i))"
proof (induction w j rule: first_clear_bit.induct)
  case (1 w j)
  show ?case
  proof (cases "j < 32 \<and> bit w (unat j)")
    case True
    then have cond: "w AND push_bit (unat j) 1 \<noteq> 0" by (simp add: bit_iff_and_push_bit_not_eq_0)
    have le: "j + 1 \<le> 32" using True by (blast intro: inc_le)
    have u: "unat (j + 1) = Suc (unat j)" using unat_plus_one [of j 32] True by simp
    have split: "unat j \<le> i \<longleftrightarrow> i = unat j \<or> Suc (unat j) \<le> i" for i by auto
    have eq: "first_clear_bit w j = first_clear_bit w (j + 1)"
      using True cond by (simp add: first_clear_bit.simps [of w j])
    show ?thesis
      using "1.IH" [OF _ refl cond le] True unfolding eq u by (auto simp: split split: option.splits)
  next
    case False
    then show ?thesis using "1.prems"
      by (auto simp: first_clear_bit.simps [of w j] bit_iff_and_push_bit_not_eq_0 word_less_unat word_le_unat)
  qed
qed

lemma all_bits_set: "(\<forall>i < 32. bit (w :: u32) i) \<longleftrightarrow> w = 0xFFFFFFFF"
proof
  assume "\<forall>i < 32. bit w i"
  then have "w = -1" by (intro bit_word_eqI) simp
  then show "w = 0xFFFFFFFF" by simp
next
  assume "w = 0xFFFFFFFF"
  then have "w = -1" by simp
  then show "\<forall>i < 32. bit w i" by simp
qed

lemma frames_of_word: "(\<forall>g. g div 32 = k \<longrightarrow> frame_used s g) \<longleftrightarrow> frame_word s (of_nat k) = 0xFFFFFFFF"
proof
  assume "\<forall>g. g div 32 = k \<longrightarrow> frame_used s g"
  then have "\<forall>i < 32. frame_used s (32 * k + i)" by simp
  then show "frame_word s (of_nat k) = 0xFFFFFFFF"
    by (simp add: frame_used_def flip: all_bits_set)
next
  assume "frame_word s (of_nat k) = 0xFFFFFFFF"
  then show "\<forall>g. g div 32 = k \<longrightarrow> frame_used s g"
    by (auto simp: frame_used_def simp flip: all_bits_set)
qed

lemma frames_below_Suc:
  assumes "\<forall>g < 32 * k. frame_used s g" and "frame_word s (of_nat k) = 0xFFFFFFFF"
  shows "\<forall>g < 32 * Suc k. frame_used s g"
proof (intro allI impI)
  fix g assume g: "g < 32 * Suc k"
  show "frame_used s g"
  proof (cases "g < 32 * k")
    case False
    with g have "g div 32 = k" by (auto simp: div_nat_eqI)
    with assms(2) show ?thesis by (simp flip: frames_of_word)
  qed (use assms(1) in simp)
qed

lemma first_frame_from_spec:
  assumes "bitmap_ok s"
  shows "i \<le> INDEX_FROM_BIT (nframes s) \<Longrightarrow> \<forall>g < 32 * unat i. frame_used s g \<Longrightarrow>
    (case first_frame_from s i of
       Inr r \<Rightarrow> unat r < frame_limit s \<and> \<not> frame_used s (unat r) \<and> (\<forall>g < unat r. frame_used s g)
     | Inl e \<Rightarrow> e = MissingReturn \<and> (\<forall>g < frame_limit s. frame_used s g))"
proof (induction "unat (INDEX_FROM_BIT (nframes s)) - unat i" arbitrary: i)
  case 0
  then have i: "i = INDEX_FROM_BIT (nframes s)" by (simp add: word_le_unat word_eq_unat)
  with "0.prems" show ?case
    by (simp add: first_frame_from.simps [of s "INDEX_FROM_BIT (nframes s)"] frame_limit_def)
next
  case (Suc c)
  then have lt: "i < INDEX_FROM_BIT (nframes s)" by (simp add: word_less_unat)
  have u: "unat (i + 1) = Suc (unat i)" by (rule unat_plus_one [OF lt])
  have ui: "unat i < 32768"
    using lt unat_nframes [OF assms] by (simp add: word_less_unat unat_INDEX)
  show ?case
  proof (cases "frame_word s i = 0xFFFFFFFF")
    case True
    have "\<forall>g < 32 * unat (i + 1). frame_used s g"
      unfolding u by (rule frames_below_Suc) (use Suc.prems True in simp_all)
    moreover have "i + 1 \<le> INDEX_FROM_BIT (nframes s)" using lt by (rule inc_le)
    moreover have "c = unat (INDEX_FROM_BIT (nframes s)) - unat (i + 1)" using Suc.hyps(2) u by simp
    ultimately show ?thesis
      using Suc.hyps(1) [of "i + 1"] lt True by (simp add: first_frame_from.simps [of s i])
  next
    case False
    then have "\<not> (\<forall>b < 32. bit (frame_word s i) b)" by (simp add: all_bits_set)
    then obtain k where k: "first_clear_bit (frame_word s i) 0 = Some k" "unat k < 32"
        "\<not> bit (frame_word s i) (unat k)" "\<forall>b < unat k. bit (frame_word s i) b"
      using first_clear_bit_spec [of 0 "frame_word s i"] by (auto split: option.splits)
    have r: "unat (i * 4 * 8 + k) = 32 * unat i + unat k"
      using ui k(2) by (simp add: unat_word_ariths)
    have "frame_used s g" if "g < 32 * unat i + unat k" for g
    proof (cases "g < 32 * unat i")
      case False
      then obtain d where g: "g = 32 * unat i + d" by (metis le_Suc_ex not_less)
      with that k(2) have "g div 32 = unat i" "g mod 32 < unat k" by simp_all
      with k(4) show ?thesis by (simp add: frame_used_def)
    qed (use Suc.prems in simp)
    moreover have "\<not> frame_used s (32 * unat i + unat k)"
      using k(2,3) by (simp add: frame_used_def)
    moreover have "32 * unat i + unat k < frame_limit s"
      using lt k(2) by (simp add: frame_limit_def word_less_unat)
    ultimately show ?thesis
      using lt False k(1) r by (simp add: first_frame_from.simps [of s i])
  qed
qed

lemma first_frame_spec:
  assumes "bitmap_ok s"
  shows "case first_frame s of
       Inr r \<Rightarrow> unat r < frame_limit s \<and> \<not> frame_used s (unat r) \<and> (\<forall>g < unat r. frame_used s g)
     | Inl e \<Rightarrow> e = MissingReturn \<and> (\<forall>g < frame_limit s. frame_used s g)"
  using first_frame_from_spec [OF assms, of 0] by (simp add: first_frame_def)

interpretation pool: frame_pool frame_used frame_limit bitmap_ok
    "\<lambda>f. set_frame (of_nat f * 0x1000)" "\<lambda>f. clear_frame (of_nat f * 0x1000)"
    "\<lambda>s. map_sum id unat (first_frame s)"
proof
  fix s f assume ok: "bitmap_ok s" and lt: "f < frame_limit s"
  have f: "f < 1048576" using frame_limit_le [OF ok] lt by simp
  show "bitmap_ok (set_frame (of_nat f * 0x1000) s)
      \<and> frame_limit (set_frame (of_nat f * 0x1000) s) = frame_limit s"
    using ok unfolding set_frame_at [OF f] by simp
  show "bitmap_ok (clear_frame (of_nat f * 0x1000) s)
      \<and> frame_limit (clear_frame (of_nat f * 0x1000) s) = frame_limit s"
    using ok unfolding clear_frame_at [OF f] by simp
  fix g assume "g < frame_limit s"
  with ok lt show "frame_used (set_frame (of_nat f * 0x1000) s) g = (g = f \<or> frame_used s g)"
    and "frame_used (clear_frame (of_nat f * 0x1000) s) g = (g \<noteq> f \<and> frame_used s g)"
    by (simp_all only: frame_used_set_frame frame_used_clear_frame)
next
  fix s f assume "bitmap_ok s" and "map_sum id unat (first_frame s) = Inr f"
  then show "f < frame_limit s \<and> \<not> frame_used s f \<and> (\<forall>g < f. frame_used s g)"
    using first_frame_spec [of s] by (cases "first_frame s") auto
next
  fix s e assume "bitmap_ok s" and "map_sum id unat (first_frame s) = Inl e"
  then show "e = MissingReturn \<and> (\<forall>g < frame_limit s. frame_used s g)"
    using first_frame_spec [of s] by (cases "first_frame s") auto
qed

subsection \<open>Page table entries\<close>

lemma page_flag_with_flag: "page_flag f (with_flag g b w) = (if f = g then b else page_flag f w)"
  by (cases f; cases g) (simp_all add: page_flag_def with_flag_def bit_simps)

lemma page_Frame_with_flag: "page_Frame (with_flag g b w) = page_Frame w"
proof (rule bit_word_eqI)
  fix n assume "n < LENGTH(32)"
  show "bit (page_Frame (with_flag g b w)) n = bit (page_Frame w) n"
    by (cases g) (auto simp: page_Frame_def with_flag_def bit_simps)
qed

lemma page_flag_with_Frame: "page_flag f (with_Frame x w) = page_flag f w"
  by (cases f) (simp_all add: page_flag_def with_Frame_def bit_simps)

lemma bit_above_20: "x < 0x100000 \<Longrightarrow> bit (x :: u32) n \<Longrightarrow> n < 20"
proof (rule ccontr)
  assume x: "x < 0x100000" and b: "bit x n" and "\<not> n < 20"
  have "take_bit 20 (unat x) = unat x"
    using x by (simp add: take_bit_nat_eq_self word_less_unat)
  then have "bit (take_bit 20 (unat x)) n" using b by (simp add: bit_unsigned_iff)
  with \<open>\<not> n < 20\<close> show False by (simp add: bit_take_bit_iff)
qed

lemma page_Frame_with_Frame: "x < 0x100000 \<Longrightarrow> page_Frame (with_Frame x w) = x"
proof (rule bit_word_eqI)
  fix n assume x: "x < 0x100000" and "n < LENGTH(32)"
  then show "bit (page_Frame (with_Frame x w)) n = bit x n"
    using bit_above_20 [OF x, of n] by (auto simp: page_Frame_def with_Frame_def bit_simps)
qed

lemmas page_simps = page_flag_with_flag page_Frame_with_flag page_flag_with_Frame page_Frame_with_Frame

subsection \<open>Giving a frame to a page\<close>

definition page_separate :: "kernel \<Rightarrow> u32 \<Rightarrow> bool" where
  "page_separate s page \<longleftrightarrow> unat page + 4 \<le> 4294967296
     \<and> (unat page + 4 \<le> unat (frames s)
        \<or> unat (frames s) + 4 * unat (INDEX_FROM_BIT (nframes s)) \<le> unat page)"

lemma word_apart_page:
  assumes "bitmap_ok s" and "page_separate s page" and "k < unat (INDEX_FROM_BIT (nframes s))"
  shows "apart (frames s + 4 * of_nat k) 4 page 4" and "apart page 4 (frames s + 4 * of_nat k) 4"
  using assms unat_cell [of "frames s" "unat (INDEX_FROM_BIT (nframes s))" k]
  by (auto simp: apart_def page_separate_def bitmap_ok_def arr_wf_def)

lemma page_set_frame_word:
  assumes "bitmap_ok s" and "page_separate s page" and "k < unat (INDEX_FROM_BIT (nframes s))"
  shows "load32 (ram (set_frame_word s (of_nat k) w)) page = load32 (ram s) page"
  using word_apart_page(1) [OF assms] by (simp add: set_frame_word_def load32_store32_apart)

lemma update_page_bitmap [simp]:
  "bitmap_ok (update_page g page s) = bitmap_ok s" "frame_limit (update_page g page s) = frame_limit s"
  "page_separate (update_page g page s) p = page_separate s p"
  "load32 (ram (update_page g page s)) page = g (load32 (ram s) page)"
  by (simp_all add: update_page_def bitmap_ok_def frame_limit_def page_separate_def)

lemma update_page_used:
  assumes "bitmap_ok s" and "page_separate s page" and "f < frame_limit s"
  shows "frame_used (update_page g page s) f = frame_used s f"
proof -
  have "f div 32 < unat (INDEX_FROM_BIT (nframes s))" using assms(3) by (auto simp: frame_limit_def)
  from word_apart_page(2) [OF assms(1,2) this] show ?thesis
    by (simp add: frame_used_def frame_word_def update_page_def load32_store32_apart)
qed

lemma set_frame_page:
  assumes "bitmap_ok s" and "page_separate s page" and "f < frame_limit s"
  shows "load32 (ram (set_frame (of_nat f * 0x1000) s)) page = load32 (ram s) page"
    and "page_separate (set_frame (of_nat f * 0x1000) s) page"
proof -
  have f: "f < 1048576" using frame_limit_le [OF assms(1)] assms(3) by simp
  have "f div 32 < unat (INDEX_FROM_BIT (nframes s))" using assms(3) by (auto simp: frame_limit_def)
  from page_set_frame_word [OF assms(1,2) this]
  show "load32 (ram (set_frame (of_nat f * 0x1000) s)) page = load32 (ram s) page"
    unfolding set_frame_at [OF f] .
  show "page_separate (set_frame (of_nat f * 0x1000) s) page"
    using assms(2) unfolding set_frame_at [OF f] by (simp add: page_separate_def set_frame_word_def)
qed

lemma set_frame_ram:
  assumes "bitmap_ok s" and "f < frame_limit s"
  shows "\<exists>m. set_frame (of_nat f * 0x1000) s = s\<lparr>ram := m\<rparr>
    \<and> same_outside (unat (frames s)) (unat (frames s) + 4 * unat (INDEX_FROM_BIT (nframes s))) (ram s) m"
proof -
  let ?h = "(frames s, unat (INDEX_FROM_BIT (nframes s)))"
  have f: "f < 1048576" using frame_limit_le [OF assms(1)] assms(2) by simp
  have k: "f div 32 < snd ?h" using assms(2) by (auto simp: frame_limit_def)
  have "set_frame (of_nat f * 0x1000) s = s\<lparr>ram := arr_put ?h (ram s) (f div 32)
      (frame_word s (of_nat (f div 32)) OR push_bit (f mod 32) 1)\<rparr>"
    unfolding set_frame_at [OF f] by (simp add: set_frame_word_def arr_put_def)
  moreover have "arr_wf ?h" using assms(1) by (simp add: bitmap_ok_def)
  ultimately show ?thesis using k by (auto simp: same_outside_def arr_put_frame)
qed

lemma update_page_within:
  assumes "page_separate s page" and "same_outside (unat page) (unat page + 4) m (ram s)"
  shows "same_outside (unat page) (unat page + 4) m (ram (update_page g page s))"
  using assms(1) unfolding update_page_def
  by (simp, intro same_outside_trans [OF assms(2)] same_outside_store32) (simp_all add: page_separate_def)

lemma alloc_frame_spec:
  assumes ok: "bitmap_ok s" and sep: "page_separate s page"
    and none: "page_Frame (load32 (ram s) page) = 0"
    and free: "f < frame_limit s" "\<not> frame_used s f" "\<forall>g < f. frame_used s g"
  shows "\<exists>s'. alloc_frame page isKernel isWritable s = Inr s'
    \<and> page_Frame (load32 (ram s') page) = of_nat f
    \<and> page_flag Present (load32 (ram s') page) \<and> page_flag ReadWrite (load32 (ram s') page) = isWritable
    \<and> page_flag User (load32 (ram s') page) = (\<not> isKernel)
    \<and> (\<forall>g < frame_limit s. frame_used s' g \<longleftrightarrow> g = f \<or> frame_used s g)
    \<and> bitmap_ok s' \<and> (\<exists>m1 m2. s' = s\<lparr>ram := m2\<rparr> \<and> same_outside (unat page) (unat page + 4) m1 m2
      \<and> same_outside (unat (frames s)) (unat (frames s) + 4 * unat (INDEX_FROM_BIT (nframes s))) (ram s) m1)"
proof -
  have f: "f < 1048576" using frame_limit_le [OF ok] free(1) by simp
  obtain idx where idx: "first_frame s = Inr idx" "unat idx = f"
    using first_frame_spec [OF ok] free by (cases "first_frame s") (auto, metis linorder_neqE_nat)
  have idx_f: "idx = of_nat f" by (simp flip: idx(2))
  have small: "idx < 0x100000" "idx \<noteq> -1"
    using idx(2) f by (auto simp: word_less_unat)
  define s1 where "s1 = set_frame (idx * 0x1000) s"
  define s2 where "s2 = update_page (with_Frame idx) page (update_page (with_flag User (\<not> isKernel)) page
    (update_page (with_flag ReadWrite isWritable) page (update_page (with_flag Present True) page s1)))"
  have run: "alloc_frame page isKernel isWritable s = Inr s2"
    using none idx(1) small(2) by (simp add: alloc_frame_def s1_def s2_def Let_def)
  have s1: "bitmap_ok s1" "frame_limit s1 = frame_limit s" "page_separate s1 page"
    "load32 (ram s1) page = load32 (ram s) page"
    unfolding s1_def idx_f using pool.claim_ok [OF ok free(1)] set_frame_page [OF ok sep free(1)] by simp_all
  have used1: "frame_used s1 g \<longleftrightarrow> g = f \<or> frame_used s g" if "g < frame_limit s" for g
    unfolding s1_def idx_f by (rule frame_used_set_frame [OF ok free(1) that])
  have "frame_used s2 g = frame_used s1 g" if "g < frame_limit s" for g
    using that s1 by (simp add: s2_def update_page_used)
  moreover have "same_outside (unat page) (unat page + 4) (ram s1) (ram s2)"
    unfolding s2_def by (intro update_page_within same_outside_refl) (simp_all add: s1(3))
  moreover have "s2 = s1\<lparr>ram := ram s2\<rparr>" by (simp add: s2_def update_page_def)
  moreover obtain m1 where "s1 = s\<lparr>ram := m1\<rparr>"
      "same_outside (unat (frames s)) (unat (frames s) + 4 * unat (INDEX_FROM_BIT (nframes s))) (ram s) m1"
    using set_frame_ram [OF ok free(1)] unfolding s1_def idx_f by blast
  ultimately show ?thesis
    using run used1 s1(1) small(1) idx_f by (intro exI [of _ s2] conjI exI [of _ m1] exI [of _ "ram s2"]) (simp_all add: s2_def page_simps)
qed

text \<open>
  C20: alloc_frame on a page without a frame gives it the lowest numbered free frame, sets the
  flags that were asked for, and marks in the bitmap exactly that frame as used in addition.
\<close>

theorem alloc_frame_correct:
  assumes ok: "bitmap_ok s" and sep: "page_separate s page"
    and none: "page_Frame (load32 (ram s) page) = 0"
    and free: "f < frame_limit s" "\<not> frame_used s f" "\<forall>g < f. frame_used s g"
  shows "\<exists>s'. alloc_frame page isKernel isWritable s = Inr s'
    \<and> page_Frame (load32 (ram s') page) = of_nat f
    \<and> page_flag Present (load32 (ram s') page) \<and> page_flag ReadWrite (load32 (ram s') page) = isWritable
    \<and> page_flag User (load32 (ram s') page) = (\<not> isKernel)
    \<and> (\<forall>g < frame_limit s. frame_used s' g \<longleftrightarrow> g = f \<or> frame_used s g)
    \<and> bitmap_ok s'"
  using alloc_frame_spec [OF assms] by blast

text \<open>The hypotheses of the last theorem hold at an empty bitmap.\<close>

definition empty_bitmap_kernel :: "memory \<Rightarrow> kernel" where
  "empty_bitmap_kernel m = \<lparr>ram = m, phys = (\<lambda>_. 0), placement_address = 0, kheap = None,
     nframes = 64, frames = 0x2000, kernel_directory = 0, current_directory = 0, cr0 = 0, cr3 = 0,
     interrupt_flag = False, current_task = 0, ready_queue = 0, next_pid = 1, indeterminate = 0\<rparr>"

lemma load32_zero [simp]: "load32 (\<lambda>_. 0) a = 0"
  by (simp add: load32_def)

theorem alloc_frame_correct_witness:
  "\<exists>s'. alloc_frame 0x3000 True False (empty_bitmap_kernel (\<lambda>_. 0)) = Inr s'
     \<and> frame_used s' 0 \<and> \<not> frame_used s' 1 \<and> page_flag Present (load32 (ram s') 0x3000)"
proof -
  let ?s = "empty_bitmap_kernel (\<lambda>_. 0)"
  have h: "bitmap_ok ?s" "page_separate ?s 0x3000" "page_Frame (load32 (ram ?s) 0x3000) = 0"
    "0 < frame_limit ?s" "1 < frame_limit ?s" "\<not> frame_used ?s 0" "\<not> frame_used ?s 1"
    by (simp_all add: bitmap_ok_def page_separate_def page_Frame_def frame_limit_def frame_used_def
        frame_word_def empty_bitmap_kernel_def INDEX_FROM_BIT_def arr_wf_def)
  show ?thesis using alloc_frame_correct [OF h(1-4,6), of True False] h(5-7) by auto
qed

text \<open>
  C28: the test of alloc_frame for \<^verbatim>\<open>(uint32_t)-1\<close> never succeeds, so its message
  \<^verbatim>\<open>No free frames!\<close> is never reached: when every frame is used the search flows off the end of
  first_frame, which is undefined behaviour.
\<close>

theorem alloc_frame_exhausted:
  assumes "bitmap_ok s" and "page_Frame (load32 (ram s) page) = 0"
  shows "alloc_frame page isKernel isWritable s \<noteq> Inl (Spin msg)
    \<and> (alloc_frame page isKernel isWritable s = Inl MissingReturn \<longleftrightarrow> (\<forall>g < frame_limit s. frame_used s g))"
proof (cases "first_frame s")
  case (Inl e)
  with first_frame_spec [OF assms(1)] assms(2) show ?thesis by (simp add: alloc_frame_def)
next
  case (Inr idx)
  with first_frame_spec [OF assms(1)]
  have idx: "unat idx < frame_limit s" "\<not> frame_used s (unat idx)" by simp_all
  then have "idx \<noteq> -1" using frame_limit_le [OF assms(1)] by auto
  with Inr assms(2) idx show ?thesis by (auto simp: alloc_frame_def Let_def)
qed

theorem alloc_frame_exhausted_witness:
  "alloc_frame 0x3000 True True (empty_bitmap_kernel (\<lambda>a. if a < 0x2008 then 0xFF else 0)) = Inl MissingReturn"
proof -
  let ?m = "\<lambda>a :: u32. if a < 0x2008 then 0xFF else 0 :: u8"
  let ?s = "empty_bitmap_kernel ?m"
  have ok: "bitmap_ok ?s" and page: "page_Frame (load32 (ram ?s) 0x3000) = 0"
    by (simp_all add: bitmap_ok_def empty_bitmap_kernel_def INDEX_FROM_BIT_def arr_wf_def load32_def page_Frame_def)
  have words: "frame_word ?s 0 = 0xFFFFFFFF" "frame_word ?s 1 = 0xFFFFFFFF"
    by (simp_all add: frame_word_def empty_bitmap_kernel_def load32_def)
  have "\<forall>g < frame_limit ?s. frame_used ?s g"
  proof (intro allI impI)
    fix g assume "g < frame_limit ?s"
    then have "g div 32 = 0 \<or> g div 32 = 1"
      by (auto simp: frame_limit_def empty_bitmap_kernel_def INDEX_FROM_BIT_def)
    then show "frame_used ?s g"
      using words by (elim disjE) (auto simp: frame_used_def simp flip: all_bits_set)
  qed
  then show ?thesis using alloc_frame_exhausted [OF ok page, of True True] by blast
qed

text \<open>
  free_frame passes the number of the frame, not its address, to clear_frame, so for a page
  that owns a frame below 4096 the bit of that frame stays as it was, while frame 0 becomes free
  and is the next one handed out.
\<close>

lemma free_frame_releases_frame_zero:
  assumes ok: "bitmap_ok s" and sep: "page_separate s page" and f: "page_Frame (load32 (ram s) page) = of_nat f"
    and range: "0 < f" "f < 4096" "f < frame_limit s"
  shows "frame_used (free_frame page s) f = frame_used s f
    \<and> \<not> frame_used (free_frame page s) 0 \<and> first_frame (free_frame page s) = Inr 0
    \<and> page_Frame (load32 (ram (free_frame page s)) page) = 0"
proof -
  have uf: "unat (of_nat f :: u32) = f" using range by (intro unat_of_nat32) simp
  have nz: "of_nat f \<noteq> (0 :: u32)" using range uf by auto
  have div0: "(of_nat f :: u32) div 0x1000 = 0"
    unfolding word_eq_unat unat_div uf using range by simp
  define s1 where "s1 = clear_frame (of_nat 0 * 0x1000) s"
  have lim: "0 < frame_limit s" using range by simp
  have "clear_frame (of_nat f) s = s1"
    by (simp add: clear_frame_def s1_def div0)
  then have run: "free_frame page s = update_page (with_Frame 0) page s1"
    using f nz by (simp add: free_frame_def Let_def)
  have s1: "bitmap_ok s1" "frame_limit s1 = frame_limit s"
    using pool.release_ok [OF ok lim] by (simp_all add: s1_def)
  have sep1: "page_separate s1 page"
    using sep by (simp add: s1_def clear_frame_def set_frame_word_def page_separate_def Let_def)
  have used: "frame_used (free_frame page s) g = (g \<noteq> 0 \<and> frame_used s g)" if "g < frame_limit s" for g
    using frame_used_clear_frame [OF ok lim that] that s1 sep1
    by (simp add: run update_page_used s1_def)
  have ok': "bitmap_ok (free_frame page s)" using s1 run by simp
  have zero: "\<not> frame_used (free_frame page s) 0" using used lim by simp
  have "first_frame (free_frame page s) = Inr 0"
  proof (cases "first_frame (free_frame page s)")
    case (Inl e)
    with first_frame_spec [OF ok'] zero lim s1(2) run show ?thesis by simp
  next
    case (Inr r)
    with first_frame_spec [OF ok'] zero have "unat r = 0" by auto
    with Inr show ?thesis by (simp add: word_eq_unat)
  qed
  with used [OF range(3)] range(1) zero show ?thesis by (simp add: run page_Frame_with_Frame)
qed

end
