(* ===== verification/Heap_Invariant.thy ===== *)
theory Heap_Invariant
  imports Kernel_Heap
begin

text \<open>
  The heap invariant and its preservation by Alloc, stated on the list of blocks that tile the heap:
  writing a block, splitting a hole and carving a block out of one.
\<close>

definition heap_inv :: "Heap \<Rightarrow> memory \<Rightarrow> nat \<Rightarrow> block list \<Rightarrow> bool" where
  "heap_inv h m lo bs \<longleftrightarrow>
     blocks m (unat (m_endAddress h)) lo bs (unat (m_endAddress h))
     \<and> ol_wf (m_index h) \<and> ol_hi (m_index h) \<le> lo
     \<and> m_lessThanPredicate (m_index h) = HeaderLessThan
     \<and> distinct (ol_items (m_index h) m)
     \<and> set (ol_items (m_index h) m) = of_nat ` set (holes lo bs)"

subsection \<open>Writing one block\<close>

definition write_block :: "memory \<Rightarrow> nat \<Rightarrow> nat \<Rightarrow> bool \<Rightarrow> memory" where
  "write_block m a k hole =
     set_footer (set_header m (of_nat a) hole (of_nat k)) (of_nat (a + k - 8)) (of_nat a)"

lemma write_block_frame:
  assumes "20 \<le> k" and "a + k \<le> 4294967295"
  shows "same_outside a (a + k) m (write_block m a k hole)"
proof -
  define f where "f = (of_nat (a + k - 8) :: u32)"
  have a: "unat (of_nat a :: u32) = a" using assms by (intro unat_of_nat32) linarith
  have f: "unat f = a + k - 8" unfolding f_def using assms by (intro unat_of_nat32) linarith
  have "same_outside a (a + k) m (set_header m (of_nat a) hole (of_nat k))"
    using set_header_frame [of "of_nat a" m hole "of_nat k"] a assms
    by (auto elim: same_outside_mono)
  also have "same_outside a (a + k) \<dots> (set_footer \<dots> f (of_nat a))"
    by (rule same_outside_mono [OF set_footer_frame]) (use f assms in auto)
  finally show ?thesis by (simp add: write_block_def f_def)
qed

lemma write_block_ok:
  assumes "20 \<le> k" and "a + k \<le> 4294967295"
  shows "header_ok (write_block m a k hole) a k hole" and "footer_ok (write_block m a k hole) a k"
proof -
  define f where "f = (of_nat (a + k - 8) :: u32)"
  have f: "unat f = a + k - 8" unfolding f_def using assms by (intro unat_of_nat32) linarith
  have "header_ok (set_header m (of_nat a) hole (of_nat k)) a k hole"
    by (simp add: header_ok_def)
  then show "header_ok (write_block m a k hole) a k hole"
    unfolding write_block_def f_def [symmetric]
    using header_ok_frame [OF set_footer_frame, of f a _ _ k hole] f assms by simp
  show "footer_ok (write_block m a k hole) a k"
    unfolding footer_ok_def write_block_def f_def [symmetric] by simp
qed

lemma write_block_blocks:
  assumes "20 \<le> k" and "a + k \<le> 4294967295"
  shows "blocks (write_block m a k hole) E a [(k, hole)] (a + k)"
  using write_block_ok [OF assms] assms(1) by simp

subsection \<open>Carving a block out of a hole\<close>

lemma alloc_in_hole_unaligned:
  assumes P: "GetItemAtIndex (m_index h) m i = of_nat a" and N: "header_size m (of_nat a) = of_nat k"
    and fits: "s + 20 \<le> k" and bound: "a + k \<le> unat (m_endAddress h)"
    and rem: "Remove (m_index h) m i = (ix, m0)"
  shows "alloc_in_hole h m i (of_nat s) False =
    (if k - (s + 20) < 20 then (of_nat (a + 12), h\<lparr>m_index := ix\<rparr>, write_block m0 a k False)
     else let m1 = write_block (write_block m0 a (s + 20) False) (a + (s + 20)) (k - (s + 20)) True;
              (ix, m2) = Insert ix m1 (of_nat (a + (s + 20)))
          in (of_nat (a + 12), h\<lparr>m_index := ix\<rparr>, m2))"
proof -
  have E: "unat (m_endAddress h) \<le> 4294967295" by (rule unat_le_max32)
  have rest: "of_nat k - (of_nat s + 20 :: u32) = of_nat (k - (s + 20))"
    using fits by simp
  have lt: "of_nat (k - (s + 20)) < (20 :: u32) \<longleftrightarrow> k - (s + 20) < 20"
    using bound E by (subst word_less_unat, subst unat_of_nat32) auto
  show ?thesis
  proof (cases "k - (s + 20) < 20")
    case True
    have "of_nat a + 12 + (of_nat s + of_nat (k - (s + 20))) = (of_nat (a + k - 8) :: u32)"
      using fits by (simp add: algebra_simps)
    with True show ?thesis
      using P N rem rest lt
      by (simp add: alloc_in_hole_def heap_sizes write_block_def Let_def add.assoc)
  next
    case False
    have pos: "0 < (of_nat k - (of_nat s + 20) :: u32)"
      unfolding rest using False bound E by (subst word_less_unat, subst unat_of_nat32) auto
    have big: "\<not> of_nat k - (of_nat s + 20) < (20 :: u32)" unfolding rest using lt False by simp
    have "(of_nat (a + k - 8) :: u32) < m_endAddress h"
      using False bound E fits by (subst word_less_unat, subst unat_of_nat32) auto
    moreover have "of_nat (a + k - 8) = (of_nat a + of_nat k - 8 :: u32)" using False by simp
    ultimately have f2: "(of_nat a + of_nat k - 8 :: u32) < m_endAddress h" by simp
    show ?thesis
      using False P N rem pos big f2
      by (simp add: alloc_in_hole_def heap_sizes write_block_def Let_def ac_simps)
  qed
qed

text \<open>What a hole of \<open>k\<close> bytes becomes when \<open>need\<close> bytes, headers included, are taken from it.\<close>

definition carve :: "nat \<Rightarrow> nat \<Rightarrow> block list" where
  "carve need k = (if k - need < 20 then [(k, False)] else [(need, False), (k - need, True)])"

lemma extent_carve [simp]: "need \<le> k \<Longrightarrow> extent (carve need k) = k"
  by (simp add: carve_def)

lemma of_nat_image_remove:
  assumes "a \<notin> A" and "\<forall>x \<in> insert a A. x < 4294967296"
  shows "of_nat ` insert a A - {of_nat a} = (of_nat ` A :: u32 set)"
proof -
  have "inj_on (of_nat :: nat \<Rightarrow> u32) (insert a A)"
  proof (rule inj_onI)
    fix x y assume x: "x \<in> insert a A" and y: "y \<in> insert a A"
      and eq: "of_nat x = (of_nat y :: u32)"
    have "unat (of_nat x :: u32) = x" using bspec [OF assms(2) x] by (rule unat_of_nat32)
    moreover have "unat (of_nat y :: u32) = y" using bspec [OF assms(2) y] by (rule unat_of_nat32)
    ultimately show "x = y" unfolding eq by (rule trans [OF sym])
  qed
  then have "(of_nat :: nat \<Rightarrow> u32) ` (insert a A - {a}) = of_nat ` insert a A - of_nat ` {a}"
    by (rule inj_on_image_set_diff) blast+
  moreover have "insert a A - {a} = A" using assms(1) by blast
  ultimately show ?thesis by (simp only: image_insert image_empty)
qed

lemma heap_invD:
  assumes "heap_inv h m lo bs"
  shows "blocks m (unat (m_endAddress h)) lo bs (unat (m_endAddress h))"
    and "ol_wf (m_index h)" and "ol_hi (m_index h) \<le> lo"
    and "m_lessThanPredicate (m_index h) = HeaderLessThan"
    and "distinct (ol_items (m_index h) m)"
    and "set (ol_items (m_index h) m) = of_nat ` set (holes lo bs)"
    and "unat (m_endAddress h) = lo + extent bs"
  using assms blocks_end unfolding heap_inv_def by blast+

text \<open>Replacing the blocks in the middle of a tiling by others written there.\<close>

lemma blocks_replace:
  assumes "blocks m E lo (bs1 @ mid @ bs2) E" and "E \<le> 4294967295"
    and "same_outside (lo + extent bs1) (lo + extent bs1 + extent mid) m m'"
    and "blocks m' E (lo + extent bs1) mid' (lo + extent bs1 + extent mid)"
  shows "blocks m' E lo (bs1 @ mid' @ bs2) E"
proof -
  have E: "E = lo + extent bs1 + extent mid + extent bs2"
    using blocks_end [OF assms(1)] by simp
  have mid': "extent mid' = extent mid" using blocks_end [OF assms(4)] by simp
  have "blocks m' E lo bs1 (lo + extent bs1)"
    by (rule blocks_frame [OF assms(3)]) (use assms(1,2) E in \<open>auto simp: blocks_append\<close>)
  moreover have "blocks m' E (lo + extent bs1 + extent mid) bs2 E"
    by (rule blocks_frame [OF assms(3)]) (use assms(1,2) E in \<open>auto simp: blocks_append\<close>)
  ultimately show ?thesis using assms(4) mid' by (simp add: blocks_append)
qed

lemma blocks_below_frame:
  assumes "blocks m E lo bs E" and "E \<le> 4294967295" and "same_outside a b m m'" and "b \<le> lo"
  shows "blocks m' E lo bs E"
  using blocks_frame [OF assms(3,2,1)] assms(4) by blast

lemma write_carved:
  assumes "need \<le> k" and "20 \<le> need" and "a + k \<le> 4294967295"
  shows "\<exists>m'. m' = (if k - need < 20 then write_block m a k False
             else write_block (write_block m a need False) (a + need) (k - need) True)
     \<and> same_outside a (a + k) m m' \<and> blocks m' E a (carve need k) (a + k)"
proof (cases "k - need < 20")
  case True
  with assms write_block_frame [of k a m False] write_block_blocks [of k a m False E]
  show ?thesis by (auto simp: carve_def)
next
  case False
  let ?m1 = "write_block m a need False" and ?m2 = "write_block (write_block m a need False) (a + need) (k - need) True"
  have f1: "same_outside a (a + need) m ?m1" and b1: "blocks ?m1 E a [(need, False)] (a + need)"
    using assms False by (intro write_block_frame write_block_blocks; simp)+
  have f2: "same_outside (a + need) (a + need + (k - need)) ?m1 ?m2"
    and b2: "blocks ?m2 E (a + need) [(k - need, True)] (a + need + (k - need))"
    using assms False by (intro write_block_frame write_block_blocks; simp)+
  have "same_outside a (a + k) m ?m2"
    using same_outside_mono [OF f1, of a "a + k"] same_outside_mono [OF f2, of a "a + k"] assms(1)
    by (auto intro: same_outside_trans)
  moreover have "blocks ?m2 E a [(need, False)] (a + need)"
    by (rule blocks_frame [OF f2 _ b1]) (use assms in auto)
  ultimately show ?thesis
    using b2 False assms(1) by (auto simp: carve_def)
qed

subsection \<open>Searching the index\<close>

lemma FindSmallestHole_found:
  assumes "FindSmallestHole h m n pageAlign = i" and "i \<noteq> -1"
  shows "i < Size (m_index h)"
    and "hole_fits m n pageAlign (ol_items (m_index h) m ! unat i)"
    and "\<forall>j < unat i. \<not> hole_fits m n pageAlign (ol_items (m_index h) m ! j)"
proof -
  let ?r = "scan (\<lambda>i. hole_fits m n pageAlign (GetItemAtIndex (m_index h) m i)) (Size (m_index h)) 0"
  have i: "i = ?r" "?r \<noteq> Size (m_index h)"
    using assms by (auto simp: FindSmallestHole_def Let_def split: if_splits)
  then show lt: "i < Size (m_index h)"
    using scan_le [of 0 "Size (m_index h)"] by (simp add: order_le_neq_trans)
  from ol.search_spec(1) [where ix = "m_index h" and m = m and p = "hole_fits m n pageAlign"] lt i(1)
  show "hole_fits m n pageAlign (ol_items (m_index h) m ! unat i)"
    and "\<forall>j < unat i. \<not> hole_fits m n pageAlign (ol_items (m_index h) m ! j)"
    by simp_all
qed

lemma FindSmallestHole_none:
  assumes "FindSmallestHole h m n pageAlign = -1" and "Size (m_index h) \<noteq> -1"
  shows "\<forall>x \<in> set (ol_items (m_index h) m). \<not> hole_fits m n pageAlign x"
proof -
  let ?r = "scan (\<lambda>i. hole_fits m n pageAlign (GetItemAtIndex (m_index h) m i)) (Size (m_index h)) 0"
  have "\<not> ?r < Size (m_index h)"
  proof
    assume lt: "?r < Size (m_index h)"
    then have "?r = -1"
      using assms(1) by (auto simp: FindSmallestHole_def Let_def split: if_splits)
    with lt show False by simp
  qed
  then show ?thesis using ol.search_spec(2) [where ix = "m_index h" and m = m and p = "hole_fits m n pageAlign"] by simp
qed

subsection \<open>Alloc from a hole keeps the invariant\<close>

lemma hole_in_index:
  assumes inv: "heap_inv h m lo bs" and i: "i < Size (m_index h)"
  obtains bs1 k bs2 where "bs = bs1 @ (k, True) # bs2"
    and "GetItemAtIndex (m_index h) m i = of_nat (lo + extent bs1)"
    and "header_size m (of_nat (lo + extent bs1)) = of_nat k" and "20 \<le> k"
proof -
  have "ol_items (m_index h) m ! unat i \<in> set (ol_items (m_index h) m)"
    using i ol.size_items [of "m_index h" m] by (intro nth_mem) (simp add: word_less_unat)
  then obtain x where x: "x \<in> set (holes lo bs)" "GetItemAtIndex (m_index h) m i = of_nat x"
    using heap_invD(6) [OF inv] ol.get_items [OF i] by auto
  then obtain bs1 k bs2 where "bs = bs1 @ (k, True) # bs2" "x = lo + extent bs1"
    using holes_split by blast
  with x that heap_invD(1) [OF inv] show thesis by (simp add: blocks_append header_ok_def)
qed

lemma holes_middle:
  assumes "blocks m E lo (bs1 @ (k, True) # bs2) E" and "E \<le> 4294967295"
  shows "(of_nat :: nat \<Rightarrow> u32) ` set (holes lo (bs1 @ (k, True) # bs2)) - {of_nat (lo + extent bs1)}
    = of_nat ` (set (holes lo bs1) \<union> set (holes (lo + extent bs1 + k) bs2))"
proof -
  let ?a = "lo + extent bs1" and ?A = "set (holes lo bs1) \<union> set (holes (lo + extent bs1 + k) bs2)"
  have eq: "set (holes lo (bs1 @ (k, True) # bs2)) = insert ?a ?A" by auto
  have "?a \<notin> ?A" using distinct_holes [OF assms(1)] by auto
  moreover have "\<forall>x \<in> insert ?a ?A. x < 4294967296"
    using holes_bounds [OF assms(1)] assms(2) unfolding eq by fastforce
  ultimately show ?thesis unfolding eq by (rule of_nat_image_remove)
qed

text \<open>Entering the one hole that is missing in the index restores the invariant.\<close>

lemma enter_hole:
  assumes bl: "blocks m (unat (m_endAddress h)) lo bs (unat (m_endAddress h))"
    and ix: "ol_wf ix" "ol_room ix" "m_lessThanPredicate ix = HeaderLessThan" "ol_hi ix \<le> lo"
    and items: "distinct (ol_items ix m)" "set (ol_items ix m) = of_nat ` H" "of_nat a \<notin> (of_nat ` H :: u32 set)"
    and holes: "set (holes lo bs) = insert a H" and ins: "Insert ix m (of_nat a) = (ix2, m2)"
  shows "heap_inv (h\<lparr>m_index := ix2\<rparr>) m2 lo bs" and "same_outside (ol_lo ix) (ol_hi ix) m m2"
proof -
  show fr: "same_outside (ol_lo ix) (ol_hi ix) m m2" using ol.items_ins [OF ix(1,2) ins] by blast
  have "ol_wf ix2" "m_lessThanPredicate ix2 = HeaderLessThan" "ol_hi ix2 = ol_hi ix"
    using ol.items_ins [OF ix(1,2) ins] ol.ins_keeps [OF ins] ix(3) by auto
  moreover have "distinct (ol_items ix2 m2)" using ol.distinct_ins [OF ix(1,2) ins] items by simp
  moreover have "set (ol_items ix2 m2) = of_nat ` set (holes lo bs)"
    using ol.set_ins [OF ix(1,2) ins] items(2) holes by simp
  moreover have "blocks m2 (unat (m_endAddress h)) lo bs (unat (m_endAddress h))"
    by (rule blocks_below_frame [OF bl unat_le_max32 fr ix(4)])
  ultimately show "heap_inv (h\<lparr>m_index := ix2\<rparr>) m2 lo bs" using ix(4) by (simp add: heap_inv_def)
qed

lemma alloc_hole_inv:
  assumes inv: "heap_inv h m lo bs" and i: "i < Size (m_index h)"
    and bs: "bs = bs1 @ (k, True) # bs2"
    and P: "GetItemAtIndex (m_index h) m i = of_nat (lo + extent bs1)"
    and N: "header_size m (of_nat (lo + extent bs1)) = of_nat k"
    and fits: "s + 20 \<le> k"
    and res: "alloc_in_hole h m i (of_nat s) False = (p, h', m')"
  shows "p = of_nat (lo + extent bs1 + 12)"
    and "heap_inv h' m' lo (bs1 @ carve (s + 20) k @ bs2)"
    and "\<exists>m0. same_outside (ol_lo (m_index h)) (ol_hi (m_index h)) m m0
          \<and> (\<exists>m1. same_outside (lo + extent bs1) (lo + extent bs1 + k) m0 m1
               \<and> same_outside (ol_lo (m_index h)) (ol_hi (m_index h)) m1 m')"
    and "m_endAddress h' = m_endAddress h"
    and "k - (s + 20) < 20 \<Longrightarrow> ol_room (m_index h')"
proof -
  let ?a = "lo + extent bs1" and ?E = "unat (m_endAddress h)" and ?ix = "m_index h"
  note inv' = heap_invD [OF inv]
  have E: "?E = ?a + k + extent bs2" "?E \<le> 4294967295"
    using inv'(7) bs unat_le_max32 [of "m_endAddress h"] by auto
  obtain ix m0 where rem: "Remove ?ix m i = (ix, m0)" by fastforce
  have it0: "ol_items ix m0 = drop_nth (unat i) (ol_items ?ix m)" "ol_wf ix" "ol_room ix"
    and fr0: "same_outside (ol_lo ?ix) (ol_hi ?ix) m m0"
    using ol.items_del [OF inv'(2) i rem] by blast+
  have keep0: "m_lessThanPredicate ix = m_lessThanPredicate ?ix" "ol_lo ix = ol_lo ?ix" "ol_hi ix = ol_hi ?ix"
    using ol.del_keeps [OF rem] by blast+
  have set0: "set (ol_items ix m0) = of_nat ` (set (holes lo bs1) \<union> set (holes (?a + k) bs2))"
    and dist0: "distinct (ol_items ix m0)"
    using ol.set_del [OF inv'(2) i rem inv'(5)] inv'(1,6) P ol.get_items [OF i, of m]
      holes_middle [of m ?E lo bs1 k bs2] E(2) bs by auto
  have bl0: "blocks m0 ?E lo bs ?E"
    using blocks_below_frame [OF inv'(1) E(2) fr0 inv'(3)] .
  define m1 where "m1 = (if k - (s + 20) < 20 then write_block m0 ?a k False
    else write_block (write_block m0 ?a (s + 20) False) (?a + (s + 20)) (k - (s + 20)) True)"
  have fr1: "same_outside ?a (?a + k) m0 m1" and carved: "blocks m1 ?E ?a (carve (s + 20) k) (?a + k)"
    using write_carved [of "s + 20" k ?a m0 ?E] fits E by (auto simp: m1_def)
  have bl1: "blocks m1 ?E lo (bs1 @ carve (s + 20) k @ bs2) ?E"
    using blocks_replace [of m0 ?E lo bs1 "[(k, True)]" bs2 m1 "carve (s + 20) k"] bl0 bs E(2) fr1 carved
    by simp
  have it1: "ol_items ix m1 = ol_items ix m0"
    by (rule ol.items_frame [OF it0(2) fr1]) (use inv'(3) keep0 in auto)
  have main: "p = of_nat (?a + 12) \<and> heap_inv h' m' lo (bs1 @ carve (s + 20) k @ bs2)
      \<and> same_outside (ol_lo ?ix) (ol_hi ?ix) m1 m' \<and> m_endAddress h' = m_endAddress h
      \<and> (k - (s + 20) < 20 \<longrightarrow> ol_room (m_index h'))"
  proof (cases "k - (s + 20) < 20")
    case True
    with res alloc_in_hole_unaligned [OF P N fits _ rem] E m1_def
    have "p = of_nat (?a + 12)" "h' = h\<lparr>m_index := ix\<rparr>" "m' = m1" by auto
    with True bl1 it0 it1 keep0 inv'(3,4) dist0 set0 show ?thesis
      by (simp add: heap_inv_def carve_def add.assoc)
  next
    case False
    let ?x = "of_nat (?a + (s + 20)) :: u32" and ?H = "set (holes lo bs1) \<union> set (holes (?a + k) bs2)"
    obtain ix2 m2 where ins: "Insert ix m1 ?x = (ix2, m2)" by fastforce
    from False res alloc_in_hole_unaligned [OF P N fits _ rem] E m1_def ins
    have r: "p = of_nat (?a + 12)" "h' = h\<lparr>m_index := ix2\<rparr>" "m' = m2" by (auto simp: Let_def)
    have bl1': "blocks m1 ?E lo ((bs1 @ [(s + 20, False)]) @ (k - (s + 20), True) # bs2) ?E"
      using bl1 False by (simp add: carve_def)
    have holes': "set (holes lo (bs1 @ carve (s + 20) k @ bs2)) = insert (?a + (s + 20)) ?H"
      using False fits by (auto simp: carve_def add.assoc)
    have fresh: "?x \<notin> of_nat ` ?H"
      using holes_middle [OF bl1' E(2)] fits by (auto simp: add.assoc simp del: of_nat_add)
    have "heap_inv (h\<lparr>m_index := ix2\<rparr>) m2 lo (bs1 @ carve (s + 20) k @ bs2)"
        "same_outside (ol_lo ix) (ol_hi ix) m1 m2"
      using enter_hole [OF bl1 it0(2,3) _ _ _ _ fresh holes' ins] keep0 inv'(3,4) it1 dist0 set0 by simp_all
    then show ?thesis using r keep0 False by simp
  qed
  show "p = of_nat (?a + 12)" "heap_inv h' m' lo (bs1 @ carve (s + 20) k @ bs2)"
    "m_endAddress h' = m_endAddress h"
    using main by blast+
  show "ol_room (m_index h')" if "k - (s + 20) < 20" using main that by blast
  show "\<exists>m0. same_outside (ol_lo (m_index h)) (ol_hi (m_index h)) m m0
          \<and> (\<exists>m1. same_outside ?a (?a + k) m0 m1
               \<and> same_outside (ol_lo (m_index h)) (ol_hi (m_index h)) m1 m')"
    using fr0 fr1 main by blast
qed

end
