(* ===== verification/Heap_Free.thy ===== *)
theory Heap_Free
  imports Heap_Invariant
begin

text \<open>
  What Free does to the tiling of the heap: the freed block becomes a hole or is absorbed by the
  hole on its left, and the invariant is kept when the block on its right is in use. The last
  section shows what happens when the block on the right is a hole.
\<close>

lemma unat_of_nat_le: "a \<le> 4294967295 \<Longrightarrow> unat (of_nat a :: u32) = a"
  by (rule unat_of_nat32) simp

subsection \<open>Turning one block into a hole\<close>

lemma mark_hole:
  assumes "blocks m E a [(n, hole)] (a + n)" and "a + n \<le> 4294967295"
  shows "same_outside a (a + n) m (set_is_hole m (of_nat a) True)"
    and "blocks (set_is_hole m (of_nat a) True) E a [(n, True)] (a + n)"
proof -
  let ?m = "set_is_hole m (of_nat a) True"
  have n: "20 \<le> n" and hd: "header_ok m a n hole" and ft: "footer_ok m a n \<or> hole \<and> a + n = E"
    using assms(1) by auto
  have a: "unat (of_nat a :: u32) = a" using assms(2) by (intro unat_of_nat_le) simp
  have fr: "same_outside a (a + 12) m ?m"
    using set_is_hole_frame [of "of_nat a" m True] a n assms(2) by simp
  then show "same_outside a (a + n) m ?m" by (rule same_outside_mono) (use n in auto)
  have "header_ok ?m a n True" using hd by (simp add: header_ok_def)
  moreover have "footer_ok ?m a n = footer_ok m a n"
    by (rule footer_ok_frame [OF fr]) (use n assms(2) in auto)
  ultimately show "blocks ?m E a [(n, True)] (a + n)" using n ft by auto
qed

text \<open>Absorbing a block of \<open>n\<close> bytes into the hole of \<open>k\<close> bytes before it.\<close>

lemma absorb_left:
  assumes "blocks m E b [(k, True), (n, True)] (b + k + n)" and "b + k + n \<le> 4294967295"
    and "footer_ok m (b + k) n"
  defines "m' \<equiv> set_size (set_footer_header m (of_nat (b + k + n - 8)) (of_nat b)) (of_nat b)
                  (of_nat k + of_nat n)"
  shows "same_outside b (b + k + n) m m'"
    and "blocks m' E b [(k + n, True)] (b + k + n)"
proof -
  define f where "f = (of_nat (b + k + n - 8) :: u32)"
  let ?m1 = "set_footer_header m f (of_nat b)"
  have k: "20 \<le> k" "20 \<le> n" and hd: "header_ok m b k True" using assms(1) by auto
  have b: "unat (of_nat b :: u32) = b" using assms(2) by (intro unat_of_nat_le) simp
  have f: "unat f = b + k + n - 8" unfolding f_def using assms(2) by (intro unat_of_nat_le) simp
  have fr1: "same_outside (b + k + n - 8) (b + k + n) m ?m1"
    using set_footer_header_frame [of f m "of_nat b"] f k assms(2) by simp
  have fr2: "same_outside b (b + 12) ?m1 m'"
    unfolding m'_def f_def [symmetric]
    using set_size_frame [of "of_nat b" ?m1 "of_nat k + of_nat n"] b k assms(2) by simp
  have "b \<le> b + k + n - 8" and "b + 12 \<le> b + k + n" using k by linarith+
  then show "same_outside b (b + k + n) m m'"
    using same_outside_mono [OF fr1] same_outside_mono [OF fr2] by (blast intro: same_outside_trans)
  have "header_ok ?m1 b k True" using header_ok_frame [OF fr1] hd k assms(2) by simp
  then have hd': "header_ok m' b (k + n) True"
    by (simp add: header_ok_def m'_def f_def)
  have "footer_magic ?m1 f = HEAP_MAGIC \<and> footer_header ?m1 f = of_nat b"
    using assms(3) unfolding footer_ok_def f_def [symmetric] add.assoc [symmetric] by simp
  then have "footer_ok ?m1 b (k + n)"
    unfolding footer_ok_def add.assoc [symmetric] f_def [symmetric] .
  then have "footer_ok m' b (k + n)"
    using footer_ok_frame [OF fr2, of "k + n" b] k assms(2) by simp
  with hd' k show "blocks m' E b [(k + n, True)] (b + k + n)" by simp
qed

subsection \<open>The merging step of Free\<close>

lemma free_merge_alone:
  assumes hd: "header_size m (of_nat a) = of_nat n" and n: "8 \<le> n"
    and left: "\<not> (footer_magic (set_is_hole m (of_nat a) True) (of_nat a - 8) = HEAP_MAGIC
       \<and> header_is_hole (set_is_hole m (of_nat a) True)
            (footer_header (set_is_hole m (of_nat a) True) (of_nat a - 8)) = 1)"
    and right: "\<not> (header_magic (set_is_hole m (of_nat a) True) (of_nat (a + n)) = HEAP_MAGIC
       \<and> header_is_hole (set_is_hole m (of_nat a) True) (of_nat (a + n)) \<noteq> 0)"
  shows "free_merge h m (of_nat (a + 12)) =
    (of_nat a, of_nat (a + n - 8), of_nat (a + n), True, h, set_is_hole m (of_nat a) True)"
proof -
  have p: "of_nat (a + 12) - 12 = (of_nat a :: u32)" by simp
  have f: "of_nat a + of_nat n - 8 = (of_nat (a + n - 8) :: u32)" using n by simp
  have t: "of_nat (a + n - 8) + 8 = (of_nat (a + n) :: u32)" using n by simp
  show ?thesis
    unfolding free_merge_def heap_sizes Let_def p hd f t if_not_P [OF left]
    by (simp only: prod.case t if_not_P [OF right]) simp
qed

lemma free_merge_left:
  assumes hd: "header_size m (of_nat a) = of_nat n" and n: "8 \<le> n"
  defines "m1 \<equiv> set_is_hole m (of_nat a) True"
  assumes left: "footer_magic m1 (of_nat a - 8) = HEAP_MAGIC" "footer_header m1 (of_nat a - 8) = of_nat b"
      "header_is_hole m1 (of_nat b) = 1"
    and k: "header_size (set_footer_header m1 (of_nat (a + n - 8)) (of_nat b)) (of_nat b) = of_nat k"
  defines "m3 \<equiv> set_size (set_footer_header m1 (of_nat (a + n - 8)) (of_nat b)) (of_nat b)
                   (of_nat k + of_nat n)"
  assumes right: "\<not> (header_magic m3 (of_nat (a + n)) = HEAP_MAGIC
       \<and> header_is_hole m3 (of_nat (a + n)) \<noteq> 0)"
  shows "free_merge h m (of_nat (a + 12)) =
    (of_nat b, of_nat (a + n - 8), of_nat (a + n), False, h, m3)"
proof -
  have p: "of_nat (a + 12) - 12 = (of_nat a :: u32)" by simp
  have f: "of_nat a + of_nat n - 8 = (of_nat (a + n - 8) :: u32)" using n by simp
  have t: "of_nat (a + n - 8) + 8 = (of_nat (a + n) :: u32)" using n by simp
  have hd1: "header_size m1 (of_nat a) = of_nat n" by (simp add: m1_def hd)
  have cond: "footer_magic m1 (of_nat a - 8) = HEAP_MAGIC
      \<and> header_is_hole m1 (of_nat b) = 1"
    using left by simp
  show ?thesis
    unfolding free_merge_def heap_sizes Let_def p hd f t m1_def [symmetric] hd1 left(2) k
      m3_def [symmetric]
    by (simp only: if_P [OF cond] prod.case if_not_P [OF right]) simp
qed

subsection \<open>Free keeps the invariant\<close>

text \<open>
  The block list after a block of \<open>n\<close> bytes behind \<open>bs1\<close> was freed, and the second half of Free
  where the freed block is not at the end of the heap: a hole that is new is put into the index.
\<close>

definition coalesce :: "block list \<Rightarrow> nat \<Rightarrow> block list" where
  "coalesce bs1 n = (case rev bs1 of (k, True) # bs0 \<Rightarrow> rev bs0 @ [(k + n, True)] | _ \<Rightarrow> bs1 @ [(n, True)])"

definition free_index :: "u32 \<times> u32 \<times> u32 \<times> bool \<times> Heap \<times> memory \<Rightarrow> Heap \<times> memory" where
  "free_index r = (case r of (header, footer, test_header, do_add, h, m) \<Rightarrow>
     if do_add then let (ix, m) = Insert (m_index h) m header in (h\<lparr>m_index := ix\<rparr>, m) else (h, m))"

lemma free_into_index:
  assumes inv: "heap_inv h m lo (bs1 @ (n, False) # bs2)" and room: "ol_room (m_index h)"
    and fr: "same_outside (lo + extent bs1) (lo + extent bs1 + n) m m1"
    and bl: "blocks m1 (unat (m_endAddress h)) lo (bs1 @ (n, True) # bs2) (unat (m_endAddress h))"
    and ins: "Insert (m_index h) m1 (of_nat (lo + extent bs1)) = (ix, m2)"
  shows "heap_inv (h\<lparr>m_index := ix\<rparr>) m2 lo (bs1 @ (n, True) # bs2)"
proof -
  let ?a = "lo + extent bs1" and ?E = "unat (m_endAddress h)"
  note inv' = heap_invD [OF inv]
  have E: "?E \<le> 4294967295" by (rule unat_le_max32)
  have items: "ol_items (m_index h) m1 = ol_items (m_index h) m"
    by (rule ol.items_frame [OF inv'(2) fr]) (use inv'(3) in auto)
  have old: "set (holes lo (bs1 @ (n, False) # bs2)) = set (holes lo bs1) \<union> set (holes (?a + n) bs2)"
    by auto
  have new: "set (holes lo (bs1 @ (n, True) # bs2)) = insert ?a (set (holes lo bs1) \<union> set (holes (?a + n) bs2))"
    by auto
  have "of_nat ?a \<notin> (of_nat :: nat \<Rightarrow> u32) ` (set (holes lo bs1) \<union> set (holes (?a + n) bs2))"
    unfolding holes_middle [OF bl E, symmetric] by (simp only: Diff_iff singleton_iff simp_thms)
  then have fresh: "of_nat ?a \<notin> set (ol_items (m_index h) m1)"
    unfolding items inv'(6) old .
  have fr2: "same_outside (ol_lo (m_index h)) (ol_hi (m_index h)) m1 m2" and wf: "ol_wf ix"
    using ol.items_ins [OF inv'(2) room ins] by blast+
  have keeps: "m_lessThanPredicate ix = HeaderLessThan" "ol_hi ix \<le> lo"
    using ol.ins_keeps [OF ins] inv'(3,4) by simp_all
  have dist: "distinct (ol_items ix m2)"
    using ol.distinct_ins [OF inv'(2) room ins fresh] inv'(5) items by simp
  have sets: "set (ol_items ix m2) = of_nat ` set (holes lo (bs1 @ (n, True) # bs2))"
    unfolding ol.set_ins [OF inv'(2) room ins] items inv'(6) old new image_insert ..
  have "blocks m2 ?E lo (bs1 @ (n, True) # bs2) ?E"
    by (rule blocks_below_frame [OF bl E fr2 inv'(3)])
  with wf keeps dist sets show ?thesis by (simp add: heap_inv_def)
qed

lemma left_footer:
  assumes "footer_ok m b k" and "20 \<le> k" and "b + k \<le> 4294967295"
    and "same_outside (b + k) hi m m'"
  shows "footer_magic m' (of_nat (b + k) - 8) = HEAP_MAGIC"
    and "footer_header m' (of_nat (b + k) - 8) = of_nat b"
proof -
  have eq: "of_nat (b + k) - 8 = (of_nat (b + k - 8) :: u32)" using assms(2) by simp
  have "footer_ok m' b k" using footer_ok_frame [OF assms(4)] assms(1,2,3) by simp
  then show "footer_magic m' (of_nat (b + k) - 8) = HEAP_MAGIC"
    and "footer_header m' (of_nat (b + k) - 8) = of_nat b"
    unfolding footer_ok_def eq by blast+
qed

lemma is_hole_after_frame:
  assumes "header_ok m a n hole" and "same_outside lo hi m m'" and "a + 12 \<le> 4294967295"
    and "a + 12 \<le> lo \<or> hi \<le> a"
  shows "header_is_hole m' (of_nat a) = of_bool hole"
  using header_ok_frame [OF assms(2,3,4), of n hole] assms(1) by (simp add: header_ok_def)

definition guard_below :: "memory \<Rightarrow> nat \<Rightarrow> block list \<Rightarrow> bool" where
  "guard_below m lo bs1 \<longleftrightarrow> bs1 \<noteq> [] \<or> 8 \<le> lo \<and> footer_magic m (of_nat lo - 8) \<noteq> HEAP_MAGIC"

lemma no_left_merge:
  assumes bl: "blocks m E lo bs1 a" and guard: "guard_below m lo bs1"
    and no_hole: "\<And>bs0 k. bs1 \<noteq> bs0 @ [(k, True)]"
    and fr: "same_outside a (a + n) m m1" and bound: "a + n \<le> 4294967295"
  shows "\<not> (footer_magic m1 (of_nat a - 8) = HEAP_MAGIC
    \<and> header_is_hole m1 (footer_header m1 (of_nat a - 8)) = 1)"
proof (cases bs1 rule: rev_cases)
  case Nil
  with guard have lo: "8 \<le> lo" and nm: "footer_magic m (of_nat lo - 8) \<noteq> HEAP_MAGIC" and a: "a = lo"
    using bl by (simp_all add: guard_below_def)
  have "unat (of_nat (lo - 8) :: u32) = lo - 8" using bound a by (intro unat_of_nat_le) simp
  then have u: "unat (of_nat lo - 8 :: u32) = lo - 8" using lo by simp
  have "footer_magic m1 (of_nat lo - 8) = footer_magic m (of_nat lo - 8)"
    by (rule footer_frame(1) [OF fr]) (unfold u, use lo bound a in auto)
  with nm a show ?thesis by simp
next
  case (snoc bs0 c)
  obtain k where c: "c = (k, False)" using no_hole [of bs0] snoc by (cases c) auto
  define b where "b = lo + extent bs0"
  have k: "20 \<le> k" "header_ok m b k False" "footer_ok m b k" and a: "a = b + k"
    using bl snoc c by (auto simp: blocks_append b_def)
  have "footer_header m1 (of_nat a - 8) = of_nat b"
    using left_footer(2) [OF k(3,1), of "a + n" m1] fr bound a by simp
  moreover have "header_is_hole m1 (of_nat b) = 0"
    using is_hole_after_frame [OF k(2) fr] k(1) bound a by simp
  ultimately show ?thesis by simp
qed

lemma free_alone_inv:
  assumes inv: "heap_inv h m lo (bs1 @ (n, False) # (k2, False) # bs3)"
    and room: "ol_room (m_index h)" and guard: "guard_below m lo bs1"
    and no_hole: "\<And>bs0 k. bs1 \<noteq> bs0 @ [(k, True)]"
    and fin: "free_index (free_merge h m (of_nat (lo + extent bs1 + 12))) = (h', m')"
  shows "heap_inv h' m' lo (bs1 @ (n, True) # (k2, False) # bs3)"
    and "\<exists>m1. free_merge h m (of_nat (lo + extent bs1 + 12)) = (of_nat (lo + extent bs1),
           of_nat (lo + extent bs1 + n - 8), of_nat (lo + extent bs1 + n), True, h, m1)"
    and "\<exists>m1. same_outside (lo + extent bs1) (lo + extent bs1 + n) m m1
           \<and> same_outside (ol_lo (m_index h)) (ol_hi (m_index h)) m1 m'"
proof -
  let ?a = "lo + extent bs1" and ?E = "unat (m_endAddress h)"
  define m1 where "m1 = set_is_hole m (of_nat ?a) True"
  note inv' = heap_invD [OF inv]
  have E: "?E \<le> 4294967295" by (rule unat_le_max32)
  have bl: "blocks m ?E lo bs1 ?a" "blocks m ?E ?a [(n, False)] (?a + n)" "20 \<le> n"
    "header_ok m ?a n False" "header_ok m (?a + n) k2 False" "20 \<le> k2"
    "?a + n + k2 \<le> ?E"
    using inv'(1,7) by (auto simp: blocks_append)
  have fr: "same_outside ?a (?a + n) m m1" and bl1: "blocks m1 ?E ?a [(n, True)] (?a + n)"
    using mark_hole [OF bl(2)] bl(7) E by (simp_all add: m1_def)
  have left: "\<not> (footer_magic m1 (of_nat ?a - 8) = HEAP_MAGIC
      \<and> header_is_hole m1 (footer_header m1 (of_nat ?a - 8)) = 1)"
    by (rule no_left_merge [OF bl(1) guard no_hole fr]) (use bl(7) E in linarith)
  have right: "\<not> (header_magic m1 (of_nat (?a + n)) = HEAP_MAGIC
      \<and> header_is_hole m1 (of_nat (?a + n)) \<noteq> 0)"
    using is_hole_after_frame [OF bl(5) fr] bl(6,7) E by simp
  have fm: "free_merge h m (of_nat (?a + 12)) = (of_nat ?a, of_nat (?a + n - 8), of_nat (?a + n), True, h, m1)"
    unfolding m1_def
    by (rule free_merge_alone) (use bl left right in \<open>simp_all add: m1_def header_ok_def\<close>)
  obtain ix m2 where ins: "Insert (m_index h) m1 (of_nat ?a) = (ix, m2)" by fastforce
  have "blocks m1 ?E lo (bs1 @ [(n, True)] @ (k2, False) # bs3) ?E"
    by (rule blocks_replace [where mid = "[(n, False)]", OF _ E]) (use inv'(1) fr bl1 in simp_all)
  then have "heap_inv (h\<lparr>m_index := ix\<rparr>) m2 lo (bs1 @ (n, True) # (k2, False) # bs3)"
    using free_into_index [OF inv room fr _ ins] by simp
  with fin fm ins show "heap_inv h' m' lo (bs1 @ (n, True) # (k2, False) # bs3)"
    by (simp add: free_index_def)
  show "\<exists>m1. free_merge h m (of_nat (?a + 12)) =
      (of_nat ?a, of_nat (?a + n - 8), of_nat (?a + n), True, h, m1)"
    by (rule exI [of _ m1], rule fm)
  have "m' = m2" using fin fm ins by (simp add: free_index_def)
  with ol.items_ins [OF inv'(2) room ins] fr
  show "\<exists>m1. same_outside ?a (?a + n) m m1 \<and> same_outside (ol_lo (m_index h)) (ol_hi (m_index h)) m1 m'"
    by blast
qed

text \<open>Redirecting the footer at the end of a block does not touch the header of the block before it.\<close>

lemma left_size_kept:
  assumes hd: "header_ok m b k f" and le: "20 \<le> k" "20 \<le> n" "b + k + n \<le> 4294967295"
  shows "header_size (set_footer_header m (of_nat (b + k + n - 8)) v) (of_nat b) = of_nat k"
proof -
  let ?f = "of_nat (b + k + n - 8) :: u32"
  have u: "unat ?f = b + k + n - 8" using le by (intro unat_of_nat_le) simp
  have "same_outside (b + k + n - 8) (b + k + n) m (set_footer_header m ?f v)"
    using set_footer_header_frame [of ?f m v] u le by simp
  then have "header_ok (set_footer_header m ?f v) b k f" using hd le by (subst header_ok_frame) auto
  then show ?thesis by (simp add: header_ok_def)
qed

lemma free_left_inv:
  assumes inv: "heap_inv h m lo ((bs0 @ [(k, True)]) @ (n, False) # (k2, False) # bs3)"
    and fin: "free_index (free_merge h m (of_nat (lo + extent bs0 + k + 12))) = (h', m')"
  shows "heap_inv h' m' lo (bs0 @ (k + n, True) # (k2, False) # bs3)"
    and "\<exists>m1. free_merge h m (of_nat (lo + extent bs0 + k + 12)) = (of_nat (lo + extent bs0),
           of_nat (lo + extent bs0 + k + n - 8), of_nat (lo + extent bs0 + k + n), False, h, m1)"
    and "same_outside (lo + extent bs0) (lo + extent bs0 + k + n) m m'"
proof -
  define b where "b = lo + extent bs0"
  let ?a = "b + k" and ?E = "unat (m_endAddress h)"
  define m1 where "m1 = set_is_hole m (of_nat ?a) True"
  let ?f = "of_nat (?a + n - 8) :: u32"
  define m3 where "m3 = set_size (set_footer_header m1 ?f (of_nat b)) (of_nat b) (of_nat k + of_nat n)"
  note inv' = heap_invD [OF inv]
  have E: "?E \<le> 4294967295" by (rule unat_le_max32)
  have bl: "header_ok m b k True" "footer_ok m b k" "blocks m ?E b [(k, True)] ?a"
    "blocks m ?E ?a [(n, False)] (?a + n)" "20 \<le> k" "20 \<le> n"
    "header_ok m ?a n False" "header_ok m (?a + n) k2 False" "20 \<le> k2" "?a + n + k2 \<le> ?E"
    using inv'(1,7) by (auto simp: blocks_append b_def add.assoc)
  have fr1: "same_outside ?a (?a + n) m m1" and bl1: "blocks m1 ?E ?a [(n, True)] (?a + n)"
    using mark_hole [OF bl(4)] bl(10) E by (simp_all add: m1_def)
  have "blocks m1 ?E b [(k, True)] ?a"
    by (rule blocks_frame [OF fr1 _ bl(3)]) (use bl(10) E in auto)
  with bl1 have both: "blocks m1 ?E b [(k, True), (n, True)] (?a + n)" by simp
  have ft1: "footer_ok m1 ?a n" using bl1 bl(9,10) by auto
  have fr3: "same_outside b (?a + n) m1 m3" and bl3: "blocks m3 ?E b [(k + n, True)] (?a + n)"
    unfolding m3_def by (rule absorb_left [OF both _ ft1]; use bl(10) E in linarith)+
  have fr: "same_outside b (?a + n) m m3"
    using same_outside_mono [OF fr1, of b "?a + n"] fr3 by (auto intro: same_outside_trans)
  have left: "footer_magic m1 (of_nat ?a - 8) = HEAP_MAGIC" "footer_header m1 (of_nat ?a - 8) = of_nat b"
    using left_footer [OF bl(2,5) _ fr1] bl(10) E by simp_all
  have hole: "header_is_hole m1 (of_nat b) = 1"
    using is_hole_after_frame [OF bl(1) fr1] bl(5,10) E by simp
  have size_k: "header_size (set_footer_header m1 ?f (of_nat b)) (of_nat b) = of_nat k"
    by (rule left_size_kept) (use both bl(5,6,10) E in auto)
  have right: "\<not> (header_magic m3 (of_nat (?a + n)) = HEAP_MAGIC \<and> header_is_hole m3 (of_nat (?a + n)) \<noteq> 0)"
    using is_hole_after_frame [OF bl(8) fr] bl(9,10) E by simp
  have fm: "free_merge h m (of_nat (?a + 12)) = (of_nat b, ?f, of_nat (?a + n), False, h, m3)"
    unfolding m3_def m1_def
    by (rule free_merge_left)
       (use bl left hole size_k right in \<open>simp_all only: m1_def m3_def header_ok_def\<close>, simp)
  with fin b_def have res: "h' = h" "m' = m3" by (simp_all add: free_index_def)
  have "blocks m3 ?E lo (bs0 @ [(k + n, True)] @ (k2, False) # bs3) ?E"
    by (rule blocks_replace [where mid = "[(k, True), (n, False)]", OF _ E])
       (use inv'(1) fr bl3 in \<open>simp_all add: b_def add.assoc\<close>)
  moreover have "ol_items (m_index h) m3 = ol_items (m_index h) m"
    by (rule ol.items_frame [OF inv'(2) fr]) (use inv'(3) in \<open>auto simp: b_def\<close>)
  moreover have "holes lo (bs0 @ [(k + n, True)] @ (k2, False) # bs3)
      = holes lo ((bs0 @ [(k, True)]) @ (n, False) # (k2, False) # bs3)"
    by (simp add: add.assoc)
  ultimately show "heap_inv h' m' lo (bs0 @ (k + n, True) # (k2, False) # bs3)"
    using inv' res by (simp add: heap_inv_def)
  show "\<exists>m1. free_merge h m (of_nat (lo + extent bs0 + k + 12)) = (of_nat (lo + extent bs0),
      of_nat (lo + extent bs0 + k + n - 8), of_nat (lo + extent bs0 + k + n), False, h, m1)"
    by (rule exI [of _ m3], rule fm [unfolded b_def])
  show "same_outside (lo + extent bs0) (lo + extent bs0 + k + n) m m'"
    using fr res by (simp add: b_def)
qed


subsection \<open>A hole on the right\<close>

lemma free_merge_right:
  assumes hd: "header_size m (of_nat a) = of_nat n" and n: "8 \<le> n"
  defines "m1 \<equiv> set_is_hole m (of_nat a) True"
  assumes left: "\<not> (footer_magic m1 (of_nat a - 8) = HEAP_MAGIC
       \<and> header_is_hole m1 (footer_header m1 (of_nat a - 8)) = 1)"
    and right: "header_magic m1 (of_nat (a + n)) = HEAP_MAGIC" "header_is_hole m1 (of_nat (a + n)) = 1"
    and k: "header_size m1 (of_nat (a + n)) = of_nat k"
  defines "m2 \<equiv> set_size m1 (of_nat a) (of_nat n + of_nat k)"
  shows "\<exists>i. free_merge h m (of_nat (a + 12)) =
    (of_nat a, of_nat (a + n) + header_size m2 (of_nat (a + n)) - 8, of_nat (a + n), True,
     h\<lparr>m_index := fst (Remove (m_index h) m2 i)\<rparr>, snd (Remove (m_index h) m2 i))
    \<and> i = scan (\<lambda>i. GetItemAtIndex (m_index h) m2 i = of_nat (a + n)) (Size (m_index h)) 0"
proof -
  have p: "of_nat (a + 12) - 12 = (of_nat a :: u32)" by simp
  have f: "of_nat a + of_nat n - 8 = (of_nat (a + n - 8) :: u32)" using n by simp
  have t: "of_nat (a + n - 8) + 8 = (of_nat (a + n) :: u32)" using n by simp
  have hd1: "header_size m1 (of_nat a) = of_nat n" by (simp add: m1_def hd)
  have cond: "header_magic m1 (of_nat (a + n)) = HEAP_MAGIC \<and> header_is_hole m1 (of_nat (a + n)) \<noteq> 0"
    using right by simp
  show ?thesis
    unfolding free_merge_def heap_sizes Let_def p hd f t m1_def [symmetric] if_not_P [OF left]
    by (simp only: prod.case t if_P [OF cond] hd1 k m2_def [symmetric] split_beta fst_conv snd_conv
        prod.inject simp_thms ex_simps) blast
qed

text \<open>The merge with a hole on the right: that hole is found in the index and removed from it.\<close>

lemma free_right_run:
  assumes inv: "heap_inv h m lo (bs1 @ (n, False) # (k, True) # bs2)"
    and guard: "guard_below m lo bs1" and no_hole: "\<And>bs0 k. bs1 \<noteq> bs0 @ [(k, True)]"
    and a: "a = lo + extent bs1"
  defines "m2 \<equiv> set_size (set_is_hole m (of_nat a) True) (of_nat a) (of_nat n + of_nat k)"
  obtains i where "free_merge h m (of_nat (a + 12)) =
      (of_nat a, of_nat (a + n) + header_size m2 (of_nat (a + n)) - 8, of_nat (a + n), True,
       h\<lparr>m_index := fst (Remove (m_index h) m2 i)\<rparr>, snd (Remove (m_index h) m2 i))"
    "i < Size (m_index h)" "ol_items (m_index h) m2 ! unat i = of_nat (a + n)"
    "ol_items (m_index h) m2 = ol_items (m_index h) m" "same_outside a (a + n) m m2"
proof -
  let ?E = "unat (m_endAddress h)"
  define m1 where "m1 = set_is_hole m (of_nat a) True"
  note inv' = heap_invD [OF inv]
  have E: "?E \<le> 4294967295" by (rule unat_le_max32)
  have bl: "blocks m ?E lo bs1 a" "blocks m ?E a [(n, False)] (a + n)" "20 \<le> n" "20 \<le> k"
    "header_ok m a n False" "header_ok m (a + n) k True" "a + n + k \<le> ?E"
    using inv'(1,7) by (auto simp: blocks_append a)
  have fr1: "same_outside a (a + n) m m1"
    using mark_hole(1) [OF bl(2)] bl(7) E by (simp add: m1_def)
  have ua: "unat (of_nat a :: u32) = a" using bl(7) E by (intro unat_of_nat_le) simp
  have "same_outside a (a + 12) m1 m2"
    using set_size_frame [of "of_nat a" m1 "of_nat n + of_nat k"] ua bl(3,7) E by (simp add: m2_def m1_def)
  then have "same_outside a (a + n) m1 m2" by (rule same_outside_mono) (use bl(3) in auto)
  with fr1 have fr2: "same_outside a (a + n) m m2" by (rule same_outside_trans)
  have left: "\<not> (footer_magic m1 (of_nat a - 8) = HEAP_MAGIC
      \<and> header_is_hole m1 (footer_header m1 (of_nat a - 8)) = 1)"
    by (rule no_left_merge [OF bl(1) guard no_hole fr1]) (use bl(7) E in linarith)
  have right: "header_ok m1 (a + n) k True"
    using header_ok_frame [OF fr1, of "a + n"] bl(4,6,7) E by simp
  obtain i where fm: "free_merge h m (of_nat (a + 12)) =
      (of_nat a, of_nat (a + n) + header_size m2 (of_nat (a + n)) - 8, of_nat (a + n), True,
       h\<lparr>m_index := fst (Remove (m_index h) m2 i)\<rparr>, snd (Remove (m_index h) m2 i))"
      and i: "i = scan (\<lambda>i. GetItemAtIndex (m_index h) m2 i = of_nat (a + n)) (Size (m_index h)) 0"
    using free_merge_right [of m a n k h] bl(3,5) left right
    unfolding m2_def m1_def header_ok_def by auto
  have items: "ol_items (m_index h) m2 = ol_items (m_index h) m"
    by (rule ol.items_frame [OF inv'(2) fr2]) (use inv'(3) in \<open>auto simp: a\<close>)
  have "a + n \<in> set (holes lo (bs1 @ (n, False) # (k, True) # bs2))" by (simp add: a)
  then have "of_nat (a + n) \<in> set (ol_items (m_index h) m2)" unfolding items inv'(6) by (rule imageI)
  then have less: "i < Size (m_index h)"
    using ol.search_spec(2) [where ix = "m_index h" and m = m2 and p = "\<lambda>x. x = of_nat (a + n)"] i by blast
  then have "ol_items (m_index h) m2 ! unat i = of_nat (a + n)"
    using ol.search_spec(1) [where ix = "m_index h" and m = m2 and p = "\<lambda>x. x = of_nat (a + n)"] i by blast
  with that fm less items fr2 show thesis by blast
qed

text \<open>
  What the merge with a hole on the right writes: the flag and the size in the header of the freed
  block, and the index.
\<close>

lemma free_right_writes:
  assumes inv: "heap_inv h m lo (bs1 @ (n, False) # (k, True) # bs2)"
    and guard: "guard_below m lo bs1" and no_hole: "\<And>bs0 k. bs1 \<noteq> bs0 @ [(k, True)]"
    and a: "a = lo + extent bs1"
    and fin: "free_merge h m (of_nat (a + 12)) = (header, footer, test, do_add, h', m')"
  defines "m2 \<equiv> set_size (set_is_hole m (of_nat a) True) (of_nat a) (of_nat n + of_nat k)"
  shows "header = of_nat a" and "same_outside a (a + n) m m2"
    and "same_outside (ol_lo (m_index h)) (ol_hi (m_index h)) m2 m'"
proof -
  obtain i where i: "free_merge h m (of_nat (a + 12)) =
      (of_nat a, of_nat (a + n) + header_size m2 (of_nat (a + n)) - 8, of_nat (a + n), True,
       h\<lparr>m_index := fst (Remove (m_index h) m2 i)\<rparr>, snd (Remove (m_index h) m2 i))"
      "i < Size (m_index h)" "same_outside a (a + n) m m2"
    using free_right_run [OF inv guard no_hole a, folded m2_def] by metis
  then show "header = of_nat a" "same_outside a (a + n) m m2" using fin by simp_all
  have "m' = snd (Remove (m_index h) m2 i)" using fin i(1) by simp
  with ol.items_del [OF heap_invD(2) [OF inv] i(2), of m2]
  show "same_outside (ol_lo (m_index h)) (ol_hi (m_index h)) m2 m'" by (metis prod.collapse)
qed

end
