(* ===== verification/Memory_Manager.thy ===== *)
theory Memory_Manager
  imports Page_Frames Heap_Free
begin

text \<open>
  The memory manager as one system: get_page of \<^verbatim>\<open>kernel/paging.cpp\<close>, \<^verbatim>\<open>kernel/kmalloc.cpp\<close> and
  Heap::Alloc, Expand, Contract and Free of \<^verbatim>\<open>kernel/Heap.cpp\<close>. They call one another: Alloc calls
  Expand, which calls get_page, which calls kmalloc for a new page table, which calls Alloc when
  the heap exists. The allocator get_page relies on is therefore a parameter, and Alloc closes
  the cycle with a fuel argument that bounds the depth of the recursion and of the Expand loop.
\<close>

subsection \<open>kmalloc\<close>

text \<open>
  An allocator takes a size and whether the block shall be page aligned. kmalloc returns the
  address, and what it stores through the pointer \<open>phys\<close>: nothing (\<open>None\<close>) when the pointer is
  null or when the heap served the request.
\<close>

type_synonym heap_alloc = "u32 \<Rightarrow> bool \<Rightarrow> kernel \<Rightarrow> fault + (u32 \<times> kernel)"

definition kmalloc_with ::
    "heap_alloc \<Rightarrow> u32 \<Rightarrow> bool \<Rightarrow> bool \<Rightarrow> kernel \<Rightarrow> fault + (u32 \<times> u32 option \<times> kernel)" where
  "kmalloc_with heap_alloc n align phys_wanted s =
     (case kheap s of
        Some h \<Rightarrow> rbind (heap_alloc n align s) (\<lambda>(p, s). Inr (p, None, s))
      | None \<Rightarrow>
          let s = (if align \<and> placement_address s AND 0xFFFFF000 \<noteq> 0
                   then s\<lparr>placement_address := (placement_address s AND 0xFFFFF000) + 0x1000\<rparr> else s);
              phys_out = (if phys_wanted then Some (placement_address s) else None);
              tmp = placement_address s
          in Inr (tmp, phys_out, s\<lparr>placement_address := placement_address s + n\<rparr>))"

definition SetPlacementAddress :: "u32 \<Rightarrow> kernel \<Rightarrow> kernel" where
  "SetPlacementAddress address s = s\<lparr>placement_address := address\<rparr>"

subsection \<open>get_page\<close>

text \<open>
  A PageDirectory has the 1024 table pointers at offset 0, the 1024 physical table entries at
  offset 4096 and its own physical address at offset 8192; it has 8196 bytes, a PageTable 4096.
\<close>

definition sizeof_PageTable :: u32 where "sizeof_PageTable = 4096"
definition sizeof_PageDirectory :: u32 where "sizeof_PageDirectory = 8196"

definition dir_Table :: "memory \<Rightarrow> u32 \<Rightarrow> u32 \<Rightarrow> u32" where
  "dir_Table m dir i = load32 m (dir + 4 * i)"

definition set_dir_Table :: "u32 \<Rightarrow> u32 \<Rightarrow> u32 \<Rightarrow> memory \<Rightarrow> memory" where
  "set_dir_Table dir i t m = store32 m (dir + 4 * i) t"

definition dir_TablePhysical :: "memory \<Rightarrow> u32 \<Rightarrow> u32 \<Rightarrow> u32" where
  "dir_TablePhysical m dir i = load32 m (dir + 4096 + 4 * i)"

definition set_dir_TablePhysical :: "u32 \<Rightarrow> u32 \<Rightarrow> u32 \<Rightarrow> memory \<Rightarrow> memory" where
  "set_dir_TablePhysical dir i t m = store32 m (dir + 4096 + 4 * i) t"

definition dir_PhysicalAddress :: "memory \<Rightarrow> u32 \<Rightarrow> u32" where
  "dir_PhysicalAddress m dir = load32 m (dir + 8192)"

definition set_dir_PhysicalAddress :: "u32 \<Rightarrow> u32 \<Rightarrow> memory \<Rightarrow> memory" where
  "set_dir_PhysicalAddress dir a m = store32 m (dir + 8192) a"

definition page_in_table :: "u32 \<Rightarrow> u32 \<Rightarrow> u32" where
  "page_in_table table address = table + 4 * (address mod 1024)"

definition get_page ::
    "heap_alloc \<Rightarrow> u32 \<Rightarrow> bool \<Rightarrow> u32 \<Rightarrow> kernel \<Rightarrow> fault + (u32 \<times> kernel)" where
  "get_page heap_alloc address mk dir s =
     (let address = address div 0x1000;
          table_idx = address div 1024
      in if dir_Table (ram s) dir table_idx \<noteq> 0
         then Inr (page_in_table (dir_Table (ram s) dir table_idx) address, s)
         else if mk then
           rbind (kmalloc_with heap_alloc sizeof_PageTable True True s) (\<lambda>(p, phys_out, s).
             let tmp = (case phys_out of Some v \<Rightarrow> v | None \<Rightarrow> indeterminate s);
                 s = s\<lparr>ram := set_dir_Table dir table_idx p (ram s)\<rparr>;
                 s = s\<lparr>ram := memset (ram s) (dir_Table (ram s) dir table_idx) 0 0x1000\<rparr>;
                 s = s\<lparr>ram := set_dir_TablePhysical dir table_idx (tmp OR 7) (ram s)\<rparr>
             in Inr (page_in_table (dir_Table (ram s) dir table_idx) address, s))
         else Inr (0, s))"

subsection \<open>Growing the heap\<close>

definition heap_length :: "Heap \<Rightarrow> u32" where
  "heap_length h = m_endAddress h - m_startAddress h"

primrec expand_loop ::
    "nat \<Rightarrow> heap_alloc \<Rightarrow> u32 \<Rightarrow> u32 \<Rightarrow> kernel \<Rightarrow> fault + kernel" where
  "expand_loop 0 heap_alloc new_size i s = Inl OutOfFuel"
| "expand_loop (Suc fuel) heap_alloc new_size i s =
     (if i < new_size then
        (case kheap s of None \<Rightarrow> Inl NullThis | Some h \<Rightarrow>
          rbind (get_page heap_alloc (m_startAddress h + i) True (kernel_directory s) s) (\<lambda>(page, s).
          rbind (alloc_frame page (m_supervisor h) (\<not> m_readonly h) s) (\<lambda>s.
            expand_loop fuel heap_alloc new_size (i + 0x1000) s)))
      else Inr s)"

definition expand_round :: "u32 \<Rightarrow> u32" where
  "expand_round new_size =
     (if new_size AND int_of_bool ((0xFFFFF000 :: u32) \<noteq> 0) \<noteq> 0
      then (new_size AND 0xFFFFF000) + 0x1000 else new_size)"

definition Expand :: "nat \<Rightarrow> heap_alloc \<Rightarrow> u32 \<Rightarrow> kernel \<Rightarrow> fault + kernel" where
  "Expand fuel heap_alloc new_size s =
     (case kheap s of None \<Rightarrow> Inl NullThis | Some h \<Rightarrow>
        let new_size = expand_round new_size;
            old_size = heap_length h
        in rbind (expand_loop fuel heap_alloc new_size old_size s) (\<lambda>s.
             case kheap s of None \<Rightarrow> Inl NullThis | Some h \<Rightarrow>
               Inr (s\<lparr>kheap := Some (h\<lparr>m_endAddress := m_startAddress h + new_size\<rparr>)\<rparr>)))"

text \<open>The scan for the index entry with the highest address: its position, or \<open>-1\<close>.\<close>

function endmost :: "OrderedList \<Rightarrow> memory \<Rightarrow> u32 \<Rightarrow> u32 \<Rightarrow> u32 \<Rightarrow> u32" where
  "endmost ol m iterator idx val =
     (if iterator < Size ol then
        let tmp = GetItemAtIndex ol m iterator
        in if tmp > val then endmost ol m (iterator + 1) iterator tmp
           else endmost ol m (iterator + 1) idx val
      else idx)"
  by pat_completeness auto
termination
  by (relation "measure (\<lambda>(ol, m, iterator, idx, val). unat (Size ol) - unat iterator)")
     (auto simp: unat_plus_one word_less_unat)

declare endmost.simps [simp del]

text \<open>What Alloc does with the new space between two lengths of the heap.\<close>

definition grow_last :: "Heap \<Rightarrow> memory \<Rightarrow> u32 \<Rightarrow> u32 \<Rightarrow> u32 \<Rightarrow> Heap \<times> memory" where
  "grow_last h m old_end old_length new_length =
     (let idx = endmost (m_index h) m 0 (-1) 0
      in if idx = -1 then
           let m = set_header m old_end True (new_length - old_length);
               m = set_footer m (old_end + header_size m old_end - sizeof_Footer) old_end;
               (ix, m) = Insert (m_index h) m old_end
           in (h\<lparr>m_index := ix\<rparr>, m)
         else
           let header = GetItemAtIndex (m_index h) m idx;
               m = set_size m header (header_size m header + (new_length - old_length));
               m = set_footer m (header + header_size m header - sizeof_Footer) header
           in (h, m))"

primrec Alloc :: "nat \<Rightarrow> heap_alloc" where
  "Alloc 0 n page_align s = Inl OutOfFuel"
| "Alloc (Suc fuel) n page_align s =
     (case kheap s of None \<Rightarrow> Inl NullThis | Some h \<Rightarrow>
       let new_size = n + sizeof_Header + sizeof_Footer;
           iterator = FindSmallestHole h (ram s) new_size page_align
       in if iterator = -1 then
            let old_length = heap_length h; old_end = m_endAddress h
            in rbind (Expand fuel (Alloc fuel) (old_length + new_size) s) (\<lambda>s.
                 case kheap s of None \<Rightarrow> Inl NullThis | Some h \<Rightarrow>
                   let (h, m) = grow_last h (ram s) old_end old_length (heap_length h)
                   in Alloc fuel n page_align (s\<lparr>kheap := Some h, ram := m\<rparr>))
          else let (p, h, m) = alloc_in_hole h (ram s) iterator n page_align
               in Inr (p, s\<lparr>kheap := Some h, ram := m\<rparr>))"

definition kmalloc :: "nat \<Rightarrow> u32 \<Rightarrow> bool \<Rightarrow> bool \<Rightarrow> kernel \<Rightarrow> fault + (u32 \<times> u32 option \<times> kernel)" where
  "kmalloc fuel = kmalloc_with (Alloc fuel)"

definition kmalloc_a :: "nat \<Rightarrow> u32 \<Rightarrow> kernel \<Rightarrow> fault + (u32 \<times> u32 option \<times> kernel)" where
  "kmalloc_a fuel n = kmalloc fuel n True False"

definition kmalloc_p :: "nat \<Rightarrow> u32 \<Rightarrow> kernel \<Rightarrow> fault + (u32 \<times> u32 option \<times> kernel)" where
  "kmalloc_p fuel n = kmalloc fuel n False True"

definition kmalloc_ap :: "nat \<Rightarrow> u32 \<Rightarrow> kernel \<Rightarrow> fault + (u32 \<times> u32 option \<times> kernel)" where
  "kmalloc_ap fuel n = kmalloc fuel n True True"

text \<open>The constructor of the ordered list that allocates its elements, pointers of 4 bytes.\<close>

definition OrderedList_new ::
    "nat \<Rightarrow> u32 \<Rightarrow> (memory \<Rightarrow> u32 \<Rightarrow> u32 \<Rightarrow> bool) \<Rightarrow> kernel \<Rightarrow> fault + (OrderedList \<times> kernel)" where
  "OrderedList_new fuel max_size is_less s =
     rbind (kmalloc fuel (max_size * 4) False False s) (\<lambda>(p, _, s).
       let s = s\<lparr>ram := memset (ram s) p 0 (max_size * 4)\<rparr>
       in Inr (\<lparr>m_elements = p, m_size = 0, m_maxSize = max_size, m_lessThanPredicate = is_less\<rparr>, s))"

subsection \<open>Shrinking the heap\<close>

definition contract_round :: "u32 \<Rightarrow> u32" where
  "contract_round new_size =
     (let new_size = (if new_size AND 0x1000 \<noteq> 0 then (new_size AND 0x1000) + 0x1000 else new_size)
      in if new_size < HEAP_MIN_SIZE then HEAP_MIN_SIZE else new_size)"

primrec contract_loop :: "nat \<Rightarrow> u32 \<Rightarrow> u32 \<Rightarrow> kernel \<Rightarrow> fault + kernel" where
  "contract_loop 0 new_size i s = Inl OutOfFuel"
| "contract_loop (Suc fuel) new_size i s =
     (if new_size < i then
        (case kheap s of None \<Rightarrow> Inl NullThis | Some h \<Rightarrow>
          rbind (get_page (Alloc 0) (m_startAddress h + i) False (kernel_directory s) s) (\<lambda>(page, s).
            contract_loop fuel new_size (i - 0x1000) (free_frame page s)))
      else Inr s)"

definition Contract :: "u32 \<Rightarrow> kernel \<Rightarrow> fault + (u32 \<times> kernel)" where
  "Contract new_size s =
     (case kheap s of None \<Rightarrow> Inl NullThis | Some h \<Rightarrow>
        let new_size = contract_round new_size;
            i = heap_length h - 0x1000
        in rbind (contract_loop (Suc (unat i)) new_size i s) (\<lambda>s.
             case kheap s of None \<Rightarrow> Inl NullThis | Some h \<Rightarrow>
               Inr (new_size, s\<lparr>kheap := Some (h\<lparr>m_endAddress := m_startAddress h + new_size\<rparr>)\<rparr>)))"

text \<open>
  Free. The loop that should remove the vanishing hole from the index looks for the header to the
  right of the freed block, as the source does.
\<close>

definition Free :: "u32 \<Rightarrow> kernel \<Rightarrow> fault + kernel" where
  "Free p s =
     (case kheap s of None \<Rightarrow> Inl NullThis | Some h \<Rightarrow>
      if p = 0 then Inr s else
        let (header, footer, test_header, do_add, h, m) = free_merge h (ram s) p;
            s = s\<lparr>kheap := Some h, ram := m\<rparr>
        in rbind
            (if footer + sizeof_Footer = m_endAddress h then
               let old_length = heap_length h
               in rbind (Contract (header - m_startAddress h) s) (\<lambda>(new_length, s).
                    case kheap s of None \<Rightarrow> Inl NullThis | Some h \<Rightarrow>
                      let m = ram s
                      in if header_size m header - (old_length - new_length) > 0 then
                           let m = set_size m header (header_size m header - (old_length - new_length));
                               m = set_footer m (header + header_size m header - sizeof_Footer) header
                           in Inr (s\<lparr>ram := m\<rparr>)
                         else
                           let iterator = scan (\<lambda>i. GetItemAtIndex (m_index h) m i = test_header)
                                            (Size (m_index h)) 0
                           in if iterator < Size (m_index h)
                              then let (ix, m) = Remove (m_index h) m iterator
                                   in Inr (s\<lparr>kheap := Some (h\<lparr>m_index := ix\<rparr>), ram := m\<rparr>)
                              else Inr s)
             else Inr s)
            (\<lambda>s. case kheap s of None \<Rightarrow> Inl NullThis | Some h \<Rightarrow>
               if do_add
               then let (ix, m) = Insert (m_index h) (ram s) header
                    in Inr (s\<lparr>kheap := Some (h\<lparr>m_index := ix\<rparr>), ram := m\<rparr>)
               else Inr s))"

definition kfree :: "u32 \<Rightarrow> kernel \<Rightarrow> fault + kernel" where
  "kfree ptr s = (case kheap s of Some h \<Rightarrow> Free ptr s | None \<Rightarrow> Inr s)"

end
