(* ===== verification/Heap_Properties.thy ===== *)
theory Heap_Properties
  imports Memory_Manager
begin

text \<open>
  What the kernel heap guarantees its callers: the constructor establishes the heap invariant, the
  search finds the tightest hole of a sorted index, Alloc hands out a block of a hole and keeps the
  invariant, and Free gives a block back. The last section states where the code of
  \<^verbatim>\<open>kernel/Heap.cpp\<close> leaves the invariant.
\<close>

subsection \<open>The constructor\<close>

lemma even_iff_low_bit: "(p :: u32) AND 1 = 0 \<longleftrightarrow> even p"
  by (simp add: and_one_eq even_iff_mod_2_eq_zero)

lemma Heap_init_eq:
  assumes "even start"
  shows "Heap_init junk start end_addr max_addr supervisor readonly m =
    (let a = start + 0x80000;
         ix = \<lparr>m_elements = start, m_size = 0, m_maxSize = 0x20000, m_lessThanPredicate = HeaderLessThan\<rparr>;
         (ix', m') = Insert ix (set_header (memset m start 0 0x80000) a True (end_addr - a)) a
     in (junk\<lparr>m_index := ix', m_startAddress := max_addr, m_endAddress := end_addr\<rparr>, m'))"
proof -
  have "(start + 0x80000) AND 1 = 0" using assms by (simp add: even_iff_low_bit)
  then show ?thesis
    by (simp add: Heap_init_def OrderedList_at_def HEAP_INDEX_SIZE_def int_of_bool_def Let_def
        split: prod.split)
qed

lemma Insert_object: "fst (Insert ol m x) = ol\<lparr>m_size := m_size ol + 1\<rparr>"
  by (simp add: Insert_def Let_def)

lemma Heap_init_heap_inv:
  assumes "even start" and fits: "unat start + 0x80000 + 20 \<le> unat end_addr"
    and init: "Heap_init junk start end_addr max_addr supervisor readonly m = (h, m')"
  shows "heap_inv h m' (unat start + 0x80000) [(unat end_addr - (unat start + 0x80000), True)]"
    and "m_endAddress h = end_addr" and "m_startAddress h = max_addr" and "m_elements (m_index h) = start"
    and "ol_room (m_index h)" and "m_maxSize (m_index h) = 0x20000" and "same_outside (unat start) (unat end_addr) m m'"
proof -
  define a where "a = unat start + 0x80000"
  let ?ix = "\<lparr>m_elements = start, m_size = 0, m_maxSize = 0x20000, m_lessThanPredicate = HeaderLessThan\<rparr>"
  let ?m1 = "set_header (memset m start 0 0x80000) (of_nat a) True (end_addr - of_nat a)"
  have E: "unat end_addr \<le> 4294967295" by (rule unat_le_max32)
  have a: "start + 0x80000 = of_nat a" by (simp add: a_def)
  obtain ix' where ins: "Insert ?ix ?m1 (of_nat a) = (ix', m')"
    and h: "h = junk\<lparr>m_index := ix', m_startAddress := max_addr, m_endAddress := end_addr\<rparr>"
    using init unfolding Heap_init_eq [OF assms(1)] Let_def a by (auto split: prod.splits)
  have wf: "ol_wf ?ix" "ol_room ?ix" "ol_hi ?ix = a" "ol_lo ?ix = unat start"
    using fits E by (simp_all add: ol_wf_def ol_room_def arr_wf_def handle_def ol_hi_def ol_lo_def a_def)
  have it: "ol_items ix' m' = [of_nat a]" "ol_wf ix'" and fr: "same_outside (unat start) a ?m1 m'"
    using ol.items_ins [OF wf(1,2) ins] wf by (simp_all add: place_def ol_items_def)
  have keeps: "m_lessThanPredicate ix' = HeaderLessThan" "ol_hi ix' = a"
    using ol.ins_keeps [OF ins] wf by simp_all
  have n: "end_addr - of_nat a = of_nat (unat end_addr - a)" using fits by (simp add: a_def)
  have "header_ok ?m1 a (unat end_addr - a) True" unfolding header_ok_def n by simp
  then have "header_ok m' a (unat end_addr - a) True"
    using header_ok_frame [OF fr, of a] fits E by (simp add: a_def)
  with it keeps h fits
  show "heap_inv h m' (unat start + 0x80000) [(unat end_addr - (unat start + 0x80000), True)]"
    by (simp add: heap_inv_def a_def)
  show "m_endAddress h = end_addr" and "m_startAddress h = max_addr" using h by simp_all
  show "m_elements (m_index h) = start" "ol_room (m_index h)" "m_maxSize (m_index h) = 0x20000"
    unfolding h using arg_cong [OF ins, of fst] by (auto simp: Insert_object ol_room_def)
  have ua: "unat (of_nat a :: u32) = a" using fits E by (intro unat_of_nat_le) (simp add: a_def)
  have "same_outside a (a + 12) (memset m start 0 0x80000) ?m1"
    using set_header_frame [of "of_nat a" "memset m start 0 0x80000" True "end_addr - of_nat a"] fits E
    unfolding ua by (simp add: a_def)
  then have "same_outside (unat start) (unat end_addr) (memset m start 0 0x80000) ?m1"
    by (rule same_outside_mono) (use fits in \<open>simp_all add: a_def\<close>)
  moreover have "same_outside (unat start) (unat start + 0x80000) m (memset m start 0 0x80000)"
    using memset_frame [of start "0x80000" m 0] fits E by simp
  then have "same_outside (unat start) (unat end_addr) m (memset m start 0 0x80000)"
    by (rule same_outside_mono) (use fits in simp_all)
  moreover have "same_outside (unat start) (unat end_addr) ?m1 m'"
    using fr by (rule same_outside_mono) (use fits in \<open>simp_all add: a_def\<close>)
  ultimately show "same_outside (unat start) (unat end_addr) m m'" by (blast intro: same_outside_trans)
qed

text \<open>
  C6: built at an even address with room for its index and one block, the heap object and the memory
  satisfy the heap invariant with a single hole that reaches from the end of the index to the end
  address. The member m_startAddress, however, holds the maximal address.
\<close>

theorem Heap_init_inv:
  assumes "even start" and fits: "unat start + 0x80000 + 20 \<le> unat end_addr"
    and init: "Heap_init junk start end_addr max_addr supervisor readonly m = (h, m')"
  shows "heap_inv h m' (unat start + 0x80000) [(unat end_addr - (unat start + 0x80000), True)]
    \<and> m_endAddress h = end_addr \<and> m_startAddress h = max_addr"
  using Heap_init_heap_inv [OF assms] by blast

text \<open>A heap of one page beyond its index, built in zeroed memory; further witnesses use it.\<close>

definition demo_junk :: Heap where
  "demo_junk = \<lparr>m_index = \<lparr>m_elements = 0, m_size = 0, m_maxSize = 0, m_lessThanPredicate = HeaderLessThan\<rparr>,
     m_startAddress = 0, m_endAddress = 0, m_maxAddress = 0, m_supervisor = False, m_readonly = False\<rparr>"

theorem Heap_init_inv_witness:
  "\<exists>h m'. Heap_init demo_junk KHEAP_START (KHEAP_START + KHEAP_INITIAL_SIZE) 0xCFFFF000 False False
       (\<lambda>_. 0) = (h, m') \<and> heap_inv h m' 0xC0080000 [(0x80000, True)]"
proof -
  obtain h m' where i: "Heap_init demo_junk KHEAP_START (KHEAP_START + KHEAP_INITIAL_SIZE) 0xCFFFF000
      False False (\<lambda>_. 0) = (h, m')" by fastforce
  with Heap_init_inv [OF _ _ i] show ?thesis by (simp add: KHEAP_START_def KHEAP_INITIAL_SIZE_def)
qed

subsection \<open>Searching for a hole\<close>

text \<open>
  C23: when the index is sorted by the sizes of its holes, FindSmallestHole returns the position of a
  hole that is large enough and no larger than any other hole that is large enough; it returns
  \<open>-1\<close> only if no hole of the index is large enough.
\<close>

theorem FindSmallestHole_smallest:
  assumes sorted: "sorted (map (header_size m) (ol_items (m_index h) m))"
    and cap: "Size (m_index h) \<noteq> -1"
  shows "if FindSmallestHole h m n False = -1
    then \<forall>x \<in> set (ol_items (m_index h) m). header_size m x < n
    else let hole = GetItemAtIndex (m_index h) m (FindSmallestHole h m n False)
         in hole \<in> set (ol_items (m_index h) m) \<and> n \<le> header_size m hole
            \<and> (\<forall>x \<in> set (ol_items (m_index h) m).
                 n \<le> header_size m x \<longrightarrow> header_size m hole \<le> header_size m x)"
proof (cases "FindSmallestHole h m n False = -1")
  case True
  with FindSmallestHole_none [OF True cap] show ?thesis by (auto simp: hole_fits_def)
next
  case False
  define i where "i = FindSmallestHole h m n False"
  let ?xs = "ol_items (m_index h) m"
  note f = FindSmallestHole_found [OF i_def [symmetric] False [folded i_def]]
  have len: "unat i < length ?xs" using f(1) ol.size_items [of "m_index h" m] by (simp add: word_less_unat)
  have "header_size m (?xs ! unat i) \<le> header_size m (?xs ! j)"
    if "j < length ?xs" "n \<le> header_size m (?xs ! j)" for j
  proof -
    have "unat i \<le> j" using f(3) that(2) by (auto simp: hole_fits_def not_le [symmetric])
    with sorted that(1) show ?thesis using sorted_nth_mono [of "map (header_size m) ?xs" "unat i" j] by simp
  qed
  then have "\<forall>x \<in> set ?xs. n \<le> header_size m x \<longrightarrow> header_size m (?xs ! unat i) \<le> header_size m x"
    by (auto simp: in_set_conv_nth)
  with False len f(2) show ?thesis
    by (simp add: ol.get_items [OF f(1)] hole_fits_def Let_def i_def [symmetric])
qed

definition demo_heap :: Heap where
  "demo_heap = demo_junk\<lparr>m_index := demo_list\<lparr>m_lessThanPredicate := HeaderLessThan\<rparr>\<rparr>"

theorem FindSmallestHole_smallest_witness:
  "sorted (map (header_size (\<lambda>_. 1)) (ol_items (m_index demo_heap) (\<lambda>_. 1)))
   \<and> FindSmallestHole demo_heap (\<lambda>_. 1) 16 False = 0
   \<and> 16 \<le> header_size (\<lambda>_. 1) (GetItemAtIndex (m_index demo_heap) (\<lambda>_. 1) 0)"
proof -
  have f: "FindSmallestHole demo_heap (\<lambda>_. 1) 16 False = 0"
    by (simp add: FindSmallestHole_def demo_heap_def demo_list_def Size_def scan.simps hole_fits_def
        header_size_def load32_def GetItemAtIndex_def)
  have s: "sorted (map (header_size (\<lambda>_. 1)) (ol_items (m_index demo_heap) (\<lambda>_. 1)))"
    by (simp add: ol_items_def demo_heap_def demo_list_def)
  show ?thesis
    using FindSmallestHole_smallest [OF s, of 16] s f
    by (simp add: Size_def demo_heap_def demo_list_def Let_def)
qed

subsection \<open>Alloc\<close>

lemma Alloc_found:
  assumes "kheap s = Some h" and "FindSmallestHole h (ram s) (n + 20) align \<noteq> -1"
    and "alloc_in_hole h (ram s) (FindSmallestHole h (ram s) (n + 20) align) n align = (p, h', m')"
  shows "Alloc (Suc fuel) n align s = Inr (p, s\<lparr>kheap := Some h', ram := m'\<rparr>)"
  using assms by (simp add: heap_sizes Let_def add.assoc)

lemma alloc_hole_frame:
  assumes "\<exists>m0. same_outside a b m m0 \<and> (\<exists>m1. same_outside c d m0 m1 \<and> same_outside a b m1 m')"
    and "unat x < a \<or> b \<le> unat x" and "unat x < c \<or> d \<le> unat x"
  shows "m' x = m x"
  using assms by (metis same_outside_byte)

lemma hole_fits_size:
  assumes "hole_fits m (of_nat k + 20) False x" and "k + 20 \<le> 4294967295"
    and "header_size m x = of_nat n" and "n \<le> 4294967295"
  shows "k + 20 \<le> n"
proof -
  have "unat (of_nat (k + 20) :: u32) = k + 20" "unat (of_nat n :: u32) = n"
    using assms(2,4) by (intro unat_of_nat_le; simp)+
  with assms(1,3) show ?thesis by (simp add: hole_fits_def word_le_unat)
qed

lemma large_hole_found:
  assumes inv: "heap_inv h m lo bs" and n: "(n, True) \<in> set bs" and fits: "k + 20 \<le> n"
  shows "FindSmallestHole h m (of_nat k + 20) False \<noteq> -1"
proof
  assume none: "FindSmallestHole h m (of_nat k + 20) False = -1"
  note inv' = heap_invD [OF inv]
  have "unat (Size (m_index h)) \<noteq> 4294967295"
    using inv'(2) by (auto simp: ol_wf_def arr_wf_def handle_def Size_def word_le_unat)
  then have "Size (m_index h) \<noteq> -1" by (auto simp: word_eq_unat)
  note no = FindSmallestHole_none [OF none this]
  obtain bs1 bs2 where bs: "bs = bs1 @ (n, True) # bs2" using n split_list by metis
  define a where "a = lo + extent bs1"
  have "a \<in> set (holes lo bs)" by (simp add: bs a_def)
  then have "of_nat a \<in> set (ol_items (m_index h) m)" unfolding inv'(6) by (rule imageI)
  from bspec [OF no this] have small: "header_size m (of_nat a) < of_nat (k + 20)"
    by (simp add: hole_fits_def)
  have size: "header_size m (of_nat a) = of_nat n"
    using inv'(1) by (simp add: bs blocks_append header_ok_def a_def)
  have le: "n \<le> 4294967295" using inv'(7) bs unat_le_max32 [of "m_endAddress h"] by simp
  then have "k + 20 \<le> 4294967295" using fits by linarith
  then have "unat (of_nat (k + 20) :: u32) = k + 20" by (rule unat_of_nat_le)
  moreover have "unat (of_nat n :: u32) = n" using le by (rule unat_of_nat_le)
  ultimately show False using small fits unfolding size word_less_unat by linarith
qed

lemma Alloc_spec:
  assumes heap: "kheap s = Some h" and inv: "heap_inv h (ram s) lo bs"
    and hole: "(n0, True) \<in> set bs" and large: "k + 20 \<le> n0"
  shows "\<exists>p s' h' bs1 n bs2. Alloc (Suc fuel) (of_nat k) False s = Inr (p, s')
    \<and> bs = bs1 @ (n, True) # bs2 \<and> k + 20 \<le> n \<and> p = of_nat (lo + extent bs1 + 12)
    \<and> kheap s' = Some h' \<and> heap_inv h' (ram s') lo (bs1 @ carve (k + 20) n @ bs2)
    \<and> (\<forall>x. (unat x < ol_lo (m_index h) \<or> ol_hi (m_index h) \<le> unat x)
          \<and> (unat x < lo + extent bs1 \<or> lo + extent bs1 + n \<le> unat x) \<longrightarrow> ram s' x = ram s x)
    \<and> (n - (k + 20) < 20 \<longrightarrow> ol_room (m_index h'))"
proof -
  note found = large_hole_found [OF inv hole large]
  define i where "i = FindSmallestHole h (ram s) (of_nat k + 20) False"
  note f = FindSmallestHole_found [OF i_def [symmetric] found [folded i_def]]
  obtain bs1 n bs2 where bs: "bs = bs1 @ (n, True) # bs2"
      and P: "GetItemAtIndex (m_index h) (ram s) i = of_nat (lo + extent bs1)"
      and N: "header_size (ram s) (of_nat (lo + extent bs1)) = of_nat n"
    using hole_in_index [OF inv f(1)] by blast
  have le: "n \<le> 4294967295"
    using heap_invD(7) [OF inv] bs unat_le_max32 [of "m_endAddress h"] by simp
  have "n0 \<le> extent bs" using hole by (auto dest: split_list)
  then have k: "k + 20 \<le> 4294967295"
    using heap_invD(7) [OF inv] unat_le_max32 [of "m_endAddress h"] large by linarith
  have "hole_fits (ram s) (of_nat k + 20) False (of_nat (lo + extent bs1))"
    using f(2) unfolding ol.get_items [OF f(1), symmetric] P .
  from hole_fits_size [OF this k N le] have fits: "k + 20 \<le> n" .
  obtain p h' m' where r: "alloc_in_hole h (ram s) i (of_nat k) False = (p, h', m')"
    using prod_cases3 by blast
  note A = alloc_hole_inv [OF inv f(1) bs P N fits r]
  have "Alloc (Suc fuel) (of_nat k) False s = Inr (p, s\<lparr>kheap := Some h', ram := m'\<rparr>)"
    by (rule Alloc_found [OF heap]) (use found r i_def in auto)
  moreover have "m' x = ram s x" if "unat x < ol_lo (m_index h) \<or> ol_hi (m_index h) \<le> unat x"
      "unat x < lo + extent bs1 \<or> lo + extent bs1 + n \<le> unat x" for x
    using A(3) that by (rule alloc_hole_frame)
  ultimately show ?thesis
    using bs fits A(1,2,5)
    by (intro exI [of _ p] exI [of _ "s\<lparr>kheap := Some h', ram := m'\<rparr>"] exI [of _ h'] exI [of _ bs1]
        exI [of _ n] exI [of _ bs2]) simp
qed

text \<open>
  C3: a request whose size does not overflow and for which the heap has a hole succeeds: Alloc
  returns the address behind the header of that hole, the hole is replaced in the tiling of the heap
  by a used block of at least the requested size and, if enough remains, a smaller hole, the
  invariant is kept, and no byte outside that hole and the index changes.
\<close>

theorem Alloc_keeps_invariant:
  assumes heap: "kheap s = Some h" and inv: "heap_inv h (ram s) lo bs"
    and hole: "(n0, True) \<in> set bs" and large: "k + 20 \<le> n0"
  shows "\<exists>p s' h' bs1 n bs2. Alloc (Suc fuel) (of_nat k) False s = Inr (p, s')
    \<and> bs = bs1 @ (n, True) # bs2 \<and> k + 20 \<le> n \<and> p = of_nat (lo + extent bs1 + 12)
    \<and> kheap s' = Some h' \<and> heap_inv h' (ram s') lo (bs1 @ carve (k + 20) n @ bs2)
    \<and> (\<forall>x. (unat x < ol_lo (m_index h) \<or> ol_hi (m_index h) \<le> unat x)
          \<and> (unat x < lo + extent bs1 \<or> lo + extent bs1 + n \<le> unat x) \<longrightarrow> ram s' x = ram s x)"
  using Alloc_spec [OF assms, of fuel] by blast

text \<open>The kernel state right after initialise_paging created the heap, on zeroed memory.\<close>

definition boot_heap :: "Heap \<times> memory" where
  "boot_heap = Heap_init demo_junk KHEAP_START (KHEAP_START + KHEAP_INITIAL_SIZE) 0xCFFFF000 False False (\<lambda>_. 0)"

definition boot_kernel :: kernel where
  "boot_kernel = (empty_bitmap_kernel (snd boot_heap))\<lparr>kheap := Some (fst boot_heap)\<rparr>"

lemma boot_kernel_inv:
  "heap_inv (fst boot_heap) (ram boot_kernel) 0xC0080000 [(0x80000, True)]"
  "kheap boot_kernel = Some (fst boot_heap)"
proof -
  have "unat (KHEAP_START + KHEAP_INITIAL_SIZE) - (unat KHEAP_START + 0x80000) = 0x80000"
      "unat KHEAP_START + 0x80000 = 0xC0080000"
    by (simp_all add: KHEAP_START_def KHEAP_INITIAL_SIZE_def)
  moreover have init: "Heap_init demo_junk KHEAP_START (KHEAP_START + KHEAP_INITIAL_SIZE) 0xCFFFF000
      False False (\<lambda>_. 0) = (fst boot_heap, snd boot_heap)"
    by (simp add: boot_heap_def)
  moreover have "even KHEAP_START" "unat KHEAP_START + 0x80000 + 20 \<le> unat (KHEAP_START + KHEAP_INITIAL_SIZE)"
    by (simp_all add: KHEAP_START_def KHEAP_INITIAL_SIZE_def)
  note Heap_init_heap_inv(1) [OF this init]
  ultimately show "heap_inv (fst boot_heap) (ram boot_kernel) 0xC0080000 [(0x80000, True)]"
    by (simp add: boot_kernel_def empty_bitmap_kernel_def)
qed (simp add: boot_kernel_def)

theorem Alloc_keeps_invariant_witness:
  "\<exists>s' h'. Alloc 1 100 False boot_kernel = Inr (0xC008000C, s')
     \<and> kheap s' = Some h' \<and> heap_inv h' (ram s') 0xC0080000 [(120, False), (0x80000 - 120, True)]"
proof -
  have "((0x80000 :: nat), True) \<in> set [(0x80000, True)]" "100 + 20 \<le> (0x80000 :: nat)" by simp_all
  from Alloc_keeps_invariant [OF boot_kernel_inv(2,1) this, of 0]
  obtain p s' h' bs1 n bs2 where r: "Alloc 1 100 False boot_kernel = Inr (p, s')"
      "[(0x80000, True)] = bs1 @ (n, True) # bs2" "p = of_nat (0xC0080000 + extent bs1 + 12)"
      "kheap s' = Some h'" "heap_inv h' (ram s') 0xC0080000 (bs1 @ carve (100 + 20) n @ bs2)"
    by (auto simp del: Alloc.simps)
  moreover have "bs1 = []" "n = 0x80000" "bs2 = []" using r(2) by (cases bs1; simp)+
  ultimately show ?thesis by (simp add: carve_def del: Alloc.simps)
qed

subsection \<open>Free\<close>

lemma Free_inside:
  assumes "kheap s = Some h" and "p \<noteq> 0"
    and "free_merge h (ram s) p = (header, footer, test_header, do_add, h, m1)"
    and "footer + 8 \<noteq> m_endAddress h"
    and "free_index (free_merge h (ram s) p) = (h', m')"
  shows "Free p s = Inr (s\<lparr>kheap := Some h', ram := m'\<rparr>)"
  using assms by (auto simp: Free_def free_index_def heap_sizes Let_def split: prod.splits)

lemma freed_not_last:
  assumes "a + n + k2 \<le> unat (e :: u32)" and "20 \<le> n" and "20 \<le> k2"
  shows "(of_nat (a + n - 8) :: u32) + 8 \<noteq> e" and "of_nat (a + 12) \<noteq> (0 :: u32)"
proof -
  have e: "unat e \<le> 4294967295" by (rule unat_le_max32)
  have "(of_nat (a + n - 8) :: u32) + 8 = of_nat (a + n)" using assms(2) by simp
  moreover have "unat (of_nat (a + n) :: u32) = a + n" using assms e by (intro unat_of_nat_le) linarith
  ultimately show "(of_nat (a + n - 8) :: u32) + 8 \<noteq> e" using assms(1,3) by auto
  have "unat (of_nat (a + 12) :: u32) = a + 12" using assms e by (intro unat_of_nat_le) linarith
  then show "of_nat (a + 12) \<noteq> (0 :: u32)" by (auto simp del: of_nat_add)
qed

lemma coalesce_cases:
  obtains bs0 k where "bs1 = bs0 @ [(k, True)]" and "\<And>n. coalesce bs1 n = bs0 @ [(k + n, True)]"
  | "\<And>bs0 k. bs1 \<noteq> bs0 @ [(k, True)]" and "\<And>n. coalesce bs1 n = bs1 @ [(n, True)]"
proof (cases bs1 rule: rev_cases)
  case Nil
  with that(2) show thesis by (simp add: coalesce_def)
next
  case (snoc ys c)
  with that show thesis by (cases c; cases "snd c") (auto simp: coalesce_def)
qed

lemma Free_spec:
  assumes heap: "kheap s = Some h"
    and inv: "heap_inv h (ram s) lo (bs1 @ (n, False) # (k2, False) # bs3)"
    and room: "ol_room (m_index h)" and guard: "guard_below (ram s) lo bs1"
  shows "\<exists>s' h'. Free (of_nat (lo + extent bs1 + 12)) s = Inr s' \<and> kheap s' = Some h'
    \<and> heap_inv h' (ram s') lo (coalesce bs1 n @ (k2, False) # bs3)
    \<and> (\<forall>x. (unat x < ol_lo (m_index h) \<or> ol_hi (m_index h) \<le> unat x)
          \<and> (unat x < lo + extent (butlast (coalesce bs1 n)) \<or> lo + extent bs1 + n \<le> unat x)
          \<longrightarrow> ram s' x = ram s x)"
proof -
  define a where "a = lo + extent bs1"
  let ?p = "of_nat (a + 12) :: u32"
  have b: "a + n + k2 \<le> unat (m_endAddress h)" "20 \<le> n" "20 \<le> k2"
    using heap_invD(1,7) [OF inv] by (auto simp: blocks_append a_def)
  note last = freed_not_last [OF b]
  obtain h' m' where fin: "free_index (free_merge h (ram s) ?p) = (h', m')" by fastforce
  show ?thesis
  proof (cases bs1 rule: coalesce_cases)
    case (1 bs0 k)
    then have a: "a = lo + extent bs0 + k" by (simp add: a_def)
    note L = free_left_inv [OF inv [unfolded 1(1)] fin [unfolded a]]
    obtain m1 where fm: "free_merge h (ram s) ?p
        = (of_nat (lo + extent bs0), of_nat (a + n - 8), of_nat (a + n), False, h, m1)"
      using L(2) unfolding a by blast
    have "Free ?p s = Inr (s\<lparr>kheap := Some h', ram := m'\<rparr>)"
      by (rule Free_inside [OF heap last(2) fm last(1) fin])
    with L(1,3) show ?thesis
      by (intro exI [of _ "s\<lparr>kheap := Some h', ram := m'\<rparr>"] exI [of _ h'])
         (auto simp: 1(2) [unfolded 1(1)] 1(1) a_def add.assoc same_outside_def)
  next
    case 2
    note L = free_alone_inv [OF inv room guard 2(1) fin [unfolded a_def]]
    obtain m1 where fm: "free_merge h (ram s) ?p
        = (of_nat a, of_nat (a + n - 8), of_nat (a + n), True, h, m1)"
      using L(2) unfolding a_def by blast
    have "Free ?p s = Inr (s\<lparr>kheap := Some h', ram := m'\<rparr>)"
      by (rule Free_inside [OF heap last(2) fm last(1) fin])
    with L(1,3) show ?thesis
      by (intro exI [of _ "s\<lparr>kheap := Some h', ram := m'\<rparr>"] exI [of _ h'])
         (auto simp: 2(2) a_def same_outside_def)
  qed
qed

text \<open>
  C4: freeing a used block whose right neighbour is in use succeeds and keeps the heap invariant:
  the block becomes a hole of its own or is merged with the hole on its left, and apart from that
  block, the hole on its left and the index no byte of memory changes.
\<close>

theorem Free_keeps_invariant:
  assumes heap: "kheap s = Some h"
    and inv: "heap_inv h (ram s) lo (bs1 @ (n, False) # (k2, False) # bs3)"
    and room: "ol_room (m_index h)" and guard: "guard_below (ram s) lo bs1"
  shows "\<exists>s' h'. Free (of_nat (lo + extent bs1 + 12)) s = Inr s' \<and> kheap s' = Some h'
    \<and> heap_inv h' (ram s') lo (coalesce bs1 n @ (k2, False) # bs3)
    \<and> (\<forall>x. (unat x < ol_lo (m_index h) \<or> ol_hi (m_index h) \<le> unat x)
          \<and> (unat x < lo + extent (butlast (coalesce bs1 n)) \<or> lo + extent bs1 + n \<le> unat x)
          \<longrightarrow> ram s' x = ram s x)"
  using assms by (rule Free_spec)

text \<open>Heaps with given blocks, for the witnesses: the blocks are written one after the other.\<close>

fun write_blocks :: "memory \<Rightarrow> nat \<Rightarrow> block list \<Rightarrow> memory" where
  "write_blocks m a [] = m"
| "write_blocks m a ((n, hole) # bs) = write_blocks (write_block m a n hole) (a + n) bs"

lemma write_blocks_both:
  "\<forall>b \<in> set bs. 20 \<le> fst b \<Longrightarrow> a + extent bs \<le> 4294967295 \<Longrightarrow>
   same_outside a (a + extent bs) m (write_blocks m a bs)
     \<and> blocks (write_blocks m a bs) E a bs (a + extent bs)"
proof (induction bs arbitrary: a m)
  case (Cons b bs)
  obtain n hole where b: "b = (n, hole)" by fastforce
  let ?m = "write_block m a n hole"
  have n: "20 \<le> n" "a + n \<le> 4294967295" using Cons.prems b by auto
  have fr1: "same_outside a (a + n) m ?m" using n by (rule write_block_frame)
  have fr2: "same_outside (a + n) (a + n + extent bs) ?m (write_blocks ?m (a + n) bs)"
    and bl2: "blocks (write_blocks ?m (a + n) bs) E (a + n) bs (a + n + extent bs)"
    using Cons.IH [of "a + n" ?m] Cons.prems b by auto
  have "same_outside a (a + n + extent bs) m (write_blocks ?m (a + n) bs)"
    using same_outside_mono [OF fr1, of a "a + n + extent bs"]
      same_outside_mono [OF fr2, of a "a + n + extent bs"]
    by (auto intro: same_outside_trans)
  moreover have "blocks (write_blocks ?m (a + n) bs) E a [(n, hole)] (a + n)"
    by (rule blocks_frame [OF fr2 _ write_block_blocks [OF n]]) (use n in auto)
  ultimately show ?case using bl2 b by (simp add: add.assoc)
qed simp

lemmas write_blocks_ok = write_blocks_both [THEN conjunct1] write_blocks_both [THEN conjunct2]

text \<open>A small heap at 0x2000 with its index of up to four entries at 0x1000.\<close>

definition small_index :: "u32 \<Rightarrow> OrderedList" where
  "small_index n = \<lparr>m_elements = 0x1000, m_size = n, m_maxSize = 4, m_lessThanPredicate = HeaderLessThan\<rparr>"

definition small_heap :: "u32 \<Rightarrow> u32 \<Rightarrow> Heap" where
  "small_heap n e = demo_junk\<lparr>m_index := small_index n, m_endAddress := e\<rparr>"

lemma small_heap_inv_used:
  assumes "\<forall>b \<in> set bs. 20 \<le> fst b \<and> \<not> snd b" and "0x2000 + extent bs = unat e"
  shows "heap_inv (small_heap 0 e) (write_blocks (\<lambda>_. 0) 0x2000 bs) 0x2000 bs"
    and "guard_below (write_blocks (\<lambda>_. 0) 0x2000 bs) 0x2000 []"
proof -
  have e: "0x2000 + extent bs \<le> 4294967295" using assms(2) unat_le_max32 [of e] by simp
  note W = write_blocks_ok [where bs = bs and a = "0x2000" and m = "\<lambda>_. 0"]
  have "holes a bs = []" if "\<forall>b \<in> set bs. \<not> snd b" for a and bs :: "block list"
    using that by (induction a bs rule: holes.induct) auto
  then have "holes 0x2000 bs = []" using assms(1) by blast
  with W assms e show "heap_inv (small_heap 0 e) (write_blocks (\<lambda>_. 0) 0x2000 bs) 0x2000 bs"
    by (simp add: heap_inv_def small_heap_def small_index_def ol_wf_def arr_wf_def handle_def ol_hi_def
        ol_items_def)
  have "footer_magic (write_blocks (\<lambda>_. 0) 0x2000 bs) 0x1FF8 = footer_magic (\<lambda>_. 0) 0x1FF8"
    by (rule footer_frame(1) [OF W(1)]) (use assms e in auto)
  then show "guard_below (write_blocks (\<lambda>_. 0) 0x2000 bs) 0x2000 []"
    by (simp add: guard_below_def footer_magic_def HEAP_MAGIC_def)
qed

definition used_kernel :: "block list \<Rightarrow> u32 \<Rightarrow> kernel" where
  "used_kernel bs e = (empty_bitmap_kernel (write_blocks (\<lambda>_. 0) 0x2000 bs))\<lparr>kheap := Some (small_heap 0 e)\<rparr>"

theorem Free_keeps_invariant_witness:
  "\<exists>s' h'. Free 0x200C (used_kernel [(40, False), (40, False)] 0x2050) = Inr s' \<and> kheap s' = Some h'
     \<and> heap_inv h' (ram s') 0x2000 [(40, True), (40, False)]"
proof -
  let ?s = "used_kernel [(40, False), (40, False)] 0x2050"
  have s: "kheap ?s = Some (small_heap 0 0x2050)"
      "ram ?s = write_blocks (\<lambda>_. 0) 0x2000 [(40, False), (40, False)]"
    by (simp_all add: used_kernel_def empty_bitmap_kernel_def del: write_blocks.simps)
  have "heap_inv (small_heap 0 0x2050) (ram ?s) 0x2000 ([] @ (40, False) # (40, False) # [])"
    and "guard_below (ram ?s) 0x2000 []"
    unfolding s(2) using small_heap_inv_used [where bs = "[(40, False), (40, False)]" and e = "0x2050"]
    by (simp_all del: write_blocks.simps)
  moreover have "ol_room (m_index (small_heap 0 0x2050))"
    by (simp add: ol_room_def small_heap_def small_index_def)
  ultimately show ?thesis
    using Free_keeps_invariant [OF s(1), of "0x2000" "[]" 40 40 "[]"] by (auto simp: coalesce_def)
qed

subsection \<open>Where the code leaves the invariant\<close>

text \<open>
  When the block to the right of a freed block is a hole, Free extends the size of the freed
  block over it but leaves the footer at the end of the merged hole pointing to the header of the
  old hole, so the merged hole has no valid footer.
\<close>

lemma free_right_stale_footer:
  assumes inv: "heap_inv h m lo (bs1 @ (n, False) # (k, True) # b # bs2)"
    and guard: "guard_below m lo bs1" and no_hole: "\<forall>bs0 k. bs1 \<noteq> bs0 @ [(k, True)]"
    and fin: "free_merge h m (of_nat (lo + extent bs1 + 12)) = (header, footer, test, do_add, h', m')"
  shows "header = of_nat (lo + extent bs1) \<and> header_size m' header = of_nat (n + k)
    \<and> footer_header m' (of_nat (lo + extent bs1 + n + k - 8)) = of_nat (lo + extent bs1 + n)
    \<and> \<not> footer_ok m' (lo + extent bs1) (n + k)"
proof -
  define a where "a = lo + extent bs1"
  let ?E = "unat (m_endAddress h)" and ?f = "of_nat (a + n + k - 8) :: u32"
  define m2 where "m2 = set_size (set_is_hole m (of_nat a) True) (of_nat a) (of_nat n + of_nat k)"
  note inv' = heap_invD [OF inv]
  have E: "?E \<le> 4294967295" by (rule unat_le_max32)
  have bl: "20 \<le> n" "20 \<le> k" "footer_ok m (a + n) k" "a + n + k + 20 \<le> ?E"
    using inv'(1,7) by (cases b; auto simp: blocks_append a_def)+
  note W = free_right_writes [OF inv guard no_hole [rule_format] a_def fin [folded a_def],
      folded m2_def]
  have fr3: "same_outside (ol_lo (m_index h)) a m2 m'"
    using W(3) by (rule same_outside_mono) (use inv'(3) in \<open>auto simp: a_def\<close>)
  have ua: "unat (of_nat a :: u32) = a" using bl(4) E by (intro unat_of_nat_le) simp
  have "header_size m' (of_nat a) = header_size m2 (of_nat a)"
    by (rule header_frame(3) [OF fr3]) (unfold ua, use bl(4) E in auto)
  then have size: "header_size m' header = of_nat (n + k)" by (simp add: W(1) m2_def)
  have uf: "unat ?f = a + n + k - 8" using bl(4) E by (intro unat_of_nat_le) simp
  have "footer_header m' ?f = footer_header m2 ?f"
    by (rule footer_frame(2) [OF fr3]) (unfold uf, use bl E in auto)
  also have "\<dots> = footer_header m ?f"
    by (rule footer_frame(2) [OF W(2)]) (unfold uf, use bl E in auto)
  also have "\<dots> = of_nat (a + n)" using bl(3) by (simp only: footer_ok_def)
  finally have stale: "footer_header m' ?f = of_nat (a + n)" .
  have uan: "unat (of_nat (a + n) :: u32) = a + n" using bl(4) E by (intro unat_of_nat_le) simp
  have "of_nat (a + n) \<noteq> (of_nat a :: u32)" unfolding word_eq_unat uan ua using bl(1) by simp
  with stale have "\<not> footer_ok m' a (n + k)"
    unfolding footer_ok_def add.assoc [symmetric] by (simp only: simp_thms)
  with W(1) size stale show ?thesis by (simp only: a_def simp_thms)
qed

text \<open>A small heap as in \<open>free_right_stale_footer\<close>: the block to the right of the first one is a hole.\<close>

lemma small_heap_inv_hole:
  defines "bs \<equiv> [(40, False), (40, True), (40, False)]"
  shows "heap_inv (small_heap 1 0x2078) (write_blocks (store32 (\<lambda>_. 0) 0x1000 0x2028) 0x2000 bs) 0x2000 bs"
    and "guard_below (write_blocks (store32 (\<lambda>_. 0) 0x1000 0x2028) 0x2000 bs) 0x2000 []"
proof -
  let ?m0 = "store32 (\<lambda>_. 0) 0x1000 0x2028" and ?ix = "small_index 1"
  have fr: "same_outside 0x2000 0x2078 ?m0 (write_blocks ?m0 0x2000 bs)"
    and bl: "blocks (write_blocks ?m0 0x2000 bs) 0x2078 0x2000 bs 0x2078"
    using write_blocks_ok [where bs = bs and a = "0x2000" and m = ?m0]
    by (simp_all add: bs_def del: write_blocks.simps blocks.simps)
  have wf: "ol_wf ?ix" "ol_hi ?ix = 0x1010" "ol_lo ?ix = 0x1000"
    by (simp_all add: small_index_def ol_wf_def arr_wf_def handle_def ol_hi_def ol_lo_def)
  have "ol_items ?ix (write_blocks ?m0 0x2000 bs) = ol_items ?ix ?m0"
    by (rule ol.items_frame [OF wf(1) fr]) (simp add: wf)
  also have "\<dots> = [0x2028]" by (simp add: ol_items_def small_index_def GetItemAtIndex_def)
  finally have items: "ol_items ?ix (write_blocks ?m0 0x2000 bs) = [0x2028]" .
  have "holes 0x2000 bs = [0x2028]" by (simp add: bs_def)
  with bl wf items show "heap_inv (small_heap 1 0x2078) (write_blocks ?m0 0x2000 bs) 0x2000 bs"
    by (simp add: heap_inv_def small_heap_def small_index_def del: write_blocks.simps blocks.simps)
  have "footer_magic (write_blocks ?m0 0x2000 bs) 0x1FF8 = footer_magic ?m0 0x1FF8"
    by (rule footer_frame(1) [OF fr]) simp_all
  also have "\<dots> = 0" unfolding footer_magic_def by (simp add: mem_simps)
  finally show "guard_below (write_blocks ?m0 0x2000 bs) 0x2000 []"
    by (simp add: guard_below_def HEAP_MAGIC_def)
qed

lemma alloc_in_hole_wrap:
  assumes P: "GetItemAtIndex (m_index h) m i = of_nat a" and N: "header_size m (of_nat a) = of_nat k"
    and k: "20 \<le> k" "a + k \<le> unat (m_endAddress h)"
    and rem: "Remove (m_index h) m i = (ix, m0)"
  shows "\<exists>m1. alloc_in_hole h m i (- 20) False =
    (let (ix', m') = Insert ix (write_block m1 a k True) (of_nat a) in (of_nat (a + 12), h\<lparr>m_index := ix'\<rparr>, m'))"
proof -
  have E: "unat (m_endAddress h) \<le> 4294967295" by (rule unat_le_max32)
  have uk: "unat (of_nat k :: u32) = k" using k E by (intro unat_of_nat_le) linarith
  have big: "\<not> of_nat k < (20 :: u32)" "0 < (of_nat k :: u32)"
    using k(1) by (simp_all add: word_less_unat uk)
  have f: "of_nat a + of_nat k - 8 = (of_nat (a + k - 8) :: u32)" using k(1) by simp
  have "(of_nat (a + k - 8) :: u32) < m_endAddress h"
    using k E by (subst word_less_unat, subst unat_of_nat32) auto
  then show ?thesis
    unfolding alloc_in_hole_def heap_sizes Let_def P N rem write_block_def
    using big by (simp add: f [symmetric] del: of_nat_diff) blast
qed

text \<open>
  The size of a request is extended by the 20 bytes of header and footer with wrap-around. For
  the size 0xFFFFFFEC, the sum is 0: Alloc reports success, but the address it returns belongs to a
  hole that is in the index and marked as free.
\<close>

lemma Alloc_wrap_returns_hole:
  assumes heap: "kheap s = Some h" and inv: "heap_inv h (ram s) lo bs" and some: "Size (m_index h) \<noteq> 0"
  shows "\<exists>a s' h'. a \<in> set (holes lo bs) \<and> Alloc (Suc fuel) 0xFFFFFFEC False s = Inr (of_nat (a + 12), s')
    \<and> kheap s' = Some h' \<and> of_nat a \<in> set (ol_items (m_index h') (ram s'))
    \<and> header_is_hole (ram s') (of_nat a) = 1"
proof -
  have pos: "0 < Size (m_index h)" using some by (simp add: word_neq_0_conv)
  have find: "FindSmallestHole h (ram s) 0 False = 0"
    using pos by (simp add: FindSmallestHole_def Let_def scan.simps [of _ _ 0] hole_fits_def)
  obtain bs1 k bs2 where bs: "bs = bs1 @ (k, True) # bs2" and k: "20 \<le> k"
      and P: "GetItemAtIndex (m_index h) (ram s) 0 = of_nat (lo + extent bs1)"
      and N: "header_size (ram s) (of_nat (lo + extent bs1)) = of_nat k"
    using hole_in_index [OF inv pos] by blast
  define a where "a = lo + extent bs1"
  note inv' = heap_invD [OF inv]
  have ak: "a + k \<le> unat (m_endAddress h)" using inv'(7) by (simp add: a_def bs)
  obtain ix m0 where rem: "Remove (m_index h) (ram s) 0 = (ix, m0)" by fastforce
  obtain m1 where al: "alloc_in_hole h (ram s) 0 (- 20) False = (let (ix', m') =
      Insert ix (write_block m1 a k True) (of_nat a) in (of_nat (a + 12), h\<lparr>m_index := ix'\<rparr>, m'))"
    using alloc_in_hole_wrap [OF P N k ak [unfolded a_def] rem] unfolding a_def by blast
  obtain ix' m' where ins: "Insert ix (write_block m1 a k True) (of_nat a) = (ix', m')" by fastforce
  have wf: "ol_wf ix" "ol_room ix" "ol_lo ix = ol_lo (m_index h)" "ol_hi ix = ol_hi (m_index h)"
    using ol.items_del [OF inv'(2) pos rem] ol.del_keeps [OF rem] by blast+
  have mem: "of_nat a \<in> set (ol_items ix' m')" unfolding ol.set_ins [OF wf(1,2) ins] by (rule insertI1)
  have fr: "same_outside (ol_lo ix) a (write_block m1 a k True) m'"
    using ol.items_ins [OF wf(1,2) ins] inv'(3) wf(4) by (auto simp: a_def elim: same_outside_mono)
  have "header_ok (write_block m1 a k True) a k True"
    using k ak unat_le_max32 [of "m_endAddress h"] by (intro write_block_ok) linarith+
  then have hole: "header_is_hole m' (of_nat a) = 1"
    using is_hole_after_frame [OF _ fr, of a k True] ak k unat_le_max32 [of "m_endAddress h"] by simp
  have size: "(0xFFFFFFEC :: u32) = - 20" by simp
  have "Alloc (Suc fuel) 0xFFFFFFEC False s
      = Inr (of_nat (a + 12), s\<lparr>kheap := Some (h\<lparr>m_index := ix'\<rparr>), ram := m'\<rparr>)"
    unfolding size by (rule Alloc_found [OF heap]) (use find al ins in simp_all)
  moreover have "a \<in> set (holes lo bs)" by (simp add: bs a_def)
  ultimately show ?thesis using mem hole
    by (intro exI [of _ a] exI [of _ "s\<lparr>kheap := Some (h\<lparr>m_index := ix'\<rparr>), ram := m'\<rparr>"]
        exI [of _ "h\<lparr>m_index := ix'\<rparr>"]) (simp del: of_nat_add)
qed

text \<open>The scan for the endmost header finds the greatest address of the index.\<close>

lemma endmost_spec:
  assumes "iterator \<le> Size ol" and "\<forall>j < unat iterator. ol_items ol m ! j \<le> val"
    and "idx = -1 \<and> val = 0 \<or> idx < Size ol \<and> ol_items ol m ! unat idx = val"
  shows "let r = endmost ol m iterator idx val in
    (\<forall>x \<in> set (ol_items ol m). x = 0) \<and> r = -1
    \<or> r < Size ol \<and> (\<forall>x \<in> set (ol_items ol m). x \<le> ol_items ol m ! unat r)"
  using assms
proof (induction ol m iterator idx val rule: endmost.induct)
  case (1 ol m iterator idx val)
  let ?xs = "ol_items ol m"
  show ?case
  proof (cases "iterator < Size ol")
    case True
    then have get: "GetItemAtIndex ol m iterator = ?xs ! unat iterator" by (rule ol.get_items)
    have le: "iterator + 1 \<le> Size ol" using True by (rule inc_le)
    have succ: "unat (iterator + 1) = Suc (unat iterator)" using True by (rule unat_plus_one)
    show ?thesis
    proof (cases "GetItemAtIndex ol m iterator > val")
      case greater: True
      have "\<forall>j < unat (iterator + 1). ?xs ! j \<le> GetItemAtIndex ol m iterator"
        using "1.prems"(2) greater unfolding succ get by (auto simp: less_Suc_eq intro: order.trans less_imp_le)
      with "1.IH"(1) [OF True refl greater le] True greater get show ?thesis
        by (simp add: endmost.simps [of ol m iterator])
    next
      case False
      have "\<forall>j < unat (iterator + 1). ?xs ! j \<le> val"
        using "1.prems"(2) False unfolding succ get by (auto simp: less_Suc_eq not_less)
      with "1.IH"(2) [OF True refl False le] "1.prems"(3) True False show ?thesis
        by (simp add: endmost.simps [of ol m iterator])
    qed
  next
    case False
    then have "unat iterator = length ?xs"
      using "1.prems"(1) ol.size_items [of ol m] by (simp add: not_less)
    then have "\<forall>x \<in> set ?xs. x \<le> val" using "1.prems"(2) by (auto simp: in_set_conv_nth)
    with False "1.prems"(3) show ?thesis by (auto simp: endmost.simps [of ol m iterator] Let_def)
  qed
qed

lemma endmost_hole:
  assumes wf: "ol_wf ix" "ol_hi ix \<le> lo" and items: "set (ol_items ix m) = of_nat ` set (holes lo bs)"
    and bs: "bs = bs1 @ (k, True) # bs2" and none: "holes (lo + extent bs1 + k) bs2 = []"
    and bl: "blocks m E lo bs E" and E: "E \<le> 4294967295"
  shows "endmost ix m 0 (-1) 0 < Size ix"
    and "GetItemAtIndex ix m (endmost ix m 0 (-1) 0) = of_nat (lo + extent bs1)"
proof -
  define a where "a = lo + extent bs1"
  let ?r = "endmost ix m 0 (-1) 0" and ?xs = "ol_items ix m"
  have a_in: "a \<in> set (holes lo bs)" by (simp add: bs a_def)
  have top: "x \<le> a" if "x \<in> set (holes lo bs)" for x
    using that none bl holes_bounds [of m E lo bs1 a x] by (auto simp: bs blocks_append a_def)
  have small: "x \<le> 4294967295" if "x \<in> set (holes lo bs)" for x
    using holes_bounds [OF bl that] E by linarith
  have mem: "of_nat a \<in> set ?xs" unfolding items using a_in by (rule imageI)
  have "0 < unat (Size ix)" using mem ol.size_items [of ix m] by (auto simp: length_pos_if_in_set)
  then have "0 < a" using wf by (auto simp: a_def ol_wf_def ol_hi_def Size_def word_le_unat)
  then have nz: "of_nat a \<noteq> (0 :: u32)"
    using unat_of_nat_le [OF small [OF a_in]] by (metis unat_0 less_irrefl)
  have "(\<forall>x \<in> set ?xs. x = 0) \<and> ?r = -1 \<or> ?r < Size ix \<and> (\<forall>x \<in> set ?xs. x \<le> ?xs ! unat ?r)"
    using endmost_spec [of 0 ix m 0 "-1"] by (simp add: Let_def)
  with mem nz have r: "?r < Size ix" and max: "\<forall>x \<in> set ?xs. x \<le> ?xs ! unat ?r" by blast+
  show "?r < Size ix" by (rule r)
  have "?xs ! unat ?r \<in> set ?xs"
    using r ol.size_items [of ix m] by (intro nth_mem) (simp add: word_less_unat)
  then obtain x where x: "x \<in> set (holes lo bs)" "?xs ! unat ?r = of_nat x" unfolding items by blast
  have "a \<le> x"
    using bspec [OF max mem] unfolding x(2) word_le_unat unat_of_nat_le [OF small [OF a_in]]
      unat_of_nat_le [OF small [OF x(1)]] .
  with top [OF x(1)] have "x = a" by simp
  then show "GetItemAtIndex ix m ?r = of_nat (lo + extent bs1)"
    using x(2) ol.get_items [OF r, of m] by (simp only: a_def)
qed

text \<open>Growing the endmost hole by \<open>d\<close> bytes: its size and a footer at its new end are written.\<close>

lemma grow_last_hole:
  assumes inv: "heap_inv h0 m lo bs" and ix: "m_index h = m_index h0"
    and bs: "bs = bs1 @ (k, True) # bs2" and none: "holes (lo + extent bs1 + k) bs2 = []"
    and a: "a = lo + extent bs1"
    and d: "d = unat (new_length - old_length)" and bound: "a + k + d \<le> 4294967295"
  defines "m1 \<equiv> set_size m (of_nat a) (of_nat (k + d))"
  shows "grow_last h m old_end old_length new_length
    = (h, set_footer m1 (of_nat (a + (k + d) - 8)) (of_nat a))"
proof -
  note inv' = heap_invD [OF inv]
  have r: "endmost (m_index h) m 0 (-1) 0 < Size (m_index h)"
      "GetItemAtIndex (m_index h) m (endmost (m_index h) m 0 (-1) 0) = of_nat a"
    unfolding ix a
    by (rule endmost_hole [OF inv'(2,3,6) bs none inv'(1)], rule unat_le_max32)+
  have ne: "endmost (m_index h) m 0 (-1) 0 \<noteq> -1" using r(1) by auto
  have k: "20 \<le> k" and size: "header_size m (of_nat a) = of_nat k"
    using inv'(1) by (simp_all add: bs blocks_append header_ok_def a)
  have "of_nat k + (new_length - old_length) = (of_nat (k + d) :: u32)" by (simp add: d)
  moreover have "of_nat a + of_nat (k + d) - 8 = (of_nat (a + (k + d) - 8) :: u32)" using k by simp
  ultimately show ?thesis
    unfolding grow_last_def Let_def if_not_P [OF ne] r(2) size heap_sizes m1_def
    by (simp only: header_set_size)
qed

lemma grow_writes:
  assumes "a + (k + d) \<le> 4294967295" and "20 \<le> k" and "header_ok m a k True"
  defines "m' \<equiv> set_footer (set_size m (of_nat a) (of_nat (k + d))) (of_nat (a + (k + d) - 8)) (of_nat a)"
  shows "same_outside a (a + (k + d)) m m'" and "blocks m' E a [(k + d, True)] (a + (k + d))"
    and "12 \<le> x \<Longrightarrow> x + 12 \<le> k + d - 8 \<Longrightarrow> header_ok m' (a + x) n hole = header_ok m (a + x) n hole"
proof -
  define f where "f = (of_nat (a + (k + d) - 8) :: u32)"
  let ?m1 = "set_size m (of_nat a) (of_nat (k + d))"
  have ua: "unat (of_nat a :: u32) = a" using assms(1) by (intro unat_of_nat_le) simp
  have uf: "unat f = a + (k + d) - 8" unfolding f_def using assms(1) by (intro unat_of_nat_le) simp
  have fr1: "same_outside a (a + 12) m ?m1"
    using set_size_frame [of "of_nat a" m] ua assms(1,2) by simp
  have fr2: "same_outside (a + (k + d) - 8) (a + (k + d)) ?m1 m'"
    using set_footer_frame [of f ?m1 "of_nat a"] uf assms(1,2) by (simp add: m'_def f_def)
  have "same_outside a (a + (k + d)) m ?m1" by (rule same_outside_mono [OF fr1]) (use assms(2) in auto)
  moreover have "same_outside a (a + (k + d)) ?m1 m'"
    by (rule same_outside_mono [OF fr2]) (use assms(2) in auto)
  ultimately show "same_outside a (a + (k + d)) m m'" by (rule same_outside_trans)
  have "header_ok ?m1 a (k + d) True" using assms(3) by (simp add: header_ok_def)
  then have "header_ok m' a (k + d) True" using header_ok_frame [OF fr2, of a] assms(1,2) by simp
  moreover have "footer_ok m' a (k + d)" unfolding footer_ok_def m'_def by simp
  ultimately show "blocks m' E a [(k + d, True)] (a + (k + d))" using assms(2) by simp
  show "header_ok m' (a + x) n hole = header_ok m (a + x) n hole" if x: "12 \<le> x" "x + 12 \<le> k + d - 8"
  proof -
    have b: "a + x + 12 \<le> 4294967295" "a + 12 \<le> a + x" "a + x + 12 \<le> a + (k + d) - 8"
      using x assms(1,2) by linarith+
    show ?thesis using header_ok_frame [OF fr1 b(1)] header_ok_frame [OF fr2 b(1)] b by blast
  qed
qed

lemma blocks_before_end: "blocks m E a bs e \<Longrightarrow> e < E \<Longrightarrow> blocks m E' a bs e"
proof (induction bs arbitrary: a)
  case (Cons b bs)
  obtain n hole where b: "b = (n, hole)" by fastforce
  with Cons.prems have "e = a + n + extent bs" by (auto dest: blocks_end)
  with Cons b show ?case by auto
qed simp

text \<open>
  When the block at the end of the heap is a hole and the heap was expanded by \<open>d\<close> bytes, Alloc
  extends that hole to the new end of the heap and the invariant holds for the larger heap.
\<close>

lemma grow_last_extends_last_hole:
  assumes inv: "heap_inv h m lo (bs1 @ [(k, True)])"
    and d: "d = unat (new_length - old_length)" and bound: "unat (m_endAddress h) + d \<le> 4294967295"
    and res: "grow_last (h\<lparr>m_endAddress := of_nat (unat (m_endAddress h) + d)\<rparr>) m old_end old_length new_length
      = (h', m')"
  shows "heap_inv h' m' lo (bs1 @ [(k + d, True)])"
    and "same_outside (lo + extent bs1) (lo + extent bs1 + k + d) m m'" and "m_index h' = m_index h"
    and "m_startAddress h' = m_startAddress h"
    and "m_endAddress h' = of_nat (unat (m_endAddress h) + d)"
proof -
  define a where "a = lo + extent bs1"
  let ?h = "h\<lparr>m_endAddress := of_nat (unat (m_endAddress h) + d)\<rparr>" and ?E = "a + (k + d)"
  note inv' = heap_invD [OF inv]
  have E: "unat (m_endAddress h) = a + k" using inv'(7) by (simp add: a_def)
  then have bd: "a + (k + d) \<le> 4294967295" using bound by simp
  have uE: "unat (of_nat ?E :: u32) = ?E" using bd by (rule unat_of_nat_le)
  have r: "h' = ?h" "m' = set_footer (set_size m (of_nat a) (of_nat (k + d))) (of_nat (a + (k + d) - 8)) (of_nat a)"
    using grow_last_hole [OF inv _ refl _ a_def d, of ?h old_end] bd res by (simp_all add: add.assoc)
  have k: "20 \<le> k" "header_ok m a k True" and bl1: "blocks m (a + k) lo bs1 a"
    using inv'(1) E by (simp_all add: blocks_append a_def)
  note W = grow_writes [OF bd k, folded r(2)]
  have "blocks m ?E lo bs1 a" using blocks_before_end [OF bl1] k(1) by simp
  then have "blocks m' ?E lo bs1 a" using blocks_frame [OF W(1)] bd by simp
  with W(2) [of ?E] have bl: "blocks m' ?E lo (bs1 @ [(k + d, True)]) ?E"
    by (simp add: blocks_append a_def)
  have "ol_items (m_index h) m' = ol_items (m_index h) m"
    by (rule ol.items_frame [OF inv'(2)]) (use W(1) inv'(3) in \<open>auto simp: a_def\<close>)
  moreover have "unat (m_endAddress h') = ?E" unfolding r(1) using uE E by (simp add: add.assoc)
  ultimately show "heap_inv h' m' lo (bs1 @ [(k + d, True)])" using inv' bl r(1) by (simp add: heap_inv_def)
  show "same_outside (lo + extent bs1) (lo + extent bs1 + k + d) m m'" using W(1) by (simp add: a_def add.assoc)
  show "m_index h' = m_index h" "m_startAddress h' = m_startAddress h" "m_endAddress h' = of_nat (unat (m_endAddress h) + d)"
    by (simp_all add: r(1))
qed

text \<open>
  When used blocks follow the hole with the highest address, Alloc extends that hole all the
  same: the hole, still in the index, now covers the header of the used block behind it.
\<close>

lemma grow_last_covers_used_block:
  assumes inv: "heap_inv h m lo (bs1 @ (k, True) # (n, False) # bs2)"
    and none: "holes (lo + extent bs1 + k + n) bs2 = []"
    and d: "d = unat (new_length - old_length)" and "20 \<le> d"
    and bound: "lo + extent bs1 + k + d \<le> 4294967295"
    and res: "grow_last (h\<lparr>m_endAddress := new_end\<rparr>) m old_end old_length new_length = (h', m')"
  shows "of_nat (lo + extent bs1) \<in> set (ol_items (m_index h') m')
    \<and> header_ok m' (lo + extent bs1) (k + d) True
    \<and> header_ok m' (lo + extent bs1 + k) n False
    \<and> lo + extent bs1 + k + 12 \<le> lo + extent bs1 + (k + d)"
proof -
  define a where "a = lo + extent bs1"
  let ?h = "h\<lparr>m_endAddress := new_end\<rparr>" and ?bs = "bs1 @ (k, True) # (n, False) # bs2"
  note inv' = heap_invD [OF inv]
  have bd: "a + (k + d) \<le> 4294967295" using bound by (simp add: a_def)
  have r: "h' = ?h" "m' = set_footer (set_size m (of_nat a) (of_nat (k + d))) (of_nat (a + (k + d) - 8)) (of_nat a)"
    using grow_last_hole [OF inv _ refl _ a_def d, of ?h old_end] bd none res by (simp_all add: add.assoc)
  have k: "20 \<le> k" "header_ok m a k True" and n: "header_ok m (a + k) n False"
    using inv'(1) by (simp_all add: blocks_append a_def)
  note W = grow_writes [OF bd k, folded r(2)]
  have hd: "header_ok m' (a + k) n False" using W(3) [of k n False] n k(1) \<open>20 \<le> d\<close> by simp
  have "ol_items (m_index h) m' = ol_items (m_index h) m"
    by (rule ol.items_frame [OF inv'(2)]) (use W(1) inv'(3) in \<open>auto simp: a_def\<close>)
  moreover have "a \<in> set (holes lo ?bs)" by (simp add: a_def)
  then have "of_nat a \<in> set (ol_items (m_index h) m)" unfolding inv'(6) by (rule imageI)
  ultimately have "of_nat a \<in> set (ol_items (m_index h') m')" unfolding r(1) by simp
  moreover have "header_ok m' a (k + d) True" using W(2) by simp
  ultimately show ?thesis using hd \<open>20 \<le> d\<close> by (simp add: a_def)
qed

subsection \<open>Contract\<close>

lemma get_page_lookup: "\<exists>page. get_page heap_alloc address False dir s = Inr (page, s)"
  by (simp add: get_page_def Let_def)

lemma free_frame_keeps [simp]:
  "kheap (free_frame page s) = kheap s" "kernel_directory (free_frame page s) = kernel_directory s"
  by (simp_all add: free_frame_def update_page_def clear_frame_def set_frame_word_def Let_def)

lemma contract_loop_ends:
  assumes "0x1000 \<le> new_size" and "unat i < fuel" and "kheap s = Some h"
  shows "\<exists>s'. contract_loop fuel new_size i s = Inr s' \<and> kheap s' = Some h"
  using assms(2,3)
proof (induction fuel arbitrary: i s)
  case (Suc fuel)
  obtain page where page: "get_page (Alloc 0) (m_startAddress h + i) False (kernel_directory s) s = Inr (page, s)"
    using get_page_lookup by blast
  show ?case
  proof (cases "new_size < i")
    case True
    then have "0x1000 \<le> unat i" using assms(1) by (simp add: word_less_unat word_le_unat)
    then have "unat (i - 0x1000) < fuel"
      using Suc.prems(1) by (subst unat_sub_no_wrap) auto
    from Suc.IH [OF this, of "free_frame page s"] True page Suc.prems(2) show ?thesis by simp
  qed (use Suc.prems in simp)
qed simp

lemma contract_round_eq:
  "contract_round n = (if bit n 12 then HEAP_MIN_SIZE else max n HEAP_MIN_SIZE)"
proof -
  from and_power_bit [of n 12] have and12: "n AND 0x1000 = (if bit n 12 then 0x1000 else 0)" by simp
  show ?thesis
    by (auto simp: contract_round_def Let_def and12 HEAP_MIN_SIZE_def max_def)
qed

text \<open>
  C25: Contract always returns. The new length is the requested one or the minimal heap size if that
  is larger, except that every request with bit 12 set gives the minimal heap size; it is not rounded
  to a page boundary. The end of the heap moves to the new length.
\<close>

theorem Contract_result:
  assumes "kheap s = Some h"
  shows "\<exists>s'. Contract n s = Inr (if bit n 12 then HEAP_MIN_SIZE else max n HEAP_MIN_SIZE, s')
    \<and> kheap s' = Some (h\<lparr>m_endAddress :=
         m_startAddress h + (if bit n 12 then HEAP_MIN_SIZE else max n HEAP_MIN_SIZE)\<rparr>)"
proof -
  let ?n = "contract_round n" and ?i = "heap_length h - 0x1000"
  have "0x1000 \<le> HEAP_MIN_SIZE" by (simp add: HEAP_MIN_SIZE_def)
  then have "0x1000 \<le> ?n" unfolding contract_round_eq by (auto simp: max_def)
  then obtain s' where "contract_loop (Suc (unat ?i)) ?n ?i s = Inr s'" "kheap s' = Some h"
    using contract_loop_ends [OF _ lessI assms] by blast
  then show ?thesis
    using assms unfolding contract_round_eq [symmetric]
    by (simp add: Contract_def Let_def del: contract_loop.simps)
qed

theorem Contract_result_witness:
  "\<exists>s'. Contract 0x91000 boot_kernel = Inr (0x70000, s')"
proof -
  have "bit (0x91000 :: u32) 12" by simp
  then show ?thesis
    using Contract_result [OF boot_kernel_inv(2), of "0x91000"] by (auto simp: HEAP_MIN_SIZE_def)
qed

end
