(* ===== verification/Paging.thy ===== *)
theory Paging
  imports Heap_Properties
begin

text \<open>
  The page directories of \<^verbatim>\<open>kernel/paging.cpp\<close>: switching to a directory, cloning tables and
  directories, and setting up paging at boot, with copy_page_physical of
  \<^verbatim>\<open>kernel/PagingAssembly.S\<close>, which works on the physical memory. The
  properties are in Paging_Properties and Paging_Setup.
\<close>

subsection \<open>Switching the page directory\<close>

definition switch_page_directory :: "u32 \<Rightarrow> kernel \<Rightarrow> kernel" where
  "switch_page_directory dir s =
     (let s = s\<lparr>current_directory := dir\<rparr>;
          s = s\<lparr>cr3 := dir_PhysicalAddress (ram s) dir\<rparr>;
          new_cr0 = cr0 s OR 0x80000000
      in s\<lparr>cr0 := new_cr0\<rparr>)"

subsection \<open>Copying a page frame\<close>

text \<open>
  The operands of \<^verbatim>\<open>and\<close>, \<^verbatim>\<open>mov\<close>, \<^verbatim>\<open>add\<close> and \<^verbatim>\<open>or\<close> in copy_page_physical lack the \<^verbatim>\<open>$\<close> of an
  immediate, so each of them is a memory operand: the number of words to copy is read from address
  1024 and the step from address 4. While paging is disabled the memory is the physical one.
  \<open>dec\<close> and \<open>jnz\<close> run the loop once for every value of the counter down to zero, \<open>2\<^sup>32\<close> times when it
  starts at zero.
\<close>

primrec copy_words :: "nat \<Rightarrow> u32 \<Rightarrow> u32 \<Rightarrow> memory \<Rightarrow> memory" where
  "copy_words 0 ebx ecx m = m"
| "copy_words (Suc edx) ebx ecx m =
     (let eax = load32 m ebx;
          m = store32 m ecx eax
      in copy_words edx (ebx + load32 m 4) (ecx + load32 m 4) m)"

definition loop_count :: "u32 \<Rightarrow> nat" where
  "loop_count edx = (if edx = 0 then 2 ^ 32 else unat edx)"

definition copy_page_physical :: "u32 \<Rightarrow> u32 \<Rightarrow> kernel \<Rightarrow> kernel" where
  "copy_page_physical src destination s =
     (let s = s\<lparr>cr0 := cr0 s AND load32 (ram s) 0x7FFFFFFF\<rparr>;
          paging = bit (cr0 s) 31;
          m = (if paging then ram s else phys s);
          m = copy_words (loop_count (load32 m 1024)) src destination m;
          s = (if paging then s\<lparr>ram := m\<rparr> else s\<lparr>phys := m\<rparr>)
      in s\<lparr>cr0 := cr0 s OR load32 m 0x80000000\<rparr>)"

subsection \<open>Cloning a page table\<close>

definition copy_flag :: "page_bit \<Rightarrow> u32 \<Rightarrow> u32 \<Rightarrow> kernel \<Rightarrow> kernel" where
  "copy_flag f src_page page s =
     (if page_flag f (load32 (ram s) src_page) then update_page (with_flag f True) page s else s)"

definition clone_entry :: "u32 \<Rightarrow> u32 \<Rightarrow> u32 \<Rightarrow> kernel \<Rightarrow> fault + kernel" where
  "clone_entry src table i s =
     (let src_page = src + 4 * i; page = table + 4 * i
      in if page_Frame (load32 (ram s) src_page) = 0 then Inr s
         else rbind (alloc_frame page False False s) (\<lambda>s.
           let s = copy_flag Present src_page page s;
               s = copy_flag ReadWrite src_page page s;
               s = copy_flag User src_page page s;
               s = copy_flag Accessed src_page page s;
               s = copy_flag Dirty src_page page s
           in Inr (copy_page_physical (page_Frame (load32 (ram s) src_page) * 0x1000)
                     (page_Frame (load32 (ram s) page) * 0x1000) s)))"

text \<open>A counted loop \<^verbatim>\<open>for (i = i0; i < i0 + n; i++)\<close> whose body may fault.\<close>

primrec for_loop :: "nat \<Rightarrow> (u32 \<Rightarrow> 's \<Rightarrow> fault + 's) \<Rightarrow> u32 \<Rightarrow> 's \<Rightarrow> fault + 's" where
  "for_loop 0 body i s = Inr s"
| "for_loop (Suc n) body i s = rbind (body i s) (for_loop n body (i + 1))"

definition clone_table :: "heap_alloc \<Rightarrow> u32 \<Rightarrow> kernel \<Rightarrow> fault + (u32 \<times> u32 option \<times> kernel)" where
  "clone_table heap_alloc src s =
     rbind (kmalloc_with heap_alloc sizeof_PageTable True True s) (\<lambda>(table, physAddr, s).
       let s = s\<lparr>ram := memset (ram s) table 0 sizeof_PageDirectory\<rparr>
       in rbind (for_loop 1024 (clone_entry src table) 0 s) (\<lambda>s. Inr (table, physAddr, s)))"

subsection \<open>Cloning a page directory\<close>

text \<open>What a variable holds after its address was passed as \<open>phys\<close> to kmalloc.\<close>

definition phys_value :: "u32 option \<Rightarrow> kernel \<Rightarrow> u32" where
  "phys_value phys_out s = (case phys_out of Some v \<Rightarrow> v | None \<Rightarrow> indeterminate s)"

definition clone_dir_entry :: "heap_alloc \<Rightarrow> u32 \<Rightarrow> u32 \<Rightarrow> u32 \<Rightarrow> kernel \<Rightarrow> fault + kernel" where
  "clone_dir_entry heap_alloc src dir i s =
     (if dir_Table (ram s) src i = 0 then Inr s
      else if dir_Table (ram s) (kernel_directory s) i = dir_Table (ram s) src i then
        let s = s\<lparr>ram := set_dir_Table dir i (dir_Table (ram s) src i) (ram s)\<rparr>
        in Inr (s\<lparr>ram := set_dir_TablePhysical dir i (dir_TablePhysical (ram s) src i) (ram s)\<rparr>)
      else
        rbind (clone_table heap_alloc (dir_Table (ram s) src i) s) (\<lambda>(table, phys_out, s).
          let s = s\<lparr>ram := set_dir_Table dir i table (ram s)\<rparr>
          in Inr (s\<lparr>ram := set_dir_TablePhysical dir i (phys_value phys_out s OR 7) (ram s)\<rparr>)))"

definition clone_directory :: "heap_alloc \<Rightarrow> u32 \<Rightarrow> kernel \<Rightarrow> fault + (u32 \<times> kernel)" where
  "clone_directory heap_alloc src s =
     rbind (kmalloc_with heap_alloc sizeof_PageDirectory True True s) (\<lambda>(dir, phys_out, s).
       let s = s\<lparr>ram := memset (ram s) dir 0 sizeof_PageDirectory\<rparr>;
           offset = 4096;
           s = s\<lparr>ram := set_dir_PhysicalAddress dir (phys_value phys_out s + offset) (ram s)\<rparr>
       in rbind (for_loop 1024 (clone_dir_entry heap_alloc src dir) 0 s) (\<lambda>s. Inr (dir, s)))"

subsection \<open>Setting up paging\<close>

text \<open>
  The loops of initialise_paging. The loop variable is a signed int, but the bounds are unsigned,
  so the comparison is unsigned. \<open>fuel\<close> bounds the number of iterations.
\<close>

primrec map_range :: "nat \<Rightarrow> heap_alloc \<Rightarrow> u32 \<Rightarrow> u32 \<Rightarrow> (u32 \<Rightarrow> kernel \<Rightarrow> fault + kernel) \<Rightarrow> kernel \<Rightarrow> fault + kernel" where
  "map_range 0 heap_alloc i i_end body s = Inl OutOfFuel"
| "map_range (Suc fuel) heap_alloc i i_end body s =
     (if i < i_end then
        rbind (get_page heap_alloc i True (kernel_directory s) s) (\<lambda>(page, s).
        rbind (body page s) (\<lambda>s. map_range fuel heap_alloc (i + 0x1000) i_end body s))
      else Inr s)"

primrec identity_map :: "nat \<Rightarrow> heap_alloc \<Rightarrow> u32 \<Rightarrow> kernel \<Rightarrow> fault + kernel" where
  "identity_map 0 heap_alloc i s = Inl OutOfFuel"
| "identity_map (Suc fuel) heap_alloc i s =
     (if i < placement_address s + 0x1000 then
        rbind (get_page heap_alloc i True (kernel_directory s) s) (\<lambda>(page, s).
        rbind (alloc_frame page False False s) (\<lambda>s. identity_map fuel heap_alloc (i + 0x1000) s))
      else Inr s)"

definition sizeof_Heap :: u32 where "sizeof_Heap = 32"

definition initialise_paging :: "nat \<Rightarrow> Heap \<Rightarrow> kernel \<Rightarrow> fault + kernel" where
  "initialise_paging fuel junk s =
     (let mem_end_page = 0x1000000;
          s = s\<lparr>nframes := mem_end_page div 0x1000\<rparr>
      in rbind (kmalloc fuel (INDEX_FROM_BIT (nframes s)) False False s) (\<lambda>(p, _, s).
         let s = s\<lparr>frames := p\<rparr>;
             s = s\<lparr>ram := memset (ram s) (frames s) 0 (INDEX_FROM_BIT (nframes s))\<rparr>
         in rbind (kmalloc_a fuel sizeof_PageDirectory s) (\<lambda>(p, _, s).
         let s = s\<lparr>kernel_directory := p\<rparr>;
             s = s\<lparr>ram := memset (ram s) (kernel_directory s) 0 sizeof_PageDirectory\<rparr>;
             s = s\<lparr>ram := set_dir_PhysicalAddress (kernel_directory s) (kernel_directory s + 4096) (ram s)\<rparr>
         in rbind (map_range fuel (Alloc fuel) KHEAP_START (KHEAP_START + KHEAP_INITIAL_SIZE)
                     (\<lambda>page. Inr) s) (\<lambda>s.
            rbind (identity_map fuel (Alloc fuel) 0 s) (\<lambda>s.
            rbind (map_range fuel (Alloc fuel) KHEAP_START (KHEAP_START + KHEAP_INITIAL_SIZE)
                     (\<lambda>page. alloc_frame page False False) s) (\<lambda>s.
            let s = switch_page_directory (kernel_directory s) s
            in rbind (kmalloc fuel sizeof_Heap False False s) (\<lambda>(_, _, s).
               let (h, m) = Heap_init junk KHEAP_START (KHEAP_START + KHEAP_INITIAL_SIZE) 0xCFFFF000
                              False False (ram s);
                   s = s\<lparr>kheap := Some h, ram := m\<rparr>
               in rbind (clone_directory (Alloc fuel) (kernel_directory s) s) (\<lambda>(dir, s).
                    let s = s\<lparr>current_directory := dir\<rparr>
                    in Inr (switch_page_directory (current_directory s) s)))))))))"

end
