(* ===== verification/Paging_Properties.thy ===== *)
theory Paging_Properties
  imports Paging
begin

text \<open>
  What the placement allocator, get_page and clone_directory do. A page directory is treated as an
  array of 2049 words, so the read-over-write laws of theory Word_Arrays apply to it.
\<close>

subsection \<open>The placement allocator\<close>

lemma page_mask: "(p :: u32) AND 0xFFFFF000 = p - p mod 0x1000"
proof -
  have "p - take_bit 12 p = p AND NOT (take_bit 12 p)"
    by (rule disjunctive_diff) (simp add: bit_take_bit_iff)
  also have "\<dots> = p AND NOT (mask 12)"
    by (rule bit_word_eqI) (auto simp: bit_simps)
  finally have "p - take_bit 12 p = p AND NOT (mask 12)" .
  moreover have "NOT (mask 12) = (0xFFFFF000 :: u32)" by (simp add: mask_eq_exp_minus_1)
  moreover have "take_bit 12 p = p mod 0x1000" by (simp add: take_bit_eq_mod)
  ultimately show ?thesis by (simp only:)
qed

lemma unat_page_mask: "unat ((p :: u32) AND 0xFFFFF000) = unat p div 0x1000 * 0x1000"
proof -
  have "unat (p mod 0x1000) = unat p mod 0x1000" by (simp add: unat_mod_distrib)
  moreover have "unat p mod 0x1000 \<le> unat p" by simp
  ultimately have "unat (p - p mod 0x1000) = unat p - unat p mod 0x1000"
    by (subst unat_sub_no_wrap) simp_all
  then show ?thesis by (simp add: page_mask minus_mod_eq_div_mult)
qed

lemma page_mask_zero: "(p :: u32) AND 0xFFFFF000 = 0 \<longleftrightarrow> unat p < 0x1000"
  unfolding word_eq_unat unat_page_mask by (simp add: div_eq_0_iff)

text \<open>Where the placement allocator puts a block.\<close>

definition placed_at :: "bool \<Rightarrow> u32 \<Rightarrow> nat" where
  "placed_at align p = (if align \<and> 0x1000 \<le> unat p then (unat p div 0x1000 + 1) * 0x1000 else unat p)"

lemma kmalloc_place:
  assumes none: "kheap s = None" and fits: "unat (placement_address s) + 0x1000 \<le> 4294967295"
  shows "kmalloc_with heap_alloc n align phys_wanted s =
    Inr (of_nat (placed_at align (placement_address s)),
         if phys_wanted then Some (of_nat (placed_at align (placement_address s))) else None,
         s\<lparr>placement_address := of_nat (placed_at align (placement_address s)) + n\<rparr>)"
proof (cases "align \<and> 0x1000 \<le> unat (placement_address s)")
  case True
  let ?p = "placement_address s"
  have "unat ((?p AND 0xFFFFF000) + 0x1000) = placed_at align ?p"
    using fits True by (subst unat_add_no_wrap) (auto simp: unat_page_mask placed_at_def)
  from arg_cong [OF this, of "of_nat :: nat \<Rightarrow> u32"]
  have "(?p AND 0xFFFFF000) + 0x1000 = of_nat (placed_at align ?p)" by simp
  moreover have "?p AND 0xFFFFF000 \<noteq> 0" using True by (simp add: page_mask_zero)
  ultimately show ?thesis using True none by (simp add: kmalloc_with_def Let_def)
next
  case False
  then have "\<not> (align \<and> placement_address s AND 0xFFFFF000 \<noteq> 0)" by (simp add: page_mask_zero not_le)
  moreover from False have "placed_at align (placement_address s) = unat (placement_address s)"
    by (simp only: placed_at_def if_False)
  ultimately show ?thesis using none by (auto simp: kmalloc_with_def Let_def)
qed

lemma placed_at_bounds:
  "unat p \<le> placed_at align p" "placed_at align p \<le> unat p + 0x1000"
  "align \<Longrightarrow> 0x1000 \<le> unat p \<Longrightarrow> placed_at align p mod 0x1000 = 0"
  "align \<Longrightarrow> 0x1000 \<le> unat p \<Longrightarrow> unat p < placed_at align p"
  by (auto simp: placed_at_def)

text \<open>
  C24: before the heap exists kmalloc hands out consecutive memory: the block lies between the old
  and the new placement address, so blocks of different calls do not overlap; an aligned block starts
  on a page boundary strictly above the placement address, even if that was aligned already; the
  physical address reported is the address of the block, and no memory is written.
\<close>

theorem kmalloc_placement:
  assumes "kheap s = None" and fits: "unat (placement_address s) + 0x1000 + unat n \<le> 4294967295"
  shows "\<exists>p s'. kmalloc fuel n align phys_wanted s = Inr (p, if phys_wanted then Some p else None, s')
    \<and> placement_address s \<le> p \<and> unat p + unat n = unat (placement_address s')
    \<and> s' = s\<lparr>placement_address := p + n\<rparr>
    \<and> (align \<and> 0x1000 \<le> placement_address s \<longrightarrow> p mod 0x1000 = 0 \<and> placement_address s < p)"
proof -
  let ?a = "placed_at align (placement_address s)"
  let ?p = "of_nat ?a :: u32"
  have b: "unat (placement_address s) \<le> ?a" "?a \<le> unat (placement_address s) + 0x1000"
    by (rule placed_at_bounds)+
  have up: "unat ?p = ?a" using b fits by (intro unat_of_nat_le) linarith
  have "unat ?p + unat n = unat (?p + n)" using b fits up by (subst unat_add_no_wrap) auto
  moreover have "placement_address s \<le> ?p" using b up by (simp only: word_le_unat)
  moreover have "?p mod 0x1000 = 0 \<and> placement_address s < ?p" if "align" "0x1000 \<le> placement_address s"
    using placed_at_bounds(3,4) [of align "placement_address s"] that up
    by (simp add: word_eq_unat word_less_unat word_le_unat unat_mod_distrib)
  moreover have "unat (placement_address s) + 0x1000 \<le> 4294967295" using fits by linarith
  note kmalloc_place [OF assms(1) this, of "Alloc fuel" n align phys_wanted]
  ultimately show ?thesis
    by (intro exI [of _ ?p] exI [of _ "s\<lparr>placement_address := ?p + n\<rparr>"]) (simp add: kmalloc_def)
qed

theorem kmalloc_placement_witness:
  "\<exists>s'. kmalloc 0 100 True True (empty_bitmap_kernel (\<lambda>_. 0)\<lparr>placement_address := 0x5000\<rparr>)
     = Inr (0x6000, Some 0x6000, s') \<and> placement_address s' = 0x6064"
proof -
  let ?s = "empty_bitmap_kernel (\<lambda>_. 0)\<lparr>placement_address := 0x5000\<rparr>"
  from kmalloc_placement [of ?s 100 0 True True]
  obtain p s' where r: "kmalloc 0 100 True True ?s = Inr (p, Some p, s')"
      "unat p + unat (100 :: u32) = unat (placement_address s')" "s' = ?s\<lparr>placement_address := p + 100\<rparr>"
    by (auto simp: empty_bitmap_kernel_def)
  moreover have "p = 0x6000"
    using r(1) by (simp add: kmalloc_def kmalloc_with_def empty_bitmap_kernel_def Let_def)
  ultimately show ?thesis by simp
qed

subsection \<open>A page directory as an array of words\<close>

definition dir_array :: "u32 \<Rightarrow> array_handle" where
  "dir_array dir = (dir, 2049)"

definition dir_ok :: "u32 \<Rightarrow> bool" where
  "dir_ok dir \<longleftrightarrow> unat dir + 8196 \<le> 4294967295"

lemma dir_array_simps [simp]: "fst (dir_array dir) = dir" "snd (dir_array dir) = 2049"
  by (simp_all add: dir_array_def)

lemma dir_array_wf [simp]: "dir_ok dir \<Longrightarrow> arr_wf (dir_array dir)"
  by (simp add: dir_ok_def arr_wf_def)

lemma dir_Table_arr: "dir_Table m dir i = arr_get (dir_array dir) m (unat i)"
  and set_dir_Table_arr: "set_dir_Table dir i t m = arr_put (dir_array dir) m (unat i) t"
  by (simp_all add: dir_Table_def set_dir_Table_def arr_get_def arr_put_def)

lemma dir_TablePhysical_arr: "dir_TablePhysical m dir i = arr_get (dir_array dir) m (1024 + unat i)"
  and set_dir_TablePhysical_arr:
    "set_dir_TablePhysical dir i t m = arr_put (dir_array dir) m (1024 + unat i) t"
  by (simp_all add: dir_TablePhysical_def set_dir_TablePhysical_def arr_get_def arr_put_def algebra_simps)

lemma dir_PhysicalAddress_arr: "dir_PhysicalAddress m dir = arr_get (dir_array dir) m 2048"
  and set_dir_PhysicalAddress_arr: "set_dir_PhysicalAddress dir a m = arr_put (dir_array dir) m 2048 a"
  by (simp_all add: dir_PhysicalAddress_def set_dir_PhysicalAddress_def arr_get_def arr_put_def)

lemmas dir_arr = dir_Table_arr set_dir_Table_arr dir_TablePhysical_arr set_dir_TablePhysical_arr
  dir_PhysicalAddress_arr set_dir_PhysicalAddress_arr

lemma dir_put_frame:
  "dir_ok dir \<Longrightarrow> k < 2049 \<Longrightarrow>
   same_outside (unat dir) (unat dir + 8196) m (arr_put (dir_array dir) m k v)"
  by (auto simp: same_outside_def intro!: arr_put_frame)

lemma dir_get_frame:
  assumes "dir_ok dir" and "k < 2049" and fr: "same_outside lo hi m m'"
    and "unat dir + 8196 \<le> lo \<or> hi \<le> unat dir"
  shows "arr_get (dir_array dir) m' k = arr_get (dir_array dir) m k"
proof -
  have "unat (dir + 4 * of_nat k) = unat dir + 4 * k"
    using assms(1,2) by (intro unat_cell [of _ 2049]) (simp_all add: dir_ok_def)
  then show ?thesis
    unfolding arr_get_def dir_array_simps
    by (intro same_outside_load32 [OF fr]) (use assms in \<open>auto simp: dir_ok_def\<close>)
qed

lemma memset_word:
  assumes "unat a + unat n \<le> 4294967295" and "unat a \<le> unat p" and "unat p + 4 \<le> unat a + unat n"
  shows "load32 (memset m a 0 n) p = 0"
proof -
  have "load32 (memset m a 0 n) p = load32 (\<lambda>_. 0) p"
  proof (rule load32_cong)
    fix x :: u32 assume "x - p < 4"
    then have x: "unat p \<le> unat x" "unat x < unat p + 4"
      using offset_less_iff [of p 4 x] assms by auto
    then have "x - a < n" using assms by (subst offset_less_iff) auto
    then show "memset m a 0 n x = 0" by (simp add: memset_eq_filled filled_def)
  qed
  then show ?thesis by simp
qed

subsection \<open>get_page\<close>

text \<open>The entry of a page directory an address belongs to.\<close>

definition table_index :: "u32 \<Rightarrow> u32" where
  "table_index address = address div 0x1000 div 1024"

lemma unat_table_index: "unat (table_index address) < 1024"
proof -
  have "unat (table_index address) = unat address div 4096 div 1024"
    by (simp add: table_index_def unat_div_distrib)
  then show ?thesis using unat_lt_2p32 [of address] by linarith
qed

lemma get_page_present:
  "dir_Table (ram s) dir (table_index address) \<noteq> 0 \<Longrightarrow> get_page heap_alloc address mk dir s =
     Inr (page_in_table (dir_Table (ram s) dir (table_index address)) (address div 0x1000), s)"
  by (simp add: get_page_def table_index_def Let_def)

text \<open>What get_page does with the table the allocator returned.\<close>

definition install_table :: "u32 \<Rightarrow> u32 \<Rightarrow> u32 \<Rightarrow> u32 \<Rightarrow> memory \<Rightarrow> memory" where
  "install_table dir i t tmp m =
     set_dir_TablePhysical dir i (tmp OR 7)
       (memset (set_dir_Table dir i t m) (dir_Table (set_dir_Table dir i t m) dir i) 0 0x1000)"

lemma get_page_absent:
  assumes "dir_Table (ram s) dir (table_index address) = 0"
    and "kmalloc_with heap_alloc sizeof_PageTable True True s = Inr (t, phys_out, s1)"
  shows "get_page heap_alloc address True dir s =
    (let m = install_table dir (table_index address) t (phys_value phys_out s1) (ram s1)
     in Inr (page_in_table (dir_Table m dir (table_index address)) (address div 0x1000), s1\<lparr>ram := m\<rparr>))"
  using assms
  by (simp add: get_page_def table_index_def install_table_def phys_value_def Let_def)

lemma install_table_spec:
  fixes m :: memory and tmp :: u32
  assumes dir: "dir_ok dir" and i: "unat i < 1024" and t: "unat t + 0x1000 \<le> 4294967295"
    and sep: "unat dir + 8196 \<le> unat t \<or> unat t + 0x1000 \<le> unat dir"
  defines "m' \<equiv> install_table dir i t tmp m"
  shows "dir_Table m' dir i = t" and "dir_TablePhysical m' dir i = tmp OR 7"
    and "\<forall>j < 1024. load32 m' (t + 4 * of_nat j) = 0"
    and "unat x < unat dir \<or> unat dir + 8196 \<le> unat x \<Longrightarrow> unat x < unat t \<or> unat t + 0x1000 \<le> unat x \<Longrightarrow>
      m' x = m x"
proof -
  let ?D = "dir_array dir"
  define m1 where "m1 = arr_put ?D m (unat i) t"
  define m2 where "m2 = memset m1 t 0 0x1000"
  have wf: "arr_wf ?D" using dir by simp
  have get1: "arr_get ?D m1 (unat i) = t"
    using w32.get_put_same [OF wf, of "unat i" m t] i by (simp add: m1_def)
  then have m': "m' = arr_put ?D m2 (1024 + unat i) (tmp OR 7)"
    by (simp add: m'_def install_table_def dir_arr m2_def m1_def)
  have fr1: "same_outside (unat dir) (unat dir + 8196) m m1"
    unfolding m1_def by (rule dir_put_frame [OF dir]) (use i in simp)
  have fr2: "same_outside (unat t) (unat t + 0x1000) m1 m2"
    using memset_frame [of t "0x1000" m1 0] t by (simp add: m2_def)
  have fr3: "same_outside (unat dir) (unat dir + 8196) m2 m'"
    unfolding m' by (rule dir_put_frame [OF dir]) (use i in simp)
  have "arr_get ?D m2 (unat i) = t"
    using dir_get_frame [OF dir _ fr2] get1 i sep by auto
  then show "dir_Table m' dir i = t"
    using w32.get_put_other [OF wf, of "1024 + unat i" "unat i"] i by (simp add: dir_arr m')
  show "dir_TablePhysical m' dir i = tmp OR 7"
    using w32.get_put_same [OF wf] i by (simp add: dir_arr m')
  show "\<forall>j < 1024. load32 m' (t + 4 * of_nat j) = 0"
  proof (intro allI impI)
    fix j :: nat assume j: "j < 1024"
    have u: "unat (t + 4 * of_nat j) = unat t + 4 * j"
      using j t by (intro unat_cell [of _ 1024]) simp_all
    have "load32 m' (t + 4 * of_nat j) = load32 m2 (t + 4 * of_nat j)"
      by (rule same_outside_load32 [OF fr3]) (unfold u, use j t sep in auto)
    also have "\<dots> = 0" unfolding m2_def by (rule memset_word) (unfold u, use j t in auto)
    finally show "load32 m' (t + 4 * of_nat j) = 0" .
  qed
  show "m' x = m x" if "unat x < unat dir \<or> unat dir + 8196 \<le> unat x" "unat x < unat t \<or> unat t + 0x1000 \<le> unat x"
    using that fr1 fr2 fr3 by (metis same_outside_byte)
qed

text \<open>
  C30: while the placement allocator serves requests, get_page for an address without a page table
  creates one: it lies above the directory, all its 1024 entries are zero, the directory holds its
  address and, with the bits present, writable and user, its physical address; nothing else
  changes. The page returned is the entry of the address in that table, and asking again returns the
  same page and changes nothing.
\<close>

theorem get_page_creates_table:
  assumes none: "kheap s = None" and dir: "dir_ok dir" and below: "unat dir + 8196 \<le> unat (placement_address s)"
    and room: "unat (placement_address s) + 0x2000 \<le> 4294967295"
    and absent: "dir_Table (ram s) dir (table_index address) = 0"
  shows "\<exists>t s'. get_page heap_alloc address True dir s = Inr (page_in_table t (address div 0x1000), s')
    \<and> unat dir + 8196 \<le> unat t \<and> unat t + 0x1000 = unat (placement_address s')
    \<and> dir_Table (ram s') dir (table_index address) = t
    \<and> dir_TablePhysical (ram s') dir (table_index address) = t OR 7
    \<and> (\<forall>j < 1024. load32 (ram s') (t + 4 * of_nat j) = 0)
    \<and> (\<forall>x. (unat x < unat dir \<or> unat dir + 8196 \<le> unat x) \<and> (unat x < unat t \<or> unat t + 0x1000 \<le> unat x)
          \<longrightarrow> ram s' x = ram s x)
    \<and> get_page heap_alloc address mk dir s' = Inr (page_in_table t (address div 0x1000), s')"
proof -
  let ?a = "placed_at True (placement_address s)" and ?i = "table_index address"
  define t where "t = (of_nat ?a :: u32)"
  define m where "m = install_table dir ?i t t (ram s)"
  define s' where "s' = s\<lparr>placement_address := t + sizeof_PageTable, ram := m\<rparr>"
  have b: "unat (placement_address s) \<le> ?a" "?a \<le> unat (placement_address s) + 0x1000"
    by (rule placed_at_bounds)+
  have ut: "unat t = ?a" unfolding t_def using b room by (intro unat_of_nat_le) linarith
  have sep: "unat dir + 8196 \<le> unat t" and top: "unat t + 0x1000 \<le> 4294967295"
    using ut b below room by linarith+
  have nz: "t \<noteq> 0" using sep by auto
  note I = install_table_spec [OF dir unat_table_index [of address] top disjI1 [OF sep],
      where tmp = t and m = "ram s", folded m_def]
  have "kmalloc_with heap_alloc sizeof_PageTable True True s
      = Inr (t, Some t, s\<lparr>placement_address := t + sizeof_PageTable\<rparr>)"
    using kmalloc_place [OF none, of heap_alloc sizeof_PageTable True True] room by (simp add: t_def)
  from get_page_absent [OF absent this]
  have run: "get_page heap_alloc address True dir s = Inr (page_in_table t (address div 0x1000), s')"
    using I(1) by (simp add: Let_def phys_value_def m_def [symmetric] s'_def)
  have "unat (placement_address s') = unat t + 0x1000"
    using top by (simp add: s'_def sizeof_PageTable_def unat_add_no_wrap)
  moreover have "get_page heap_alloc address mk dir s' = Inr (page_in_table t (address div 0x1000), s')"
    using get_page_present [of s' dir address heap_alloc mk] I(1) nz by (simp add: s'_def)
  ultimately show ?thesis
    using run sep I by (intro exI [of _ t] exI [of _ s']) (simp add: s'_def)
qed

theorem get_page_creates_table_witness:
  "\<exists>t s'. get_page (Alloc 0) 0x5123 True 0x8000 (empty_bitmap_kernel (\<lambda>_. 0)\<lparr>placement_address := 0x20000\<rparr>)
     = Inr (page_in_table t 5, s') \<and> dir_Table (ram s') 0x8000 0 = t \<and> dir_TablePhysical (ram s') 0x8000 0 = t OR 7"
proof -
  let ?s = "empty_bitmap_kernel (\<lambda>_. 0)\<lparr>placement_address := 0x20000\<rparr>"
  have "dir_Table (ram ?s) 0x8000 (table_index 0x5123) = 0" "table_index 0x5123 = 0"
    by (simp_all add: empty_bitmap_kernel_def dir_Table_def table_index_def)
  with get_page_creates_table [of ?s "0x8000" "0x5123" "Alloc 0" True]
  show ?thesis by (auto simp: empty_bitmap_kernel_def dir_ok_def)
qed

text \<open>
  Once the heap exists kmalloc stores nothing through its pointer argument, so get_page enters the
  value of an uninitialised variable as the physical address of every page table it creates.
\<close>

lemma get_page_heap_physical_address:
  assumes heap: "kheap s = Some h" and dir: "dir_ok dir"
    and absent: "dir_Table (ram s) dir (table_index address) = 0"
    and alloc: "heap_alloc sizeof_PageTable True s = Inr (t, s1)"
    and top: "unat t + 0x1000 \<le> 4294967295"
    and sep: "unat dir + 8196 \<le> unat t \<or> unat t + 0x1000 \<le> unat dir"
  shows "\<exists>s'. get_page heap_alloc address True dir s = Inr (page_in_table t (address div 0x1000), s')
    \<and> dir_Table (ram s') dir (table_index address) = t
    \<and> dir_TablePhysical (ram s') dir (table_index address) = indeterminate s1 OR 7"
proof -
  define m where "m = install_table dir (table_index address) t (indeterminate s1) (ram s1)"
  note I = install_table_spec [OF dir unat_table_index [of address] top sep,
      where tmp = "indeterminate s1" and m = "ram s1", folded m_def]
  have "kmalloc_with heap_alloc sizeof_PageTable True True s = Inr (t, None, s1)"
    using heap alloc by (simp add: kmalloc_with_def)
  from get_page_absent [OF absent this]
  show ?thesis using I(1,2) by (simp add: Let_def phys_value_def m_def [symmetric])
qed

subsection \<open>clone_directory\<close>

lemma phys_value_ram [simp]: "phys_value phys_out (s\<lparr>ram := m\<rparr>) = phys_value phys_out s"
  by (simp add: phys_value_def split: option.split)

lemma for_loop_invariant:
  assumes "P i s"
    and "\<And>j s. i \<le> j \<Longrightarrow> j < i + n \<Longrightarrow> P j s \<Longrightarrow> \<exists>s'. body (of_nat j) s = Inr s' \<and> P (Suc j) s'"
  shows "\<exists>s'. for_loop n body (of_nat i) s = Inr s' \<and> P (i + n) s'"
  using assms
proof (induction n arbitrary: i s)
  case (Suc n)
  from Suc.prems(2) [of i s] Suc.prems(1)
  obtain s1 where s1: "body (of_nat i) s = Inr s1" "P (Suc i) s1" by auto
  have "\<exists>s'. for_loop n body (of_nat (Suc i)) s1 = Inr s' \<and> P (Suc i + n) s'"
    by (rule Suc.IH [OF s1(2)]) (use Suc.prems(2) in simp)
  with s1(1) show ?case by (simp add: add.commute)
qed simp

text \<open>
  The state of the copy after \<open>j\<close> entries: those of the source are copied, the rest is blank, and
  nothing outside the new directory changed.
\<close>

definition cloned :: "u32 \<Rightarrow> u32 \<Rightarrow> kernel \<Rightarrow> nat \<Rightarrow> kernel \<Rightarrow> bool" where
  "cloned src dir s0 j s \<longleftrightarrow> s = s0\<lparr>ram := ram s\<rparr>
     \<and> same_outside (unat dir) (unat dir + 8196) (ram s0) (ram s)
     \<and> arr_get (dir_array dir) (ram s) 2048 = arr_get (dir_array dir) (ram s0) 2048
     \<and> (\<forall>k < 1024. arr_get (dir_array dir) (ram s) k
           = (if k < j then arr_get (dir_array src) (ram s0) k else 0)
         \<and> arr_get (dir_array dir) (ram s) (1024 + k)
           = (if k < j \<and> arr_get (dir_array src) (ram s0) k \<noteq> 0
              then arr_get (dir_array src) (ram s0) (1024 + k) else 0))"

text \<open>Two directories in disjoint memory, and a directory whose tables are those of the kernel's.\<close>

definition dirs_apart :: "u32 \<Rightarrow> u32 \<Rightarrow> bool" where
  "dirs_apart a b \<longleftrightarrow> unat a + 8196 \<le> unat b \<or> unat b + 8196 \<le> unat a"

definition kernel_tables :: "u32 \<Rightarrow> kernel \<Rightarrow> bool" where
  "kernel_tables src s \<longleftrightarrow> dir_ok src \<and> dir_ok (kernel_directory s)
     \<and> (\<forall>i < 1024. dir_Table (ram s) src (of_nat i) \<noteq> 0 \<longrightarrow>
          dir_Table (ram s) (kernel_directory s) (of_nat i) = dir_Table (ram s) src (of_nat i))"

lemma kernel_tables_same:
  assumes "kernel_tables src s" and fr: "same_outside (unat dir) (unat dir + 8196) (ram s) m"
    and sep: "dirs_apart src dir" "dirs_apart (kernel_directory s) dir"
  shows "kernel_tables src (s\<lparr>ram := m\<rparr>)"
proof -
  have "dir_Table m d (of_nat i) = dir_Table (ram s) d (of_nat i)" if "dir_ok d" "dirs_apart d dir" "i < 1024" for d i
    unfolding dir_Table_arr using that by (intro dir_get_frame [OF that(1) _ fr]) (auto simp: dirs_apart_def unat_of_nat32)
  with assms show ?thesis by (simp add: kernel_tables_def)
qed

lemma clone_dir_entry_step:
  assumes src: "kernel_tables src s0" and dir: "dir_ok dir"
    and sep: "dirs_apart src dir" "dirs_apart (kernel_directory s0) dir"
    and j: "j < 1024" and inv: "cloned src dir s0 j s"
  shows "\<exists>s'. clone_dir_entry heap_alloc src dir (of_nat j) s = Inr s' \<and> cloned src dir s0 (Suc j) s'"
proof -
  let ?S = "dir_array src" and ?D = "dir_array dir"
  have s: "s = s0\<lparr>ram := ram s\<rparr>" and fr: "same_outside (unat dir) (unat dir + 8196) (ram s0) (ram s)"
    using inv by (simp_all only: cloned_def)
  have kd: "kernel_directory s = kernel_directory s0" using arg_cong [OF s, of kernel_directory] by simp
  have ok: "dir_ok src" "dir_ok (kernel_directory s0)" using src by (simp_all add: kernel_tables_def)
  have uj: "unat (of_nat j :: u32) = j" using j by (intro unat_of_nat_le) simp
  have wf: "arr_wf ?D" using dir by simp
  have src_get: "arr_get ?S m k = arr_get ?S (ram s0) k"
    if "k < 2049" "same_outside (unat dir) (unat dir + 8196) (ram s0) m" for k m
    using dir_get_frame [OF ok(1) that] sep(1) by (auto simp: dirs_apart_def)
  have "arr_get (dir_array (kernel_directory s0)) (ram s) j = arr_get (dir_array (kernel_directory s0)) (ram s0) j"
    by (rule dir_get_frame [OF ok(2) _ fr]) (use j sep(2) in \<open>auto simp: dirs_apart_def\<close>)
  then have shared: "arr_get (dir_array (kernel_directory s0)) (ram s) j = arr_get ?S (ram s0) j" if "arr_get ?S (ram s0) j \<noteq> 0"
    using src that j by (simp add: kernel_tables_def dir_Table_arr unat_of_nat32)
  show ?thesis
  proof (cases "arr_get ?S (ram s0) j = 0")
    case True
    then have "clone_dir_entry heap_alloc src dir (of_nat j) s = Inr s"
      using j src_get [OF _ fr] by (simp add: clone_dir_entry_def dir_arr uj)
    moreover have "cloned src dir s0 (Suc j) s"
      using inv True unfolding cloned_def by (auto simp: less_Suc_eq)
    ultimately show ?thesis by blast
  next
    case False
    define m1 where "m1 = arr_put ?D (ram s) j (arr_get ?S (ram s0) j)"
    define m2 where "m2 = arr_put ?D m1 (1024 + j) (arr_get ?S (ram s0) (1024 + j))"
    have fr1: "same_outside (unat dir) (unat dir + 8196) (ram s0) m1"
      unfolding m1_def using fr dir_put_frame [OF dir, of j] j by (auto intro: same_outside_trans)
    have fr2: "same_outside (unat dir) (unat dir + 8196) (ram s0) m2"
      unfolding m2_def using fr1 dir_put_frame [OF dir, of "1024 + j"] j by (auto intro: same_outside_trans)
    have "clone_dir_entry heap_alloc src dir (of_nat j) s = Inr (s\<lparr>ram := m2\<rparr>)"
      using False j src_get [OF _ fr] src_get [OF _ fr1] kd shared [OF False]
      by (simp add: clone_dir_entry_def dir_arr uj m1_def m2_def Let_def)
    moreover have get2: "arr_get ?D m2 k = (if k = 1024 + j then arr_get ?S (ram s0) (1024 + j)
        else if k = j then arr_get ?S (ram s0) j else arr_get ?D (ram s) k)" if "k < 2049" for k
      using that j wf by (auto simp: m2_def m1_def w32.get_put_same w32.get_put_other)
    have "s\<lparr>ram := m2\<rparr> = s0\<lparr>ram := m2\<rparr>"
      using arg_cong [OF s, of "\<lambda>x. x\<lparr>ram := m2\<rparr>"] by simp
    then have "cloned src dir s0 (Suc j) (s\<lparr>ram := m2\<rparr>)"
      unfolding cloned_def using inv fr2 j False
      by (auto simp: cloned_def get2 less_Suc_eq)
    ultimately show ?thesis by blast
  qed
qed

lemma clone_shared_directory_spec:
  assumes alloc: "kmalloc_with heap_alloc sizeof_PageDirectory True True s = Inr (dir, phys_out, s1)"
    and src: "kernel_tables src s1" and dir: "dir_ok dir"
    and sep: "dirs_apart src dir" "dirs_apart (kernel_directory s1) dir"
  shows "\<exists>s'. clone_directory heap_alloc src s = Inr (dir, s')
    \<and> (\<forall>i < 1024. dir_Table (ram s') dir (of_nat i) = dir_Table (ram s1) src (of_nat i)
        \<and> dir_TablePhysical (ram s') dir (of_nat i)
          = (if dir_Table (ram s1) src (of_nat i) = 0 then 0 else dir_TablePhysical (ram s1) src (of_nat i)))
    \<and> dir_PhysicalAddress (ram s') dir = phys_value phys_out s1 + 4096
    \<and> same_outside (unat dir) (unat dir + 8196) (ram s1) (ram s') \<and> s' = s1\<lparr>ram := ram s'\<rparr>"
proof -
  let ?D = "dir_array dir"
  define m1 where "m1 = memset (ram s1) dir 0 sizeof_PageDirectory"
  define s0 where "s0 = s1\<lparr>ram := arr_put ?D m1 2048 (phys_value phys_out s1 + 4096)\<rparr>"
  have wf: "arr_wf ?D" using dir by simp
  have "same_outside (unat dir) (unat dir + 8196) (ram s1) m1"
    using memset_frame [of dir sizeof_PageDirectory "ram s1" 0] dir
    by (simp add: m1_def sizeof_PageDirectory_def dir_ok_def)
  moreover have "same_outside (unat dir) (unat dir + 8196) m1 (ram s0)"
    using dir_put_frame [OF dir, of 2048 m1] by (simp add: s0_def)
  ultimately have fr: "same_outside (unat dir) (unat dir + 8196) (ram s1) (ram s0)"
    by (rule same_outside_trans)
  have blank: "arr_get ?D m1 k = 0" if "k < 2049" for k
  proof -
    have u: "unat (dir + 4 * of_nat k) = unat dir + 4 * k"
      using that dir by (intro unat_cell [of _ 2049]) (simp_all add: dir_ok_def)
    show ?thesis unfolding arr_get_def m1_def dir_array_simps
      by (rule memset_word) (unfold u, use that dir in \<open>simp_all add: sizeof_PageDirectory_def dir_ok_def\<close>)
  qed
  have get0: "arr_get ?D (ram s0) k = (if k = 2048 then phys_value phys_out s1 + 4096 else 0)" if "k < 2049" for k
    using that blank wf by (auto simp: s0_def w32.get_put_same w32.get_put_other)
  have src0: "kernel_tables src s0" using kernel_tables_same [OF src fr sep] by (simp add: s0_def)
  have "cloned src dir s0 0 s0" unfolding cloned_def using get0 by simp
  then have "\<exists>s'. for_loop 1024 (clone_dir_entry heap_alloc src dir) (of_nat 0) s0 = Inr s'
      \<and> cloned src dir s0 (0 + 1024) s'"
  proof (rule for_loop_invariant)
    fix j s assume "j < 0 + 1024" and "cloned src dir s0 j s"
    moreover have "kernel_directory s0 = kernel_directory s1" by (simp add: s0_def)
    ultimately show "\<exists>s'. clone_dir_entry heap_alloc src dir (of_nat j) s = Inr s' \<and> cloned src dir s0 (Suc j) s'"
      using clone_dir_entry_step [OF src0 dir sep(1)] sep(2) by simp
  qed
  then obtain s' where run: "for_loop 1024 (clone_dir_entry heap_alloc src dir) 0 s0 = Inr s'"
      and inv: "cloned src dir s0 1024 s'" by (auto simp del: for_loop.simps)
  have "clone_directory heap_alloc src s = Inr (dir, s')"
    using alloc run by (simp add: clone_directory_def Let_def dir_arr s0_def m1_def del: for_loop.simps)
  moreover have "dir_Table (ram s') dir (of_nat i) = dir_Table (ram s1) src (of_nat i)
      \<and> dir_TablePhysical (ram s') dir (of_nat i)
        = (if dir_Table (ram s1) src (of_nat i) = 0 then 0 else dir_TablePhysical (ram s1) src (of_nat i))"
    if i: "i < 1024" for i
  proof -
    have u: "unat (of_nat i :: u32) = i" using i by (intro unat_of_nat_le) simp
    have src_get: "arr_get (dir_array src) (ram s0) k = arr_get (dir_array src) (ram s1) k" if "k < 2049" for k
      using dir_get_frame [OF _ that fr] sep(1) src by (auto simp: dirs_apart_def kernel_tables_def)
    show ?thesis
      unfolding dir_arr u using inv i src_get [of i] src_get [of "1024 + i"] by (simp add: cloned_def)
  qed
  moreover have "dir_PhysicalAddress (ram s') dir = phys_value phys_out s1 + 4096"
    unfolding dir_arr using inv get0 [of 2048] by (simp add: cloned_def)
  moreover have "same_outside (unat dir) (unat dir + 8196) (ram s1) (ram s')"
    using fr inv unfolding cloned_def by (blast intro: same_outside_trans)
  moreover have "s' = s0\<lparr>ram := ram s'\<rparr>" using inv by (simp only: cloned_def)
  then have "s' = s1\<lparr>ram := ram s'\<rparr>" by (simp add: s0_def)
  ultimately show ?thesis by blast
qed

lemma clone_kernel_directory_spec:
  assumes alloc: "kmalloc_with heap_alloc sizeof_PageDirectory True True s = Inr (dir, phys_out, s1)"
    and src: "kernel_directory s1 = src" "dir_ok src" and dir: "dir_ok dir"
    and sep: "unat src + 8196 \<le> unat dir \<or> unat dir + 8196 \<le> unat src"
  shows "\<exists>s'. clone_directory heap_alloc src s = Inr (dir, s')
    \<and> (\<forall>i < 1024. dir_Table (ram s') dir (of_nat i) = dir_Table (ram s1) src (of_nat i)
        \<and> dir_TablePhysical (ram s') dir (of_nat i)
          = (if dir_Table (ram s1) src (of_nat i) = 0 then 0 else dir_TablePhysical (ram s1) src (of_nat i)))
    \<and> dir_PhysicalAddress (ram s') dir = phys_value phys_out s1 + 4096
    \<and> same_outside (unat dir) (unat dir + 8196) (ram s1) (ram s') \<and> s' = s1\<lparr>ram := ram s'\<rparr>"
  using assms by (intro clone_shared_directory_spec) (auto simp: kernel_tables_def dirs_apart_def)

text \<open>
  C29: cloning the kernel directory succeeds whenever the allocator returns a block that does not
  overlap it. The clone refers to the same page tables with the same physical entries, so kernel
  space is shared; entries the kernel directory lacks are blank, and no memory outside the new
  directory is written.
\<close>

theorem clone_kernel_directory:
  assumes alloc: "kmalloc_with heap_alloc sizeof_PageDirectory True True s = Inr (dir, phys_out, s1)"
    and src: "kernel_directory s1 = src" "dir_ok src" and dir: "dir_ok dir"
    and sep: "unat src + 8196 \<le> unat dir \<or> unat dir + 8196 \<le> unat src"
  shows "\<exists>s'. clone_directory heap_alloc src s = Inr (dir, s')
    \<and> (\<forall>i < 1024. dir_Table (ram s') dir (of_nat i) = dir_Table (ram s1) src (of_nat i)
        \<and> dir_TablePhysical (ram s') dir (of_nat i)
          = (if dir_Table (ram s1) src (of_nat i) = 0 then 0 else dir_TablePhysical (ram s1) src (of_nat i)))
    \<and> dir_PhysicalAddress (ram s') dir = phys_value phys_out s1 + 4096
    \<and> same_outside (unat dir) (unat dir + 8196) (ram s1) (ram s') \<and> s' = s1\<lparr>ram := ram s'\<rparr>"
  using assms by (rule clone_kernel_directory_spec)

theorem clone_kernel_directory_witness:
  "\<exists>s'. clone_directory (Alloc 0) 0x8000
        (empty_bitmap_kernel (\<lambda>_. 0)\<lparr>placement_address := 0x20000, kernel_directory := 0x8000\<rparr>)
     = Inr (0x21000, s') \<and> dir_PhysicalAddress (ram s') 0x21000 = 0x22000"
proof -
  let ?s = "empty_bitmap_kernel (\<lambda>_. 0)\<lparr>placement_address := 0x20000, kernel_directory := 0x8000\<rparr>"
  let ?s1 = "?s\<lparr>placement_address := 0x21000 + sizeof_PageDirectory\<rparr>"
  have "kmalloc_with (Alloc 0) sizeof_PageDirectory True True ?s = Inr (0x21000, Some 0x21000, ?s1)"
    by (simp add: kmalloc_with_def empty_bitmap_kernel_def Let_def)
  from clone_kernel_directory [OF this, of "0x8000"]
  show ?thesis by (auto simp: empty_bitmap_kernel_def dir_ok_def phys_value_def)
qed

end
