(* ===== verification/Address_Space.thy ===== *)
theory Address_Space
  imports Paging_Properties
begin

text \<open>
  What the page tables that get_page and alloc_frame build mean to the processor. \<open>translate\<close> is its
  walk through a page directory; on directories the kernel sets up it is a lookup in the abstract
  table \<open>entry\<close>, where a missing page table and a blank one are the same. One step of the loops of
  initialise_paging, get_page followed by alloc_frame, enters one page there.
\<close>

subsection \<open>The walk of the processor\<close>

text \<open>\<open>pd\<close> is the physical address in CR3; the walk reads physical memory.\<close>

definition translate :: "memory \<Rightarrow> u32 \<Rightarrow> u32 \<Rightarrow> u32 option" where
  "translate m pd x =
     (let pde = load32 m (pd + 4 * (x div 0x400000))
      in if \<not> page_flag Present pde then None
         else let pte = load32 m ((pde AND 0xFFFFF000) + 4 * (x div 0x1000 mod 1024))
              in if page_flag Present pte then Some ((pte AND 0xFFFFF000) + x mod 0x1000) else None)"

definition entry_at :: "memory \<Rightarrow> u32 \<Rightarrow> nat \<Rightarrow> u32" where
  "entry_at m dir q = dir_Table m dir (of_nat (q div 1024)) + 4 * of_nat (q mod 1024)"

definition entry :: "memory \<Rightarrow> u32 \<Rightarrow> nat \<Rightarrow> u32" where
  "entry m dir q = (if dir_Table m dir (of_nat (q div 1024)) = 0 then 0 else load32 m (entry_at m dir q))"

text \<open>
  The page tables of a directory lie between \<open>lo\<close> and \<open>hi\<close>, each in a page of its own, and their
  physical addresses are entered as present.
\<close>

definition table_ok :: "memory \<Rightarrow> u32 \<Rightarrow> nat \<Rightarrow> nat \<Rightarrow> nat \<Rightarrow> bool" where
  "table_ok m dir lo hi i \<longleftrightarrow>
     (let t = dir_Table m dir (of_nat i); p = dir_TablePhysical m dir (of_nat i)
      in if t = 0 then p = 0
         else lo \<le> unat t \<and> unat t + 4096 \<le> hi \<and> unat t mod 4096 = 0 \<and> p = t OR 7
           \<and> (\<forall>j < 1024. j \<noteq> i \<longrightarrow> dir_Table m dir (of_nat j) \<noteq> t))"

definition tables_ok :: "memory \<Rightarrow> u32 \<Rightarrow> nat \<Rightarrow> nat \<Rightarrow> bool" where
  "tables_ok m dir lo hi \<longleftrightarrow> (\<forall>i < 1024. table_ok m dir lo hi i)"

lemma tables_okD:
  assumes "tables_ok m dir lo hi" and "i < 1024"
  shows "dir_Table m dir (of_nat i) = 0 \<Longrightarrow> dir_TablePhysical m dir (of_nat i) = 0"
    and "dir_Table m dir (of_nat i) \<noteq> 0 \<Longrightarrow> lo \<le> unat (dir_Table m dir (of_nat i))
      \<and> unat (dir_Table m dir (of_nat i)) + 4096 \<le> hi \<and> unat (dir_Table m dir (of_nat i)) mod 4096 = 0
      \<and> dir_TablePhysical m dir (of_nat i) = dir_Table m dir (of_nat i) OR 7"
    and "dir_Table m dir (of_nat i) \<noteq> 0 \<Longrightarrow> j < 1024 \<Longrightarrow> j \<noteq> i \<Longrightarrow>
      dir_Table m dir (of_nat j) \<noteq> dir_Table m dir (of_nat i)"
  using assms unfolding tables_ok_def table_ok_def Let_def by (metis, metis, metis)

lemma page_base_or_flags: "unat (t :: u32) mod 4096 = 0 \<Longrightarrow> (t OR 7) AND 0xFFFFF000 = t"
proof -
  assume "unat t mod 4096 = 0"
  then have "t mod 0x1000 = 0" by (simp add: word_eq_unat unat_mod)
  then have "t AND 0xFFFFF000 = t" by (simp add: page_mask)
  moreover have "(7 :: u32) AND 0xFFFFF000 = 0" by simp
  ultimately show ?thesis by (simp add: bit.conj_disj_distrib2)
qed

lemma frame_base: "(e :: u32) AND 0xFFFFF000 = page_Frame e * 0x1000"
proof -
  have "page_Frame e * 0x1000 = push_bit 12 (drop_bit 12 e)" by (simp add: page_Frame_def push_bit_eq_mult)
  also have "\<dots> = e - take_bit 12 e" by (metis add_diff_cancel_right' bits_ident)
  finally show ?thesis by (simp add: page_mask take_bit_eq_mod)
qed

lemma translate_entry:
  assumes "tables_ok m dir lo hi"
  shows "translate m (dir + 4096) x =
    (let e = entry m dir (unat x div 4096)
     in if page_flag Present e then Some (page_Frame e * 0x1000 + x mod 0x1000) else None)"
proof -
  let ?i = "unat x div 4096 div 1024" and ?k = "unat x div 4096 mod 1024"
  have i: "?i < 1024" using unat_lt_2p32 [of x] by linarith
  have pd: "x div 0x400000 = of_nat ?i" and pt: "x div 0x1000 mod 1024 = of_nat ?k"
    by (simp_all add: word_eq_unat unat_div unat_mod unat_of_nat32 i [THEN order.strict_trans] div_mult2_eq)
  show ?thesis
  proof (cases "dir_Table m dir (of_nat ?i) = 0")
    case True
    then show ?thesis using tables_okD(1) [OF assms i True]
      by (simp add: translate_def entry_def pd dir_TablePhysical_def page_flag_def)
  next
    case False
    note t = tables_okD(2) [OF assms i False]
    have "page_flag Present (dir_Table m dir (of_nat ?i) OR 7)" by (simp add: page_flag_def bit_simps)
    then show ?thesis using t False page_base_or_flags [of "dir_Table m dir (of_nat ?i)"]
      by (simp add: translate_def entry_def entry_at_def pd pt dir_TablePhysical_def frame_base Let_def)
  qed
qed


subsection \<open>Tables and changes of memory\<close>

text \<open>The tables of a directory stay where they are.\<close>

definition tables_kept :: "u32 \<Rightarrow> memory \<Rightarrow> memory \<Rightarrow> bool" where
  "tables_kept dir m m' \<longleftrightarrow> (\<forall>i < 1024. dir_Table m dir (of_nat i) \<noteq> 0 \<longrightarrow>
     dir_Table m' dir (of_nat i) = dir_Table m dir (of_nat i))"

lemma tables_kept_refl [simp]: "tables_kept dir m m"
  by (simp add: tables_kept_def)

lemma tables_kept_trans [trans]: "tables_kept dir m m1 \<Longrightarrow> tables_kept dir m1 m2 \<Longrightarrow> tables_kept dir m m2"
  by (auto simp: tables_kept_def)

lemma table_word:
  assumes "tables_ok m dir lo hi" and "hi \<le> 4294967295" and "q < 1048576"
    and "dir_Table m dir (of_nat (q div 1024)) \<noteq> 0"
  shows "unat (entry_at m dir q) = unat (dir_Table m dir (of_nat (q div 1024))) + 4 * (q mod 1024)"
    and "lo \<le> unat (entry_at m dir q)" and "unat (entry_at m dir q) + 4 \<le> hi"
proof -
  have i: "q div 1024 < 1024" using assms(3) by linarith
  note t = tables_okD(2) [OF assms(1) i assms(4)]
  show e: "unat (entry_at m dir q) = unat (dir_Table m dir (of_nat (q div 1024))) + 4 * (q mod 1024)"
    unfolding entry_at_def by (rule unat_cell [of _ 1024]) (use t assms(2) in auto)
  show "lo \<le> unat (entry_at m dir q)" "unat (entry_at m dir q) + 4 \<le> hi"
    using t mod_less_divisor [of 1024 q] unfolding e by linarith+
qed

lemma pages_apart: "a mod 4096 = 0 \<Longrightarrow> b mod 4096 = 0 \<Longrightarrow> a \<noteq> b \<Longrightarrow> a + 4096 \<le> b \<or> b + 4096 \<le> (a :: nat)"
proof -
  assume "a mod 4096 = 0" "b mod 4096 = 0"
  then obtain c d where "a = 4096 * c" "b = 4096 * d" by (auto simp: mod_eq_0_iff_dvd dvd_def)
  moreover assume "a \<noteq> b"
  ultimately show ?thesis by (cases c d rule: linorder_cases) auto
qed

text \<open>Entries of different pages do not overlap.\<close>

lemma entries_apart:
  assumes ok: "tables_ok m dir lo hi" "hi \<le> 4294967295" and "q < 1048576" "r < 1048576" "r \<noteq> q"
    and "dir_Table m dir (of_nat (q div 1024)) \<noteq> 0" "dir_Table m dir (of_nat (r div 1024)) \<noteq> 0"
  shows "unat (entry_at m dir r) + 4 \<le> unat (entry_at m dir q) \<or> unat (entry_at m dir q) + 4 \<le> unat (entry_at m dir r)"
proof -
  note q = table_word(1) [OF ok assms(3,6)] and r = table_word(1) [OF ok assms(4,7)]
  have lt: "q div 1024 < 1024" "r div 1024 < 1024" "q mod 1024 < 1024" "r mod 1024 < 1024"
    using assms(3,4) by auto
  show ?thesis
  proof (cases "q div 1024 = r div 1024")
    case True
    then have "q mod 1024 \<noteq> r mod 1024" using assms(5) by (metis div_mult_mod_eq)
    with q r True show ?thesis by auto
  next
    case False
    let ?a = "unat (dir_Table m dir (of_nat (q div 1024)))" and ?b = "unat (dir_Table m dir (of_nat (r div 1024)))"
    have ne: "?a \<noteq> ?b" using tables_okD(3) [OF ok(1) lt(1) assms(6) lt(2)] False by (simp add: word_eq_unat)
    have al: "?a mod 4096 = 0" "?b mod 4096 = 0"
      using tables_okD(2) [OF ok(1)] lt assms(6,7) by blast+
    from pages_apart [OF al ne] q r lt show ?thesis by linarith
  qed
qed

lemma dir_same:
  assumes "dir_ok dir" and "i < 1024" and "\<And>x. unat dir \<le> unat x \<Longrightarrow> unat x < unat dir + 8196 \<Longrightarrow> m' x = m x"
  shows "dir_Table m' dir (of_nat i) = dir_Table m dir (of_nat i)"
    and "dir_TablePhysical m' dir (of_nat i) = dir_TablePhysical m dir (of_nat i)"
    and "dir_PhysicalAddress m' dir = dir_PhysicalAddress m dir"
proof -
  have "arr_get (dir_array dir) m' k = arr_get (dir_array dir) m k" if "k < 2049" for k
  proof -
    have "unat (dir + 4 * of_nat k) = unat dir + 4 * k"
      using assms(1) that by (intro unat_cell [of _ 2049]) (simp_all add: dir_ok_def)
    then show ?thesis unfolding arr_get_def dir_array_simps
      using that assms(1) by (intro load32_cong assms(3)) (auto simp: offset_less_iff dir_ok_def)
  qed
  moreover have "unat (of_nat i :: u32) = i" using assms(2) by (intro unat_of_nat32) simp
  ultimately show "dir_Table m' dir (of_nat i) = dir_Table m dir (of_nat i)"
    "dir_TablePhysical m' dir (of_nat i) = dir_TablePhysical m dir (of_nat i)"
    "dir_PhysicalAddress m' dir = dir_PhysicalAddress m dir"
    using assms(2) by (simp_all add: dir_arr)
qed

lemma tables_ok_same:
  assumes "tables_ok m dir lo hi" and "dir_ok dir"
    and "\<And>x. unat dir \<le> unat x \<Longrightarrow> unat x < unat dir + 8196 \<Longrightarrow> m' x = m x"
  shows "tables_ok m' dir lo hi"
  using assms(1) unfolding tables_ok_def table_ok_def Let_def by (simp add: dir_same [OF assms(2) _ assms(3)])

lemma entry_same:
  assumes ok: "tables_ok m dir lo hi" "hi \<le> 4294967295" and "dir_ok dir" and q: "q < 1048576"
    and same: "\<And>x. unat dir \<le> unat x \<Longrightarrow> unat x < unat dir + 8196 \<Longrightarrow> m' x = m x"
    and word: "dir_Table m dir (of_nat (q div 1024)) \<noteq> 0 \<Longrightarrow> load32 m' (entry_at m dir q) = load32 m (entry_at m dir q)"
  shows "entry m' dir q = entry m dir q" and "entry_at m' dir q = entry_at m dir q"
proof -
  have "q div 1024 < 1024" using q by linarith
  note d = dir_same(1) [OF assms(3) this same]
  then show "entry_at m' dir q = entry_at m dir q" by (simp add: entry_at_def)
  with d word show "entry m' dir q = entry m dir q" by (simp add: entry_def)
qed

text \<open>The walk reads the directory and its tables only.\<close>

lemma translate_within:
  assumes ok: "tables_ok m dir (unat dir + 8196) hi" "hi \<le> 4294967295" "dir_ok dir" "unat dir + 8196 \<le> hi"
    and same: "\<And>y. unat dir \<le> unat y \<Longrightarrow> unat y < hi \<Longrightarrow> m' y = m y"
  shows "translate m' (dir + 4096) x = translate m (dir + 4096) x" and "tables_ok m' dir (unat dir + 8196) hi"
proof -
  have dirs: "m' y = m y" if "unat dir \<le> unat y" "unat y < unat dir + 8196" for y using that ok(4) by (intro same) linarith+
  show t: "tables_ok m' dir (unat dir + 8196) hi" by (rule tables_ok_same [OF ok(1,3) dirs])
  have q: "unat x div 4096 < 1048576" using unat_lt_2p32 [of x] by linarith
  have "entry m' dir (unat x div 4096) = entry m dir (unat x div 4096)"
  proof (rule entry_same(1) [OF ok(1-3) q dirs])
    assume nz: "dir_Table m dir (of_nat (unat x div 4096 div 1024)) \<noteq> 0"
    note w = table_word [OF ok(1,2) q nz]
    show "load32 m' (entry_at m dir (unat x div 4096)) = load32 m (entry_at m dir (unat x div 4096))"
      using w(2,3) ok(2) by (intro load32_bytes same) linarith+
  qed
  then show "translate m' (dir + 4096) x = translate m (dir + 4096) x"
    by (simp add: translate_entry [OF ok(1)] translate_entry [OF t] Let_def)
qed

lemma tables_ok_mono: "tables_ok m dir lo hi \<Longrightarrow> hi \<le> hi' \<Longrightarrow> tables_ok m dir lo hi'"
  by (fastforce simp: tables_ok_def table_ok_def Let_def)


subsection \<open>get_page\<close>

lemma install_table_other:
  fixes m :: memory
  assumes dir: "dir_ok dir" and i: "unat i < 1024" and j: "j < 1024" "j \<noteq> unat i"
    and t: "unat t + 0x1000 \<le> 4294967295" and sep: "unat dir + 8196 \<le> unat t"
  shows "dir_Table (install_table dir i t tmp m) dir (of_nat j) = dir_Table m dir (of_nat j)"
    and "dir_TablePhysical (install_table dir i t tmp m) dir (of_nat j) = dir_TablePhysical m dir (of_nat j)"
    and "dir_PhysicalAddress (install_table dir i t tmp m) dir = dir_PhysicalAddress m dir"
proof -
  let ?D = "dir_array dir"
  have wf: "arr_wf ?D" using dir by simp
  let ?m1 = "arr_put ?D m (unat i) t"
  have get1: "arr_get ?D ?m1 (unat i) = t"
    using w32.get_put_same [OF wf, of "unat i" m t] i by simp
  have fr: "same_outside (unat t) (unat t + 0x1000) ?m1 (memset ?m1 t 0 0x1000)"
    using memset_frame [of t "0x1000" ?m1 0] t by simp
  have "arr_get ?D (install_table dir i t tmp m) k = arr_get ?D m k" if "k < 2049" "k \<noteq> unat i" "k \<noteq> 1024 + unat i" for k
    using that i sep w32.get_put_other [OF wf, of "1024 + unat i" k] dir_get_frame [OF dir that(1) fr]
      w32.get_put_other [OF wf, of "unat i" k]
    by (simp add: install_table_def dir_arr get1)
  then show "dir_Table (install_table dir i t tmp m) dir (of_nat j) = dir_Table m dir (of_nat j)"
      "dir_TablePhysical (install_table dir i t tmp m) dir (of_nat j) = dir_TablePhysical m dir (of_nat j)"
      "dir_PhysicalAddress (install_table dir i t tmp m) dir = dir_PhysicalAddress m dir"
    using j i by (simp_all add: dir_arr unat_of_nat32)
qed

text \<open>A new blank table behind the others changes no entry.\<close>

lemma install_table_entries:
  fixes m :: memory
  assumes dir: "dir_ok dir" and ok: "tables_ok m dir lo hi" and lo: "unat dir + 8196 \<le> lo" "lo \<le> hi" "hi \<le> unat t"
    and t: "unat t + 4096 \<le> 4294967295" "unat t mod 4096 = 0"
    and i: "i < 1024" "dir_Table m dir (of_nat i) = 0"
  defines "m' \<equiv> install_table dir (of_nat i) t t m"
  shows "tables_ok m' dir lo (unat t + 4096)" and "dir_Table m' dir (of_nat i) = t"
    and "q < 1048576 \<Longrightarrow> entry m' dir q = entry m dir q"
    and "unat x < unat dir \<Longrightarrow> m' x = m x" and "dir_PhysicalAddress m' dir = dir_PhysicalAddress m dir"
    and "tables_kept dir m m'"
proof -
  have ui: "unat (of_nat i :: u32) = i" using i(1) by (intro unat_of_nat32) simp
  have sep: "unat dir + 8196 \<le> unat t \<or> unat t + 0x1000 \<le> unat dir" using lo by linarith
  have spec: "dir_Table m' dir (of_nat i) = t" "dir_TablePhysical m' dir (of_nat i) = t OR 7"
      "\<And>j. j < 1024 \<Longrightarrow> load32 m' (t + 4 * of_nat j) = 0"
      "\<And>x. unat x < unat dir \<or> unat dir + 8196 \<le> unat x \<Longrightarrow> unat x < unat t \<or> unat t + 0x1000 \<le> unat x \<Longrightarrow> m' x = m x"
    using install_table_spec [OF dir _ _ sep, where i = "of_nat i" and tmp = t and m = m] i(1) t(1) unfolding m'_def by (auto simp: ui)
  have other: "dir_Table m' dir (of_nat j) = dir_Table m dir (of_nat j)"
      "dir_TablePhysical m' dir (of_nat j) = dir_TablePhysical m dir (of_nat j)" if "j < 1024" "j \<noteq> i" for j
    using install_table_other [OF dir _ that(1), where i = "of_nat i" and t = t and tmp = t and m = m] that(2) i(1) t(1) lo unfolding m'_def by (simp_all add: ui)
  show "dir_PhysicalAddress m' dir = dir_PhysicalAddress m dir"
    using install_table_other(3) [OF dir _ _ _ _ _, where i = "of_nat i" and j = "if i = 0 then 1 else 0"] i(1) t(1) lo
    unfolding m'_def by (simp add: ui)
  show "tables_kept dir m m'" using other(1) i(2) unfolding tables_kept_def by metis
  have tz: "t \<noteq> 0" using lo by (auto simp: word_eq_unat)
  have below: "dir_Table m dir (of_nat j) \<noteq> t" if "j < 1024" for j
    using tables_okD(2) [OF ok that] lo tz by fastforce
  show "dir_Table m' dir (of_nat i) = t" by (rule spec)
  show "unat x < unat dir \<Longrightarrow> m' x = m x" using spec(4) [of x] lo by simp
  have "table_ok m' dir lo (unat t + 4096) j" if "j < 1024" for j
  proof (cases "j = i")
    case True
    then show ?thesis using spec(1,2) tz lo t(2) other(1) below by (auto simp: table_ok_def Let_def)
  next
    case False
    have "table_ok m dir lo hi j" using ok that by (simp add: tables_ok_def)
    moreover have "dir_Table m' dir (of_nat k) \<noteq> dir_Table m dir (of_nat j)"
      if "dir_Table m dir (of_nat k) \<noteq> dir_Table m dir (of_nat j)" "k < 1024" for k
      using that other(1) [of k] spec(1) below [OF \<open>j < 1024\<close>] by (cases "k = i") auto
    ultimately show ?thesis using other [OF that False] lo by (auto simp: table_ok_def Let_def)
  qed
  then show "tables_ok m' dir lo (unat t + 4096)" by (simp add: tables_ok_def)
  show "entry m' dir q = entry m dir q" if q: "q < 1048576"
  proof (cases "q div 1024 = i")
    case True
    then show ?thesis using i(2) spec(1) spec(3) [of "q mod 1024"] by (simp add: entry_def entry_at_def)
  next
    case False
    have lt: "q div 1024 < 1024" using q by linarith
    have "load32 m' (entry_at m dir q) = load32 m (entry_at m dir q)" if nz: "dir_Table m dir (of_nat (q div 1024)) \<noteq> 0"
      using table_word(2,3) [OF ok _ q nz] lo t(1)
      by (intro load32_cong spec(4)) (auto simp: offset_less_iff)
    then show ?thesis using other(1) [OF lt False] by (auto simp: entry_def entry_at_def)
  qed
qed


subsection \<open>Entering one page\<close>

text \<open>Memory below an address is left alone.\<close>

definition kept_below :: "u32 \<Rightarrow> memory \<Rightarrow> memory \<Rightarrow> bool" where
  "kept_below f m m' \<longleftrightarrow> (\<forall>x < f. m' x = m x)"

lemma kept_below_refl [simp]: "kept_below f m m"
  by (simp add: kept_below_def)

lemma kept_below_trans [trans]: "kept_below f m m1 \<Longrightarrow> kept_below f m1 m2 \<Longrightarrow> kept_below f m m2"
  by (simp add: kept_below_def)

lemma kept_belowI: "unat f \<le> n \<Longrightarrow> (\<And>x. unat x < n \<Longrightarrow> m' x = m x) \<Longrightarrow> kept_below f m m'"
  by (simp add: kept_below_def word_less_unat)

text \<open>
  The kernel while it sets up paging: the bitmap of frames, the kernel's directory and the page
  tables lie in this order below the placement address.
\<close>

definition paging_ok :: "u32 \<Rightarrow> kernel \<Rightarrow> bool" where
  "paging_ok dir s \<longleftrightarrow> kheap s = None \<and> bitmap_ok s \<and> dir_ok dir
     \<and> unat (frames s) + 4 * unat (INDEX_FROM_BIT (nframes s)) \<le> unat dir
     \<and> unat dir + 8196 \<le> unat (placement_address s) \<and> dir_PhysicalAddress (ram s) dir = dir + 4096
     \<and> tables_ok (ram s) dir (unat dir + 8196) (unat (placement_address s))"

lemma paging_okD:
  assumes "paging_ok dir s"
  shows "kheap s = None" "bitmap_ok s" "dir_ok dir"
    "unat (frames s) + 4 * unat (INDEX_FROM_BIT (nframes s)) \<le> unat dir"
    "unat dir + 8196 \<le> unat (placement_address s)"
    "tables_ok (ram s) dir (unat dir + 8196) (unat (placement_address s))"
    "dir_PhysicalAddress (ram s) dir = dir + 4096"
  using assms by (simp_all add: paging_ok_def)

lemma page_index:
  assumes "q < 1048576"
  shows "table_index (of_nat q * 0x1000) = of_nat (q div 1024)"
    and "page_in_table t (of_nat q * 0x1000 div 0x1000) = t + 4 * of_nat (q mod 1024)"
proof -
  have "of_nat q div (1024 :: u32) = of_nat (q div 1024)" "of_nat q mod (1024 :: u32) = of_nat (q mod 1024)"
    using assms by (simp_all add: word_eq_unat unat_div unat_mod unat_of_nat32)
  then show "table_index (of_nat q * 0x1000) = of_nat (q div 1024)"
      "page_in_table t (of_nat q * 0x1000 div 0x1000) = t + 4 * of_nat (q mod 1024)"
    unfolding table_index_def page_in_table_def frame_of_addr [OF assms] by simp_all
qed

lemma get_page_entry:
  assumes ok: "paging_ok dir s" and q: "q < 1048576" and room: "unat (placement_address s) + 0x2000 \<le> 4294967295"
  shows "\<exists>m p. get_page heap_alloc (of_nat q * 0x1000) True dir s =
      Inr (entry_at m dir q, s\<lparr>placement_address := p, ram := m\<rparr>)
    \<and> paging_ok dir (s\<lparr>placement_address := p, ram := m\<rparr>) \<and> dir_Table m dir (of_nat (q div 1024)) \<noteq> 0
    \<and> (if dir_Table (ram s) dir (of_nat (q div 1024)) = 0
       then placement_address s \<le> p \<and> unat p \<le> unat (placement_address s) + 0x2000 else p = placement_address s)
    \<and> (\<forall>r < 1048576. entry m dir r = entry (ram s) dir r)
    \<and> (\<forall>x. unat x < unat dir \<longrightarrow> m x = ram s x) \<and> tables_kept dir (ram s) m"
proof (cases "dir_Table (ram s) dir (of_nat (q div 1024)) = 0")
  case False
  then have "get_page heap_alloc (of_nat q * 0x1000) True dir s = Inr (entry_at (ram s) dir q, s)"
    using get_page_present [of s dir "of_nat q * 0x1000"] by (simp add: page_index [OF q] entry_at_def)
  with False ok show ?thesis by (intro exI [of _ "ram s"] exI [of _ "placement_address s"]) simp
next
  case True
  note o = paging_okD [OF ok]
  let ?P = "unat (placement_address s)"
  let ?a = "placed_at True (placement_address s)"
  define t where "t = (of_nat ?a :: u32)"
  have big: "0x1000 \<le> ?P" using o(5) by simp
  have a: "?P \<le> ?a" "?a \<le> ?P + 0x1000" "?a mod 0x1000 = 0"
    using placed_at_bounds(1) [of "placement_address s" True] placed_at_bounds(2) [of True "placement_address s"] placed_at_bounds(3) [of True "placement_address s"] big by auto
  have ut: "unat t = ?a" unfolding t_def using a room by (intro unat_of_nat_le) linarith
  have up: "unat (t + sizeof_PageTable) = unat t + 4096"
    using a room ut by (subst unat_add_no_wrap) (auto simp: sizeof_PageTable_def)
  have k: "kmalloc_with heap_alloc sizeof_PageTable True True s
      = Inr (t, Some t, s\<lparr>placement_address := t + sizeof_PageTable\<rparr>)"
    using kmalloc_place [OF o(1), of heap_alloc sizeof_PageTable True True] room by (simp add: t_def)
  define m where "m = install_table dir (of_nat (q div 1024)) t t (ram s)"
  have i: "q div 1024 < 1024" using q by linarith
  note I = install_table_entries [OF o(3,6) order_refl o(5) _ _ _ i True, of t, folded m_def]
  have I1: "tables_ok m dir (unat dir + 8196) (unat t + 4096)" "dir_Table m dir (of_nat (q div 1024)) = t"
      "\<And>r. r < 1048576 \<Longrightarrow> entry m dir r = entry (ram s) dir r" "\<And>x. unat x < unat dir \<Longrightarrow> m x = ram s x"
      "dir_PhysicalAddress m dir = dir + 4096" "tables_kept dir (ram s) m"
    using I a ut room o(7) by simp_all
  have "get_page heap_alloc (of_nat q * 0x1000) True dir s =
      Inr (entry_at m dir q, s\<lparr>placement_address := t + sizeof_PageTable, ram := m\<rparr>)"
    using get_page_absent [of s dir "of_nat q * 0x1000" heap_alloc] True k
    by (simp add: page_index [OF q] phys_value_def m_def [symmetric] entry_at_def Let_def)
  moreover have "paging_ok dir (s\<lparr>placement_address := t + sizeof_PageTable, ram := m\<rparr>)"
    using o I1(1,5) up ut a by (auto simp: paging_ok_def bitmap_ok_def)
  moreover have "t \<noteq> 0" using ut a big by (auto simp: word_eq_unat)
  ultimately show ?thesis
    using I1 True up ut a by (intro exI [of _ m] exI [of _ "t + sizeof_PageTable"]) (simp add: word_le_unat)
qed


text \<open>The entry of a present page in frame \<open>f\<close> with its protection, and of a page the user may read.\<close>

definition page_entry :: "u32 \<Rightarrow> nat \<Rightarrow> bool \<Rightarrow> bool \<Rightarrow> bool" where
  "page_entry e f isKernel isWritable \<longleftrightarrow> page_Frame e = of_nat f \<and> page_flag Present e
     \<and> page_flag User e = (\<not> isKernel) \<and> page_flag ReadWrite e = isWritable"

definition mapped :: "u32 \<Rightarrow> nat \<Rightarrow> bool" where
  "mapped e f \<longleftrightarrow> page_Frame e = of_nat f \<and> page_flag Present e \<and> page_flag User e \<and> \<not> page_flag ReadWrite e"

definition least_free :: "kernel \<Rightarrow> nat \<Rightarrow> bool" where
  "least_free s f \<longleftrightarrow> f < frame_limit s \<and> \<not> frame_used s f \<and> (\<forall>g < f. frame_used s g)"

text \<open>
  What a change of the bitmap followed by a change of one entry does to the address space: nothing to
  the other entries.
\<close>

lemma entry_written:
  assumes ok: "paging_ok dir s" and q: "q < 1048576" and table: "dir_Table (ram s) dir (of_nat (q div 1024)) \<noteq> 0"
    and fr: "same_outside (unat (frames s)) (unat (frames s) + 4 * unat (INDEX_FROM_BIT (nframes s))) (ram s) m1"
      "same_outside (unat (entry_at (ram s) dir q)) (unat (entry_at (ram s) dir q) + 4) m1 m"
  shows "r < 1048576 \<Longrightarrow> r \<noteq> q \<Longrightarrow> entry m dir r = entry (ram s) dir r"
    and "entry m dir q = load32 m (entry_at (ram s) dir q)"
    and "i < 1024 \<Longrightarrow> dir_Table m dir (of_nat i) = dir_Table (ram s) dir (of_nat i)"
    and "paging_ok dir (s\<lparr>ram := m\<rparr>)" and "kept_below (frames s) (ram s) m"
    and "unat (placement_address s) \<le> unat x \<Longrightarrow> m x = ram s x"
proof -
  note o = paging_okD [OF ok]
  let ?e = "entry_at (ram s) dir q" and ?B = "unat (frames s) + 4 * unat (INDEX_FROM_BIT (nframes s))"
  note w = table_word(2,3) [OF o(6) unat_le_max32 q table]
  have byte: "m x = ram s x" if "?B \<le> unat x" "unat x < unat ?e \<or> unat ?e + 4 \<le> unat x" for x
    using that fr by (metis same_outside_byte)
  have dirs: "m x = ram s x" if "unat dir \<le> unat x" "unat x < unat dir + 8196" for x
    using that o(4) w by (intro byte) linarith+
  show "entry m dir r = entry (ram s) dir r" if r: "r < 1048576" "r \<noteq> q"
  proof (rule entry_same(1) [OF o(6) unat_le_max32 o(3) r(1) dirs])
    assume nz: "dir_Table (ram s) dir (of_nat (r div 1024)) \<noteq> 0"
    note ap = entries_apart [OF o(6) unat_le_max32 q r table nz]
    note wr = table_word(2,3) [OF o(6) unat_le_max32 r(1) nz]
    show "load32 m (entry_at (ram s) dir r) = load32 (ram s) (entry_at (ram s) dir r)"
      by (intro load32_cong byte) (use ap wr o(4) unat_lt_2p32 [of "placement_address s"] in \<open>auto simp: offset_less_iff\<close>)
  qed
  show tab: "dir_Table m dir (of_nat i) = dir_Table (ram s) dir (of_nat i)" if "i < 1024" for i
    by (rule dir_same(1) [OF o(3) that dirs])
  show "entry m dir q = load32 m (entry_at (ram s) dir q)"
    using tab [of "q div 1024"] table q by (simp add: entry_def entry_at_def)
  show "paging_ok dir (s\<lparr>ram := m\<rparr>)"
    using o tables_ok_same [OF o(6,3) dirs] dir_same(3) [OF o(3) zero_less_numeral dirs] by (simp add: paging_ok_def bitmap_ok_def)
  show "kept_below (frames s) (ram s) m"
  proof (rule kept_belowI [OF order_refl])
    fix x :: u32 assume x: "unat x < unat (frames s)"
    then have "unat x < unat ?e" using w(1) o(4) by linarith
    then show "m x = ram s x" using x fr by (metis same_outside_byte)
  qed
  show "m x = ram s x" if "unat (placement_address s) \<le> unat x"
    using that o(4,5) w by (intro byte) linarith+
qed

lemma alloc_frame_page_entry:
  assumes ok: "paging_ok dir s" and q: "q < 1048576" and table: "dir_Table (ram s) dir (of_nat (q div 1024)) \<noteq> 0"
    and none: "page_Frame (entry (ram s) dir q) = 0" and free: "least_free s f"
  shows "\<exists>m. alloc_frame (entry_at (ram s) dir q) isKernel isWritable s = Inr (s\<lparr>ram := m\<rparr>) \<and> kept_below (frames s) (ram s) m
    \<and> paging_ok dir (s\<lparr>ram := m\<rparr>) \<and> page_entry (entry m dir q) f isKernel isWritable
    \<and> (\<forall>r < 1048576. r \<noteq> q \<longrightarrow> entry m dir r = entry (ram s) dir r)
    \<and> (\<forall>g < frame_limit s. frame_used (s\<lparr>ram := m\<rparr>) g \<longleftrightarrow> g = f \<or> frame_used s g)
    \<and> (\<forall>i < 1024. dir_Table m dir (of_nat i) = dir_Table (ram s) dir (of_nat i))
    \<and> (\<forall>x. unat (placement_address s) \<le> unat x \<longrightarrow> m x = ram s x)"
proof -
  note o = paging_okD [OF ok]
  let ?e = "entry_at (ram s) dir q" and ?B = "unat (frames s) + 4 * unat (INDEX_FROM_BIT (nframes s))"
  note w = table_word(2,3) [OF o(6) unat_le_max32 q table]
  have sep: "page_separate s ?e" using w o(4) unat_lt_2p32 [of "placement_address s"] unfolding page_separate_def by linarith
  have "page_Frame (load32 (ram s) ?e) = 0" using none table by (simp add: entry_def)
  moreover have "f < frame_limit s" "\<not> frame_used s f" "\<forall>g < f. frame_used s g" using free by (simp_all add: least_free_def)
  ultimately obtain s' m1 m where r: "alloc_frame ?e isKernel isWritable s = Inr s'" "s' = s\<lparr>ram := m\<rparr>"
      and e': "page_Frame (load32 (ram s') ?e) = of_nat f" "page_flag Present (load32 (ram s') ?e)"
        "page_flag User (load32 (ram s') ?e) = (\<not> isKernel)" "page_flag ReadWrite (load32 (ram s') ?e) = isWritable"
      and used': "\<forall>g < frame_limit s. frame_used s' g \<longleftrightarrow> g = f \<or> frame_used s g"
      and fr: "same_outside (unat (frames s)) ?B (ram s) m1" "same_outside (unat ?e) (unat ?e + 4) m1 m"
    using alloc_frame_spec [OF o(2) sep, of f isKernel isWritable] by blast
  have run: "alloc_frame ?e isKernel isWritable s = Inr (s\<lparr>ram := m\<rparr>)" using r by simp
  have e: "page_entry (load32 m ?e) f isKernel isWritable" using e' by (simp add: page_entry_def r(2))
  have used: "\<forall>g < frame_limit s. frame_used (s\<lparr>ram := m\<rparr>) g \<longleftrightarrow> g = f \<or> frame_used s g" using used' by (simp add: r(2))
  note W = entry_written [OF ok q table fr]
  show ?thesis using run used e W unfolding W(2) [symmetric] by blast
qed

lemma alloc_frame_entry:
  assumes "paging_ok dir s" and "q < 1048576" and "dir_Table (ram s) dir (of_nat (q div 1024)) \<noteq> 0"
    and "page_Frame (entry (ram s) dir q) = 0" and "least_free s f"
  shows "\<exists>m. alloc_frame (entry_at (ram s) dir q) False False s = Inr (s\<lparr>ram := m\<rparr>) \<and> kept_below (frames s) (ram s) m
    \<and> paging_ok dir (s\<lparr>ram := m\<rparr>) \<and> mapped (entry m dir q) f
    \<and> (\<forall>r < 1048576. r \<noteq> q \<longrightarrow> entry m dir r = entry (ram s) dir r)
    \<and> (\<forall>g < frame_limit s. frame_used (s\<lparr>ram := m\<rparr>) g \<longleftrightarrow> g = f \<or> frame_used s g)
    \<and> (\<forall>i < 1024. dir_Table m dir (of_nat i) = dir_Table (ram s) dir (of_nat i))"
proof -
  have "mapped e g = page_entry e g False False" for e g by (auto simp: mapped_def page_entry_def)
  then show ?thesis using alloc_frame_page_entry [OF assms, of False False] by auto
qed

lemma frame_used_same:
  assumes ok: "paging_ok dir s" and g: "g < frame_limit s" and same: "\<And>x. unat x < unat dir \<Longrightarrow> m x = ram s x"
  shows "frame_used (s\<lparr>placement_address := p, ram := m\<rparr>) g = frame_used s g"
proof -
  note o = paging_okD [OF ok]
  let ?a = "frames s + 4 * of_nat (g div 32)"
  have k: "g div 32 < unat (INDEX_FROM_BIT (nframes s))" using g by (auto simp: frame_limit_def)
  then have a: "unat ?a = unat (frames s) + 4 * (g div 32)"
    using o(2) by (intro unat_cell [of _ "unat (INDEX_FROM_BIT (nframes s))"]) (simp_all add: bitmap_ok_def arr_wf_def)
  have "unat ?a + 4 \<le> unat dir" unfolding a using k o(4) by linarith
  then have "load32 m ?a = load32 (ram s) ?a"
    using unat_le_max32 [of dir] by (intro load32_bytes same) linarith+
  then show ?thesis by (simp add: frame_used_def frame_word_def)
qed

lemma map_page:
  assumes ok: "paging_ok dir s" and q: "q < 1048576" and room: "unat (placement_address s) + 0x2000 \<le> 4294967295"
    and none: "page_Frame (entry (ram s) dir q) = 0" and free: "least_free s f"
  shows "\<exists>page s1 m p. get_page heap_alloc (of_nat q * 0x1000) True dir s = Inr (page, s1)
    \<and> alloc_frame page False False s1 = Inr (s\<lparr>placement_address := p, ram := m\<rparr>)
    \<and> paging_ok dir (s\<lparr>placement_address := p, ram := m\<rparr>)
    \<and> (if dir_Table (ram s) dir (of_nat (q div 1024)) = 0
       then placement_address s \<le> p \<and> unat p \<le> unat (placement_address s) + 0x2000 else p = placement_address s)
    \<and> mapped (entry m dir q) f \<and> (\<forall>r < 1048576. r \<noteq> q \<longrightarrow> entry m dir r = entry (ram s) dir r)
    \<and> (\<forall>g < frame_limit s. frame_used (s\<lparr>placement_address := p, ram := m\<rparr>) g \<longleftrightarrow> g = f \<or> frame_used s g)
    \<and> tables_kept dir (ram s) m \<and> kept_below (frames s) (ram s) m"
proof -
  note o = paging_okD [OF ok]
  from get_page_entry [OF ok q room, of heap_alloc]
  obtain m p where g: "get_page heap_alloc (of_nat q * 0x1000) True dir s = Inr (entry_at m dir q, s\<lparr>placement_address := p, ram := m\<rparr>)"
      "paging_ok dir (s\<lparr>placement_address := p, ram := m\<rparr>)" "dir_Table m dir (of_nat (q div 1024)) \<noteq> 0"
      "if dir_Table (ram s) dir (of_nat (q div 1024)) = 0
       then placement_address s \<le> p \<and> unat p \<le> unat (placement_address s) + 0x2000 else p = placement_address s"
      "\<And>r. r < 1048576 \<Longrightarrow> entry m dir r = entry (ram s) dir r" "\<And>x. unat x < unat dir \<Longrightarrow> m x = ram s x"
      "tables_kept dir (ram s) m"
    by blast
  let ?s = "s\<lparr>placement_address := p, ram := m\<rparr>"
  have lim: "frame_limit (s\<lparr>placement_address := p, ram := m'\<rparr>) = frame_limit s" for m' by (simp add: frame_limit_def)
  have used: "frame_used ?s g = frame_used s g" if "g < frame_limit s" for g
    using frame_used_same [OF ok that, of m p] g(6) by blast
  have f: "f < frame_limit s" "\<not> frame_used s f" "\<And>g. g < f \<Longrightarrow> frame_used s g" using free by (simp_all add: least_free_def)
  have "frame_used ?s g" if "g < f" for g using used [of g] f(1) f(3) [OF that] that by simp
  with f used [OF f(1)] have "least_free ?s f" unfolding least_free_def lim by simp
  with alloc_frame_entry [OF g(2) q, of f] g(3,5) none q
  obtain m' where "alloc_frame (entry_at m dir q) False False ?s = Inr (s\<lparr>placement_address := p, ram := m'\<rparr>)"
    "paging_ok dir (s\<lparr>placement_address := p, ram := m'\<rparr>)" "mapped (entry m' dir q) f"
    "\<forall>r < 1048576. r \<noteq> q \<longrightarrow> entry m' dir r = entry m dir r"
    "\<forall>g < frame_limit ?s. frame_used (s\<lparr>placement_address := p, ram := m'\<rparr>) g \<longleftrightarrow> g = f \<or> frame_used ?s g"
    "tables_kept dir m m'" "kept_below (frames s) m m'"
    by (auto simp: tables_kept_def)
  moreover have "kept_below (frames s) (ram s) m" by (rule kept_belowI [OF _ g(6)]) (use o(4) in simp_all)
  ultimately show ?thesis using kept_below_trans [of "frames s" "ram s" m m'] g used tables_kept_trans [OF g(7), of m'] unfolding lim
    by (intro exI [of _ "entry_at m dir q"] exI [of _ ?s] exI [of _ m'] exI [of _ p]) simp
qed

subsection \<open>Room to grow\<close>

text \<open>
  The paging of the kernel with a heap: as in \<open>paging_ok\<close>, with the first \<open>n\<close> frames in use and the
  memory from the placement address on free of page tables.
\<close>

definition growable :: "u32 \<Rightarrow> nat \<Rightarrow> kernel \<Rightarrow> bool" where
  "growable dir n s \<longleftrightarrow> paging_ok dir (s\<lparr>kheap := None\<rparr>) \<and> kernel_directory s = dir
     \<and> (\<forall>g < frame_limit s. frame_used s g \<longleftrightarrow> g < n)"

text \<open>The pages from \<open>a\<close> to \<open>b\<close> have tables but no frames.\<close>

definition unmapped :: "memory \<Rightarrow> u32 \<Rightarrow> nat \<Rightarrow> nat \<Rightarrow> bool" where
  "unmapped m dir a b \<longleftrightarrow> (\<forall>q. a \<le> q \<and> q < b \<longrightarrow> dir_Table m dir (of_nat (q div 1024)) \<noteq> 0 \<and> entry m dir q = 0)"

text \<open>The entries of the pages lie below the placement address.\<close>

lemma entry_below:
  assumes ok: "paging_ok dir s" and q: "q < 1048576" and same: "\<And>x. unat x < unat (placement_address s) \<Longrightarrow> m x = ram s x"
  shows "entry m dir q = entry (ram s) dir q"
proof -
  note o = paging_okD [OF ok]
  show ?thesis
  proof (rule entry_same(1) [OF o(6) unat_le_max32 o(3) q])
    fix y :: u32 assume "unat dir \<le> unat y" "unat y < unat dir + 8196"
    then show "m y = ram s y" using o(5) by (intro same) linarith
  next
    assume nz: "dir_Table (ram s) dir (of_nat (q div 1024)) \<noteq> 0"
    note w = table_word(3) [OF o(6) unat_le_max32 q nz]
    show "load32 m (entry_at (ram s) dir q) = load32 (ram s) (entry_at (ram s) dir q)"
      using w unat_le_max32 [of "placement_address s"] by (intro load32_bytes same) linarith+
  qed
qed


text \<open>So the paging and the room to grow depend on the memory below the placement address only.\<close>

lemma paging_ok_below:
  assumes ok: "paging_ok dir (s\<lparr>kheap := None\<rparr>)" and fr: "frames s' = frames s" "nframes s' = nframes s"
    and up: "unat (placement_address s) \<le> unat (placement_address s')"
    and same: "\<And>x. unat x < unat (placement_address s) \<Longrightarrow> ram s' x = ram s x"
  shows "paging_ok dir (s'\<lparr>kheap := None\<rparr>)"
proof -
  note o = paging_okD [OF ok]
  have dirs: "ram s' y = ram s y" if "unat dir \<le> unat y" "unat y < unat dir + 8196" for y
    using that o(5) by (intro same) simp
  have "tables_ok (ram s) dir (unat dir + 8196) (unat (placement_address s))" using o(6) by simp
  from tables_ok_same [OF this o(3) dirs] have "tables_ok (ram s') dir (unat dir + 8196) (unat (placement_address s'))"
    using up by (auto simp: tables_ok_def table_ok_def Let_def split: if_splits)
  moreover have "dir_PhysicalAddress (ram s') dir = dir + 4096" using dir_same(3) [OF o(3) _ dirs, of 0] o(7) by simp
  ultimately show ?thesis using o(2-5) up fr by (simp add: paging_ok_def bitmap_ok_def)
qed

lemma growable_below:
  assumes g: "growable dir f s" and kd: "kernel_directory s' = dir" and fr: "frames s' = frames s" "nframes s' = nframes s"
    and up: "unat (placement_address s) \<le> unat (placement_address s')"
    and same: "\<And>x. unat x < unat (placement_address s) \<Longrightarrow> ram s' x = ram s x"
  shows "growable dir f s'" and "unmapped (ram s) dir a b \<Longrightarrow> b \<le> 1048576 \<Longrightarrow> unmapped (ram s') dir a b"
proof -
  have ok: "paging_ok dir (s\<lparr>kheap := None\<rparr>)" and used: "\<forall>g < frame_limit s. frame_used s g \<longleftrightarrow> g < f"
    using g by (simp_all add: growable_def)
  note o = paging_okD [OF ok]
  have dirs: "ram s' y = ram s y" if "unat dir \<le> unat y" "unat y < unat dir + 8196" for y
    using that o(5) by (intro same) simp
  have "paging_ok dir (s'\<lparr>kheap := None\<rparr>)" by (rule paging_ok_below [OF ok fr up same])
  moreover have "frame_used s' h = frame_used s h" if "h < frame_limit s" for h
  proof -
    have "h < frame_limit (s\<lparr>kheap := None\<rparr>)" using that by (simp add: frame_limit_def)
    then have "frame_used (s\<lparr>kheap := None\<rparr>\<lparr>placement_address := 0, ram := ram s'\<rparr>) h = frame_used (s\<lparr>kheap := None\<rparr>) h"
      using o(5) same by (intro frame_used_same [OF ok]) simp_all
    then show ?thesis using fr by (simp add: frame_used_def frame_word_def)
  qed
  ultimately show "growable dir f s'" using used kd fr by (simp add: growable_def frame_limit_def)
  assume un: "unmapped (ram s) dir a b" and b: "b \<le> 1048576"
  show "unmapped (ram s') dir a b"
    unfolding unmapped_def
  proof (intro allI impI)
    fix q assume q: "a \<le> q \<and> q < b"
    then have q': "q < 1048576" "q div 1024 < 1024" using b by linarith+
    have "entry (ram s') dir q = entry (ram s) dir q" using entry_below [OF ok q'(1), of "ram s'"] same by simp
    then show "dir_Table (ram s') dir (of_nat (q div 1024)) \<noteq> 0 \<and> entry (ram s') dir q = 0"
      using un q dir_same(1) [OF o(3) q'(2) dirs] by (simp add: unmapped_def)
  qed
qed

end
