(* ===== verification/Identity_Map.thy ===== *)
theory Identity_Map
  imports Address_Space
begin

text \<open>
  The loop of initialise_paging that maps the memory in use to itself. While it runs the placement
  address grows, because page tables are allocated; the loop ends when it has caught up with it.
\<close>

subsection \<open>The loop\<close>

definition id_upto :: "u32 \<Rightarrow> nat \<Rightarrow> kernel \<Rightarrow> bool" where
  "id_upto dir n s \<longleftrightarrow> paging_ok dir s \<and> kernel_directory s = dir
     \<and> (\<forall>g < frame_limit s. frame_used s g \<longleftrightarrow> g < n)
     \<and> (\<forall>q < n. mapped (entry (ram s) dir q) q)
     \<and> (\<forall>q < frame_limit s. n \<le> q \<longrightarrow> page_Frame (entry (ram s) dir q) = 0)"

lemma mapped_table: "mapped (entry m dir q) f \<Longrightarrow> dir_Table m dir (of_nat (q div 1024)) \<noteq> 0"
  by (auto simp: entry_def mapped_def page_flag_def)

lemma id_step:
  assumes inv: "id_upto dir j s" and j: "j < frame_limit s" "frame_limit s \<le> 4096"
    and room: "unat (placement_address s) + 0x2000 \<le> 4294967295"
  shows "\<exists>page s1 m p. get_page heap_alloc (of_nat j * 0x1000) True dir s = Inr (page, s1)
    \<and> alloc_frame page False False s1 = Inr (s\<lparr>placement_address := p, ram := m\<rparr>)
    \<and> id_upto dir (Suc j) (s\<lparr>placement_address := p, ram := m\<rparr>)
    \<and> placement_address s \<le> p \<and> unat p \<le> unat (placement_address s) + (if j mod 1024 = 0 then 0x2000 else 0)
    \<and> (\<forall>r < 1048576. r \<noteq> j \<longrightarrow> entry m dir r = entry (ram s) dir r) \<and> tables_kept dir (ram s) m
    \<and> kept_below (frames s) (ram s) m"
proof -
  have i: "paging_ok dir s" "kernel_directory s = dir" "\<And>g. g < frame_limit s \<Longrightarrow> frame_used s g \<longleftrightarrow> g < j"
      "\<And>q. q < j \<Longrightarrow> mapped (entry (ram s) dir q) q"
      "\<And>q. j \<le> q \<Longrightarrow> q < frame_limit s \<Longrightarrow> page_Frame (entry (ram s) dir q) = 0"
    using inv by (simp_all add: id_upto_def)
  have q: "j < 1048576" using j by linarith
  have "least_free s j" using j i(3) by (simp add: least_free_def)
  from map_page [OF i(1) q room i(5) [OF order_refl j(1)] this, of heap_alloc]
  obtain page s1 m p where r: "get_page heap_alloc (of_nat j * 0x1000) True dir s = Inr (page, s1)"
      "alloc_frame page False False s1 = Inr (s\<lparr>placement_address := p, ram := m\<rparr>)"
      "paging_ok dir (s\<lparr>placement_address := p, ram := m\<rparr>)"
      "if dir_Table (ram s) dir (of_nat (j div 1024)) = 0
       then placement_address s \<le> p \<and> unat p \<le> unat (placement_address s) + 0x2000 else p = placement_address s"
      "mapped (entry m dir j) j" "\<And>r. r < 1048576 \<Longrightarrow> r \<noteq> j \<Longrightarrow> entry m dir r = entry (ram s) dir r"
      "\<And>g. g < frame_limit s \<Longrightarrow> frame_used (s\<lparr>placement_address := p, ram := m\<rparr>) g \<longleftrightarrow> g = j \<or> frame_used s g"
      "tables_kept dir (ram s) m" "kept_below (frames s) (ram s) m"
    by blast
  have "dir_Table (ram s) dir (of_nat (j div 1024)) \<noteq> 0" if "j mod 1024 \<noteq> 0"
  proof -
    from that have "0 < j" "(j - 1) div 1024 = j div 1024" by (cases j; auto simp: div_Suc mod_Suc split: if_splits)+
    with mapped_table [OF i(4) [of "j - 1"]] show ?thesis by simp
  qed
  then have p: "placement_address s \<le> p \<and> unat p \<le> unat (placement_address s) + (if j mod 1024 = 0 then 0x2000 else 0)"
    using r(4) by (auto split: if_splits)
  have "id_upto dir (Suc j) (s\<lparr>placement_address := p, ram := m\<rparr>)"
    unfolding id_upto_def
    using r(3,5,6,7) i j by (auto simp: frame_limit_def less_Suc_eq)
  with r p show ?thesis by blast
qed

text \<open>\<open>k\<close> is the number of page tables that were allocated on the way.\<close>

lemma identity_map_loop:
  assumes "id_upto dir j s" and L: "frame_limit s = L" "L \<le> 4096" and "j \<le> L"
    and "unat (placement_address s) \<le> P + 0x2000 * k" and k: "j \<le> 1024 * k" "1024 * k \<le> j + 1023" and P: "P + 0x9000 \<le> 4096 * L"
    and fuel: "L - j < fuel" and close: "4096 * j < unat (placement_address s) + 0x2000"
  shows "\<exists>n p m. identity_map fuel heap_alloc (of_nat j * 0x1000) s = Inr (s\<lparr>placement_address := p, ram := m\<rparr>)
    \<and> id_upto dir n (s\<lparr>placement_address := p, ram := m\<rparr>) \<and> n \<le> L
    \<and> placement_address s \<le> p \<and> unat p \<le> P + 0x8000 \<and> unat p + 0x1000 \<le> 4096 * n \<and> 4096 * n < unat p + 0x2000
    \<and> (\<forall>r < 1048576. n \<le> r \<longrightarrow> entry m dir r = entry (ram s) dir r) \<and> tables_kept dir (ram s) m
    \<and> kept_below (frames s) (ram s) m"
  using assms(1) \<open>j \<le> L\<close> assms(5) k fuel close L(1)
proof (induction fuel arbitrary: j s k)
  case (Suc fuel)
  let ?p = "placement_address s"
  have jb: "k \<le> 4" using Suc.prems(2,5) L(2) by linarith
  have up: "unat (?p + 0x1000) = unat ?p + 4096"
    using Suc.prems(3) jb P L(2) by (subst unat_add_no_wrap) auto
  have ui: "unat (of_nat j * 0x1000 :: u32) = 4096 * j"
  proof -
    have "(of_nat j * 0x1000 :: u32) = of_nat (4096 * j)" by simp
    also have "unat \<dots> = 4096 * j" using Suc.prems(2) L(2) by (intro unat_of_nat32) linarith
    finally show ?thesis .
  qed
  have test: "of_nat j * 0x1000 < ?p + 0x1000 \<longleftrightarrow> 4096 * j < unat ?p + 4096" by (simp add: word_less_unat ui up)
  show ?case
  proof (cases "4096 * j < unat ?p + 4096")
    case False
    moreover have "unat ?p \<le> P + 0x8000" using Suc.prems(3) jb by linarith
    ultimately show ?thesis using test Suc.prems
      by (intro exI [of _ j] exI [of _ ?p] exI [of _ "ram s"]) simp
  next
    case True
    have j: "j < frame_limit s" using True Suc.prems(3,8) jb P by linarith
    have dir: "kernel_directory s = dir" using Suc.prems(1) by (simp add: id_upto_def)
    have room: "unat ?p + 0x2000 \<le> 4294967295" using Suc.prems(3) jb P L(2) by linarith
    have L': "frame_limit s \<le> 4096" using Suc.prems(8) L(2) by simp
    obtain page s1 m p where r: "get_page heap_alloc (of_nat j * 0x1000) True dir s = Inr (page, s1)"
        "alloc_frame page False False s1 = Inr (s\<lparr>placement_address := p, ram := m\<rparr>)"
        "id_upto dir (Suc j) (s\<lparr>placement_address := p, ram := m\<rparr>)"
        "?p \<le> p" "unat p \<le> unat ?p + (if j mod 1024 = 0 then 0x2000 else 0)"
        "\<And>r. r < 1048576 \<Longrightarrow> r \<noteq> j \<Longrightarrow> entry m dir r = entry (ram s) dir r" "tables_kept dir (ram s) m"
        "kept_below (frames s) (ram s) m"
      using id_step [OF Suc.prems(1) j L' room, of heap_alloc] by blast
    let ?s = "s\<lparr>placement_address := p, ram := m\<rparr>"
    define k' where "k' = (if j mod 1024 = 0 then k + 1 else k)"
    have "j = 1024 * k" if "j mod 1024 = 0"
      using that Suc.prems(4,5) by (auto simp: mod_eq_0_iff_dvd dvd_def)
    moreover have "j \<noteq> 1024 * k" if "j mod 1024 \<noteq> 0" using that by auto
    ultimately have k': "Suc j \<le> 1024 * k'" "1024 * k' \<le> Suc j + 1023"
      using Suc.prems(4,5) by (auto simp: k'_def)
    have "unat (placement_address ?s) \<le> P + 0x2000 * k'"
      using r(5) Suc.prems(3) by (auto simp: k'_def split: if_splits)
    moreover have "4096 * Suc j < unat (placement_address ?s) + 0x2000" using True r(4) by (simp add: word_le_unat)
    moreover have "Suc j \<le> L" "L - Suc j < fuel" "frame_limit ?s = L"
      using j Suc.prems(6,8) by (auto simp: frame_limit_def)
    ultimately obtain n p' m' where n: "identity_map fuel heap_alloc (of_nat (Suc j) * 0x1000) ?s
          = Inr (s\<lparr>placement_address := p', ram := m'\<rparr>)"
        "id_upto dir n (s\<lparr>placement_address := p', ram := m'\<rparr>)" "n \<le> L" "p \<le> p'" "unat p' + 0x1000 \<le> 4096 * n"
        "unat p' \<le> P + 0x8000" "4096 * n < unat p' + 0x2000"
        "\<And>r. r < 1048576 \<Longrightarrow> n \<le> r \<Longrightarrow> entry m' dir r = entry m dir r" "tables_kept dir m m'"
        "kept_below (frames s) m m'"
      using Suc.IH [OF r(3) _ _ k'] by auto
    have "j < n" using n(4,5) r(4) True by (simp add: word_le_unat)
    moreover have "identity_map (Suc fuel) heap_alloc (of_nat j * 0x1000) s = Inr (s\<lparr>placement_address := p', ram := m'\<rparr>)"
      using True test r(1,2) n(1) by (simp add: dir algebra_simps)
    ultimately show ?thesis using n r(4,6) tables_kept_trans [OF r(7) n(9)] kept_below_trans [OF r(8) n(10)]
      by (intro exI [of _ n] exI [of _ p'] exI [of _ m']) auto
  qed
qed simp


subsection \<open>The pages of the heap\<close>

lemma unat_page: "q < 1048576 \<Longrightarrow> unat (of_nat q * 0x1000 :: u32) = 4096 * q"
proof -
  assume q: "q < 1048576"
  have "(of_nat q * 0x1000 :: u32) = of_nat (4096 * q)" by simp
  also have "unat \<dots> = 4096 * q" using q by (intro unat_of_nat32) linarith
  finally show ?thesis .
qed

lemma page_less: "a < 1048576 \<Longrightarrow> b < 1048576 \<Longrightarrow> (of_nat a * 0x1000 :: u32) < of_nat b * 0x1000 \<longleftrightarrow> a < b"
  by (simp add: word_less_unat unat_page)

lemma next_page: "(of_nat a * 0x1000 :: u32) + 0x1000 = of_nat (Suc a) * 0x1000"
  by (simp add: algebra_simps)

lemma get_page_there:
  assumes "q < 1048576" and "dir_Table (ram s) dir (of_nat (q div 1024)) \<noteq> 0"
  shows "get_page heap_alloc (of_nat q * 0x1000) mk dir s = Inr (entry_at (ram s) dir q, s)"
  using get_page_present [of s dir "of_nat q * 0x1000"] assms(2) by (simp add: page_index [OF assms(1)] entry_at_def)

lemma map_range_present:
  assumes "b < 1048576" and "b - a < fuel" and "a \<le> b"
    and "\<And>q. a \<le> q \<Longrightarrow> q < b \<Longrightarrow> dir_Table (ram s) (kernel_directory s) (of_nat (q div 1024)) \<noteq> 0"
  shows "map_range fuel heap_alloc (of_nat a * 0x1000) (of_nat b * 0x1000) (\<lambda>page. Inr) s = Inr s"
  using assms
proof (induction fuel arbitrary: a)
  case (Suc fuel)
  show ?case
  proof (cases "a < b")
    case True
    then have "map_range fuel heap_alloc (of_nat (Suc a) * 0x1000) (of_nat b * 0x1000) (\<lambda>page. Inr) s = Inr s"
      using Suc.prems by (intro Suc.IH) auto
    then show ?thesis
      using True Suc.prems get_page_there [of a s "kernel_directory s" heap_alloc True] page_less [of a b]
      by (simp add: next_page del: of_nat_Suc)
  qed (use Suc.prems page_less [of a b] in auto)
qed simp

lemma map_range_tables:
  assumes ok: "paging_ok dir s" "kernel_directory s = dir" and ab: "a < b" "b < 1048576" "(b - 1) div 1024 = a div 1024"
    and room: "unat (placement_address s) + 0x2000 \<le> 4294967295" and fuel: "b - a < fuel"
  shows "\<exists>m p. map_range fuel heap_alloc (of_nat a * 0x1000) (of_nat b * 0x1000) (\<lambda>page. Inr) s
      = Inr (s\<lparr>placement_address := p, ram := m\<rparr>)
    \<and> paging_ok dir (s\<lparr>placement_address := p, ram := m\<rparr>) \<and> dir_Table m dir (of_nat (a div 1024)) \<noteq> 0
    \<and> placement_address s \<le> p \<and> unat p \<le> unat (placement_address s) + 0x2000
    \<and> (\<forall>r < 1048576. entry m dir r = entry (ram s) dir r) \<and> (\<forall>x. unat x < unat dir \<longrightarrow> m x = ram s x)"
proof -
  have a: "a < 1048576" using ab by linarith
  obtain m p where g: "get_page heap_alloc (of_nat a * 0x1000) True dir s
        = Inr (entry_at m dir a, s\<lparr>placement_address := p, ram := m\<rparr>)"
      "paging_ok dir (s\<lparr>placement_address := p, ram := m\<rparr>)" "dir_Table m dir (of_nat (a div 1024)) \<noteq> 0"
      "if dir_Table (ram s) dir (of_nat (a div 1024)) = 0
       then placement_address s \<le> p \<and> unat p \<le> unat (placement_address s) + 0x2000 else p = placement_address s"
      "\<forall>r < 1048576. entry m dir r = entry (ram s) dir r" "\<forall>x. unat x < unat dir \<longrightarrow> m x = ram s x"
    using get_page_entry [OF ok(1) a room, of heap_alloc] by blast
  let ?s = "s\<lparr>placement_address := p, ram := m\<rparr>"
  obtain fuel' where f: "fuel = Suc fuel'" using fuel by (cases fuel) auto
  have same: "q div 1024 = a div 1024" if "a \<le> q" "q < b" for q
    using that ab(3) div_le_mono [of a q 1024] div_le_mono [of q "b - 1" 1024] by linarith
  have "map_range fuel' heap_alloc (of_nat (Suc a) * 0x1000) (of_nat b * 0x1000) (\<lambda>page. Inr) ?s = Inr ?s"
  proof (rule map_range_present [OF ab(2)])
    show "b - Suc a < fuel'" "Suc a \<le> b" using fuel f ab(1) by linarith+
    fix q assume "Suc a \<le> q" "q < b"
    then show "dir_Table (ram ?s) (kernel_directory ?s) (of_nat (q div 1024)) \<noteq> 0" using same [of q] g(3) ok(2) by simp
  qed
  then have "map_range fuel heap_alloc (of_nat a * 0x1000) (of_nat b * 0x1000) (\<lambda>page. Inr) s = Inr ?s"
    using page_less [OF a ab(2)] ab(1) g(1) ok(2) by (simp add: f next_page del: of_nat_Suc)
  moreover have "placement_address s \<le> p" "unat p \<le> unat (placement_address s) + 0x2000"
    using g(4) by (auto split: if_splits)
  ultimately show ?thesis using g(2,3,5,6) by blast
qed

lemma map_range_frames:
  assumes "paging_ok dir s" "kernel_directory s = dir" and b: "b < 1048576" and "b - a < fuel" "a \<le> b"
    and "\<And>q. a \<le> q \<Longrightarrow> q < b \<Longrightarrow> dir_Table (ram s) dir (of_nat (q div 1024)) \<noteq> 0 \<and> page_Frame (entry (ram s) dir q) = 0"
    and "\<And>g. g < frame_limit s \<Longrightarrow> frame_used s g \<longleftrightarrow> g < n" and "n + (b - a) \<le> frame_limit s"
  shows "\<exists>m. map_range fuel heap_alloc (of_nat a * 0x1000) (of_nat b * 0x1000) (\<lambda>page. alloc_frame page False False) s
      = Inr (s\<lparr>ram := m\<rparr>)
    \<and> paging_ok dir (s\<lparr>ram := m\<rparr>) \<and> (\<forall>q. a \<le> q \<and> q < b \<longrightarrow> mapped (entry m dir q) (n + (q - a)))
    \<and> (\<forall>r < 1048576. r < a \<or> b \<le> r \<longrightarrow> entry m dir r = entry (ram s) dir r) \<and> kept_below (frames s) (ram s) m
    \<and> (\<forall>g < frame_limit s. frame_used (s\<lparr>ram := m\<rparr>) g \<longleftrightarrow> g < n + (b - a))
    \<and> (\<forall>i < 1024. dir_Table m dir (of_nat i) = dir_Table (ram s) dir (of_nat i))"
  using assms(1,2,4-)
proof (induction fuel arbitrary: a n s)
  case (Suc fuel)
  show ?case
  proof (cases "a < b")
    case False
    then show ?thesis using Suc.prems page_less [of a b] b by (intro exI [of _ "ram s"]) auto
  next
    case True
    have a: "a < 1048576" using True b by linarith
    have ta: "dir_Table (ram s) dir (of_nat (a div 1024)) \<noteq> 0" "page_Frame (entry (ram s) dir a) = 0"
      using Suc.prems(5) True by auto
    have "least_free s n" using Suc.prems(6,7) True by (auto simp: least_free_def)
    from alloc_frame_entry [OF Suc.prems(1) a ta this]
    obtain m where m: "alloc_frame (entry_at (ram s) dir a) False False s = Inr (s\<lparr>ram := m\<rparr>)"
        "paging_ok dir (s\<lparr>ram := m\<rparr>)" "mapped (entry m dir a) n"
        "\<And>r. r < 1048576 \<Longrightarrow> r \<noteq> a \<Longrightarrow> entry m dir r = entry (ram s) dir r"
        "\<And>g. g < frame_limit s \<Longrightarrow> frame_used (s\<lparr>ram := m\<rparr>) g \<longleftrightarrow> g = n \<or> frame_used s g"
        "\<And>i. i < 1024 \<Longrightarrow> dir_Table m dir (of_nat i) = dir_Table (ram s) dir (of_nat i)"
        "kept_below (frames s) (ram s) m"
      by blast
    let ?s = "s\<lparr>ram := m\<rparr>"
    have lim: "frame_limit ?s = frame_limit s" by (simp add: frame_limit_def)
    have "\<exists>m'. map_range fuel heap_alloc (of_nat (Suc a) * 0x1000) (of_nat b * 0x1000) (\<lambda>page. alloc_frame page False False) ?s
          = Inr (?s\<lparr>ram := m'\<rparr>)
        \<and> paging_ok dir (?s\<lparr>ram := m'\<rparr>) \<and> (\<forall>q. Suc a \<le> q \<and> q < b \<longrightarrow> mapped (entry m' dir q) (Suc n + (q - Suc a)))
        \<and> (\<forall>r < 1048576. r < Suc a \<or> b \<le> r \<longrightarrow> entry m' dir r = entry (ram ?s) dir r) \<and> kept_below (frames ?s) (ram ?s) m'
        \<and> (\<forall>g < frame_limit ?s. frame_used (?s\<lparr>ram := m'\<rparr>) g \<longleftrightarrow> g < Suc n + (b - Suc a))
        \<and> (\<forall>i < 1024. dir_Table m' dir (of_nat i) = dir_Table (ram ?s) dir (of_nat i))"
    proof (rule Suc.IH [OF m(2)])
      show "kernel_directory ?s = dir" "b - Suc a < fuel" "Suc a \<le> b" "Suc n + (b - Suc a) \<le> frame_limit ?s"
        using Suc.prems True lim by auto
      show "dir_Table (ram ?s) dir (of_nat (q div 1024)) \<noteq> 0 \<and> page_Frame (entry (ram ?s) dir q) = 0" if "Suc a \<le> q" "q < b" for q
      proof -
        have "q div 1024 < 1024" "q < 1048576" using that b by linarith+
        then show ?thesis using Suc.prems(5) [of q] m(4) [of q] m(6) [of "q div 1024"] that by simp
      qed
      show "frame_used ?s g \<longleftrightarrow> g < Suc n" if "g < frame_limit ?s" for g
        using that m(5) [of g] Suc.prems(6) [of g] by (auto simp: lim)
    qed
    then obtain m' where r: "map_range fuel heap_alloc (of_nat (Suc a) * 0x1000) (of_nat b * 0x1000)
          (\<lambda>page. alloc_frame page False False) ?s = Inr (s\<lparr>ram := m'\<rparr>)" "paging_ok dir (s\<lparr>ram := m'\<rparr>)"
        "\<And>q. Suc a \<le> q \<Longrightarrow> q < b \<Longrightarrow> mapped (entry m' dir q) (Suc n + (q - Suc a))"
        "\<And>r. r < 1048576 \<Longrightarrow> r < Suc a \<or> b \<le> r \<Longrightarrow> entry m' dir r = entry m dir r" "kept_below (frames s) m m'"
        "\<forall>g < frame_limit s. frame_used (s\<lparr>ram := m'\<rparr>) g \<longleftrightarrow> g < Suc n + (b - Suc a)"
        "\<forall>i < 1024. dir_Table m' dir (of_nat i) = dir_Table m dir (of_nat i)"
      by (auto simp: lim)
    have "Suc n + (b - Suc a) = n + (b - a)" using True by simp
    note used = r(6) [unfolded this]
    have "map_range (Suc fuel) heap_alloc (of_nat a * 0x1000) (of_nat b * 0x1000) (\<lambda>page. alloc_frame page False False) s
        = Inr (s\<lparr>ram := m'\<rparr>)"
      using True page_less [OF a b] get_page_there [OF a ta(1), of heap_alloc True] m(1) r(1) Suc.prems(2)
      by (simp add: next_page del: of_nat_Suc)
    moreover have "mapped (entry m' dir q) (n + (q - a))" if "a \<le> q" "q < b" for q
    proof (cases "q = a")
      case False
      with that have "Suc n + (q - Suc a) = n + (q - a)" "Suc a \<le> q" by linarith+
      with r(3) [OF _ that(2)] show ?thesis by metis
    qed (use r(4) [OF a] m(3) in simp)
    ultimately show ?thesis using r(2,4,7) used m(4,6) True kept_below_trans [OF m(7) r(5)] by (intro exI [of _ m']) auto
  qed
qed simp

end
