(* ===== verification/Block_Pool.thy ===== *)
theory Block_Pool
  imports Paging_Properties
begin

text \<open>
  What a client of kmalloc relies on: a request for which there is room succeeds, the new block lies
  apart from all live ones, allocation leaves the contents of live blocks alone, and writing into
  live blocks does not damage the allocator. Both allocators behind kmalloc provide this: the
  placement allocator and the heap.
\<close>

definition in_block :: "nat \<times> nat \<Rightarrow> u32 \<Rightarrow> bool" where
  "in_block b x \<longleftrightarrow> fst b \<le> unat x \<and> unat x < fst b + snd b"

definition apart_blocks :: "nat \<times> nat \<Rightarrow> nat \<times> nat \<Rightarrow> bool" where
  "apart_blocks b c \<longleftrightarrow> fst b + snd b \<le> fst c \<or> fst c + snd c \<le> fst b"

text \<open>
  \<open>pool s room L lo hi\<close>: requests of altogether \<open>room\<close> bytes, 20 added to each, can still be served;
  the blocks \<open>L\<close> are live; the allocator owns the addresses from \<open>lo\<close> to \<open>hi\<close>.
\<close>

locale block_pool =
  fixes pool :: "kernel \<Rightarrow> nat \<Rightarrow> (nat \<times> nat) set \<Rightarrow> nat \<Rightarrow> nat \<Rightarrow> bool"
  assumes bounds: "pool s room L lo hi \<Longrightarrow> 0 < lo \<and> hi \<le> 4294967295 \<and> (\<forall>b \<in> L. lo \<le> fst b \<and> fst b + snd b \<le> hi)"
    and serve: "pool s room L lo hi \<Longrightarrow> k + 20 \<le> room \<Longrightarrow>
      \<exists>p n s'. kmalloc (Suc fuel) (of_nat k) False False s = Inr (p, None, s') \<and> k \<le> n
        \<and> pool s' (room - (k + 20)) (insert (unat p, n) L) lo hi
        \<and> (\<forall>b \<in> L. apart_blocks (unat p, n) b)
        \<and> (\<forall>x. unat x < lo \<or> hi \<le> unat x \<or> (\<exists>b \<in> L. in_block b x) \<longrightarrow> ram s' x = ram s x)"
    and client_write: "pool s room L lo hi \<Longrightarrow>
      (\<And>x. lo \<le> unat x \<Longrightarrow> unat x < hi \<Longrightarrow> \<forall>b \<in> L. \<not> in_block b x \<Longrightarrow> m x = ram s x) \<Longrightarrow>
      pool (s\<lparr>ram := m\<rparr>) room L lo hi"

subsection \<open>Sequences of requests\<close>

text \<open>A client that asks for blocks of the given sizes, one after the other.\<close>

primrec kmalloc_all :: "nat \<Rightarrow> nat list \<Rightarrow> kernel \<Rightarrow> fault + (u32 list \<times> kernel)" where
  "kmalloc_all fuel [] s = Inr ([], s)"
| "kmalloc_all fuel (k # ks) s =
     rbind (kmalloc fuel (of_nat k) False False s) (\<lambda>(p, _, s).
     rbind (kmalloc_all fuel ks s) (\<lambda>(ps, s). Inr (p # ps, s)))"

definition demand :: "nat list \<Rightarrow> nat" where
  "demand ks = sum_list (map (\<lambda>k. k + 20) ks)"

context block_pool
begin

lemma serve_all:
  "pool s room L lo hi \<Longrightarrow> demand ks \<le> room \<Longrightarrow>
   \<exists>ps s'. kmalloc_all (Suc fuel) ks s = Inr (ps, s') \<and> length ps = length ks
     \<and> sorted_wrt apart_blocks (zip (map unat ps) ks)
     \<and> (\<forall>c \<in> set (zip (map unat ps) ks). lo \<le> fst c \<and> fst c + snd c \<le> hi \<and> (\<forall>b \<in> L. apart_blocks c b))
     \<and> (\<forall>x. unat x < lo \<or> hi \<le> unat x \<or> (\<exists>b \<in> L. in_block b x) \<longrightarrow> ram s' x = ram s x)"
proof (induction ks arbitrary: s room L)
  case (Cons k ks)
  have k: "k + 20 \<le> room" "demand ks \<le> room - (k + 20)" using Cons.prems(2) by (simp_all add: demand_def)
  obtain p n s1 where run: "kmalloc (Suc fuel) (of_nat k) False False s = Inr (p, None, s1)" and n: "k \<le> n"
      and pool1: "pool s1 (room - (k + 20)) (insert (unat p, n) L) lo hi"
      and ap: "\<forall>b \<in> L. apart_blocks (unat p, n) b"
      and fr: "\<And>x. unat x < lo \<or> hi \<le> unat x \<or> (\<exists>b \<in> L. in_block b x) \<Longrightarrow> ram s1 x = ram s x"
    using serve [OF Cons.prems(1) k(1), of fuel] by blast
  from Cons.IH [OF pool1 k(2)]
  obtain ps s' where all: "kmalloc_all (Suc fuel) ks s1 = Inr (ps, s')" "length ps = length ks"
      "sorted_wrt apart_blocks (zip (map unat ps) ks)"
      "\<And>c. c \<in> set (zip (map unat ps) ks) \<Longrightarrow> lo \<le> fst c \<and> fst c + snd c \<le> hi
         \<and> apart_blocks c (unat p, n) \<and> (\<forall>b \<in> L. apart_blocks c b)"
      and fr': "\<And>x. unat x < lo \<or> hi \<le> unat x \<or> (\<exists>b \<in> insert (unat p, n) L. in_block b x) \<Longrightarrow> ram s' x = ram s1 x"
    by blast
  have b: "lo \<le> unat p" "unat p + n \<le> hi" using bounds [OF pool1] by auto
  have first: "apart_blocks (unat p, k) c" if "c \<in> set (zip (map unat ps) ks)" for c
    using all(4) [OF that] n by (auto simp: apart_blocks_def)
  have old: "apart_blocks (unat p, k) b" if "b \<in> L" for b
    using ap that n by (fastforce simp: apart_blocks_def)
  have "ram s' x = ram s x" if "unat x < lo \<or> hi \<le> unat x \<or> (\<exists>b \<in> L. in_block b x)" for x
    using fr' [of x] fr [of x] that by auto
  then show ?case
    using run all first old b n
    by (intro exI [of _ "p # ps"] exI [of _ s']) auto
qed simp

text \<open>An ordered list with its elements in a block of the pool.\<close>

lemma new_list:
  assumes pool: "pool s room L lo hi" and n: "4 * n + 20 \<le> room"
  shows "\<exists>ol k s'. OrderedList_new (Suc fuel) (of_nat n) is_less s = Inr (ol, s')
    \<and> ol_wf ol \<and> ol_items ol (ram s') = [] \<and> m_lessThanPredicate ol = is_less
    \<and> ol_hi ol = ol_lo ol + 4 * n \<and> 4 * n \<le> k \<and> pool s' (room - (4 * n + 20)) (insert (ol_lo ol, k) L) lo hi
    \<and> (\<forall>b \<in> L. apart_blocks (ol_lo ol, k) b)
    \<and> (\<forall>x. unat x < lo \<or> hi \<le> unat x \<or> (\<exists>b \<in> L. in_block b x) \<longrightarrow> ram s' x = ram s x)"
proof -
  obtain p k s1 where run: "kmalloc (Suc fuel) (of_nat (4 * n)) False False s = Inr (p, None, s1)" and k: "4 * n \<le> k"
      and pool1: "pool s1 (room - (4 * n + 20)) (insert (unat p, k) L) lo hi"
      and ap: "\<forall>b \<in> L. apart_blocks (unat p, k) b"
      and fr: "\<And>x. unat x < lo \<or> hi \<le> unat x \<or> (\<exists>b \<in> L. in_block b x) \<Longrightarrow> ram s1 x = ram s x"
    using serve [OF pool n, of fuel] by blast
  have b: "lo \<le> unat p" "unat p + k \<le> hi" "hi \<le> 4294967295" using bounds [OF pool1] by auto
  have un: "unat (of_nat n :: u32) = n" "unat (of_nat n * 4 :: u32) = 4 * n"
  proof -
    show "unat (of_nat n :: u32) = n" using b k by (intro unat_of_nat32) linarith
    have "(of_nat n * 4 :: u32) = of_nat (4 * n)" by simp
    then show "unat (of_nat n * 4 :: u32) = 4 * n" using b k by (simp only:) (intro unat_of_nat32, linarith)
  qed
  let ?ol = "\<lparr>m_elements = p, m_size = 0, m_maxSize = of_nat n, m_lessThanPredicate = is_less\<rparr>"
  define m where "m = memset (ram s1) p 0 (of_nat n * 4)"
  have written: "same_outside (unat p) (unat p + 4 * n) (ram s1) m"
    using memset_frame [of p "of_nat n * 4" "ram s1" 0] un b k by (simp add: m_def)
  have mem: "m x = ram s1 x" if "unat x < unat p \<or> unat p + k \<le> unat x" for x
    using that k by (intro same_outside_byte [OF written]) linarith
  have "pool (s1\<lparr>ram := m\<rparr>) (room - (4 * n + 20)) (insert (unat p, k) L) lo hi"
    by (rule client_write [OF pool1 mem]) (auto simp: in_block_def)
  moreover have "m x = ram s x" if x: "unat x < lo \<or> hi \<le> unat x \<or> (\<exists>b \<in> L. in_block b x)" for x
  proof -
    have "unat x < unat p \<or> unat p + k \<le> unat x" using x b ap by (fastforce simp: in_block_def apart_blocks_def)
    then show ?thesis using mem fr [OF x] by simp
  qed
  moreover have "OrderedList_new (Suc fuel) (of_nat n) is_less s = Inr (?ol, s1\<lparr>ram := m\<rparr>)"
    using run by (simp add: OrderedList_new_def Let_def m_def mult.commute)
  ultimately show ?thesis using k ap b un
    by (intro exI [of _ ?ol] exI [of _ k] exI [of _ "s1\<lparr>ram := m\<rparr>"])
       (simp add: ol_defs ol_items_def arr_wf_def)
qed

end

subsection \<open>The placement allocator\<close>

definition place_pool :: "kernel \<Rightarrow> nat \<Rightarrow> (nat \<times> nat) set \<Rightarrow> nat \<Rightarrow> nat \<Rightarrow> bool" where
  "place_pool s room L lo hi \<longleftrightarrow> kheap s = None \<and> 0 < lo \<and> hi + 0x1000 \<le> 4294967295
     \<and> lo \<le> unat (placement_address s) \<and> unat (placement_address s) + room \<le> hi
     \<and> (\<forall>b \<in> L. lo \<le> fst b \<and> fst b + snd b \<le> unat (placement_address s))"

lemma place_serve:
  assumes pool: "place_pool s room L lo hi" and k: "k + 20 \<le> room"
  shows "\<exists>p n s'. kmalloc (Suc fuel) (of_nat k) False False s = Inr (p, None, s') \<and> k \<le> n
    \<and> place_pool s' (room - (k + 20)) (insert (unat p, n) L) lo hi
    \<and> (\<forall>b \<in> L. apart_blocks (unat p, n) b)
    \<and> (\<forall>x. unat x < lo \<or> hi \<le> unat x \<or> (\<exists>b \<in> L. in_block b x) \<longrightarrow> ram s' x = ram s x)"
proof -
  let ?p = "placement_address s"
  have fits: "unat ?p + 0x1000 \<le> 4294967295" "unat ?p + k \<le> 4294967295"
    using pool k by (auto simp: place_pool_def)
  have "kmalloc (Suc fuel) (of_nat k) False False s = Inr (?p, None, s\<lparr>placement_address := ?p + of_nat k\<rparr>)"
    using kmalloc_place [of s "Alloc (Suc fuel)" "of_nat k" False False] pool fits
    by (simp add: kmalloc_def place_pool_def placed_at_def)
  moreover have "unat (?p + of_nat k) = unat ?p + k"
    using fits(2) by (subst unat_add_no_wrap) (simp_all add: unat_of_nat32)
  ultimately show ?thesis
    using pool k
    by (intro exI [of _ ?p] exI [of _ k] exI [of _ "s\<lparr>placement_address := ?p + of_nat k\<rparr>"])
       (auto simp: place_pool_def apart_blocks_def)
qed

interpretation placement: block_pool place_pool
  by unfold_locales (fastforce simp: place_pool_def, rule place_serve, simp_all add: place_pool_def)

subsection \<open>The heap\<close>

text \<open>The bytes of the used blocks that belong to the clients.\<close>

fun used :: "nat \<Rightarrow> block list \<Rightarrow> (nat \<times> nat) list" where
  "used a [] = []"
| "used a ((n, hole) # bs) = (if hole then used (a + n) bs else (a + 12, n - 20) # used (a + n) bs)"

lemma used_append [simp]: "used a (bs @ cs) = used a bs @ used (a + extent bs) cs"
  by (induction bs arbitrary: a) (auto simp: add.assoc)

lemma used_bounds:
  "blocks m E a bs e \<Longrightarrow> b \<in> set (used a bs) \<Longrightarrow> a + 12 \<le> fst b \<and> fst b + snd b + 8 \<le> e"
proof (induction bs arbitrary: a)
  case (Cons c bs)
  obtain n hole where c: "c = (n, hole)" by fastforce
  have e: "e = a + n + extent bs" "20 \<le> n" using Cons.prems(1) blocks_end [OF Cons.prems(1)] c by auto
  have "a + n + 12 \<le> fst b \<and> fst b + snd b + 8 \<le> e" if "b \<in> set (used (a + n) bs)"
    using Cons.IH [OF _ that] Cons.prems(1) c by simp
  with Cons.prems(2) c e show ?case by (auto split: if_splits)
qed simp

lemma blocks_payload:
  assumes "blocks m E a bs e" and "e \<le> 4294967295"
    and "\<And>x. a \<le> unat x \<Longrightarrow> unat x < e \<Longrightarrow> \<forall>b \<in> set (used a bs). \<not> in_block b x \<Longrightarrow> m' x = m x"
  shows "blocks m' E a bs e"
  using assms
proof (induction bs arbitrary: a)
  case (Cons c bs)
  obtain n hole where c: "c = (n, hole)" by fastforce
  have n: "20 \<le> n" and tail: "blocks m E (a + n) bs e" using Cons.prems(1) c by auto
  have e: "e = a + n + extent bs" using blocks_end [OF tail] .
  have out: "\<forall>b \<in> set (used (a + n) bs). a + n + 12 \<le> fst b" using used_bounds [OF tail] by blast
  have same: "m' x = m x" if "a \<le> unat x" "unat x < a + 12 \<or> a + n - 8 \<le> unat x" "unat x < a + n" for x
    by (rule Cons.prems(3)) (use that out n e c in \<open>auto simp: in_block_def\<close>)
  have "header_ok m' a n hole = header_ok m a n hole"
    by (rule same_inside_cong [where a = a and b = "a + 12"], rule header_ok_frame)
       (use same n e Cons.prems(2) in auto)
  moreover have "footer_ok m' a n = footer_ok m a n"
    by (rule same_inside_cong [where a = "a + n - 8" and b = "a + n"], rule footer_ok_frame)
       (use same n e Cons.prems(2) in auto)
  moreover have "blocks m' E (a + n) bs e"
  proof (rule Cons.IH [OF tail Cons.prems(2)])
    fix x assume "a + n \<le> unat x" "unat x < e" "\<forall>b \<in> set (used (a + n) bs). \<not> in_block b x"
    then show "m' x = m x" using n c by (intro Cons.prems(3)) (auto simp: in_block_def)
  qed
  ultimately show ?case using Cons.prems(1) c by simp
qed simp

lemma heap_inv_payload:
  assumes inv: "heap_inv h m lo bs"
    and same: "\<And>x. ol_lo (m_index h) \<le> unat x \<Longrightarrow> unat x < unat (m_endAddress h) \<Longrightarrow>
      \<forall>b \<in> set (used lo bs). \<not> in_block b x \<Longrightarrow> m' x = m x"
  shows "heap_inv h m' lo bs"
proof -
  note i = heap_invD [OF inv]
  have ol: "ol_lo (m_index h) \<le> ol_hi (m_index h)" by (simp add: ol_defs)
  have out: "\<forall>b \<in> set (used lo bs). lo + 12 \<le> fst b" using used_bounds [OF i(1)] by blast
  have "blocks m' (unat (m_endAddress h)) lo bs (unat (m_endAddress h))"
    by (rule blocks_payload [OF i(1) unat_le_max32], rule same) (use i(3) ol in auto)
  moreover have "ol_items (m_index h) m' = ol_items (m_index h) m"
  proof (rule same_inside_cong [where a = "ol_lo (m_index h)" and b = "ol_hi (m_index h)"])
    fix x :: u32 assume "ol_lo (m_index h) \<le> unat x" "unat x < ol_hi (m_index h)"
    then show "m' x = m x" by (intro same) (use i(3,7) out in \<open>auto simp: in_block_def\<close>)
  qed (rule ol_items_frame [OF i(2)], auto)
  ultimately show ?thesis using inv by (simp add: heap_inv_def)
qed

text \<open>Alloc never moves the index nor changes its capacity, and keeps the start address.\<close>

definition index_place :: "Heap \<Rightarrow> u32 \<times> u32 \<times> u32" where
  "index_place h = (m_elements (m_index h), m_maxSize (m_index h), m_startAddress h)"

lemma ol_place [simp]:
  "m_elements (fst (Insert ol m x)) = m_elements ol" "m_elements (fst (Remove ol m i)) = m_elements ol"
  "m_maxSize (fst (Insert ol m x)) = m_maxSize ol" "m_maxSize (fst (Remove ol m i)) = m_maxSize ol"
  by (simp_all add: Insert_def Remove_def Let_def)

lemma alloc_in_hole_index:
  "alloc_in_hole h m i n align = (p, h', m') \<Longrightarrow> index_place h' = index_place h"
  by (auto simp: index_place_def alloc_in_hole_def Let_def case_prod_beta split: if_splits)

lemma Alloc_index:
  assumes "kheap s = Some h" and "FindSmallestHole h (ram s) (n + 20) align \<noteq> -1"
    and "Alloc (Suc fuel) n align s = Inr (p, s')" and "kheap s' = Some h'"
  shows "index_place h' = index_place h"
proof -
  obtain q h1 m1 where r: "alloc_in_hole h (ram s) (FindSmallestHole h (ram s) (n + 20) align) n align = (q, h1, m1)"
    using prod_cases3 by blast
  have "h1 = h'" using Alloc_found [OF assms(1,2) r, of fuel] assms(3,4) by (auto simp del: Alloc.simps)
  with alloc_in_hole_index [OF r] show ?thesis by simp
qed

lemma Alloc_state:
  assumes "kheap s = Some h" and "FindSmallestHole h (ram s) (n + 20) align \<noteq> -1"
    and "Alloc (Suc fuel) n align s = Inr (p, s')"
  shows "s' = s\<lparr>kheap := kheap s', ram := ram s'\<rparr>"
proof -
  obtain q h1 m1 where r: "alloc_in_hole h (ram s) (FindSmallestHole h (ram s) (n + 20) align) n align = (q, h1, m1)"
    using prod_cases3 by blast
  have "s' = s\<lparr>kheap := Some h1, ram := m1\<rparr>" using Alloc_found [OF assms(1,2) r, of fuel] assms(3) by (simp del: Alloc.simps)
  then show ?thesis by simp
qed

text \<open>A hole of \<open>room\<close> bytes, unless \<open>room\<close> is too small for any request.\<close>

definition has_room :: "nat \<Rightarrow> block list \<Rightarrow> bool" where
  "has_room room bs \<longleftrightarrow> room < 20 \<or> (\<exists>n. (n, True) \<in> set bs \<and> room \<le> n)"

lemma has_room_carve:
  assumes "has_room room (bs1 @ (n, True) # bs2)"
  shows "has_room (room - need) (bs1 @ carve need n @ bs2)"
proof (cases "\<exists>n0. (n0, True) \<in> set bs1 \<union> set bs2 \<and> room \<le> n0")
  case True
  then obtain n0 where n0: "(n0, True) \<in> set bs1 \<union> set bs2" "room \<le> n0" by blast
  then have "room - need \<le> n0" by linarith
  with n0(1) show ?thesis unfolding has_room_def by auto
next
  case False
  with assms have "room < 20 \<or> room \<le> n" unfolding has_room_def by auto
  then have "room - need < 20 \<or> 20 \<le> n - need \<and> room - need \<le> n - need" by linarith
  then show ?thesis unfolding has_room_def carve_def by auto
qed

definition heap_pool :: "kernel \<Rightarrow> nat \<Rightarrow> (nat \<times> nat) set \<Rightarrow> nat \<Rightarrow> nat \<Rightarrow> bool" where
  "heap_pool s room L lo hi \<longleftrightarrow> (\<exists>h a bs. kheap s = Some h \<and> heap_inv h (ram s) a bs
     \<and> 0 < lo \<and> lo = ol_lo (m_index h) \<and> hi = unat (m_endAddress h)
     \<and> L \<subseteq> set (used a bs) \<and> has_room room bs)"

lemma used_carve:
  assumes "k + 20 \<le> n"
  obtains n' where "used a (carve (k + 20) n) = [(a + 12, n')]" and "k \<le> n'" and "n' + 20 \<le> n"
  using assms by (cases "n - (k + 20) < 20") (auto simp: carve_def)

lemma heap_serve:
  assumes pool: "heap_pool s room L lo hi" and k: "k + 20 \<le> room"
  shows "\<exists>p n s'. kmalloc (Suc fuel) (of_nat k) False False s = Inr (p, None, s') \<and> k \<le> n
    \<and> heap_pool s' (room - (k + 20)) (insert (unat p, n) L) lo hi
    \<and> (\<forall>b \<in> L. apart_blocks (unat p, n) b)
    \<and> (\<forall>x. unat x < lo \<or> hi \<le> unat x \<or> (\<exists>b \<in> L. in_block b x) \<longrightarrow> ram s' x = ram s x)"
proof -
  obtain h a bs where h: "kheap s = Some h" "heap_inv h (ram s) a bs" "0 < lo" "lo = ol_lo (m_index h)"
      "hi = unat (m_endAddress h)" "L \<subseteq> set (used a bs)" "has_room room bs"
    using pool by (auto simp: heap_pool_def)
  obtain n0 where n0: "(n0, True) \<in> set bs" "k + 20 \<le> n0"
    using h(7) k by (auto simp: has_room_def)
  obtain p s' h' bs1 n bs2 where run: "Alloc (Suc fuel) (of_nat k) False s = Inr (p, s')"
      and bs: "bs = bs1 @ (n, True) # bs2" "k + 20 \<le> n" and p: "p = of_nat (a + extent bs1 + 12)"
      and h': "kheap s' = Some h'" "heap_inv h' (ram s') a (bs1 @ carve (k + 20) n @ bs2)"
      and fr: "\<And>x. unat x < ol_lo (m_index h) \<or> ol_hi (m_index h) \<le> unat x \<Longrightarrow>
        unat x < a + extent bs1 \<or> a + extent bs1 + n \<le> unat x \<Longrightarrow> ram s' x = ram s x"
    using Alloc_spec [OF h(1,2) n0, of fuel] by blast
  note i = heap_invD [OF h(2)] and i' = heap_invD [OF h'(2)]
  have e: "unat (m_endAddress h) = a + extent bs1 + n + extent bs2" using i(7) bs(1) by simp
  have place: "ol_lo (m_index h') = lo" "unat (m_endAddress h') = hi"
    using Alloc_index [OF h(1) large_hole_found [OF h(2) n0] run h'(1)] h(4,5) e i'(7) bs(2)
    by (simp_all add: ol_lo_def index_place_def)
  have up: "unat p = a + extent bs1 + 12"
    unfolding p using e bs(2) unat_le_max32 [of "m_endAddress h"] by (intro unat_of_nat32) linarith
  obtain n' where n': "used (a + extent bs1) (carve (k + 20) n) = [(unat p, n')]" "k \<le> n'" "n' + 20 \<le> n"
    using used_carve [OF bs(2)] up by metis
  have bl: "blocks (ram s) hi a bs1 (a + extent bs1)" "blocks (ram s) hi (a + extent bs1 + n) bs2 hi"
    using i(1) bs(1) h(5) by (simp_all add: blocks_append)
  have sides: "a + 12 \<le> fst b \<and> (fst b + snd b \<le> a + extent bs1 \<or> a + extent bs1 + n \<le> fst b)" if "b \<in> L" for b
    using h(6) that bs(1) used_bounds [OF bl(1), of b] used_bounds [OF bl(2), of b] by auto
  have "kmalloc (Suc fuel) (of_nat k) False False s = Inr (p, None, s')"
    using run h(1) by (simp add: kmalloc_def kmalloc_with_def del: Alloc.simps)
  moreover have "heap_pool s' (room - (k + 20)) (insert (unat p, n') L) lo hi"
    unfolding heap_pool_def
    using h(3,6,7) h' place n'(1) bs has_room_carve [of room bs1 n bs2 "k + 20"]
    by (intro exI [of _ h'] exI [of _ a] exI [of _ "bs1 @ carve (k + 20) n @ bs2"]) auto
  moreover have "\<forall>b \<in> L. apart_blocks (unat p, n') b"
    using sides n'(3) up by (fastforce simp: apart_blocks_def)
  moreover have "ram s' x = ram s x" if "unat x < lo \<or> hi \<le> unat x \<or> (\<exists>b \<in> L. in_block b x)" for x
    by (rule fr) (use that sides i(3) h(4,5) e bs(2) in \<open>fastforce simp: in_block_def ol_lo_def ol_hi_def\<close>)+
  ultimately show ?thesis using n'(2) by blast
qed

interpretation heap: block_pool heap_pool
proof unfold_locales
  fix s room L lo hi assume "heap_pool s room L lo hi"
  then obtain h a bs where h: "heap_inv h (ram s) a bs" "0 < lo" "lo = ol_lo (m_index h)"
      "hi = unat (m_endAddress h)" "L \<subseteq> set (used a bs)"
    by (auto simp: heap_pool_def)
  note i = heap_invD [OF h(1)]
  have "lo \<le> a" using i(3) h(3) by (simp add: ol_defs)
  then show "0 < lo \<and> hi \<le> 4294967295 \<and> (\<forall>b \<in> L. lo \<le> fst b \<and> fst b + snd b \<le> hi)"
    using h(2,4,5) used_bounds [OF i(1)] unat_le_max32 by fastforce
next
  fix s room L lo hi m assume pool: "heap_pool s room L lo hi"
    and same: "\<And>x. lo \<le> unat x \<Longrightarrow> unat x < hi \<Longrightarrow> \<forall>b \<in> L. \<not> in_block b x \<Longrightarrow> m x = ram s x"
  from pool obtain h a bs where h: "kheap s = Some h" "heap_inv h (ram s) a bs" "0 < lo" "lo = ol_lo (m_index h)"
      "hi = unat (m_endAddress h)" "L \<subseteq> set (used a bs)" "has_room room bs"
    by (auto simp: heap_pool_def)
  have "heap_inv h m a bs"
    by (rule heap_inv_payload [OF h(2)], rule same) (use h(4,5,6) in auto)
  with h show "heap_pool (s\<lparr>ram := m\<rparr>) room L lo hi" unfolding heap_pool_def by auto
qed (rule heap_serve)

text \<open>
  C7: a sequence of requests for which the heap has room succeeds. The blocks lie inside the heap,
  no two of them overlap, none overlaps a block that was live before, and neither the contents of
  the live blocks nor the memory outside the heap changes.
\<close>

theorem kmalloc_blocks_disjoint:
  assumes "heap_pool s room L lo hi" and "demand ks \<le> room"
  shows "\<exists>ps s'. kmalloc_all (Suc fuel) ks s = Inr (ps, s') \<and> length ps = length ks
     \<and> sorted_wrt apart_blocks (zip (map unat ps) ks)
     \<and> (\<forall>c \<in> set (zip (map unat ps) ks). lo \<le> fst c \<and> fst c + snd c \<le> hi \<and> (\<forall>b \<in> L. apart_blocks c b))
     \<and> (\<forall>x. unat x < lo \<or> hi \<le> unat x \<or> (\<exists>b \<in> L. in_block b x) \<longrightarrow> ram s' x = ram s x)"
  using assms by (rule heap.serve_all)

text \<open>The heap as the constructor leaves it at boot.\<close>

lemma boot_pool: "heap_pool boot_kernel 0x80000 {} 0xC0000000 0xC0100000"
proof -
  have "m_elements (m_index (fst boot_heap)) = KHEAP_START"
    by (simp add: boot_heap_def Heap_init_def OrderedList_at_def Let_def case_prod_beta)
  then have "ol_lo (m_index (fst boot_heap)) = 0xC0000000" by (simp add: ol_lo_def KHEAP_START_def)
  moreover have "unat (m_endAddress (fst boot_heap)) = 0xC0100000"
    using heap_invD(7) [OF boot_kernel_inv(1)] by simp
  moreover have "has_room 0x80000 [(0x80000, True)]" by (simp add: has_room_def)
  ultimately show ?thesis
    unfolding heap_pool_def using boot_kernel_inv
    by (intro exI [of _ "fst boot_heap"] exI [of _ "0xC0080000"] exI [of _ "[(0x80000, True)]"]) simp
qed

theorem kmalloc_blocks_disjoint_witness:
  "\<exists>p q s'. kmalloc_all 1 [100, 200] boot_kernel = Inr ([p, q], s') \<and> apart_blocks (unat p, 100) (unat q, 200)"
proof -
  have "demand [100, 200] \<le> 0x80000" by (simp add: demand_def)
  from kmalloc_blocks_disjoint [OF boot_pool this, of 0]
  obtain ps s' where r: "kmalloc_all 1 [100, 200] boot_kernel = Inr (ps, s')" "length ps = 2"
      "sorted_wrt apart_blocks (zip (map unat ps) [100, 200])"
    by auto
  from r(2) obtain p q where "ps = [p, q]" by (auto simp: length_Suc_conv numeral_2_eq_2)
  with r show ?thesis by (auto simp del: kmalloc_all.simps)
qed

end
