(* ===== verification/Heap_Aligned.thy ===== *)
theory Heap_Aligned
  imports Block_Pool
begin

text \<open>
  Alloc with alignment: the block is placed so that its data starts on the next page boundary behind
  the header of the hole, and the memory before it stays a hole. The code does not look whether the
  hole has room for that; \<open>align_fits\<close> is the condition under which the heap invariant is kept.
\<close>

definition front :: "nat \<Rightarrow> nat" where
  "front a = 4096 - a mod 4096 - 12"

definition align_fits :: "nat \<Rightarrow> nat \<Rightarrow> nat \<Rightarrow> bool" where
  "align_fits n a k \<longleftrightarrow> 4096 \<le> a \<and> a mod 4096 \<le> 4064 \<and> (front a + (n + 20) = k \<or> front a + (n + 20) + 20 \<le> k)"

definition carve_aligned :: "nat \<Rightarrow> nat \<Rightarrow> nat \<Rightarrow> block list" where
  "carve_aligned n a k = (front a, True) # (n + 20, False)
     # (if k = front a + (n + 20) then [] else [(k - (front a + (n + 20)), True)])"

lemma align_fitsD:
  assumes "align_fits n a k"
  shows "20 \<le> front a" "front a + (n + 20) \<le> k" "a + front a + 12 = (a div 4096 + 1) * 4096" "4096 \<le> a"
proof -
  show "20 \<le> front a" "front a + (n + 20) \<le> k" "4096 \<le> a" using assms by (auto simp: align_fits_def front_def)
  define x y where "x = a mod 4096" and "y = a div 4096"
  have "a = 4096 * y + x" "x \<le> 4064" using assms by (simp_all add: align_fits_def x_def y_def)
  then show "a + front a + 12 = (a div 4096 + 1) * 4096"
    unfolding front_def x_def [symmetric] y_def [symmetric] by simp
qed

lemma page_offset: "(p :: u32) AND 0xFFF = p mod 0x1000"
  using take_bit_eq_mod [of 12 p] by (simp add: take_bit_eq_mask mask_eq_exp_minus_1)

lemma of_nat_page_offset: "a < 4294967296 \<Longrightarrow> (of_nat a :: u32) AND 0xFFF = of_nat (a mod 4096)"
  by (simp add: page_offset word_eq_unat unat_mod unat_of_nat32)

subsection \<open>The writes\<close>

definition write_aligned :: "memory \<Rightarrow> nat \<Rightarrow> nat \<Rightarrow> nat \<Rightarrow> memory" where
  "write_aligned m n a k =
     (let m = write_block m a (front a) True; m = write_block m (a + front a) (n + 20) False
      in if k = front a + (n + 20) then m else write_block m (a + front a + (n + 20)) (k - (front a + (n + 20))) True)"

lemma alloc_in_hole_aligned:
  assumes P: "GetItemAtIndex (m_index h) m i = of_nat a" and N: "header_size m (of_nat a) = of_nat k"
    and fits: "align_fits n a k" and bound: "a + k \<le> unat (m_endAddress h)"
  shows "alloc_in_hole h m i (of_nat n) True =
    (if k = front a + (n + 20) then (of_nat (a + front a + 12), h, write_aligned m n a k)
     else let (ix, m') = Insert (m_index h) (write_aligned m n a k) (of_nat (a + front a + (n + 20)))
          in (of_nat (a + front a + 12), h\<lparr>m_index := ix\<rparr>, m'))"
proof -
  note f = align_fitsD [OF fits]
  define e where "e = front a"
  define r where "r = k - (e + (n + 20))"
  have E: "a + k \<le> 4294967295" using bound unat_le_max32 [of "m_endAddress h"] by linarith
  have k: "k = e + (n + 20) + r" using f(2) by (simp add: r_def e_def)
  have ua: "unat (of_nat a :: u32) = a" using E by (intro unat_of_nat_le) linarith
  have mask: "(of_nat a :: u32) AND 0xFFFFF000 \<noteq> 0" using f(4) ua by (simp add: page_mask_zero)
  have off: "(of_nat a :: u32) AND 0xFFF = 4084 - of_nat e"
    using f(1) E by (simp add: of_nat_page_offset e_def front_def)
  have ue: "unat (of_nat e + of_nat r :: u32) = e + r"
    using unat_of_nat_le [of "e + r"] E k by simp
  have big: "\<not> of_nat e + of_nat r < (20 :: u32)" using ue f(1) by (simp add: word_less_unat e_def)
  define m1 where "m1 = write_block m a e True"
  have m1: "set_footer (set_header m (of_nat a) True (of_nat e)) (of_nat a + of_nat e - 8) (of_nat a) = m1"
    using f(1) by (simp add: m1_def write_block_def e_def)
  have size1: "header_size m1 (of_nat a) = of_nat e"
    using write_block_ok(1) [of e a m True] f(1,2) E k unfolding m1_def e_def by (simp add: header_ok_def)
  have ur: "unat (of_nat r :: u32) = r" using E k by (intro unat_of_nat_le) linarith
  have "(of_nat (a + e + (n + 20) + r - 8) :: u32) < m_endAddress h"
    using bound k E by (subst word_less_unat, subst unat_of_nat_le) linarith+
  moreover have "(of_nat (a + e + (n + 20) + r - 8) :: u32) = of_nat a + of_nat e + of_nat n + of_nat r + 12" by simp
  ultimately have inside: "of_nat a + of_nat e + of_nat n + of_nat r + 12 < m_endAddress h" by (simp only:)
  have N': "header_size m (of_nat a) = of_nat e + of_nat r + (of_nat n + 20)" using N k by (simp add: algebra_simps)
  have step: "alloc_in_hole h m i (of_nat n) True =
    (let m2 = set_footer (set_header m1 (of_nat a + of_nat e) False (of_nat n + 20))
                (of_nat a + of_nat e + of_nat n + 12) (of_nat a + of_nat e)
     in if of_nat r > (0 :: u32)
        then let m3 = set_header m2 (of_nat a + of_nat e + of_nat n + 20) True (of_nat r);
                 m4 = set_footer m3 (of_nat a + of_nat e + of_nat n + of_nat r + 12) (of_nat a + of_nat e + of_nat n + 20);
                 (ix, m5) = Insert (m_index h) m4 (of_nat a + of_nat e + of_nat n + 20)
             in (of_nat a + of_nat e + 12, h\<lparr>m_index := ix\<rparr>, m5)
        else (of_nat a + of_nat e + 12, h, m2))"
    using mask big inside
    by (simp add: alloc_in_hole_def heap_sizes Let_def P N' off m1 size1 ac_simps)
  show ?thesis
  proof (cases "r = 0")
    case True
    then show ?thesis unfolding step e_def [symmetric] using k
      by (simp add: write_aligned_def e_def [symmetric] m1_def [symmetric] write_block_def [of _ "a + e"] Let_def ac_simps)
  next
    case False
    then have r20: "20 \<le> r" using fits k by (auto simp: align_fits_def e_def)
    have pos: "(0 :: u32) < of_nat r" using ur False by (simp add: word_less_unat)
    have "of_nat (a + e + (n + 20) + r - 8) = (of_nat a + of_nat e + of_nat n + of_nat r + 12 :: u32)" using r20 by simp
    then have last: "write_block mm (a + e + (n + 20)) r True = set_footer (set_header mm (of_nat a + of_nat e + of_nat n + 20) True (of_nat r))
        (of_nat a + of_nat e + of_nat n + of_nat r + 12) (of_nat a + of_nat e + of_nat n + 20)" for mm
      by (simp add: write_block_def ac_simps)
    show ?thesis unfolding step e_def [symmetric] write_aligned_def r_def [symmetric] Let_def last using False k pos
      by (simp add: e_def [symmetric] m1_def [symmetric] write_block_def [of _ "a + e"] ac_simps)
  qed
qed


subsection \<open>The invariant\<close>

lemma write_aligned_ok:
  assumes "align_fits n a k" and "a + k \<le> 4294967295"
  shows "same_outside a (a + k) m (write_aligned m n a k)" and "blocks (write_aligned m n a k) E a (carve_aligned n a k) (a + k)"
proof -
  have eq: "write_aligned m n a k = write_blocks m a (carve_aligned n a k)"
    by (simp add: write_aligned_def carve_aligned_def Let_def add.assoc)
  have e: "extent (carve_aligned n a k) = k" using align_fitsD(2) [OF assms(1)] by (simp add: carve_aligned_def)
  have "\<forall>b \<in> set (carve_aligned n a k). 20 \<le> fst b"
    using assms(1) align_fitsD(1) [OF assms(1)] by (auto simp: carve_aligned_def align_fits_def)
  from write_blocks_ok [OF this] assms(2)
  show "same_outside a (a + k) m (write_aligned m n a k)" "blocks (write_aligned m n a k) E a (carve_aligned n a k) (a + k)"
    by (simp_all add: eq e)
qed

lemma alloc_aligned_inv:
  assumes inv: "heap_inv h m lo (bs1 @ (k, True) # bs2)" and room: "ol_room (m_index h)"
    and P: "GetItemAtIndex (m_index h) m i = of_nat (lo + extent bs1)"
    and N: "header_size m (of_nat (lo + extent bs1)) = of_nat k"
    and fits: "align_fits n (lo + extent bs1) k"
    and res: "alloc_in_hole h m i (of_nat n) True = (p, h', m')"
  shows "p = of_nat (lo + extent bs1 + front (lo + extent bs1) + 12)"
    and "heap_inv h' m' lo (bs1 @ carve_aligned n (lo + extent bs1) k @ bs2)"
    and "\<exists>m1. same_outside (lo + extent bs1) (lo + extent bs1 + k) m m1
          \<and> same_outside (ol_lo (m_index h)) (ol_hi (m_index h)) m1 m'"
proof -
  let ?a = "lo + extent bs1" and ?E = "unat (m_endAddress h)" and ?ix = "m_index h"
  let ?m1 = "write_aligned m n ?a k" and ?cs = "carve_aligned n ?a k"
  note inv' = heap_invD [OF inv] and f = align_fitsD [OF fits]
  have E: "?E = ?a + k + extent bs2" "?E \<le> 4294967295" using inv'(7) unat_le_max32 [of "m_endAddress h"] by auto
  have fr: "same_outside ?a (?a + k) m ?m1" and carved: "blocks ?m1 ?E ?a ?cs (?a + k)"
    using write_aligned_ok [OF fits] E by simp_all
  have bl: "blocks ?m1 ?E lo (bs1 @ ?cs @ bs2) ?E"
    using blocks_replace [of m ?E lo bs1 "[(k, True)]" bs2 ?m1 ?cs] inv'(1) E(2) fr carved by simp
  have it: "ol_items ?ix ?m1 = ol_items ?ix m"
    by (rule ol.items_frame [OF inv'(2) fr]) (use inv'(3) in simp)
  have old: "set (ol_items ?ix ?m1) = of_nat ` (insert ?a (set (holes lo bs1) \<union> set (holes (?a + k) bs2)))"
    unfolding it inv'(6) by auto
  have al: "alloc_in_hole h m i (of_nat n) True =
    (if k = front ?a + (n + 20) then (of_nat (?a + front ?a + 12), h, ?m1)
     else let (ix, m') = Insert ?ix ?m1 (of_nat (?a + front ?a + (n + 20)))
          in (of_nat (?a + front ?a + 12), h\<lparr>m_index := ix\<rparr>, m'))"
    by (rule alloc_in_hole_aligned [OF P N fits]) (use E in simp)
  have main: "p = of_nat (?a + front ?a + 12) \<and> heap_inv h' m' lo (bs1 @ ?cs @ bs2)
      \<and> same_outside (ol_lo ?ix) (ol_hi ?ix) ?m1 m'"
  proof (cases "k = front ?a + (n + 20)")
    case True
    then have "p = of_nat (?a + front ?a + 12)" "h' = h" "m' = ?m1" using res al by auto
    moreover have "set (holes lo (bs1 @ ?cs @ bs2)) = insert ?a (set (holes lo bs1) \<union> set (holes (?a + k) bs2))"
      using True by (auto simp: carve_aligned_def add.assoc)
    ultimately show ?thesis using bl inv'(2-5) old it by (simp add: heap_inv_def)
  next
    case False
    let ?b = "?a + front ?a + (n + 20)"
    obtain ix2 m2 where ins: "Insert ?ix ?m1 (of_nat ?b) = (ix2, m2)" by fastforce
    have r: "p = of_nat (?a + front ?a + 12)" "h' = h\<lparr>m_index := ix2\<rparr>" "m' = m2" using False res al ins by auto
    have k: "k = front ?a + (n + 20) + (k - (front ?a + (n + 20)))" using f(2) by simp
    have bl': "blocks ?m1 ?E lo ((bs1 @ [(front ?a, True), (n + 20, False)]) @ (k - (front ?a + (n + 20)), True) # bs2) ?E"
      using bl False by (simp add: carve_aligned_def)
    have holes': "set (holes lo (bs1 @ ?cs @ bs2)) = insert ?b (insert ?a (set (holes lo bs1) \<union> set (holes (?a + k) bs2)))"
      using False f(2) by (auto simp: carve_aligned_def add.assoc)
    have fresh: "(of_nat ?b :: u32) \<notin> set (ol_items ?ix ?m1)"
      unfolding old using holes_middle [OF bl' E(2)] f(2) by (auto simp: add.assoc simp del: of_nat_add)
    have fr2: "same_outside (ol_lo ?ix) (ol_hi ?ix) ?m1 m2" and wf2: "ol_wf ix2"
      using ol.items_ins [OF inv'(2) room ins] by auto
    have keep2: "m_lessThanPredicate ix2 = HeaderLessThan" "ol_hi ix2 = ol_hi ?ix"
      using ol.ins_keeps [OF ins] inv'(4) by auto
    have "distinct (ol_items ix2 m2)"
      using ol.distinct_ins [OF inv'(2) room ins] fresh it inv'(5) by simp
    moreover have "set (ol_items ix2 m2) = of_nat ` set (holes lo (bs1 @ ?cs @ bs2))"
      unfolding ol.set_ins [OF inv'(2) room ins] old holes' by (rule image_insert [symmetric])
    moreover have "blocks m2 ?E lo (bs1 @ ?cs @ bs2) ?E"
      by (rule blocks_below_frame [OF bl E(2) fr2 inv'(3)])
    ultimately show ?thesis using r fr2 wf2 keep2 inv'(3) by (simp add: heap_inv_def)
  qed
  then show "p = of_nat (?a + front ?a + 12)" "heap_inv h' m' lo (bs1 @ ?cs @ bs2)"
    "\<exists>m1. same_outside ?a (?a + k) m m1 \<and> same_outside (ol_lo ?ix) (ol_hi ?ix) m1 m'"
    using fr by blast+
qed


subsection \<open>Alloc\<close>

lemma scan_cong:
  "(\<And>j. j < n \<Longrightarrow> p j = q j) \<Longrightarrow> scan p n i = scan q n i"
proof (induction p n i rule: scan.induct)
  case (1 p n i)
  then show ?case by (subst (1 2) scan.simps) auto
qed

text \<open>
  The search computes the loss to alignment only for odd addresses; for even ones it looks for the
  size alone.
\<close>

lemma FindSmallestHole_even:
  assumes "\<forall>x \<in> set (ol_items (m_index h) m). even x"
  shows "FindSmallestHole h m n True = FindSmallestHole h m n False"
proof -
  have "hole_fits m n True x = hole_fits m n False x" if "even x" for x
  proof -
    have "(x + 12) AND 1 = 0" using that by (simp add: even_iff_low_bit)
    then show ?thesis by (simp add: hole_fits_def int_of_bool_def heap_sizes)
  qed
  moreover have "even (GetItemAtIndex (m_index h) m j)" if "j < Size (m_index h)" for j
    using assms that ol.get_items [OF that] ol.size_items [of "m_index h" m] by (simp add: word_less_unat)
  ultimately show ?thesis
    unfolding FindSmallestHole_def by (subst scan_cong [of _ _ "\<lambda>i. hole_fits m n False (GetItemAtIndex (m_index h) m i)"]) auto
qed

fun holes_fit :: "nat \<Rightarrow> nat \<Rightarrow> block list \<Rightarrow> bool" where
  "holes_fit n a [] = True"
| "holes_fit n a ((k, hole) # bs) =
     ((hole \<longrightarrow> even a \<and> (n + 20 \<le> k \<longrightarrow> align_fits n a k)) \<and> holes_fit n (a + k) bs)"

lemma holes_fit_append: "holes_fit n a (bs @ cs) \<longleftrightarrow> holes_fit n a bs \<and> holes_fit n (a + extent bs) cs"
  by (induction n a bs rule: holes_fit.induct) (auto simp: add.assoc)

lemma holes_fit_even: "holes_fit n lo bs \<Longrightarrow> a \<in> set (holes lo bs) \<Longrightarrow> even a"
  by (induction n lo bs rule: holes_fit.induct) (auto split: if_splits)

lemma even_of_nat32: "even (of_nat a :: u32) \<longleftrightarrow> even a"
  by transfer simp

lemma Alloc_aligned_spec:
  assumes heap: "kheap s = Some h" and inv: "heap_inv h (ram s) lo bs" and room: "ol_room (m_index h)"
    and hole: "(k0, True) \<in> set bs" "n + 20 \<le> k0" and fits: "holes_fit n lo bs"
  shows "\<exists>p s' h' bs1 k bs2 m'. Alloc (Suc fuel) (of_nat n) True s = Inr (p, s') \<and> s' = s\<lparr>kheap := Some h', ram := m'\<rparr>
    \<and> bs = bs1 @ (k, True) # bs2 \<and> align_fits n (lo + extent bs1) k
    \<and> unat p = (Suc ((lo + extent bs1) div 4096)) * 4096
    \<and> heap_inv h' m' lo (bs1 @ carve_aligned n (lo + extent bs1) k @ bs2)
    \<and> (\<forall>x. (unat x < ol_lo (m_index h) \<or> ol_hi (m_index h) \<le> unat x)
          \<and> (unat x < lo + extent bs1 \<or> lo + extent bs1 + k \<le> unat x) \<longrightarrow> m' x = ram s x)
    \<and> index_place h' = index_place h"
proof -
  note inv' = heap_invD [OF inv]
  have "\<forall>x \<in> set (ol_items (m_index h) (ram s)). even x"
    unfolding inv'(6) using holes_fit_even [OF fits] by (simp add: even_of_nat32)
  note find = FindSmallestHole_even [OF this]
  define i where "i = FindSmallestHole h (ram s) (of_nat n + 20) False"
  have found: "i \<noteq> -1" unfolding i_def by (rule large_hole_found [OF inv hole])
  note f = FindSmallestHole_found [OF i_def [symmetric] found]
  obtain bs1 k bs2 where bs: "bs = bs1 @ (k, True) # bs2"
      and P: "GetItemAtIndex (m_index h) (ram s) i = of_nat (lo + extent bs1)"
      and N: "header_size (ram s) (of_nat (lo + extent bs1)) = of_nat k"
    using hole_in_index [OF inv f(1)] by blast
  have E: "lo + extent bs1 + k \<le> 4294967295" using inv'(7) bs unat_le_max32 [of "m_endAddress h"] by simp
  have "k0 \<le> extent bs" using hole(1) by (auto dest: split_list)
  then have n: "n + 20 \<le> 4294967295" using inv'(7) unat_le_max32 [of "m_endAddress h"] hole(2) by linarith
  have "hole_fits (ram s) (of_nat n + 20) False (of_nat (lo + extent bs1))"
    using f(2) unfolding ol.get_items [OF f(1), symmetric] P .
  from hole_fits_size [OF this n N] E have "n + 20 \<le> k" by simp
  with fits have al: "align_fits n (lo + extent bs1) k" by (simp add: bs holes_fit_append)
  obtain p h' m' where r: "alloc_in_hole h (ram s) i (of_nat n) True = (p, h', m')" using prod_cases3 by blast
  note A = alloc_aligned_inv [OF inv [unfolded bs] room P N al r]
  have "Alloc (Suc fuel) (of_nat n) True s = Inr (p, s\<lparr>kheap := Some h', ram := m'\<rparr>)"
    by (rule Alloc_found [OF heap]) (use found r i_def find in auto)
  moreover have "unat p = lo + extent bs1 + front (lo + extent bs1) + 12"
    unfolding A(1) using align_fitsD(2) [OF al] E by (intro unat_of_nat_le) linarith
  then have "unat p = Suc ((lo + extent bs1) div 4096) * 4096" using align_fitsD(3) [OF al] by simp
  moreover have "m' x = ram s x" if "unat x < ol_lo (m_index h) \<or> ol_hi (m_index h) \<le> unat x"
      "unat x < lo + extent bs1 \<or> lo + extent bs1 + k \<le> unat x" for x
    using A(3) that by (metis same_outside_byte)
  ultimately show ?thesis using bs al A(2) alloc_in_hole_index [OF r]
    by (intro exI [of _ p] exI [of _ "s\<lparr>kheap := Some h', ram := m'\<rparr>"] exI [of _ h'] exI [of _ bs1] exI [of _ k]
        exI [of _ bs2] exI [of _ m']) simp
qed

text \<open>
  When the hole the search finds is large enough for the request but not for the alignment, Alloc
  does not notice: it returns an address from which the block reaches beyond the end of the hole.
\<close>

lemma alloc_in_hole_address:
  assumes "alloc_in_hole h m i n True = (p, h', m')" and "GetItemAtIndex (m_index h) m i AND 0xFFFFF000 \<noteq> 0"
  shows "p = GetItemAtIndex (m_index h) m i + 0x1000 - (GetItemAtIndex (m_index h) m i AND 0xFFF)"
  using assms by (auto simp: alloc_in_hole_def Let_def heap_sizes case_prod_beta split: if_splits)

lemma Alloc_aligned_overruns:
  assumes heap: "kheap s = Some h" and found: "FindSmallestHole h (ram s) (of_nat n + 20) True \<noteq> -1"
    and P: "GetItemAtIndex (m_index h) (ram s) (FindSmallestHole h (ram s) (of_nat n + 20) True) = of_nat a"
    and a: "4096 \<le> a" "a mod 4096 \<le> 4064" "a + 4096 \<le> 4294967295" and small: "k < front a + (n + 20)"
  shows "\<exists>p s'. Alloc (Suc fuel) (of_nat n) True s = Inr (p, s') \<and> a + k < unat p + n + 8"
proof -
  let ?i = "FindSmallestHole h (ram s) (of_nat n + 20) True"
  obtain p h' m' where r: "alloc_in_hole h (ram s) ?i (of_nat n) True = (p, h', m')" using prod_cases3 by blast
  have ua: "unat (of_nat a :: u32) = a" using a by (intro unat_of_nat_le) linarith
  then have "(of_nat a :: u32) AND 0xFFFFF000 \<noteq> 0" using a(1) by (simp add: page_mask_zero)
  from alloc_in_hole_address [OF r] P this have "p = of_nat a + 0x1000 - of_nat (a mod 4096)"
    using a by (simp add: of_nat_page_offset)
  also have "\<dots> = of_nat (a + front a + 12)" using a(2) by (simp add: front_def)
  finally have p: "p = of_nat (a + front a + 12)" .
  have "unat p = a + front a + 12" unfolding p using a by (intro unat_of_nat_le) (simp add: front_def)
  then have "a + k < unat p + n + 8" using small by simp
  with Alloc_found [OF heap found r, of fuel] show ?thesis by (intro exI conjI)
qed

text \<open>
  C11: a request for page-aligned memory succeeds on a heap where every hole of the size asked for has
  room for the alignment and all holes are at even addresses: the address is the first page boundary
  behind the header of the hole, the heap invariant is kept with the memory before and behind the
  block as holes, and no byte outside the hole and the index changes.
\<close>

theorem Alloc_page_aligned:
  assumes heap: "kheap s = Some h" and inv: "heap_inv h (ram s) lo bs" and room: "ol_room (m_index h)"
    and hole: "(k0, True) \<in> set bs" "n + 20 \<le> k0" and fits: "holes_fit n lo bs"
  shows "\<exists>p s' h' bs1 k bs2. Alloc (Suc fuel) (of_nat n) True s = Inr (p, s') \<and> p mod 0x1000 = 0
    \<and> bs = bs1 @ (k, True) # bs2 \<and> lo + extent bs1 + 12 \<le> unat p \<and> unat p + n + 8 \<le> lo + extent bs1 + k
    \<and> kheap s' = Some h' \<and> heap_inv h' (ram s') lo (bs1 @ carve_aligned n (lo + extent bs1) k @ bs2)
    \<and> (\<forall>x. (unat x < ol_lo (m_index h) \<or> ol_hi (m_index h) \<le> unat x)
          \<and> (unat x < lo + extent bs1 \<or> lo + extent bs1 + k \<le> unat x) \<longrightarrow> ram s' x = ram s x)"
proof -
  obtain p s' h' bs1 k bs2 m' where r: "Alloc (Suc fuel) (of_nat n) True s = Inr (p, s')" "s' = s\<lparr>kheap := Some h', ram := m'\<rparr>"
      "bs = bs1 @ (k, True) # bs2" "align_fits n (lo + extent bs1) k" "unat p = Suc ((lo + extent bs1) div 4096) * 4096"
      "heap_inv h' m' lo (bs1 @ carve_aligned n (lo + extent bs1) k @ bs2)"
      "\<forall>x. (unat x < ol_lo (m_index h) \<or> ol_hi (m_index h) \<le> unat x)
          \<and> (unat x < lo + extent bs1 \<or> lo + extent bs1 + k \<le> unat x) \<longrightarrow> m' x = ram s x"
    using Alloc_aligned_spec [OF assms, of fuel] by blast
  note f = align_fitsD [OF r(4)]
  have "p mod 0x1000 = 0" using r(5) by (simp add: word_eq_unat unat_mod)
  moreover have "lo + extent bs1 + 12 \<le> unat p" "unat p + n + 8 \<le> lo + extent bs1 + k"
    using f r(5) by simp_all
  ultimately show ?thesis using r(1,2,3,6,7)
    by (intro exI [of _ p] exI [of _ s'] exI [of _ h'] exI [of _ bs1] exI [of _ k] exI [of _ bs2])
      (simp del: Alloc.simps)
qed

lemma boot_heap_room: "ol_room (m_index (fst boot_heap))"
  by (simp add: boot_heap_def Heap_init_def OrderedList_at_def Insert_def Let_def case_prod_beta ol_room_def HEAP_INDEX_SIZE_def)

theorem Alloc_page_aligned_witness:
  "\<exists>p s'. Alloc 1 8196 True boot_kernel = Inr (p, s') \<and> p mod 0x1000 = 0 \<and> 0xC008000C \<le> unat p"
proof -
  have single: "bs1 = [] \<and> k = 0x80000 \<and> bs2 = []" if "[(0x80000, True)] = bs1 @ (k, True) # bs2"
    for bs1 :: "block list" and k bs2 using that by (cases bs1) auto
  have fits: "align_fits 8196 0xC0080000 0x80000" by (simp add: align_fits_def front_def)
  have hole: "(0x80000 :: nat, True) \<in> set [(0x80000, True)]" "8196 + 20 \<le> (0x80000 :: nat)" by simp_all
  have all: "holes_fit 8196 0xC0080000 [(0x80000, True)]" using fits by simp
  from Alloc_page_aligned [OF boot_kernel_inv(2,1) boot_heap_room hole all, of 0]
  obtain p s' bs1 k bs2 where r: "Alloc (Suc 0) (of_nat 8196) True boot_kernel = Inr (p, s')" "p mod 0x1000 = 0"
      "[(0x80000, True)] = bs1 @ (k, True) # bs2" "0xC0080000 + extent bs1 + 12 \<le> unat p"
    by (elim exE conjE) (rule that)
  have "0xC008000C \<le> unat p" using single [OF r(3)] r(4) by simp
  moreover have "Alloc 1 8196 True boot_kernel = Inr (p, s')" using r(1) by (simp del: Alloc.simps)
  ultimately show ?thesis using r(2) by (intro exI conjI)
qed

end
