(* ===== verification/Paging_Setup.thy ===== *)
theory Paging_Setup
  imports Identity_Map Heap_Aligned
begin

text \<open>
  initialise_paging as a whole: from the placement allocator to the kernel that runs with paging and a
  heap. The memory in use is mapped to itself and the range of the heap to the frames behind it.
\<close>

subsection \<open>The bitmap and the directory\<close>

definition blank_kernel :: "kernel \<Rightarrow> kernel" where
  "blank_kernel s =
     (let dir = of_nat (placed_at True (placement_address s + 128))
      in s\<lparr>nframes := 0x1000, frames := placement_address s, placement_address := dir + 8196, kernel_directory := dir,
           ram := set_dir_PhysicalAddress dir (dir + 4096) (memset (memset (ram s) (placement_address s) 0 128) dir 0 8196)\<rparr>)"

text \<open>What initialise_paging does from its first loop on.\<close>

definition enable_heap :: "nat \<Rightarrow> Heap \<Rightarrow> kernel \<Rightarrow> fault + kernel" where
  "enable_heap fuel junk s =
     (let s = switch_page_directory (kernel_directory s) s
      in rbind (kmalloc fuel sizeof_Heap False False s) (\<lambda>(_, _, s).
         let (h, m) = Heap_init junk KHEAP_START (KHEAP_START + KHEAP_INITIAL_SIZE) 0xCFFFF000 False False (ram s);
             s = s\<lparr>kheap := Some h, ram := m\<rparr>
         in rbind (clone_directory (Alloc fuel) (kernel_directory s) s) (\<lambda>(dir, s).
              let s = s\<lparr>current_directory := dir\<rparr>
              in Inr (switch_page_directory (current_directory s) s))))"

definition finish_paging :: "nat \<Rightarrow> Heap \<Rightarrow> kernel \<Rightarrow> fault + kernel" where
  "finish_paging fuel junk s =
     rbind (map_range fuel (Alloc fuel) KHEAP_START (KHEAP_START + KHEAP_INITIAL_SIZE) (\<lambda>page. Inr) s) (\<lambda>s.
     rbind (identity_map fuel (Alloc fuel) 0 s) (\<lambda>s.
     rbind (map_range fuel (Alloc fuel) KHEAP_START (KHEAP_START + KHEAP_INITIAL_SIZE)
              (\<lambda>page. alloc_frame page False False) s) (enable_heap fuel junk)))"

lemma initialise_paging_blank:
  assumes none: "kheap s = None" and fits: "unat (placement_address s) + 0x2000 \<le> 4294967295"
  shows "initialise_paging fuel junk s = finish_paging fuel junk (blank_kernel s)"
proof -
  let ?s1 = "s\<lparr>nframes := 0x1000, placement_address := placement_address s + 128, frames := placement_address s,
    ram := memset (ram s) (placement_address s) 0 128\<rparr>"
  have n: "INDEX_FROM_BIT 0x1000 = 128" by (simp add: INDEX_FROM_BIT_def)
  have k1: "kmalloc_with (Alloc fuel) 128 False False (s\<lparr>nframes := 0x1000\<rparr>)
      = Inr (placement_address s, None, s\<lparr>nframes := 0x1000, placement_address := placement_address s + 128\<rparr>)"
    using none by (simp add: kmalloc_with_def Let_def)
  have up: "unat (placement_address s + 128) = unat (placement_address s) + 128"
    using fits by (subst unat_add_no_wrap) auto
  have k2: "kmalloc_with (Alloc fuel) sizeof_PageDirectory True False ?s1 = Inr (of_nat (placed_at True (placement_address s + 128)), None,
      ?s1\<lparr>placement_address := of_nat (placed_at True (placement_address s + 128)) + sizeof_PageDirectory\<rparr>)"
    using kmalloc_place [of ?s1 "Alloc fuel" sizeof_PageDirectory True False] none fits up by simp
  show ?thesis
    using k1 k2 n
    by (simp add: initialise_paging_def kmalloc_def kmalloc_a_def finish_paging_def enable_heap_def [abs_def] blank_kernel_def Let_def
        sizeof_PageDirectory_def)
qed


text \<open>
  The memory from \<open>p\<close> on before paging is set up. The bitmap is allocated and cleared with 128 bytes
  and used with 512: it needs room before the next page boundary, where the directory is put, and
  blank memory.
\<close>

definition boot_memory :: "kernel \<Rightarrow> bool" where
  "boot_memory s \<longleftrightarrow> kheap s = None \<and> 0x1000 \<le> unat (placement_address s) \<and> unat (placement_address s) \<le> 0xE00000
     \<and> (unat (placement_address s) + 128) mod 4096 \<le> 3712
     \<and> (\<forall>k < 384. ram s (placement_address s + 128 + of_nat k) = 0)"

lemma blank_directory:
  fixes m :: memory
  assumes "dir_ok dir"
  defines "m' \<equiv> set_dir_PhysicalAddress dir (dir + 4096) (memset m dir 0 8196)"
  shows "i < 1024 \<Longrightarrow> dir_Table m' dir (of_nat i) = 0" and "i < 1024 \<Longrightarrow> dir_TablePhysical m' dir (of_nat i) = 0"
    and "dir_PhysicalAddress m' dir = dir + 4096" and "same_outside (unat dir) (unat dir + 8196) m m'"
proof -
  have wf: "arr_wf (dir_array dir)" using assms(1) by simp
  have fits: "unat dir + 8196 \<le> 4294967295" using assms(1) by (simp add: dir_ok_def)
  have zero: "arr_get (dir_array dir) m' k = 0" if "k < 2048" for k
  proof -
    have a: "unat (dir + 4 * of_nat k) = unat dir + 4 * k"
      using fits that by (intro unat_cell [of _ 2049]) simp_all
    have "load32 (memset m dir 0 8196) (dir + 4 * of_nat k) = 0"
      by (rule memset_word) (unfold a, use fits that in simp_all)
    then show ?thesis
      using w32.get_put_other [OF wf, of 2048 k] that by (simp add: m'_def dir_arr arr_get_def)
  qed
  then show "i < 1024 \<Longrightarrow> dir_Table m' dir (of_nat i) = 0" "i < 1024 \<Longrightarrow> dir_TablePhysical m' dir (of_nat i) = 0"
    by (simp_all add: dir_arr unat_of_nat32)
  show "dir_PhysicalAddress m' dir = dir + 4096" using w32.get_put_same [OF wf, of 2048] by (simp add: m'_def dir_arr)
  have "same_outside (unat dir) (unat dir + 8196) m (memset m dir 0 8196)" using memset_frame [of dir 8196 m 0] fits by simp
  also have "same_outside (unat dir) (unat dir + 8196) \<dots> m'" unfolding m'_def set_dir_PhysicalAddress_arr
    using assms(1) by (intro dir_put_frame) simp_all
  finally show "same_outside (unat dir) (unat dir + 8196) m m'" .
qed

text \<open>The 512 bytes used as bitmap are blank after the first 128 of them were cleared.\<close>

lemma cleared_bitmap:
  assumes p: "unat p \<le> 0xE00000" and zero: "\<And>k. k < 384 \<Longrightarrow> m (p + 128 + of_nat k) = 0"
    and x: "unat p \<le> unat x" "unat x < unat p + 512"
  shows "memset m p 0 128 x = 0"
proof (cases "unat x < unat p + 128")
  case True
  then show ?thesis using x(1) p by (simp add: memset_eq_filled filled_def offset_less_iff)
next
  case False
  have up: "unat (p + 128) = unat p + 128" using p by (subst unat_add_no_wrap) auto
  have "p + 128 + of_nat (unat x - (unat p + 128)) = of_nat (unat (p + 128) + (unat x - (unat p + 128)))" by simp
  also have "unat (p + 128) + (unat x - (unat p + 128)) = unat x" unfolding up using False by simp
  finally have eq: "p + 128 + of_nat (unat x - (unat p + 128)) = x" by simp
  have "unat x - (unat p + 128) < 384" using x(2) False by linarith
  from zero [OF this] have "m x = 0" unfolding eq .
  then show ?thesis using False p by (simp add: memset_eq_filled filled_def offset_less_iff)
qed

lemma blank_kernel_ok:
  assumes "boot_memory s"
  defines "s0 \<equiv> blank_kernel s"
  defines "dir \<equiv> kernel_directory s0"
  shows "paging_ok dir s0" and "frame_limit s0 = 4096" and "\<And>g. g < 4096 \<Longrightarrow> \<not> frame_used s0 g"
    and "\<And>q. q < 1048576 \<Longrightarrow> entry (ram s0) dir q = 0"
    and "unat (placement_address s) + 512 \<le> unat dir" and "unat dir \<le> unat (placement_address s) + 4224"
    and "unat (placement_address s0) = unat dir + 8196"
    and "frames s0 = placement_address s" and "kept_below (placement_address s) (ram s) (ram s0)"
proof -
  let ?p = "placement_address s" and ?P = "unat (placement_address s)"
  have b: "kheap s = None" "0x1000 \<le> ?P" "?P \<le> 0xE00000" "(?P + 128) mod 4096 \<le> 3712"
      "\<And>k. k < 384 \<Longrightarrow> ram s (?p + 128 + of_nat k) = 0"
    using assms(1) by (simp_all add: boot_memory_def)
  have up: "unat (?p + 128) = ?P + 128" using b(3) by (subst unat_add_no_wrap) auto
  have dir: "dir = of_nat (placed_at True (?p + 128))" by (simp add: dir_def s0_def blank_kernel_def Let_def)
  have pa: "placed_at True (?p + 128) = ((?P + 128) div 4096 + 1) * 4096" using b(2) by (simp add: placed_at_def up)
  define x y where "x = (?P + 128) div 4096" and "y = (?P + 128) mod 4096"
  have dm: "?P + 128 = 4096 * x + y" "y \<le> 3712" using b(4) by (simp_all add: x_def y_def)
  have ud: "unat dir = (x + 1) * 4096"
    unfolding dir pa x_def [symmetric] using b(3) dm by (intro unat_of_nat_le) simp
  show lo: "?P + 512 \<le> unat dir" and hi: "unat dir \<le> ?P + 4224"
    unfolding ud using dm by simp_all
  have ok: "dir_ok dir" using hi b(3) by (simp add: dir_ok_def)
  have s0: "s0 = s\<lparr>nframes := 0x1000, frames := ?p, placement_address := dir + 8196, kernel_directory := dir,
      ram := set_dir_PhysicalAddress dir (dir + 4096) (memset (memset (ram s) ?p 0 128) dir 0 8196)\<rparr>"
    unfolding dir s0_def blank_kernel_def Let_def ..
  note B = blank_directory [OF ok, where m = "memset (ram s) ?p 0 128"]
  show pl: "unat (placement_address s0) = unat dir + 8196" using hi b(3) by (simp add: s0 unat_add_no_wrap)
  show lim: "frame_limit s0 = 4096" by (simp add: s0 frame_limit_def INDEX_FROM_BIT_def)
  show "entry (ram s0) dir q = 0" if "q < 1048576" for q
    using that B(1) [of "q div 1024"] by (simp add: entry_def s0)
  show "paging_ok dir s0"
    using b(1) ok lo hi b(3) pl B by (simp add: paging_ok_def s0 bitmap_ok_def arr_wf_def INDEX_FROM_BIT_def tables_ok_def table_ok_def)
  show "frames s0 = placement_address s" by (simp add: s0)
  show "kept_below ?p (ram s) (ram s0)"
  proof (rule kept_belowI [OF order_refl])
    fix x :: u32 assume x: "unat x < ?P"
    then have "ram s0 x = memset (ram s) ?p 0 128 x" using same_outside_byte [OF B(4), of x] lo by (simp add: s0)
    also have "\<dots> = ram s x" using same_outside_byte [OF memset_frame, of ?p 128 x "ram s" 0] x b(3) by simp
    finally show "ram s0 x = ram s x" .
  qed
  show "\<not> frame_used s0 g" if g: "g < 4096" for g
  proof -
    have gk: "g div 32 < 128" using g by (simp add: less_mult_imp_div_less)
    have a: "unat (?p + 4 * of_nat (g div 32)) = ?P + 4 * (g div 32)"
      using b(3) g by (intro unat_cell [of _ 128]) auto
    have "load32 (ram s0) (?p + 4 * of_nat (g div 32)) = load32 (\<lambda>_. 0) (?p + 4 * of_nat (g div 32))"
    proof (rule load32_bytes)
      fix x :: u32 assume x: "unat (?p + 4 * of_nat (g div 32)) \<le> unat x" "unat x < unat (?p + 4 * of_nat (g div 32)) + 4"
      then have x': "?P \<le> unat x" "unat x < ?P + 512" using gk unfolding a by linarith+
      have "ram s0 x = memset (ram s) ?p 0 128 x"
        using same_outside_byte [OF B(4), of x] x' lo by (simp add: s0)
      also have "\<dots> = 0" by (rule cleared_bitmap [OF b(3) _ x']) (rule b(5))
      finally show "ram s0 x = 0" .
    qed (use b(3) g a in simp)
    then show ?thesis by (simp add: frame_used_def frame_word_def s0)
  qed
qed


subsection \<open>The loops\<close>

lemma page_Frame_zero [simp]: "page_Frame 0 = 0"
  by (simp add: page_Frame_def)

text \<open>
  The tables of the memory in use and of the heap: the first \<open>n\<close> pages are mapped to themselves,
  which covers all memory handed out, and the pages of the heap to the frames from \<open>n\<close> on. No other
  frame is in use, and the pages behind the heap, to the end of its table, are free.
\<close>

definition kernel_mapped :: "u32 \<Rightarrow> nat \<Rightarrow> kernel \<Rightarrow> bool" where
  "kernel_mapped dir n s \<longleftrightarrow> paging_ok dir s \<and> kernel_directory s = dir \<and> n \<le> 0xF00
     \<and> unat (placement_address s) + 0x1000 \<le> 4096 * n
     \<and> growable dir (n + 256) s \<and> frame_limit s = 4096 \<and> unmapped (ram s) dir 0xC0100 0xC0400
     \<and> (\<forall>q < n. mapped (entry (ram s) dir q) q)
     \<and> (\<forall>q. 0xC0000 \<le> q \<and> q < 0xC0100 \<longrightarrow> mapped (entry (ram s) dir q) (n + (q - 0xC0000)))"

text \<open>The tables of the heap and the identity map.\<close>

lemma finish_paging_identity:
  assumes boot: "boot_memory s" and fuel: "4096 < fuel"
  defines "s0 \<equiv> blank_kernel s"
  defines "dir \<equiv> kernel_directory s0"
  obtains n p1 m1 p2 m2 where
    "map_range fuel (Alloc fuel) 0xC0000000 0xC0100000 (\<lambda>page. Inr) s0 = Inr (s0\<lparr>placement_address := p1, ram := m1\<rparr>)"
    "identity_map fuel (Alloc fuel) 0 (s0\<lparr>placement_address := p1, ram := m1\<rparr>) = Inr (s0\<lparr>placement_address := p2, ram := m2\<rparr>)"
    "id_upto dir n (s0\<lparr>placement_address := p2, ram := m2\<rparr>)" "n \<le> 0xF00" "unat p2 + 0x1000 \<le> 4096 * n"
    "4096 * n \<le> unat (placement_address s) + 0x10000" "\<forall>r < 1048576. n \<le> r \<longrightarrow> entry m2 dir r = 0"
    "dir_Table m2 dir (of_nat 768) \<noteq> 0" "kept_below (placement_address s) (ram s) m2"
proof -
  note b = blank_kernel_ok [OF boot, folded s0_def, folded dir_def]
  have kd: "kernel_directory s0 = dir" by (simp add: dir_def)
  have P: "unat (placement_address s) \<le> 0xE00000" using boot by (simp add: boot_memory_def)
  have r1: "unat (placement_address s0) + 0x2000 \<le> 4294967295" "0xC0100 - 0xC0000 < fuel" using P b(6,7) fuel by linarith+
  obtain m1 p1 where l1: "map_range fuel (Alloc fuel) 0xC0000000 0xC0100000 (\<lambda>page. Inr) s0
        = Inr (s0\<lparr>placement_address := p1, ram := m1\<rparr>)" "paging_ok dir (s0\<lparr>placement_address := p1, ram := m1\<rparr>)"
      "dir_Table m1 dir (of_nat 768) \<noteq> 0" "unat p1 \<le> unat (placement_address s0) + 0x2000"
      "\<And>r. r < 1048576 \<Longrightarrow> entry m1 dir r = 0" "\<And>x. unat x < unat dir \<Longrightarrow> m1 x = ram s0 x"
    using map_range_tables [OF b(1) kd _ _ _ r1, of "Alloc fuel"] b(4) by auto
  let ?s1 = "s0\<lparr>placement_address := p1, ram := m1\<rparr>"
  have lim: "frame_limit (s0\<lparr>placement_address := p, ram := m\<rparr>) = 4096" for p m using b(2) by (simp add: frame_limit_def)
  have "\<not> frame_used ?s1 g" if "g < 4096" for g
    using frame_used_same [OF b(1), of g m1 p1] l1(6) b(2,3) that by auto
  then have id0: "id_upto dir 0 ?s1" using l1(2,5) by (simp add: id_upto_def lim kd)
  have "\<exists>n p m. identity_map fuel (Alloc fuel) (of_nat 0 * 0x1000) ?s1 = Inr (?s1\<lparr>placement_address := p, ram := m\<rparr>)
    \<and> id_upto dir n (?s1\<lparr>placement_address := p, ram := m\<rparr>) \<and> n \<le> 4096
    \<and> placement_address ?s1 \<le> p \<and> unat p \<le> unat p1 + 0x8000 \<and> unat p + 0x1000 \<le> 4096 * n \<and> 4096 * n < unat p + 0x2000
    \<and> (\<forall>r < 1048576. n \<le> r \<longrightarrow> entry m dir r = entry (ram ?s1) dir r) \<and> tables_kept dir (ram ?s1) m
    \<and> kept_below (frames ?s1) (ram ?s1) m"
    by (rule identity_map_loop [OF id0 lim, where k = 0]) (use P b(6,7) l1(4) fuel in simp_all)
  then obtain n p2 m2 where l2: "identity_map fuel (Alloc fuel) 0 ?s1 = Inr (s0\<lparr>placement_address := p2, ram := m2\<rparr>)"
      "id_upto dir n (s0\<lparr>placement_address := p2, ram := m2\<rparr>)" "unat p2 \<le> unat p1 + 0x8000" "unat p2 + 0x1000 \<le> 4096 * n"
      "4096 * n < unat p2 + 0x2000" "\<And>r. r < 1048576 \<Longrightarrow> n \<le> r \<Longrightarrow> entry m2 dir r = 0" "tables_kept dir m1 m2"
      "kept_below (placement_address s) m1 m2"
    using l1(5) b(8) by auto
  have n: "n \<le> 0xF00" using l2(3,5) l1(4) b(6,7) P by linarith
  have "kept_below (placement_address s) (ram s0) m1" by (rule kept_belowI [OF _ l1(6)]) (use b(5) in simp_all)
  then have below: "kept_below (placement_address s) (ram s) m2" by (rule kept_below_trans [OF kept_below_trans [OF b(9)] l2(8)])
  have end_addr: "4096 * n \<le> unat (placement_address s) + 0x10000" using l2(3,5) l1(4) b(6,7) by linarith
  have t2: "dir_Table m2 dir (of_nat 768) \<noteq> 0" using l2(7) [unfolded tables_kept_def, rule_format, of 768] l1(3) by simp
  have zero: "\<forall>r < 1048576. n \<le> r \<longrightarrow> entry m2 dir r = 0" using l2(6) by blast
  show thesis by (rule that [OF l1(1) l2(1,2) n l2(4) end_addr zero t2 below])
qed

text \<open>The frames of the heap.\<close>

lemma finish_paging_heap:
  assumes id: "id_upto dir n (s0\<lparr>placement_address := p2, ram := m2\<rparr>)" and kd: "kernel_directory s0 = dir"
    and lim: "\<And>p m. frame_limit (s0\<lparr>placement_address := p, ram := m\<rparr>) = 4096" and fr: "frames s0 = placement_address s"
    and n: "n \<le> 0xF00" and room: "unat p2 + 0x1000 \<le> 4096 * n" and zero: "\<forall>r < 1048576. n \<le> r \<longrightarrow> entry m2 dir r = 0"
    and t2: "dir_Table m2 dir (of_nat 768) \<noteq> 0" and fuel: "256 < fuel"
  obtains m3 where "map_range fuel (Alloc fuel) 0xC0000000 0xC0100000 (\<lambda>page. alloc_frame page False False)
      (s0\<lparr>placement_address := p2, ram := m2\<rparr>) = Inr (s0\<lparr>placement_address := p2, ram := m3\<rparr>)"
    "kernel_mapped dir n (s0\<lparr>placement_address := p2, ram := m3\<rparr>)" "kept_below (placement_address s) m2 m3"
proof -
  let ?s2 = "s0\<lparr>placement_address := p2, ram := m2\<rparr>"
  have i2: "paging_ok dir ?s2" "\<And>g. g < 4096 \<Longrightarrow> frame_used ?s2 g \<longleftrightarrow> g < n" "\<And>q. q < n \<Longrightarrow> mapped (entry m2 dir q) q"
    using id by (simp_all add: id_upto_def lim)
  have heap: "dir_Table (ram ?s2) dir (of_nat (q div 1024)) \<noteq> 0 \<and> page_Frame (entry (ram ?s2) dir q) = 0"
    if "0xC0000 \<le> q" "q < 0xC0100" for q
  proof -
    have "q div 1024 = 768" "n \<le> q" using that n by linarith+
    then show ?thesis using t2 zero [rule_format, of q] that by simp
  qed
  have "\<exists>m. map_range fuel (Alloc fuel) (of_nat 0xC0000 * 0x1000) (of_nat 0xC0100 * 0x1000) (\<lambda>page. alloc_frame page False False) ?s2
      = Inr (?s2\<lparr>ram := m\<rparr>)
    \<and> paging_ok dir (?s2\<lparr>ram := m\<rparr>) \<and> (\<forall>q. 0xC0000 \<le> q \<and> q < 0xC0100 \<longrightarrow> mapped (entry m dir q) (n + (q - 0xC0000)))
    \<and> (\<forall>r < 1048576. r < 0xC0000 \<or> 0xC0100 \<le> r \<longrightarrow> entry m dir r = entry (ram ?s2) dir r) \<and> kept_below (frames ?s2) (ram ?s2) m
    \<and> (\<forall>g < frame_limit ?s2. frame_used (?s2\<lparr>ram := m\<rparr>) g \<longleftrightarrow> g < n + (0xC0100 - 0xC0000))
    \<and> (\<forall>i < 1024. dir_Table m dir (of_nat i) = dir_Table (ram ?s2) dir (of_nat i))"
    by (rule map_range_frames [OF i2(1)]) (use fuel heap i2(2) n in \<open>simp_all add: lim kd\<close>)
  then obtain m3 where l3: "map_range fuel (Alloc fuel) 0xC0000000 0xC0100000
        (\<lambda>page. alloc_frame page False False) ?s2 = Inr (s0\<lparr>placement_address := p2, ram := m3\<rparr>)"
      "paging_ok dir (s0\<lparr>placement_address := p2, ram := m3\<rparr>)"
      "\<And>q. 0xC0000 \<le> q \<Longrightarrow> q < 0xC0100 \<Longrightarrow> mapped (entry m3 dir q) (n + (q - 0xC0000))"
      "\<And>r. r < 1048576 \<Longrightarrow> r < 0xC0000 \<or> 0xC0100 \<le> r \<Longrightarrow> entry m3 dir r = entry m2 dir r" "kept_below (placement_address s) m2 m3"
      "\<And>g. g < 4096 \<Longrightarrow> frame_used (s0\<lparr>placement_address := p2, ram := m3\<rparr>) g \<longleftrightarrow> g < n + 256"
      "\<And>i. i < 1024 \<Longrightarrow> dir_Table m3 dir (of_nat i) = dir_Table m2 dir (of_nat i)"
    using fr by (auto simp: lim)
  let ?s3 = "s0\<lparr>placement_address := p2, ram := m3\<rparr>"
  have "kheap s0 = None" using i2(1) by (simp add: paging_ok_def)
  then have "?s3\<lparr>kheap := None\<rparr> = ?s3" by simp
  with l3(2) have "paging_ok dir (?s3\<lparr>kheap := None\<rparr>)" by (simp only:)
  with kd have grow: "growable dir (n + 256) ?s3" using l3(6) by (simp add: growable_def lim)
  have "dir_Table m3 dir (of_nat (q div 1024)) \<noteq> 0 \<and> entry m3 dir q = 0" if q: "0xC0100 \<le> q" "q < 0xC0400" for q
  proof -
    have "q div 1024 = 768" "n \<le> q" using q n by linarith+
    then show ?thesis using t2 l3(4) [of q] l3(7) [of 768] zero [rule_format, of q] q by simp
  qed
  then have free: "unmapped m3 dir 0xC0100 0xC0400" by (simp add: unmapped_def)
  have "mapped (entry m3 dir q) q" if "q < n" for q using i2(3) [OF that] l3(4) [of q] that n by simp
  then have "kernel_mapped dir n (s0\<lparr>placement_address := p2, ram := m3\<rparr>)"
    using l3(2,3) room n grow free lim kd by (simp add: kernel_mapped_def)
  then show thesis using that l3(1,5) by blast
qed

lemma finish_paging_loops:
  assumes boot: "boot_memory s" and fuel: "4096 < fuel"
  defines "s0 \<equiv> blank_kernel s"
  shows "\<exists>n p m. finish_paging fuel junk s0 = enable_heap fuel junk (s0\<lparr>placement_address := p, ram := m\<rparr>)
    \<and> kernel_mapped (kernel_directory s0) n (s0\<lparr>placement_address := p, ram := m\<rparr>)
    \<and> kept_below (placement_address s) (ram s) m \<and> 4096 * n \<le> unat (placement_address s) + 0x10000"
proof -
  define dir where "dir = kernel_directory s0"
  note b = blank_kernel_ok [OF boot, folded s0_def, folded dir_def]
  obtain n p1 m1 p2 m2 where I:
      "map_range fuel (Alloc fuel) 0xC0000000 0xC0100000 (\<lambda>page. Inr) s0 = Inr (s0\<lparr>placement_address := p1, ram := m1\<rparr>)"
      "identity_map fuel (Alloc fuel) 0 (s0\<lparr>placement_address := p1, ram := m1\<rparr>) = Inr (s0\<lparr>placement_address := p2, ram := m2\<rparr>)"
      "id_upto dir n (s0\<lparr>placement_address := p2, ram := m2\<rparr>)" "n \<le> 0xF00" "unat p2 + 0x1000 \<le> 4096 * n"
      "4096 * n \<le> unat (placement_address s) + 0x10000" "\<forall>r < 1048576. n \<le> r \<longrightarrow> entry m2 dir r = 0"
      "dir_Table m2 dir (of_nat 768) \<noteq> 0" "kept_below (placement_address s) (ram s) m2"
    by (rule finish_paging_identity [OF boot fuel, folded s0_def, folded dir_def])
  have lim: "frame_limit (s0\<lparr>placement_address := p, ram := m\<rparr>) = 4096" for p m using b(2) by (simp add: frame_limit_def)
  have "256 < fuel" using fuel by simp
  then obtain m3 where H: "map_range fuel (Alloc fuel) 0xC0000000 0xC0100000 (\<lambda>page. alloc_frame page False False)
        (s0\<lparr>placement_address := p2, ram := m2\<rparr>) = Inr (s0\<lparr>placement_address := p2, ram := m3\<rparr>)"
      "kernel_mapped dir n (s0\<lparr>placement_address := p2, ram := m3\<rparr>)" "kept_below (placement_address s) m2 m3"
    by (rule finish_paging_heap [OF I(3) dir_def [symmetric] lim b(8) I(4,5,7,8)])
  have "finish_paging fuel junk s0 = enable_heap fuel junk (s0\<lparr>placement_address := p2, ram := m3\<rparr>)"
    by (simp add: finish_paging_def KHEAP_START_def KHEAP_INITIAL_SIZE_def I(1,2) H(1))
  moreover have "kept_below (placement_address s) (ram s) m3" by (rule kept_below_trans [OF I(9) H(3)])
  ultimately show ?thesis using H(2) I(6) unfolding dir_def by blast
qed


subsection \<open>The heap and the clone of the directory\<close>

text \<open>The blocks of the heap when the clone of the kernel's directory has been allocated from it.\<close>

definition boot_blocks :: "block list" where
  "boot_blocks = [(4084, True), (8216, False), (511988, True)]"

lemma boot_carve: "carve_aligned 8196 0xC0080000 0x80000 = boot_blocks"
  by (simp add: carve_aligned_def front_def boot_blocks_def)

lemma Alloc_directory:
  assumes "kheap s = Some h" and inv: "heap_inv h (ram s) 0xC0080000 [(0x80000, True)]" and "ol_room (m_index h)"
  shows "\<exists>h' m'. kmalloc_with (Alloc (Suc fuel)) sizeof_PageDirectory True True s
      = Inr (0xC0081000, None, s\<lparr>kheap := Some h', ram := m'\<rparr>) \<and> heap_inv h' m' 0xC0080000 boot_blocks
    \<and> (\<forall>x. (unat x < ol_lo (m_index h) \<or> ol_hi (m_index h) \<le> unat x)
          \<and> (unat x < 0xC0080000 \<or> 0xC0100000 \<le> unat x) \<longrightarrow> m' x = ram s x)
    \<and> index_place h' = index_place h"
proof -
  have fits: "holes_fit 8196 0xC0080000 [(0x80000, True)]" by (simp add: align_fits_def front_def)
  have hole: "(0x80000, True) \<in> set [(0x80000 :: nat, True)]" "8196 + 20 \<le> (0x80000 :: nat)" by simp_all
  obtain p s' h' bs1 k bs2 m' where r: "Alloc (Suc fuel) (of_nat 8196) True s = Inr (p, s')" "s' = s\<lparr>kheap := Some h', ram := m'\<rparr>"
      "[(0x80000, True)] = bs1 @ (k, True) # bs2" "unat p = Suc ((0xC0080000 + extent bs1) div 4096) * 4096"
      "heap_inv h' m' 0xC0080000 (bs1 @ carve_aligned 8196 (0xC0080000 + extent bs1) k @ bs2)"
      "\<forall>x. (unat x < ol_lo (m_index h) \<or> ol_hi (m_index h) \<le> unat x)
          \<and> (unat x < 0xC0080000 + extent bs1 \<or> 0xC0080000 + extent bs1 + k \<le> unat x) \<longrightarrow> m' x = ram s x"
      "index_place h' = index_place h"
    using Alloc_aligned_spec [OF assms(1,2,3) hole fits, of fuel] by (elim exE conjE) (rule that)
  have one: "bs1 = []" "k = 0x80000" "bs2 = []" using r(3) by (cases bs1; simp)+
  have "unat p = unat (0xC0081000 :: u32)" using r(4) one by simp
  then have "p = 0xC0081000" by (simp only: word_eq_unat)
  then have "kmalloc_with (Alloc (Suc fuel)) sizeof_PageDirectory True True s = Inr (0xC0081000, None, s\<lparr>kheap := Some h', ram := m'\<rparr>)"
    using r(1,2) assms(1) by (simp add: kmalloc_with_def sizeof_PageDirectory_def del: Alloc.simps)
  moreover have "heap_inv h' m' 0xC0080000 boot_blocks" using r(5) one boot_carve by simp
  ultimately show ?thesis using r(6,7) one by (intro exI [of _ h'] exI [of _ m']) (simp del: Alloc.simps)
qed


lemma enable_heap_spec:
  assumes km: "kernel_mapped dir n s"
  shows "\<exists>s' h. enable_heap (Suc fuel) junk s = Inr s' \<and> kheap s' = Some h \<and> heap_inv h (ram s') 0xC0080000 boot_blocks
    \<and> kernel_directory s' = dir \<and> placement_address s' = placement_address s + 32
    \<and> (\<forall>x. unat x < 0xC0000000 \<longrightarrow> ram s' x = ram s x)
    \<and> current_directory s' = 0xC0081000 \<and> cr3 s' = indeterminate s + 4096 \<and> bit (cr0 s') 31
    \<and> (\<forall>i < 1024. dir_Table (ram s') 0xC0081000 (of_nat i) = dir_Table (ram s) dir (of_nat i)
        \<and> dir_TablePhysical (ram s') 0xC0081000 (of_nat i) = dir_TablePhysical (ram s) dir (of_nat i))
    \<and> index_place h = (0xC0000000, 0x20000, 0xCFFFF000) \<and> next_pid s' = next_pid s
    \<and> frames s' = frames s \<and> nframes s' = nframes s"
proof -
  have k: "paging_ok dir s" "kernel_directory s = dir" "n \<le> 0xF00" "unat (placement_address s) + 0x1000 \<le> 4096 * n"
    using km by (simp_all add: kernel_mapped_def)
  note o = paging_okD [OF k(1)]
  have low: "unat dir + 8196 \<le> 0xF00000" using o(5) k(3,4) by linarith
  define s2 where "s2 = s\<lparr>current_directory := dir, cr3 := dir + 4096, cr0 := cr0 s OR 0x80000000, placement_address := placement_address s + 32\<rparr>"
  obtain h m where init: "Heap_init junk KHEAP_START (KHEAP_START + KHEAP_INITIAL_SIZE) 0xCFFFF000 False False (ram s) = (h, m)"
    by fastforce
  have start: "even KHEAP_START" "unat KHEAP_START + 0x80000 + 20 \<le> unat (KHEAP_START + KHEAP_INITIAL_SIZE)"
    "unat KHEAP_START = 0xC0000000" "unat (KHEAP_START + KHEAP_INITIAL_SIZE) = 0xC0100000"
    by (simp_all add: KHEAP_START_def KHEAP_INITIAL_SIZE_def)
  have H: "heap_inv h m 0xC0080000 [(0x80000, True)]" "m_elements (m_index h) = KHEAP_START" "ol_room (m_index h)"
      "same_outside 0xC0000000 0xC0100000 (ram s) m" "m_endAddress h = KHEAP_START + KHEAP_INITIAL_SIZE"
      "m_maxSize (m_index h) = 0x20000" "m_startAddress h = 0xCFFFF000"
    using Heap_init_heap_inv [OF start(1,2) init] start(3,4) by simp_all
  define s3 where "s3 = s2\<lparr>kheap := Some h, ram := m\<rparr>"
  have lo: "ol_lo (m_index h) = 0xC0000000" using H(2) start(3) by (simp add: ol_lo_def)
  obtain h' m' where al: "kmalloc_with (Alloc (Suc fuel)) sizeof_PageDirectory True True s3
        = Inr (0xC0081000, None, s3\<lparr>kheap := Some h', ram := m'\<rparr>)" "heap_inv h' m' 0xC0080000 boot_blocks"
      "\<And>x. unat x < 0xC0000000 \<Longrightarrow> m' x = m x" "index_place h' = index_place h"
    using Alloc_directory [of s3 h fuel] H(1,3) lo by (auto simp: s3_def)
  define s4 where "s4 = s3\<lparr>kheap := Some h', ram := m'\<rparr>"
  have "dir_ok (0xC0081000 :: u32)" "unat dir + 8196 \<le> unat (0xC0081000 :: u32) \<or> unat (0xC0081000 :: u32) + 8196 \<le> unat dir"
      "kernel_directory s4 = dir"
    using low k(2) by (simp_all add: dir_ok_def s4_def s3_def s2_def)
  from clone_kernel_directory_spec [OF al(1) [folded s4_def] this(3) o(3) this(1,2)]
  obtain s5 where c: "clone_directory (Alloc (Suc fuel)) dir s3 = Inr (0xC0081000, s5)"
      "\<And>i. i < 1024 \<Longrightarrow> dir_Table (ram s5) 0xC0081000 (of_nat i) = dir_Table (ram s4) dir (of_nat i)
        \<and> dir_TablePhysical (ram s5) 0xC0081000 (of_nat i)
          = (if dir_Table (ram s4) dir (of_nat i) = 0 then 0 else dir_TablePhysical (ram s4) dir (of_nat i))"
      "dir_PhysicalAddress (ram s5) 0xC0081000 = phys_value None s4 + 4096"
      "same_outside 0xC0081000 0xC0083004 (ram s4) (ram s5)" "s5 = s4\<lparr>ram := ram s5\<rparr>"
    by auto
  have low4: "ram s4 x = ram s x" if "unat x < 0xC0000000" for x
    using that al(3) same_outside_byte [OF H(4), of x] by (simp add: s4_def)
  have low5: "ram s5 x = ram s x" if "unat x < 0xC0000000" for x
    using that low4 same_outside_byte [OF c(4), of x] by simp
  have "heap_inv h' (ram s5) 0xC0080000 boot_blocks"
  proof (rule heap_inv_payload [OF al(2)])
    fix x :: u32 assume "\<forall>b \<in> set (used 0xC0080000 boot_blocks). \<not> in_block b x"
    then have "unat x < 0xC0081000 \<or> 0xC0083004 \<le> unat x" by (auto simp: boot_blocks_def in_block_def)
    then show "ram s5 x = m' x" using same_outside_byte [OF c(4), of x] by (auto simp: s4_def)
  qed
  moreover have entries: "dir_Table (ram s5) 0xC0081000 (of_nat i) = dir_Table (ram s) dir (of_nat i)
      \<and> dir_TablePhysical (ram s5) 0xC0081000 (of_nat i) = dir_TablePhysical (ram s) dir (of_nat i)" if i: "i < 1024" for i
  proof -
    have "dir_Table (ram s4) dir (of_nat i) = dir_Table (ram s) dir (of_nat i)"
        "dir_TablePhysical (ram s4) dir (of_nat i) = dir_TablePhysical (ram s) dir (of_nat i)"
      by (rule dir_same [OF o(3) i low4]; use low in linarith)+
    then show ?thesis using c(2) [OF i] tables_okD(1) [OF o(6) i] by simp
  qed
  moreover have "enable_heap (Suc fuel) junk s = Inr (switch_page_directory 0xC0081000 (s5\<lparr>current_directory := 0xC0081000\<rparr>))"
  proof -
    have sw: "switch_page_directory dir s = s\<lparr>current_directory := dir, cr3 := dir + 4096, cr0 := cr0 s OR 0x80000000\<rparr>"
      using o(7) by (simp add: switch_page_directory_def Let_def)
    have km: "kmalloc (Suc fuel) sizeof_Heap False False (switch_page_directory dir s) = Inr (placement_address s, None, s2)"
      using o(1) by (simp add: sw kmalloc_def kmalloc_with_def Let_def sizeof_Heap_def s2_def)
    have "kernel_directory s2 = dir" "ram s2 = ram s" using k(2) by (simp_all add: s3_def s2_def)
    then show ?thesis using c(1) init
      by (simp add: enable_heap_def Let_def k(2) km s3_def [symmetric])
  qed
  moreover have "index_place h' = (0xC0000000, 0x20000, 0xCFFFF000)" using al(4) H(2,6,7) by (simp add: index_place_def KHEAP_START_def)
  moreover obtain m5 where s5: "s5 = s4\<lparr>ram := m5\<rparr>" using c(5) by blast
  have "bit (cr0 s OR 0x80000000 :: u32) 31" by (simp add: bit_simps)
  ultimately show ?thesis using c(3) low5 k(2) unfolding s5
    by (simp add: switch_page_directory_def Let_def s4_def s3_def s2_def phys_value_def)
qed


subsection \<open>The address space after initialise_paging\<close>

lemma page_of: "of_nat (unat (x :: u32) div 4096) * 0x1000 + x mod 0x1000 = x"
proof -
  have "of_nat (unat x div 4096) = x div 0x1000" by (simp add: word_eq_unat unat_div unat_of_nat_le order.trans [OF div_le_dividend unat_le_max32])
  then show ?thesis by (simp add: div_mult_mod_eq)
qed

lemma kernel_mapped_translate:
  assumes km: "kernel_mapped dir n s" and same: "\<And>x. unat x < 0xC0000000 \<Longrightarrow> m x = ram s x"
  shows "unat x < 4096 * n \<Longrightarrow> translate m (dir + 4096) x = Some x"
    and "0xC0000000 \<le> unat x \<Longrightarrow> unat x < 0xC0100000 \<Longrightarrow>
      translate m (dir + 4096) x = Some (x - 0xC0000000 + of_nat (4096 * n))"
proof -
  have k: "paging_ok dir s" "n \<le> 0xF00" "unat (placement_address s) + 0x1000 \<le> 4096 * n"
      "\<And>q. q < n \<Longrightarrow> mapped (entry (ram s) dir q) q"
      "\<And>q. 0xC0000 \<le> q \<Longrightarrow> q < 0xC0100 \<Longrightarrow> mapped (entry (ram s) dir q) (n + (q - 0xC0000))"
    using km by (simp_all add: kernel_mapped_def)
  note o = paging_okD [OF k(1)]
  have dirs: "m y = ram s y" if "unat dir \<le> unat y" "unat y < unat dir + 8196" for y
    using that o(5) k(2,3) by (intro same) linarith
  have ent: "entry m dir q = entry (ram s) dir q" if q: "q < 1048576" for q
  proof (rule entry_same(1) [OF o(6) unat_le_max32 o(3) q dirs])
    assume nz: "dir_Table (ram s) dir (of_nat (q div 1024)) \<noteq> 0"
    note w = table_word(3) [OF o(6) unat_le_max32 q nz]
    show "load32 m (entry_at (ram s) dir q) = load32 (ram s) (entry_at (ram s) dir q)"
      using w k(2,3) by (intro load32_bytes same) linarith+
  qed
  have tr: "translate m (dir + 4096) x = Some (of_nat f * 0x1000 + x mod 0x1000)" if "mapped (entry (ram s) dir (unat x div 4096)) f" for f
  proof -
    have "unat x div 4096 < 1048576" using unat_lt_2p32 [of x] by linarith
    with that ent show ?thesis
      by (simp add: translate_entry [OF tables_ok_same [OF o(6,3) dirs]] mapped_def Let_def)
  qed
  show "translate m (dir + 4096) x = Some x" if "unat x < 4096 * n"
    using tr [OF k(4)] that page_of [of x] by (simp add: less_mult_imp_div_less mult.commute)
  show "translate m (dir + 4096) x = Some (x - 0xC0000000 + of_nat (4096 * n))"
    if "0xC0000000 \<le> unat x" "unat x < 0xC0100000"
  proof -
    define q where "q = unat x div 4096"
    have q: "0xC0000 \<le> q" "q < 0xC0100" using that unfolding q_def by linarith+
    have "of_nat (n + (q - 0xC0000)) * 0x1000 + x mod 0x1000 = (of_nat q * 0x1000 + x mod 0x1000) - 0xC0000000 + of_nat (4096 * n)"
      using q(1) by (simp add: algebra_simps)
    then show ?thesis using tr [OF k(5) [OF q, unfolded q_def]] page_of [of x] by (simp add: q_def)
  qed
qed

lemma initialise_paging_spec:
  assumes boot: "boot_memory s" and fuel: "4096 < fuel"
  shows "\<exists>s' h n. initialise_paging fuel junk s = Inr s' \<and> kheap s' = Some h \<and> heap_inv h (ram s') 0xC0080000 boot_blocks
    \<and> placement_address s \<le> placement_address s' \<and> unat (placement_address s') \<le> 4096 * n
    \<and> (\<forall>x. unat x < 4096 * n \<longrightarrow> translate (ram s') (kernel_directory s' + 4096) x = Some x)
    \<and> (\<forall>x. 0xC0000000 \<le> unat x \<and> unat x < 0xC0100000 \<longrightarrow>
         translate (ram s') (kernel_directory s' + 4096) x = Some (x - 0xC0000000 + of_nat (4096 * n)))
    \<and> bit (cr0 s') 31 \<and> current_directory s' = 0xC0081000 \<and> cr3 s' = indeterminate s + 4096
    \<and> (\<forall>i < 1024. dir_Table (ram s') 0xC0081000 (of_nat i) = dir_Table (ram s') (kernel_directory s') (of_nat i))
    \<and> placement_address s \<le> kernel_directory s' \<and> unat (kernel_directory s') + 8196 \<le> unat (placement_address s') \<and> n \<le> 0xF00
    \<and> index_place h = (0xC0000000, 0x20000, 0xCFFFF000) \<and> next_pid s' = next_pid s \<and> kept_below (placement_address s) (ram s) (ram s')
    \<and> growable (kernel_directory s') (n + 256) s' \<and> frame_limit s' = 4096
    \<and> unmapped (ram s') (kernel_directory s') 0xC0100 0xC0400 \<and> unat (placement_address s') \<le> 0xC0000000
    \<and> 4096 * n \<le> unat (placement_address s) + 0x10000
    \<and> kernel_directory s' = of_nat (placed_at True (placement_address s + 128))
    \<and> (\<forall>i < 1024. dir_TablePhysical (ram s') 0xC0081000 (of_nat i) = dir_TablePhysical (ram s') (kernel_directory s') (of_nat i))"
proof -
  have P: "kheap s = None" "unat (placement_address s) + 0x2000 \<le> 4294967295" using boot by (simp_all add: boot_memory_def)
  obtain fuel' where f: "fuel = Suc fuel'" using fuel by (cases fuel) auto
  obtain n p m where l: "finish_paging fuel junk (blank_kernel s)
        = enable_heap fuel junk (blank_kernel s\<lparr>placement_address := p, ram := m\<rparr>)"
      "kernel_mapped (kernel_directory (blank_kernel s)) n (blank_kernel s\<lparr>placement_address := p, ram := m\<rparr>)"
      "kept_below (placement_address s) (ram s) m" "4096 * n \<le> unat (placement_address s) + 0x10000"
    using finish_paging_loops [OF boot fuel] by blast
  define s1 where "s1 = blank_kernel s\<lparr>placement_address := p, ram := m\<rparr>"
  define dir where "dir = kernel_directory (blank_kernel s)"
  note km = l(2) [folded s1_def dir_def]
  obtain s' h where e: "enable_heap fuel junk s1 = Inr s'" "kheap s' = Some h" "heap_inv h (ram s') 0xC0080000 boot_blocks"
      "kernel_directory s' = dir" "placement_address s' = placement_address s1 + 32"
      "\<And>x. unat x < 0xC0000000 \<Longrightarrow> ram s' x = ram s1 x" "current_directory s' = 0xC0081000"
      "cr3 s' = indeterminate s1 + 4096" "bit (cr0 s') 31"
      "\<And>i. i < 1024 \<Longrightarrow> dir_Table (ram s') 0xC0081000 (of_nat i) = dir_Table (ram s1) dir (of_nat i)
        \<and> dir_TablePhysical (ram s') 0xC0081000 (of_nat i) = dir_TablePhysical (ram s1) dir (of_nat i)"
      "index_place h = (0xC0000000, 0x20000, 0xCFFFF000)" "next_pid s' = next_pid s1"
      "frames s' = frames s1" "nframes s' = nframes s1"
    using enable_heap_spec [OF km, of fuel' junk] unfolding f by blast
  have k: "paging_ok dir s1" "unat (placement_address s1) + 0x1000 \<le> 4096 * n" "n \<le> 0xF00"
    using km by (simp_all add: kernel_mapped_def)
  note o = paging_okD [OF k(1)]
  have up: "unat (placement_address s') = unat (placement_address s1) + 32"
    unfolding e(5) using k(2,3) by (subst unat_add_no_wrap) auto
  have km': "growable dir (n + 256) s1" "frame_limit s1 = 4096" "unmapped (ram s1) dir 0xC0100 0xC0400"
    using km by (simp_all add: kernel_mapped_def)
  have low: "ram s' x = ram s1 x" if "unat x < unat (placement_address s1)" for x
    using that k(2,3) by (intro e(6)) linarith
  have grow: "growable dir (n + 256) s'" "unmapped (ram s') dir 0xC0100 0xC0400"
    using growable_below [OF km'(1) e(4,13,14) _ low] up km'(3) by simp_all
  have room: "frame_limit s' = 4096" "unat (placement_address s') \<le> 0xC0000000"
    using km'(2) e(14) up k(2,3) by (simp_all add: frame_limit_def)
  have "kept_below (placement_address s) (ram s1) (ram s')"
  proof (rule kept_belowI [OF order_refl e(6)])
    show "unat x < 0xC0000000" if "unat x < unat (placement_address s)" for x :: u32
      using that boot by (simp add: boot_memory_def)
  qed
  then have below: "kept_below (placement_address s) (ram s) (ram s')"
    by (rule kept_below_trans [OF _ , rotated]) (use l(3) in \<open>simp add: s1_def\<close>)
  have pid: "next_pid s1 = next_pid s" by (simp add: s1_def blank_kernel_def Let_def)
  have "placement_address s \<le> placement_address s'" "unat (placement_address s') \<le> 4096 * n"
    using up k(2) o(5) blank_kernel_ok(5) [OF boot, folded dir_def] by (simp_all add: word_le_unat)
  moreover have "placement_address s \<le> dir" "unat dir + 8196 \<le> unat (placement_address s')"
    using up o(5) blank_kernel_ok(5) [OF boot, folded dir_def] by (simp_all add: word_le_unat)
  moreover have "dir_Table (ram s') dir (of_nat i) = dir_Table (ram s1) dir (of_nat i)"
      "dir_TablePhysical (ram s') dir (of_nat i) = dir_TablePhysical (ram s1) dir (of_nat i)" if "i < 1024" for i
    by (rule dir_same [OF o(3) that e(6)]; use o(5) k(2,3) in linarith)+
  moreover have "dir = of_nat (placed_at True (placement_address s + 128))" by (simp add: dir_def blank_kernel_def Let_def)
  moreover have "indeterminate s1 = indeterminate s" by (simp add: s1_def blank_kernel_def Let_def)
  moreover have "initialise_paging fuel junk s = Inr s'"
    using initialise_paging_blank [OF P] l(1) e(1) by (simp add: s1_def)
  ultimately show ?thesis
    using e kernel_mapped_translate [OF km e(6)] below pid k(3) grow room l(4)
    by (intro exI [of _ s'] exI [of _ h] exI [of _ n]) simp
qed

text \<open>
  C10: initialise_paging returns. Afterwards the heap object satisfies its invariant, the walk of the
  processor through the kernel's page directory maps all memory the placement allocator handed out to
  itself and the range of the heap to the frames right behind that memory, paging is enabled, and the
  current directory is a clone of the kernel's that shares its page tables. The physical address
  loaded for the clone, however, is computed from a variable that was never set.
\<close>

theorem initialise_paging_correct:
  assumes boot: "boot_memory s" and fuel: "4096 < fuel"
  shows "\<exists>s' h n. initialise_paging fuel junk s = Inr s' \<and> kheap s' = Some h \<and> heap_inv h (ram s') 0xC0080000 boot_blocks
    \<and> placement_address s \<le> placement_address s' \<and> unat (placement_address s') \<le> 4096 * n
    \<and> (\<forall>x. unat x < 4096 * n \<longrightarrow> translate (ram s') (kernel_directory s' + 4096) x = Some x)
    \<and> (\<forall>x. 0xC0000000 \<le> unat x \<and> unat x < 0xC0100000 \<longrightarrow>
         translate (ram s') (kernel_directory s' + 4096) x = Some (x - 0xC0000000 + of_nat (4096 * n)))
    \<and> bit (cr0 s') 31 \<and> current_directory s' = 0xC0081000 \<and> cr3 s' = indeterminate s + 4096
    \<and> (\<forall>i < 1024. dir_Table (ram s') 0xC0081000 (of_nat i) = dir_Table (ram s') (kernel_directory s') (of_nat i))"
  using initialise_paging_spec [OF assms, of junk] by (elim exE conjE) ((rule exI)+, (rule conjI, assumption)+, assumption)

theorem initialise_paging_correct_witness:
  "\<exists>s'. initialise_paging 5000 demo_junk (empty_bitmap_kernel (\<lambda>_. 0)\<lparr>placement_address := 0x200000\<rparr>) = Inr s'
     \<and> translate (ram s') (kernel_directory s' + 4096) 0x1234 = Some 0x1234
     \<and> (\<exists>y. translate (ram s') (kernel_directory s' + 4096) 0xC0000004 = Some y)"
proof -
  let ?s = "empty_bitmap_kernel (\<lambda>_. 0)\<lparr>placement_address := 0x200000\<rparr>"
  have boot: "boot_memory ?s" by (simp add: boot_memory_def empty_bitmap_kernel_def)
  have "(4096 :: nat) < 5000" by simp
  from initialise_paging_correct [OF boot this, of demo_junk]
  obtain s' n where r: "initialise_paging 5000 demo_junk ?s = Inr s'" "placement_address ?s \<le> placement_address s'"
      "unat (placement_address s') \<le> 4096 * n"
      "\<And>x. unat x < 4096 * n \<Longrightarrow> translate (ram s') (kernel_directory s' + 4096) x = Some x"
      "\<And>x. 0xC0000000 \<le> unat x \<Longrightarrow> unat x < 0xC0100000 \<Longrightarrow>
         translate (ram s') (kernel_directory s' + 4096) x = Some (x - 0xC0000000 + of_nat (4096 * n))"
    by (elim exE conjE) (rule that; blast)
  have "0x200000 \<le> 4096 * n" using r(2,3) by (simp add: word_le_unat)
  then have "translate (ram s') (kernel_directory s' + 4096) 0x1234 = Some 0x1234" by (intro r(4)) simp
  moreover have "\<exists>y. translate (ram s') (kernel_directory s' + 4096) 0xC0000004 = Some y"
    by (rule exI, rule r(5)) simp_all
  ultimately show ?thesis using r(1) by blast
qed

end
