(* ===== verification/Tasking.thy ===== *)
theory Tasking
  imports Paging_Properties
begin

text \<open>
  \<^verbatim>\<open>kernel/Task.cpp\<close> with perform_task_switch of \<^verbatim>\<open>kernel/PagingAssembly.S\<close>: the ready queue as a
  linked list of task structures in memory, creating the first task, fork, and the task switch.

  The registers the inline assembly reads are arguments. A switch does not return: control
  continues at an address, with new stack registers, which is a value of type \<open>control\<close>.
\<close>

subsection \<open>Task structures in memory\<close>

text \<open>struct Task on i386: id at offset 0, esp 4, ebp 8, eip 12, page_directory 16, next 20; 24 bytes.\<close>

definition sizeof_Task :: u32 where "sizeof_Task = 24"

definition task_id :: "memory \<Rightarrow> u32 \<Rightarrow> u32" where "task_id m t = load32 m t"
definition task_esp :: "memory \<Rightarrow> u32 \<Rightarrow> u32" where "task_esp m t = load32 m (t + 4)"
definition task_ebp :: "memory \<Rightarrow> u32 \<Rightarrow> u32" where "task_ebp m t = load32 m (t + 8)"
definition task_eip :: "memory \<Rightarrow> u32 \<Rightarrow> u32" where "task_eip m t = load32 m (t + 12)"
definition task_page_directory :: "memory \<Rightarrow> u32 \<Rightarrow> u32" where
  "task_page_directory m t = load32 m (t + 16)"
definition task_next :: "memory \<Rightarrow> u32 \<Rightarrow> u32" where "task_next m t = load32 m (t + 20)"

definition set_task_id :: "u32 \<Rightarrow> u32 \<Rightarrow> memory \<Rightarrow> memory" where "set_task_id t v m = store32 m t v"
definition set_task_esp :: "u32 \<Rightarrow> u32 \<Rightarrow> memory \<Rightarrow> memory" where "set_task_esp t v m = store32 m (t + 4) v"
definition set_task_ebp :: "u32 \<Rightarrow> u32 \<Rightarrow> memory \<Rightarrow> memory" where "set_task_ebp t v m = store32 m (t + 8) v"
definition set_task_eip :: "u32 \<Rightarrow> u32 \<Rightarrow> memory \<Rightarrow> memory" where "set_task_eip t v m = store32 m (t + 12) v"
definition set_task_page_directory :: "u32 \<Rightarrow> u32 \<Rightarrow> memory \<Rightarrow> memory" where
  "set_task_page_directory t v m = store32 m (t + 16) v"
definition set_task_next :: "u32 \<Rightarrow> u32 \<Rightarrow> memory \<Rightarrow> memory" where "set_task_next t v m = store32 m (t + 20) v"

lemmas task_fields = task_id_def task_esp_def task_ebp_def task_eip_def task_page_directory_def task_next_def
lemmas task_setters = set_task_id_def set_task_esp_def set_task_ebp_def set_task_eip_def
  set_task_page_directory_def set_task_next_def

subsection \<open>Creating tasks\<close>

text \<open>The fields of a fresh task, as initialise_tasking and fork set them.\<close>

definition init_task :: "u32 \<Rightarrow> u32 \<Rightarrow> kernel \<Rightarrow> kernel" where
  "init_task t directory s =
     (let m = set_task_id t (next_pid s) (ram s);
          m = set_task_esp t 0 (set_task_ebp t 0 m);
          m = set_task_eip t 0 m;
          m = set_task_page_directory t directory m;
          m = set_task_next t 0 m
      in s\<lparr>ram := m, next_pid := next_pid s + 1\<rparr>)"

definition initialise_tasking :: "nat \<Rightarrow> kernel \<Rightarrow> fault + kernel" where
  "initialise_tasking fuel s =
     rbind (kmalloc fuel sizeof_Task False False (s\<lparr>interrupt_flag := False\<rparr>)) (\<lambda>(t, _, s).
       let s = s\<lparr>ready_queue := t, current_task := t\<rparr>;
           s = init_task t (current_directory s) s
       in Inr (s\<lparr>interrupt_flag := True\<rparr>))"

definition getpid :: "kernel \<Rightarrow> int" where
  "getpid s = sint (task_id (ram s) (current_task s))"

text \<open>The walk to the end of the ready queue; on a cyclic list it does not end.\<close>

partial_function (option) last_task :: "memory \<Rightarrow> u32 \<Rightarrow> u32 option" where
  "last_task m tmp_task =
     (if task_next m tmp_task \<noteq> 0 then last_task m (task_next m tmp_task) else Some tmp_task)"

text \<open>
  fork up to the call of read_eip. Both the parent and, when it is first scheduled, the child
  return from that call; \<open>fork_return\<close> is the rest.
\<close>

definition fork_prepare :: "nat \<Rightarrow> kernel \<Rightarrow> fault + (u32 \<times> kernel)" where
  "fork_prepare fuel s =
     rbind (clone_directory (Alloc fuel) (current_directory s) (s\<lparr>interrupt_flag := False\<rparr>)) (\<lambda>(directory, s).
     rbind (kmalloc fuel sizeof_Task False False s) (\<lambda>(new_task, _, s).
       let s = init_task new_task directory s
       in case last_task (ram s) (ready_queue s) of
            None \<Rightarrow> Inl (Spin ''ready_queue'')
          | Some tmp_task \<Rightarrow> Inr (new_task, s\<lparr>ram := set_task_next tmp_task new_task (ram s)\<rparr>)))"

definition fork_return :: "u32 \<Rightarrow> u32 \<Rightarrow> u32 \<Rightarrow> u32 \<Rightarrow> u32 \<Rightarrow> kernel \<Rightarrow> int \<times> kernel" where
  "fork_return parent_task new_task eip esp ebp s =
     (if current_task s = parent_task then
        let m = set_task_esp new_task esp (ram s);
            m = set_task_ebp new_task ebp m;
            m = set_task_eip new_task eip m;
            s = s\<lparr>ram := m\<rparr>;
            s = s\<lparr>interrupt_flag := True\<rparr>
        in (sint (task_id (ram s) new_task), s)
      else (0, s))"

definition fork :: "nat \<Rightarrow> u32 \<Rightarrow> u32 \<Rightarrow> u32 \<Rightarrow> kernel \<Rightarrow> fault + (int \<times> kernel)" where
  "fork fuel eip esp ebp s =
     (let parent_task = current_task s
      in rbind (fork_prepare fuel s) (\<lambda>(new_task, s). Inr (fork_return parent_task new_task eip esp ebp s)))"

subsection \<open>Switching tasks\<close>

datatype control = Returns | Jump (jump_eip: u32) (jump_esp: u32) (jump_ebp: u32) (jump_eax: u32)

text \<open>
  perform_task_switch leaves the physical address of the directory in EAX: the instruction that
  should load the value 0x12345 is commented out.
\<close>

definition perform_task_switch :: "u32 \<Rightarrow> u32 \<Rightarrow> u32 \<Rightarrow> u32 \<Rightarrow> kernel \<Rightarrow> control \<times> kernel" where
  "perform_task_switch eip physical ebp esp s =
     (Jump eip esp ebp physical, s\<lparr>cr3 := physical, interrupt_flag := True\<rparr>)"

text \<open>
  switch_task after the call of read_eip. \<open>eip\<close> is the value in EAX: the return address when the
  task called read_eip itself, and what perform_task_switch left there when it was resumed.
\<close>

definition switch_task_after_eip :: "u32 \<Rightarrow> u32 \<Rightarrow> u32 \<Rightarrow> kernel \<Rightarrow> control \<times> kernel" where
  "switch_task_after_eip eip esp ebp s =
     (let m = set_task_eip (current_task s) eip (ram s);
          m = set_task_esp (current_task s) esp m;
          m = set_task_ebp (current_task s) ebp m;
          s = s\<lparr>ram := m\<rparr>;
          s = s\<lparr>current_task := task_next (ram s) (current_task s)\<rparr>;
          s = (if current_task s = 0 then s\<lparr>current_task := ready_queue s\<rparr> else s);
          eip = task_eip (ram s) (current_task s);
          esp = task_esp (ram s) (current_task s);
          ebp = task_ebp (ram s) (current_task s);
          s = s\<lparr>current_directory := task_page_directory (ram s) (current_task s)\<rparr>
      in perform_task_switch eip (dir_PhysicalAddress (ram s) (current_directory s)) ebp esp s)"

definition switch_task :: "u32 \<Rightarrow> u32 \<Rightarrow> u32 \<Rightarrow> kernel \<Rightarrow> control \<times> kernel" where
  "switch_task eip esp ebp s =
     (if current_task s = 0 then (Returns, s) else switch_task_after_eip eip esp ebp s)"

subsection \<open>Moving the stack\<close>

text \<open>
  move_stack maps the new stack and then loops forever after printing a message; the code behind
  that loop is never reached. Its first loop counts down with \<^verbatim>\<open>>=\<close> on unsigned values.
\<close>

primrec move_stack_loop :: "nat \<Rightarrow> heap_alloc \<Rightarrow> u32 \<Rightarrow> u32 \<Rightarrow> kernel \<Rightarrow> fault + kernel" where
  "move_stack_loop 0 heap_alloc limit i s = Inl OutOfFuel"
| "move_stack_loop (Suc fuel) heap_alloc limit i s =
     (if i \<ge> limit then
        rbind (get_page heap_alloc i True (current_directory s) s) (\<lambda>(page, s).
        rbind (alloc_frame page False True s) (\<lambda>s. move_stack_loop fuel heap_alloc limit (i - 0x1000) s))
      else Inr s)"

definition move_stack :: "nat \<Rightarrow> u32 \<Rightarrow> u32 \<Rightarrow> kernel \<Rightarrow> fault + kernel" where
  "move_stack fuel new_stack_start n s =
     rbind (move_stack_loop fuel (Alloc fuel) (new_stack_start - n) new_stack_start s)
       (\<lambda>s. Inl (Spin ''test''))"

end
