(* ===== verification/Scheduler.thy ===== *)
theory Scheduler
  imports Tasking
begin

text \<open>
  The ready queue and its scheduling. The contract \<open>round_robin\<close> says that a step moves to the
  cyclic successor of the current task; fairness follows from it. The task switch of the kernel
  fulfils it on every well-formed ready queue. Which registers each task is continued with after a run of
  switches is stated over the registers those switches saved.
\<close>

locale round_robin =
  fixes ok :: "'s \<Rightarrow> 'a list \<Rightarrow> bool"
    and cur :: "'s \<Rightarrow> 'a"
    and step :: "'s \<Rightarrow> 's \<Rightarrow> bool"
  assumes step_next: "ok s xs \<Longrightarrow> i < length xs \<Longrightarrow> cur s = xs ! i \<Longrightarrow> step s s' \<Longrightarrow>
      ok s' xs \<and> cur s' = xs ! (Suc i mod length xs)"
begin

lemma run_cur:
  assumes "ok s xs" and "i < length xs" and "cur s = xs ! i"
  shows "(step ^^ k) s s' \<Longrightarrow> ok s' xs \<and> cur s' = xs ! ((i + k) mod length xs)"
proof (induction k arbitrary: s')
  case (Suc k)
  then obtain s1 where s1: "(step ^^ k) s s1" "step s1 s'" by auto
  from Suc.IH [OF s1(1)] have IH: "ok s1 xs" "cur s1 = xs ! ((i + k) mod length xs)" by auto
  have "(i + k) mod length xs < length xs" using assms(2) by (intro mod_less_divisor) linarith
  from step_next [OF IH(1) this IH(2) s1(2)] show ?case by (simp add: mod_Suc_eq)
qed (use assms in simp)

lemma full_round:
  assumes "ok s xs" and "i < length xs" and "cur s = xs ! i" and "(step ^^ length xs) s s'"
  shows "cur s' = cur s"
  using run_cur [OF assms] assms(2,3) by simp

end

subsection \<open>The ready queue as a list\<close>

fun task_list :: "memory \<Rightarrow> u32 \<Rightarrow> u32 list \<Rightarrow> bool" where
  "task_list m t [] \<longleftrightarrow> t = 0"
| "task_list m t (x # xs) \<longleftrightarrow> t = x \<and> x \<noteq> 0 \<and> task_list m (task_next m x) xs"

definition task_fits :: "u32 \<Rightarrow> bool" where
  "task_fits t \<longleftrightarrow> unat t + 24 \<le> 4294967295"

definition tasks_apart :: "u32 \<Rightarrow> u32 \<Rightarrow> bool" where
  "tasks_apart t u \<longleftrightarrow> unat t + 24 \<le> unat u \<or> unat u + 24 \<le> unat t"

definition tasks_ok :: "u32 list \<Rightarrow> bool" where
  "tasks_ok xs \<longleftrightarrow> distinct xs \<and> (\<forall>t \<in> set xs. task_fits t)
     \<and> (\<forall>t \<in> set xs. \<forall>u \<in> set xs. t \<noteq> u \<longrightarrow> tasks_apart t u)"

definition queue_ok :: "kernel \<Rightarrow> u32 list \<Rightarrow> bool" where
  "queue_ok s xs \<longleftrightarrow> tasks_ok xs \<and> task_list (ram s) (ready_queue s) xs"

lemma task_list_nonzero: "task_list m t xs \<Longrightarrow> x \<in> set xs \<Longrightarrow> x \<noteq> 0"
  by (induction xs arbitrary: t) auto

lemma task_list_next:
  "task_list m t xs \<Longrightarrow> i < length xs \<Longrightarrow>
   task_next m (xs ! i) = (if Suc i < length xs then xs ! Suc i else 0)"
proof (induction xs arbitrary: t i)
  case (Cons x xs)
  show ?case
  proof (cases i)
    case 0
    with Cons.prems show ?thesis by (cases xs) auto
  next
    case (Suc j)
    with Cons.IH [of "task_next m x" j] Cons.prems show ?thesis by simp
  qed
qed simp

lemma task_list_head: "task_list m t xs \<Longrightarrow> xs \<noteq> [] \<Longrightarrow> t = xs ! 0"
  by (cases xs) auto

lemma task_list_frame:
  "task_list m t xs \<Longrightarrow> (\<And>x. x \<in> set xs \<Longrightarrow> task_next m' x = task_next m x) \<Longrightarrow> task_list m' t xs"
  by (induction xs arbitrary: t) auto

lemma task_list_append:
  assumes "task_list m t xs" and "xs \<noteq> []" and "n \<noteq> 0"
    and "\<And>x. x \<in> set xs \<Longrightarrow> task_next m' x = (if x = last xs then n else task_next m x)"
    and "task_next m' n = 0" and "distinct xs"
  shows "task_list m' t (xs @ [n])"
  using assms(1,2,4,6)
proof (induction xs arbitrary: t)
  case (Cons x xs)
  show ?case
  proof (cases "xs = []")
    case True
    with Cons.prems assms(3,5) show ?thesis by simp
  next
    case False
    have "task_next m' x = task_next m x" using Cons.prems False by auto
    moreover have "task_list m' (task_next m x) (xs @ [n])"
      by (rule Cons.IH) (use Cons.prems False in auto)
    ultimately show ?thesis using Cons.prems by simp
  qed
qed simp

lemma last_task_eq: "task_list m t xs \<Longrightarrow> xs \<noteq> [] \<Longrightarrow> last_task m t = Some (last xs)"
proof (induction xs arbitrary: t)
  case (Cons x xs)
  show ?case
  proof (cases xs)
    case Nil
    with Cons.prems show ?thesis by (simp add: last_task.simps [of m x])
  next
    case (Cons y ys)
    with Cons.prems Cons.IH [of "task_next m x"] show ?thesis
      by (simp add: last_task.simps [of m x])
  qed
qed simp

subsection \<open>Writing a task leaves the others alone\<close>

definition other_tasks :: "u32 \<Rightarrow> memory \<Rightarrow> memory \<Rightarrow> bool" where
  "other_tasks t m m' \<longleftrightarrow> same_outside (unat t) (unat t + 24) m m'"

lemma task_setter_frame:
  assumes "task_fits t"
  shows "other_tasks t m (set_task_id t v m)" "other_tasks t m (set_task_esp t v m)"
    "other_tasks t m (set_task_ebp t v m)" "other_tasks t m (set_task_eip t v m)"
    "other_tasks t m (set_task_page_directory t v m)" "other_tasks t m (set_task_next t v m)"
  using assms unfolding other_tasks_def task_setters task_fits_def
  by (auto intro!: same_outside_store32 simp: unat_plus_numeral)

lemma other_tasks_trans [trans]: "other_tasks t m m1 \<Longrightarrow> other_tasks t m1 m2 \<Longrightarrow> other_tasks t m m2"
  unfolding other_tasks_def by (rule same_outside_trans)

lemma task_frame:
  assumes "other_tasks t m m'" and "task_fits u" and "tasks_apart t u"
  shows "task_id m' u = task_id m u" "task_esp m' u = task_esp m u" "task_ebp m' u = task_ebp m u"
    "task_eip m' u = task_eip m u" "task_page_directory m' u = task_page_directory m u"
    "task_next m' u = task_next m u"
  using assms unfolding other_tasks_def task_fields task_fits_def tasks_apart_def
  by (auto intro!: same_outside_load32 simp: unat_plus_numeral)

text \<open>The fields of one structure are four bytes apart, also where addresses wrap around.\<close>

lemma task_read_write [simp]:
  "task_id (set_task_id t v m) t = v" "task_esp (set_task_esp t v m) t = v"
  "task_ebp (set_task_ebp t v m) t = v" "task_eip (set_task_eip t v m) t = v"
  "task_page_directory (set_task_page_directory t v m) t = v" "task_next (set_task_next t v m) t = v"
  by (simp_all add: task_fields task_setters)

lemma task_read_other [simp]:
  "task_id (set_task_esp t v m) t = task_id m t" "task_id (set_task_ebp t v m) t = task_id m t"
  "task_id (set_task_eip t v m) t = task_id m t" "task_id (set_task_page_directory t v m) t = task_id m t"
  "task_id (set_task_next t v m) t = task_id m t"
  "task_eip (set_task_esp t v m) t = task_eip m t" "task_eip (set_task_ebp t v m) t = task_eip m t"
  "task_esp (set_task_ebp t v m) t = task_esp m t" "task_esp (set_task_eip t v m) t = task_esp m t"
  "task_ebp (set_task_eip t v m) t = task_ebp m t"
  "task_page_directory (set_task_next t v m) t = task_page_directory m t"
  "task_page_directory (set_task_esp t v m) t = task_page_directory m t"
  "task_page_directory (set_task_ebp t v m) t = task_page_directory m t"
  "task_page_directory (set_task_eip t v m) t = task_page_directory m t"
  "task_next (set_task_esp t v m) t = task_next m t" "task_next (set_task_ebp t v m) t = task_next m t"
  "task_next (set_task_eip t v m) t = task_next m t"
  by (simp_all add: task_fields task_setters mem_simps)

subsection \<open>The task switch\<close>

text \<open>The memory after the registers of the current task were saved.\<close>

definition save_context :: "u32 \<Rightarrow> u32 \<Rightarrow> u32 \<Rightarrow> u32 \<Rightarrow> memory \<Rightarrow> memory" where
  "save_context t eip esp ebp m = set_task_ebp t ebp (set_task_esp t esp (set_task_eip t eip m))"

lemma save_context_frame: "task_fits t \<Longrightarrow> other_tasks t m (save_context t eip esp ebp m)"
  unfolding save_context_def by (blast intro: other_tasks_trans task_setter_frame)

lemma save_context_fields [simp]:
  "task_eip (save_context t eip esp ebp m) t = eip" "task_esp (save_context t eip esp ebp m) t = esp"
  "task_ebp (save_context t eip esp ebp m) t = ebp" "task_next (save_context t eip esp ebp m) t = task_next m t"
  "task_page_directory (save_context t eip esp ebp m) t = task_page_directory m t"
  by (simp_all add: save_context_def)

lemma switch_after_eip:
  "switch_task_after_eip eip esp ebp s =
    (let m = save_context (current_task s) eip esp ebp (ram s);
         n = task_next m (current_task s);
         t = (if n = 0 then ready_queue s else n);
         pd = dir_PhysicalAddress m (task_page_directory m t)
     in (Jump (task_eip m t) (task_esp m t) (task_ebp m t) pd,
         s\<lparr>ram := m, current_task := t, current_directory := task_page_directory m t, cr3 := pd,
           interrupt_flag := True\<rparr>))"
  by (simp add: switch_task_after_eip_def save_context_def perform_task_switch_def Let_def)

lemma tasks_okD:
  assumes "tasks_ok xs" and "t \<in> set xs"
  shows "task_fits t" and "u \<in> set xs \<Longrightarrow> u \<noteq> t \<Longrightarrow> tasks_apart t u"
  using assms by (auto simp: tasks_ok_def)

lemma queue_save_context:
  assumes "queue_ok s xs" and "t \<in> set xs"
  shows "task_list (save_context t eip esp ebp (ram s)) (ready_queue s) xs"
proof -
  have ok: "tasks_ok xs" "task_list (ram s) (ready_queue s) xs" using assms(1) by (simp_all add: queue_ok_def)
  note fr = save_context_frame [OF tasks_okD(1) [OF ok(1) assms(2)]]
  show ?thesis
  proof (rule task_list_frame [OF ok(2)])
    fix u assume u: "u \<in> set xs"
    show "task_next (save_context t eip esp ebp (ram s)) u = task_next (ram s) u"
    proof (cases "u = t")
      case False
      with task_frame(6) [OF fr tasks_okD(1) [OF ok(1) u]] tasks_okD(2) [OF ok(1) assms(2) u] show ?thesis
        by blast
    qed simp
  qed
qed

lemma switch_next:
  fixes eip esp ebp :: u32
  assumes ok: "queue_ok s xs" and i: "i < length xs" and cur: "current_task s = xs ! i"
  defines "nxt \<equiv> xs ! (Suc i mod length xs)" and "m \<equiv> save_context (xs ! i) eip esp ebp (ram s)"
  shows "switch_task eip esp ebp s =
    (Jump (task_eip m nxt) (task_esp m nxt) (task_ebp m nxt) (dir_PhysicalAddress m (task_page_directory m nxt)),
     s\<lparr>ram := m, current_task := nxt, current_directory := task_page_directory m nxt,
       cr3 := dir_PhysicalAddress m (task_page_directory m nxt), interrupt_flag := True\<rparr>)"
proof -
  have mem: "xs ! i \<in> set xs" using i by simp
  have list: "task_list (ram s) (ready_queue s) xs" using ok by (simp add: queue_ok_def)
  have nz: "xs ! i \<noteq> 0" using task_list_nonzero [OF list mem] .
  have "task_list m (ready_queue s) xs" unfolding m_def by (rule queue_save_context [OF ok mem])
  then have nx: "task_next m (xs ! i) = (if Suc i < length xs then xs ! Suc i else 0)"
    using task_list_next i by blast
  have "(if task_next m (xs ! i) = 0 then ready_queue s else task_next m (xs ! i)) = nxt"
  proof (cases "Suc i < length xs")
    case True
    then have "xs ! Suc i \<noteq> 0" using task_list_nonzero [OF list] by simp
    with True nx show ?thesis by (simp add: nxt_def)
  next
    case False
    with i have "Suc i = length xs" by simp
    moreover have "ready_queue s = xs ! 0" using task_list_head [OF list] i by fastforce
    ultimately show ?thesis using False nx by (simp add: nxt_def)
  qed
  with nz cur show ?thesis
    by (simp add: switch_task_def switch_after_eip Let_def m_def [symmetric])
qed

text \<open>A step of the scheduler: a switch with whatever the registers held.\<close>

inductive sched_step :: "kernel \<Rightarrow> kernel \<Rightarrow> bool" where
  switch: "switch_task eip esp ebp s = (Jump e p b a, s') \<Longrightarrow> sched_step s s'"

inductive_cases sched_stepE: "sched_step s s'"

interpretation rr: round_robin queue_ok current_task sched_step
proof
  fix s s' :: kernel and xs i
  assume ok: "queue_ok s xs" and i: "i < length xs" and cur: "current_task s = xs ! i" and "sched_step s s'"
  from \<open>sched_step s s'\<close> obtain eip esp ebp e p b a
    where "switch_task eip esp ebp s = (Jump e p b a, s')" by (rule sched_stepE)
  then have s': "ram s' = save_context (xs ! i) eip esp ebp (ram s)" "ready_queue s' = ready_queue s"
      "current_task s' = xs ! (Suc i mod length xs)"
    unfolding switch_next [OF ok i cur] by auto
  moreover have "xs ! i \<in> set xs" using i by simp
  ultimately show "queue_ok s' xs \<and> current_task s' = xs ! (Suc i mod length xs)"
    using queue_save_context [OF ok] ok by (auto simp: queue_ok_def)
qed

text \<open>The registers saved in a task.\<close>

definition saved_regs :: "memory \<Rightarrow> u32 \<Rightarrow> u32 \<times> u32 \<times> u32" where
  "saved_regs m t = (task_eip m t, task_esp m t, task_ebp m t)"

lemma sched_step_regs:
  assumes ok: "queue_ok s xs" and i: "i < length xs" and cur: "current_task s = xs ! i"
    and step: "sched_step s s'" and t: "t \<in> set xs" "t \<noteq> xs ! i"
  shows "saved_regs (ram s') t = saved_regs (ram s) t"
proof -
  from step obtain eip esp ebp e p b a where "switch_task eip esp ebp s = (Jump e p b a, s')" by (rule sched_stepE)
  then have s': "ram s' = save_context (xs ! i) eip esp ebp (ram s)"
    unfolding switch_next [OF ok i cur] by auto
  have oks: "tasks_ok xs" "xs ! i \<in> set xs" using ok i by (simp_all add: queue_ok_def)
  show ?thesis
    using task_frame [OF save_context_frame [OF tasks_okD(1) [OF oks]] tasks_okD(1) [OF oks(1) t(1)]]
      tasks_okD(2) [OF oks t] unfolding s' saved_regs_def by auto
qed

text \<open>A task that waits its turn keeps its saved registers.\<close>

lemma waiting_regs:
  assumes ok: "queue_ok s xs" and i: "i < length xs" and cur: "current_task s = xs ! i"
  shows "(sched_step ^^ k) s s' \<Longrightarrow> i + k \<le> j \<Longrightarrow> j < length xs \<Longrightarrow>
    saved_regs (ram s') (xs ! j) = saved_regs (ram s) (xs ! j)"
proof (induction k arbitrary: s')
  case (Suc k)
  obtain s1 where s1: "(sched_step ^^ k) s s1" "sched_step s1 s'" using Suc.prems(1) by auto
  have "queue_ok s1 xs" "current_task s1 = xs ! (i + k)"
    using rr.run_cur [OF ok i cur s1(1)] Suc.prems(2,3) by simp_all
  moreover have "xs ! j \<noteq> xs ! (i + k)"
    using ok Suc.prems(2,3) by (simp add: queue_ok_def tasks_ok_def nth_eq_iff_index_eq)
  ultimately have "saved_regs (ram s') (xs ! j) = saved_regs (ram s1) (xs ! j)"
    using Suc.prems(2,3) by (intro sched_step_regs [OF _ _ _ s1(2), of xs "i + k"]) auto
  with Suc.IH [OF s1(1)] Suc.prems(2,3) show ?case by simp
qed simp

text \<open>
  C32: on a well-formed ready queue the task switch saves the registers of the current task in its
  structure, continues with the saved registers of its cyclic successor in that task's page
  directory with interrupts enabled, and leaves the saved registers of all other tasks and the
  queue as they are.
\<close>

theorem switch_task_context:
  assumes ok: "queue_ok s xs" and i: "i < length xs" and cur: "current_task s = xs ! i"
  shows "\<exists>s'. let nxt = xs ! (Suc i mod length xs); m = ram s' in
    switch_task eip esp ebp s = (Jump (task_eip m nxt) (task_esp m nxt) (task_ebp m nxt) (cr3 s'), s')
    \<and> queue_ok s' xs \<and> current_task s' = nxt \<and> interrupt_flag s'
    \<and> current_directory s' = task_page_directory m nxt
    \<and> cr3 s' = dir_PhysicalAddress m (current_directory s')
    \<and> task_eip m (xs ! i) = eip \<and> task_esp m (xs ! i) = esp \<and> task_ebp m (xs ! i) = ebp
    \<and> (\<forall>t \<in> set xs. t \<noteq> xs ! i \<longrightarrow> task_eip m t = task_eip (ram s) t
         \<and> task_esp m t = task_esp (ram s) t \<and> task_ebp m t = task_ebp (ram s) t)"
proof -
  let ?m = "save_context (xs ! i) eip esp ebp (ram s)" and ?nxt = "xs ! (Suc i mod length xs)"
  obtain s' c where run: "switch_task eip esp ebp s = (c, s')" by fastforce
  note sw = switch_next [OF ok i cur, where eip = eip and esp = esp and ebp = ebp]
  have s': "ram s' = ?m" "current_task s' = ?nxt" "interrupt_flag s'"
      "current_directory s' = task_page_directory ?m ?nxt"
      "cr3 s' = dir_PhysicalAddress ?m (task_page_directory ?m ?nxt)"
      "c = Jump (task_eip ?m ?nxt) (task_esp ?m ?nxt) (task_ebp ?m ?nxt) (cr3 s')"
    using run unfolding sw by auto
  have "queue_ok s' xs"
    using rr.step_next [OF ok i cur sched_step.switch] run s'(6) by blast
  moreover have "task_eip ?m t = task_eip (ram s) t \<and> task_esp ?m t = task_esp (ram s) t
      \<and> task_ebp ?m t = task_ebp (ram s) t" if "t \<in> set xs" "t \<noteq> xs ! i" for t
  proof -
    have oks: "tasks_ok xs" "xs ! i \<in> set xs" using ok i by (simp_all add: queue_ok_def)
    show ?thesis
      using task_frame [OF save_context_frame [OF tasks_okD(1) [OF oks]] tasks_okD(1) [OF oks(1) that(1)]]
        tasks_okD(2) [OF oks that] by blast
  qed
  ultimately show ?thesis
    using run s' by (intro exI [of _ s']) (simp add: Let_def)
qed

text \<open>Two tasks at 0x1000 and 0x2000 in otherwise blank memory, the first one running.\<close>

definition two_tasks :: kernel where
  "two_tasks = empty_bitmap_kernel (set_task_next 0x1000 0x2000 (\<lambda>_. 0))
     \<lparr>ready_queue := 0x1000, current_task := 0x1000\<rparr>"

lemma two_tasks_queue: "queue_ok two_tasks [0x1000, 0x2000]"
proof -
  have "task_next (set_task_next 0x1000 0x2000 (\<lambda>_. 0)) 0x2000 = task_next (\<lambda>_. 0) 0x2000"
    by (rule task_frame(6) [OF task_setter_frame(6)]) (simp_all add: task_fits_def tasks_apart_def)
  then show ?thesis
    by (simp add: queue_ok_def tasks_ok_def task_fits_def tasks_apart_def two_tasks_def
        empty_bitmap_kernel_def) (simp add: task_next_def)
qed

theorem switch_task_context_witness:
  "\<exists>s'. switch_task 0x111 0x222 0x333 two_tasks = (Jump 0 0 0 0, s') \<and> current_task s' = 0x2000
     \<and> task_eip (ram s') 0x1000 = 0x111"
proof -
  have cur: "current_task two_tasks = [0x1000, 0x2000] ! 0" by (simp add: two_tasks_def)
  have zero: "task_eip (ram two_tasks) 0x2000 = 0" "task_esp (ram two_tasks) 0x2000 = 0"
      "task_ebp (ram two_tasks) 0x2000 = 0"
    by (simp_all add: two_tasks_def empty_bitmap_kernel_def task_fields task_setters mem_simps)
  from switch_task_context [OF two_tasks_queue _ cur, of "0x111" "0x222" "0x333"]
  obtain s' where s': "switch_task 0x111 0x222 0x333 two_tasks = (Jump 0 0 0 (cr3 s'), s')"
      "current_task s' = 0x2000" "task_eip (ram s') 0x1000 = 0x111"
    using zero by (auto simp: Let_def)
  moreover have "cr3 s' = 0"
    using s'(1) by (auto simp: switch_task_def switch_after_eip Let_def two_tasks_def empty_bitmap_kernel_def
        save_context_def task_fields task_setters mem_simps dir_PhysicalAddress_def)
  ultimately show ?thesis by auto
qed

subsection \<open>Round robin\<close>

text \<open>A run of the scheduler: the registers that each switch finds, and the kernel behind the last one.\<close>

definition switched :: "(u32 \<times> u32 \<times> u32) list \<Rightarrow> kernel \<Rightarrow> kernel" where
  "switched rs s = fold (\<lambda>(eip, esp, ebp) s. snd (switch_task eip esp ebp s)) rs s"

lemma switched_simps [simp]:
  "switched [] s = s" "switched (rs @ [(eip, esp, ebp)]) s = snd (switch_task eip esp ebp (switched rs s))"
  by (simp_all add: switched_def)

text \<open>One switch in terms of the saved registers.\<close>

lemma switch_saved:
  assumes ok: "queue_ok s xs" and i: "i < length xs" and cur: "current_task s = xs ! i"
  defines "nxt \<equiv> xs ! (Suc i mod length xs)"
  obtains s' where "\<forall>e p b. saved_regs (ram s') nxt = (e, p, b) \<longrightarrow> switch_task eip esp ebp s = (Jump e p b (cr3 s'), s')"
    and "snd (switch_task eip esp ebp s) = s'"
    and "queue_ok s' xs" "current_task s' = nxt" "current_directory s' = task_page_directory (ram s) nxt"
    and "cr3 s' = dir_PhysicalAddress (ram s') (current_directory s')"
    and "saved_regs (ram s') (xs ! i) = (eip, esp, ebp)"
    and "\<forall>t \<in> set xs. t \<noteq> xs ! i \<longrightarrow> saved_regs (ram s') t = saved_regs (ram s) t"
    and "\<forall>t \<in> set xs. task_page_directory (ram s') t = task_page_directory (ram s) t"
proof -
  let ?m = "save_context (xs ! i) eip esp ebp (ram s)"
  obtain c s' where run: "switch_task eip esp ebp s = (c, s')" by fastforce
  note sw = switch_next [OF ok i cur, where eip = eip and esp = esp and ebp = ebp, folded nxt_def]
  have s': "ram s' = ?m" "current_task s' = nxt" "current_directory s' = task_page_directory ?m nxt"
      "cr3 s' = dir_PhysicalAddress ?m (task_page_directory ?m nxt)"
      "c = Jump (task_eip ?m nxt) (task_esp ?m nxt) (task_ebp ?m nxt) (cr3 s')"
    using run unfolding sw by auto
  have oks: "tasks_ok xs" "xs ! i \<in> set xs" using ok i by (simp_all add: queue_ok_def)
  note step = sched_step.switch [OF run [unfolded s'(5)]]
  note fr = task_frame [OF save_context_frame [OF tasks_okD(1) [OF oks]] tasks_okD(1) [OF oks(1)]]
  have dir: "task_page_directory ?m t = task_page_directory (ram s) t" if "t \<in> set xs" for t
    using fr(5) [OF that] tasks_okD(2) [OF oks that] by (cases "t = xs ! i") auto
  have "Suc i mod length xs < length xs" using i by (intro mod_less_divisor) linarith
  then have "nxt \<in> set xs" by (simp add: nxt_def)
  show thesis
  proof (rule that [of s'])
    show "\<forall>e p b. saved_regs (ram s') nxt = (e, p, b) \<longrightarrow> switch_task eip esp ebp s = (Jump e p b (cr3 s'), s')"
      using run s'(1,5) by (auto simp: saved_regs_def)
    show "queue_ok s' xs" using rr.step_next [OF ok i cur step] by blast
    show "\<forall>t \<in> set xs. t \<noteq> xs ! i \<longrightarrow> saved_regs (ram s') t = saved_regs (ram s) t"
      using sched_step_regs [OF ok i cur step] by blast
    show "current_directory s' = task_page_directory (ram s) nxt" using s'(3) dir \<open>nxt \<in> set xs\<close> by simp
  qed (use run s' dir in \<open>simp_all add: saved_regs_def\<close>)
qed

lemma sched_steps_directory:
  assumes ok: "queue_ok s xs" and i: "i < length xs" and cur: "current_task s = xs ! i" and t: "t \<in> set xs"
  shows "(sched_step ^^ k) s s' \<Longrightarrow> task_page_directory (ram s') t = task_page_directory (ram s) t"
proof (induction k arbitrary: s')
  case (Suc k)
  obtain s1 where s1: "(sched_step ^^ k) s s1" "sched_step s1 s'" using Suc.prems by auto
  obtain eip esp ebp e p b a where sw: "switch_task eip esp ebp s1 = (Jump e p b a, s')" using s1(2) by (rule sched_stepE)
  note at = rr.run_cur [OF ok i cur s1(1)]
  have "(i + k) mod length xs < length xs" using i by (intro mod_less_divisor) linarith
  then obtain s2 where "snd (switch_task eip esp ebp s1) = s2"
      "\<forall>t \<in> set xs. task_page_directory (ram s2) t = task_page_directory (ram s1) t"
    using switch_saved [OF at [THEN conjunct1] _ at [THEN conjunct2], of eip esp ebp] by metis
  then show ?case using Suc.IH [OF s1(1)] sw t by simp
qed simp

lemma ring_distinct:
  fixes m n k :: nat
  assumes "k < m" "m < k + n"
  shows "(i + m) mod n \<noteq> (i + k) mod n"
proof
  assume "(i + m) mod n = (i + k) mod n"
  then have "n dvd (i + m) - (i + k)" using assms(1) by (subst (asm) mod_eq_dvd_iff_nat) simp_all
  then have "n dvd m - k" by simp
  moreover have "0 < m - k" "m - k < n" using assms by linarith+
  ultimately show False using nat_dvd_not_less by blast
qed

text \<open>
  A run of switches: the tasks that wait have the registers they were left with, or those they
  started with.
\<close>

lemma switched_state:
  assumes ok: "queue_ok s xs" and i: "i < length xs" and cur: "current_task s = xs ! i"
  shows "queue_ok (switched rs s) xs \<and> current_task (switched rs s) = xs ! ((i + length rs) mod length xs)
    \<and> (\<forall>m. length rs < m \<and> m < length rs + length xs \<longrightarrow> saved_regs (ram (switched rs s)) (xs ! ((i + m) mod length xs))
        = (if m < length xs then saved_regs (ram s) (xs ! ((i + m) mod length xs)) else rs ! (m - length xs)))
    \<and> (\<forall>t \<in> set xs. task_page_directory (ram (switched rs s)) t = task_page_directory (ram s) t)"
proof (induction rs rule: rev_induct)
  case Nil
  then show ?case using assms by simp
next
  case (snoc r rs)
  obtain eip esp ebp where r: "r = (eip, esp, ebp)" by (cases r)
  let ?n = "length xs" and ?s = "switched rs s"
  let ?i = "(i + length rs) mod ?n"
  have lt: "(i + m) mod ?n < ?n" for m using i by (intro mod_less_divisor) linarith
  note IH = snoc.IH [THEN conjunct1] snoc.IH [THEN conjunct2, THEN conjunct1]
    snoc.IH [THEN conjunct2, THEN conjunct2, THEN conjunct1, rule_format] snoc.IH [THEN conjunct2, THEN conjunct2, THEN conjunct2, rule_format]
  obtain s' where s': "snd (switch_task eip esp ebp ?s) = s'" "queue_ok s' xs" "current_task s' = xs ! (Suc ?i mod ?n)"
      "saved_regs (ram s') (xs ! ?i) = (eip, esp, ebp)"
      "\<forall>t \<in> set xs. t \<noteq> xs ! ?i \<longrightarrow> saved_regs (ram s') t = saved_regs (ram ?s) t"
      "\<forall>t \<in> set xs. task_page_directory (ram s') t = task_page_directory (ram ?s) t"
    by (rule switch_saved [OF IH(1) lt IH(2), of eip esp ebp]) (rule that; assumption)
  have "saved_regs (ram s') (xs ! ((i + m) mod ?n))
      = (if m < ?n then saved_regs (ram s) (xs ! ((i + m) mod ?n)) else (rs @ [r]) ! (m - ?n))"
    if m: "Suc (length rs) < m" "m < Suc (length rs) + ?n" for m
  proof (cases "m = length rs + ?n")
    case True
    then have e: "(i + m) mod ?n = ?i" by (simp add: add.assoc [symmetric])
    show ?thesis unfolding e using True s'(4) r by simp
  next
    case False
    then have lt': "m < length rs + ?n" using m by linarith
    have "distinct xs" using ok by (simp add: queue_ok_def tasks_ok_def)
    then have "xs ! ((i + m) mod ?n) \<noteq> xs ! ?i"
      using ring_distinct [of "length rs" m ?n i] m(1) lt' lt by (simp add: nth_eq_iff_index_eq)
    then have "saved_regs (ram s') (xs ! ((i + m) mod ?n)) = saved_regs (ram ?s) (xs ! ((i + m) mod ?n))"
      using lt by (intro s'(5) [rule_format]) simp_all
    also have "\<dots> = (if m < ?n then saved_regs (ram s) (xs ! ((i + m) mod ?n)) else rs ! (m - ?n))"
      by (rule IH(3)) (use m lt' in simp)
    finally show ?thesis using lt' less_diff_conv2 [of ?n m "length rs"] by (auto simp: nth_append not_less)
  qed
  then show ?case using s'(1-3,6) IH(4) r by (simp add: mod_Suc_eq)
qed

text \<open>
  C33: scheduling is round robin. After any run of \<open>k\<close> switches from position \<open>i\<close> of the ready queue,
  whatever registers they found, the task at position \<open>i + k\<close>, cyclically, is the current one, and the next
  switch jumps to the task behind it with the instruction pointer, stack and base pointer which the run
  saved when it last left that task, or which were saved before the run if it has not been its turn yet,
  in the page directory of that task. The queue stays well-formed.
\<close>

theorem scheduler_round_robin:
  assumes ok: "queue_ok s xs" and i: "i < length xs" and cur: "current_task s = xs ! i"
  shows "let n = length xs; k = length rs; nxt = xs ! (Suc (i + k) mod n) in
    queue_ok (switched rs s) xs \<and> current_task (switched rs s) = xs ! ((i + k) mod n)
    \<and> (\<exists>e p b t. switch_task eip esp ebp (switched rs s) = (Jump e p b (cr3 t), t)
        \<and> (e, p, b) = (if Suc k < n then saved_regs (ram s) nxt else (rs @ [(eip, esp, ebp)]) ! (Suc k - n))
        \<and> current_task t = nxt \<and> current_directory t = task_page_directory (ram s) nxt
        \<and> cr3 t = dir_PhysicalAddress (ram t) (current_directory t))"
proof -
  define n k nxt where "n = length xs" and "k = length rs" and "nxt = xs ! (Suc (i + length rs) mod length xs)"
  let ?s = "switched rs s" and ?i = "(i + length rs) mod length xs"
  have lt: "?i < length xs" "Suc (i + length rs) mod length xs < length xs" using i by (intro mod_less_divisor; linarith)+
  have nxt: "xs ! (Suc ?i mod length xs) = nxt" "nxt \<in> set xs" using lt(2) by (simp_all add: nxt_def mod_Suc_eq)
  note run = switched_state [OF ok i cur, of rs]
  note ok' = run [THEN conjunct1] and cur' = run [THEN conjunct2, THEN conjunct1]
  obtain t where t: "\<forall>e p b. saved_regs (ram t) nxt = (e, p, b) \<longrightarrow> switch_task eip esp ebp ?s = (Jump e p b (cr3 t), t)"
      "snd (switch_task eip esp ebp ?s) = t" "current_task t = nxt" "current_directory t = task_page_directory (ram ?s) nxt"
      "cr3 t = dir_PhysicalAddress (ram t) (current_directory t)" "saved_regs (ram t) (xs ! ?i) = (eip, esp, ebp)"
      "\<forall>u \<in> set xs. u \<noteq> xs ! ?i \<longrightarrow> saved_regs (ram t) u = saved_regs (ram ?s) u"
    by (rule switch_saved [OF ok' lt(1) cur', of eip esp ebp, unfolded nxt(1)]) (rule that; assumption)
  obtain e p b where r: "saved_regs (ram t) nxt = (e, p, b)" by (metis prod_cases3)
  have "saved_regs (ram t) nxt = (if Suc k < n then saved_regs (ram s) nxt else (rs @ [(eip, esp, ebp)]) ! (Suc k - n))"
  proof (cases "n = 1")
    case True
    then have "nxt = xs ! ?i" by (simp add: nxt_def n_def)
    then show ?thesis using t(6) True by (simp add: k_def)
  next
    case False
    then have n: "1 < n" using i by (simp add: n_def)
    have "distinct xs" using ok by (simp add: queue_ok_def tasks_ok_def)
    then have "nxt \<noteq> xs ! ?i"
      using ring_distinct [of k "Suc k" n i] n lt unfolding nxt_def k_def n_def by (simp add: nth_eq_iff_index_eq)
    then have "saved_regs (ram t) nxt = saved_regs (ram ?s) nxt" using t(7) nxt(2) by blast
    also have "saved_regs (ram ?s) nxt = (if Suc k < n then saved_regs (ram s) nxt else rs ! (Suc k - n))"
      using run n unfolding nxt_def k_def n_def by (auto dest: spec [of _ "Suc (length rs)"])
    finally have "saved_regs (ram t) nxt = (if Suc k < n then saved_regs (ram s) nxt else rs ! (Suc k - n))" .
    moreover have "\<not> Suc k < n \<Longrightarrow> Suc k - n < length rs" using n unfolding k_def by linarith
    ultimately show ?thesis by (simp add: nth_append)
  qed
  then show ?thesis using run t(1) [rule_format, OF r] t(3-5) r nxt(2)
    by (auto simp: k_def n_def nxt_def Let_def)
qed

theorem scheduler_round_robin_witness:
  "\<exists>t a. switch_task 4 5 6 (switched [(0x111, 0x222, 0x333)] two_tasks) = (Jump 0x111 0x222 0x333 a, t) \<and> current_task t = 0x1000"
proof -
  have cur: "current_task two_tasks = [0x1000, 0x2000] ! 0" by (simp add: two_tasks_def)
  have "(0 :: nat) < length [0x1000 :: u32, 0x2000]" by simp
  from scheduler_round_robin [OF two_tasks_queue this cur, where rs = "[(0x111, 0x222, 0x333)]" and eip = 4 and esp = 5 and ebp = 6]
  show ?thesis by auto
qed

text \<open>
  When the task just switched to continues after its call of read_eip, the value it takes for
  its instruction pointer is the physical address of its page directory, and it saves that address
  as the place to continue at.
\<close>

lemma resumed_task_saves_directory_as_eip:
  assumes "switch_task eip esp ebp s = (Jump e p b eax, s')"
    and "switch_task_after_eip eax esp' ebp' s' = (c, s'')"
  shows "eax = cr3 s' \<and> task_eip (ram s'') (current_task s') = cr3 s'"
proof -
  have "eax = cr3 s'"
    using assms(1) by (auto simp: switch_task_def switch_after_eip Let_def split: if_splits)
  with assms(2) show ?thesis by (auto simp: switch_after_eip Let_def)
qed

end
