(* ===== verification/Fork.thy ===== *)
theory Fork
  imports Scheduler
begin

text \<open>
  What fork does to the ready queue. The memory manager works on memory, the heap object and the
  placement address only. This is proved once for every observation of the kernel that depends on
  nothing else: an allocator that keeps the observation makes the functions built on it keep it, and
  Heap::Alloc, which calls them recursively, keeps it, too. The globals of \<^verbatim>\<open>Task.cpp\<close> and the
  paging registers with the directories in use are such observations.
\<close>

locale memory_observer =
  fixes obs :: "kernel \<Rightarrow> 'a"
  assumes obs_ram: "obs (s\<lparr>ram := m\<rparr>) = obs s"
    and obs_kheap: "obs (s\<lparr>kheap := h\<rparr>) = obs s"
    and obs_placement: "obs (s\<lparr>placement_address := a\<rparr>) = obs s"
begin

lemmas obs_simps = obs_ram obs_kheap obs_placement

lemma alloc_frame_quiet: "alloc_frame page k w s = Inr s' \<Longrightarrow> obs s' = obs s"
  by (auto simp: alloc_frame_def set_frame_def set_frame_word_def update_page_def Let_def rbind_Inr_iff obs_simps
      split: if_splits)

end

locale quiet_alloc = memory_observer obs for obs :: "kernel \<Rightarrow> 'a" +
  fixes heap_alloc :: heap_alloc
  assumes quiet: "heap_alloc n align s = Inr (p, s') \<Longrightarrow> obs s' = obs s"
begin

lemma kmalloc_quiet: "kmalloc_with heap_alloc n align w s = Inr (p, q, s') \<Longrightarrow> obs s' = obs s"
  by (auto simp: kmalloc_with_def Let_def rbind_Inr_iff quiet obs_simps split: option.splits if_splits)

lemma get_page_quiet: "get_page heap_alloc a mk dir s = Inr (p, s') \<Longrightarrow> obs s' = obs s"
  by (auto simp: get_page_def Let_def rbind_Inr_iff obs_simps dest: kmalloc_quiet split: if_splits)

lemma expand_loop_quiet: "expand_loop fuel heap_alloc n i s = Inr s' \<Longrightarrow> obs s' = obs s"
  by (induction fuel arbitrary: i s)
     (force simp: rbind_Inr_iff dest: get_page_quiet alloc_frame_quiet split: if_splits option.splits)+

lemma Expand_quiet: "Expand fuel heap_alloc n s = Inr s' \<Longrightarrow> obs s' = obs s"
  by (auto simp: Expand_def Let_def rbind_Inr_iff obs_simps dest!: expand_loop_quiet split: option.splits)

end

context memory_observer
begin

lemma Alloc_quiet: "Alloc fuel n align s = Inr (p, s') \<Longrightarrow> obs s' = obs s"
proof (induction fuel arbitrary: n align s p s')
  case (Suc fuel)
  have q: "quiet_alloc obs (Alloc fuel)" using Suc.IH by unfold_locales
  from Suc.prems show ?case
    by (auto simp: Let_def rbind_Inr_iff case_prod_beta obs_simps split: option.splits if_splits
        dest!: Suc.IH quiet_alloc.Expand_quiet [OF q])
qed simp

end

text \<open>Cloning a table also copies page frames, with paging disabled meanwhile.\<close>

locale quiet_cloning = quiet_alloc obs heap_alloc for obs :: "kernel \<Rightarrow> 'a" and heap_alloc +
  assumes obs_phys: "obs (s\<lparr>phys := m\<rparr>) = obs s" and obs_cr0: "obs (s\<lparr>cr0 := r\<rparr>) = obs s"
begin

lemma copy_page_physical_quiet: "obs (copy_page_physical a b s) = obs s"
  by (simp add: copy_page_physical_def Let_def obs_simps obs_phys obs_cr0)

lemma copy_flag_quiet: "obs (copy_flag f p q s) = obs s"
  by (simp add: copy_flag_def update_page_def obs_simps)

lemma clone_entry_quiet: "clone_entry src t i s = Inr s' \<Longrightarrow> obs s' = obs s"
  by (auto simp: clone_entry_def Let_def rbind_Inr_iff copy_page_physical_quiet copy_flag_quiet
      dest: alloc_frame_quiet split: if_splits)

lemma for_loop_quiet:
  "(\<And>i s s'. body i s = Inr s' \<Longrightarrow> obs s' = obs s) \<Longrightarrow> for_loop n body i s = Inr s' \<Longrightarrow> obs s' = obs s"
  by (induction n arbitrary: i s) (auto simp: rbind_Inr_iff)

lemma clone_entries_quiet: "for_loop n (clone_entry src t) i s = Inr s' \<Longrightarrow> obs s' = obs s"
  by (erule for_loop_quiet [rotated]) (rule clone_entry_quiet)

lemma clone_table_quiet: "clone_table heap_alloc src s = Inr (t, q, s') \<Longrightarrow> obs s' = obs s"
  by (auto simp: clone_table_def Let_def rbind_Inr_iff obs_simps dest!: kmalloc_quiet clone_entries_quiet)

lemma clone_dir_entry_quiet: "clone_dir_entry heap_alloc src dir i s = Inr s' \<Longrightarrow> obs s' = obs s"
  by (auto simp: clone_dir_entry_def Let_def rbind_Inr_iff obs_simps dest: clone_table_quiet split: if_splits)

lemma clone_dir_entries_quiet: "for_loop n (clone_dir_entry heap_alloc src dir) i s = Inr s' \<Longrightarrow> obs s' = obs s"
  by (erule for_loop_quiet [rotated]) (rule clone_dir_entry_quiet)

lemma clone_directory_quiet: "clone_directory heap_alloc src s = Inr (d, s') \<Longrightarrow> obs s' = obs s"
  by (auto simp: clone_directory_def Let_def rbind_Inr_iff obs_simps dest!: kmalloc_quiet clone_dir_entries_quiet)

end

definition task_globals :: "kernel \<Rightarrow> u32 \<times> u32 \<times> u32 \<times> bool" where
  "task_globals s = (current_task s, ready_queue s, next_pid s, interrupt_flag s)"

interpretation tasks: memory_observer task_globals
  by unfold_locales (simp_all add: task_globals_def)

interpretation alloc: quiet_cloning task_globals "Alloc fuel" for fuel
  by unfold_locales (simp_all add: task_globals_def tasks.Alloc_quiet [unfolded task_globals_def])

definition paging_globals :: "kernel \<Rightarrow> u32 \<times> u32 \<times> u32 \<times> u32" where
  "paging_globals s = (cr0 s, cr3 s, kernel_directory s, current_directory s)"

interpretation directories: memory_observer paging_globals
  by unfold_locales (simp_all add: paging_globals_def)

interpretation directories_alloc: quiet_alloc paging_globals "Alloc fuel" for fuel
  by unfold_locales (rule directories.Alloc_quiet)

subsection \<open>fork extends the ready queue\<close>

lemma init_task_fields:
  "task_id (ram (init_task t d s)) t = next_pid s" "task_page_directory (ram (init_task t d s)) t = d"
  "task_next (ram (init_task t d s)) t = 0"
  by (simp_all add: init_task_def Let_def)

lemma init_task_frame: "task_fits t \<Longrightarrow> other_tasks t (ram s) (ram (init_task t d s))"
  unfolding init_task_def Let_def
  by (simp, intro other_tasks_trans [OF _ task_setter_frame(6)] other_tasks_trans [OF _ task_setter_frame(5)]
      other_tasks_trans [OF _ task_setter_frame(4)] other_tasks_trans [OF _ task_setter_frame(3)]
      other_tasks_trans [OF _ task_setter_frame(2)] task_setter_frame(1))

lemma init_task_globals:
  "current_task (init_task t d s) = current_task s" "ready_queue (init_task t d s) = ready_queue s"
  "next_pid (init_task t d s) = next_pid s + 1"
  by (simp_all add: init_task_def Let_def)

text \<open>Linking a fresh task to the end of the queue.\<close>

lemma link_task:
  assumes list: "task_list m t xs" and ne: "xs \<noteq> []" and ok: "tasks_ok (xs @ [n])" and nz: "n \<noteq> 0"
    and fr: "other_tasks n m m1" and nx: "task_next m1 n = 0"
  defines "m2 \<equiv> set_task_next (last xs) n m1"
  shows "last_task m1 t = Some (last xs)" and "task_list m2 t (xs @ [n])"
    and "task_id m2 n = task_id m1 n" and "task_page_directory m2 n = task_page_directory m1 n"
proof -
  have xs: "tasks_ok xs" "n \<notin> set xs" "task_fits n" using ok by (auto simp: tasks_ok_def)
  have la: "last xs \<in> set xs" using ne by simp
  have apart: "tasks_apart n u" "tasks_apart u n" if "u \<in> set xs" for u
    using ok that xs(2) by (auto simp: tasks_ok_def)
  have keep: "task_next m1 u = task_next m u" if "u \<in> set xs" for u
    using task_frame(6) [OF fr tasks_okD(1) [OF xs(1) that] apart(1) [OF that]] .
  have list1: "task_list m1 t xs" using task_list_frame [OF list] keep by blast
  then show "last_task m1 t = Some (last xs)" using ne by (rule last_task_eq)
  have fr2: "other_tasks (last xs) m1 m2"
    unfolding m2_def by (rule task_setter_frame(6) [OF tasks_okD(1) [OF xs(1) la]])
  note n2 = task_frame [OF fr2 xs(3) apart(2) [OF la]]
  show "task_id m2 n = task_id m1 n" "task_page_directory m2 n = task_page_directory m1 n" by (rule n2)+
  show "task_list m2 t (xs @ [n])"
  proof (rule task_list_append [OF list1 ne nz])
    show "task_next m2 n = 0" using n2(6) nx by simp
    show "distinct xs" using xs(1) by (simp add: tasks_ok_def)
    fix u assume u: "u \<in> set xs"
    show "task_next m2 u = (if u = last xs then n else task_next m1 u)"
    proof (cases "u = last xs")
      case True
      then show ?thesis by (simp add: m2_def)
    next
      case False
      then show ?thesis
        using task_frame(6) [OF fr2 tasks_okD(1) [OF xs(1) u] tasks_okD(2) [OF xs(1) la u False]] by simp
    qed
  qed
qed

lemma fork_spec:
  assumes clone: "clone_directory (Alloc fuel) (current_directory s) (s\<lparr>interrupt_flag := False\<rparr>) = Inr (directory, s1)"
    and alloc: "kmalloc fuel sizeof_Task False False s1 = Inr (n, q, s2)"
    and list: "task_list (ram s2) (ready_queue s) xs" and ne: "xs \<noteq> []"
    and ok: "tasks_ok (xs @ [n])" and nz: "n \<noteq> 0"
  shows "\<exists>s'. fork fuel eip esp ebp s = Inr (sint (next_pid s), s') \<and> queue_ok s' (xs @ [n])
    \<and> task_id (ram s') n = next_pid s \<and> next_pid s' = next_pid s + 1
    \<and> task_page_directory (ram s') n = directory \<and> task_eip (ram s') n = eip
    \<and> task_esp (ram s') n = esp \<and> task_ebp (ram s') n = ebp
    \<and> current_task s' = current_task s \<and> interrupt_flag s'
    \<and> s' = s2\<lparr>ram := ram s', next_pid := next_pid s + 1, interrupt_flag := True\<rparr>
    \<and> (\<forall>u \<in> set xs. task_id (ram s') u = task_id (ram s2) u)
    \<and> (\<forall>x. (\<forall>u \<in> set (xs @ [n]). unat x < unat u \<or> unat u + 24 \<le> unat x) \<longrightarrow> ram s' x = ram s2 x)"
proof -
  have "task_globals s2 = task_globals (s\<lparr>interrupt_flag := False\<rparr>)"
    using alloc.clone_directory_quiet [OF clone] alloc.kmalloc_quiet [OF alloc [unfolded kmalloc_def]] by simp
  then have g: "current_task s2 = current_task s" "ready_queue s2 = ready_queue s" "next_pid s2 = next_pid s"
    by (simp_all add: task_globals_def)
  let ?s3 = "init_task n directory s2"
  have fits: "task_fits n" using ok by (simp add: tasks_ok_def)
  note L = link_task [OF list ne ok nz init_task_frame [OF fits] init_task_fields(3), where d1 = directory]
  define m4 where "m4 = set_task_next (last xs) n (ram ?s3)"
  define s4 where "s4 = ?s3\<lparr>ram := m4\<rparr>"
  have prep: "fork_prepare fuel s = Inr (n, s4)"
    using clone alloc L(1) g(2) by (simp add: fork_prepare_def Let_def init_task_globals s4_def m4_def)
  define m5 where "m5 = set_task_eip n eip (set_task_ebp n ebp (set_task_esp n esp m4))"
  define s5 where "s5 = s4\<lparr>ram := m5, interrupt_flag := True\<rparr>"
  have id5: "task_id m5 n = next_pid s"
    using L(3) g(3) by (simp add: m5_def m4_def init_task_fields)
  have run: "fork fuel eip esp ebp s = Inr (sint (next_pid s), s5)"
    using prep g id5 by (simp add: fork_def fork_return_def Let_def s4_def s5_def m5_def init_task_globals)
  have fr5: "other_tasks n m4 m5"
    unfolding m5_def
    by (intro other_tasks_trans [OF _ task_setter_frame(4) [OF fits]]
        other_tasks_trans [OF _ task_setter_frame(3) [OF fits]] task_setter_frame(2) [OF fits])
  have la: "last xs \<in> set xs" using ne by simp
  then have "task_fits (last xs)" using ok by (simp add: tasks_ok_def)
  then have fr4: "other_tasks (last xs) (ram ?s3) m4" unfolding m4_def by (rule task_setter_frame(6))
  have "task_list m5 (ready_queue s) (xs @ [n])"
  proof (rule task_list_frame [OF L(2) [folded m4_def]])
    fix u assume u: "u \<in> set (xs @ [n])"
    show "task_next m5 u = task_next m4 u"
    proof (cases "u = n")
      case False
      then show ?thesis
        using task_frame(6) [OF fr5 tasks_okD(1) [OF ok u] tasks_okD(2) [OF ok _ u]] by simp
    qed (simp add: m5_def)
  qed
  then have "queue_ok s5 (xs @ [n])" using ok g(2) by (simp add: queue_ok_def s5_def s4_def init_task_globals)
  moreover have "task_page_directory m5 n = directory"
    using L(4) by (simp add: m5_def m4_def init_task_fields)
  moreover have "s5 = s2\<lparr>ram := m5, next_pid := next_pid s + 1, interrupt_flag := True\<rparr>"
    using g(3) by (simp add: s5_def s4_def init_task_def Let_def)
  moreover have "task_id m5 u = task_id (ram s2) u" if u: "u \<in> set xs" for u
  proof -
    have un: "u \<noteq> n" "task_fits u" "tasks_apart n u" using ok u by (auto simp: tasks_ok_def)
    have "task_id m5 u = task_id m4 u" by (rule task_frame(1) [OF fr5 un(2,3)])
    also have "\<dots> = task_id (ram ?s3) u"
      using task_frame(1) [OF fr4 un(2) tasks_okD(2) [OF ok _ _ ]] u la by (cases "u = last xs") (auto simp: m4_def)
    also have "\<dots> = task_id (ram s2) u" by (rule task_frame(1) [OF init_task_frame [OF fits] un(2,3)])
    finally show ?thesis .
  qed
  moreover have "m5 x = ram s2 x" if "\<forall>u \<in> set (xs @ [n]). unat x < unat u \<or> unat u + 24 \<le> unat x" for x
  proof -
    have "m5 x = m4 x" "ram ?s3 x = ram s2 x" "m4 x = ram ?s3 x"
      using that la fr5 fr4 init_task_frame [OF fits, of s2 directory]
      by (auto simp: other_tasks_def intro!: same_outside_byte)
    then show ?thesis by simp
  qed
  ultimately show ?thesis
    using run id5 g by (intro exI [of _ s5]) (simp add: s5_def s4_def init_task_globals, simp add: m5_def)
qed

text \<open>
  When the address space can be cloned and the task structure allocated apart from the existing
  ones, fork in the parent returns the next process number, the new task is appended to the ready
  queue with that number, the cloned directory and the registers given, the next process number is
  incremented, the parent stays current and interrupts are enabled.
\<close>

lemma fork_adds_task:
  assumes clone: "clone_directory (Alloc fuel) (current_directory s) (s\<lparr>interrupt_flag := False\<rparr>) = Inr (directory, s1)"
    and alloc: "kmalloc fuel sizeof_Task False False s1 = Inr (n, q, s2)"
    and list: "task_list (ram s2) (ready_queue s) xs" and ne: "xs \<noteq> []"
    and ok: "tasks_ok (xs @ [n])" and nz: "n \<noteq> 0"
  shows "\<exists>s'. fork fuel eip esp ebp s = Inr (sint (next_pid s), s') \<and> queue_ok s' (xs @ [n])
    \<and> task_id (ram s') n = next_pid s \<and> next_pid s' = next_pid s + 1
    \<and> task_page_directory (ram s') n = directory \<and> task_eip (ram s') n = eip
    \<and> task_esp (ram s') n = esp \<and> task_ebp (ram s') n = ebp
    \<and> current_task s' = current_task s \<and> interrupt_flag s'"
  using fork_spec [OF assms, of eip esp ebp] by (elim exE conjE) (rule exI, (rule conjI, assumption)+, assumption)

definition one_task :: kernel where
  "one_task = empty_bitmap_kernel (\<lambda>_. 0)\<lparr>placement_address := 0x20000, kernel_directory := 0x8000,
     current_directory := 0x8000, ready_queue := 0x1000, current_task := 0x1000, next_pid := 2\<rparr>"

lemma one_task_fork:
  obtains s1 q s2 where "clone_directory (Alloc 0) (current_directory one_task) (one_task\<lparr>interrupt_flag := False\<rparr>) = Inr (0x21000, s1)"
    and "kmalloc 0 sizeof_Task False False s1 = Inr (0x23004, q, s2)"
    and "task_list (ram s2) (ready_queue one_task) [0x1000]" and "tasks_ok ([0x1000] @ [0x23004])"
proof -
  let ?s = "one_task\<lparr>interrupt_flag := False\<rparr>"
  let ?s1 = "?s\<lparr>placement_address := 0x21000 + sizeof_PageDirectory\<rparr>"
  have "kmalloc_with (Alloc 0) sizeof_PageDirectory True True ?s = Inr (0x21000, Some 0x21000, ?s1)"
    by (simp add: kmalloc_with_def one_task_def empty_bitmap_kernel_def Let_def)
  from clone_kernel_directory_spec [OF this, of "0x8000"]
  obtain s' where clone: "clone_directory (Alloc 0) (current_directory one_task) ?s = Inr (0x21000, s')"
      and fr: "same_outside 0x21000 0x23004 (ram ?s1) (ram s')" and s': "s' = ?s1\<lparr>ram := ram s'\<rparr>"
    by (auto simp: dir_ok_def one_task_def)
  have "kheap s' = None" "placement_address s' = 0x23004"
    using arg_cong [OF s', of kheap] arg_cong [OF s', of placement_address]
    by (simp_all add: one_task_def empty_bitmap_kernel_def sizeof_PageDirectory_def)
  then have alloc: "kmalloc 0 sizeof_Task False False s' = Inr (0x23004, None, s'\<lparr>placement_address := 0x2301C\<rparr>)"
    by (simp add: kmalloc_def kmalloc_with_def sizeof_Task_def Let_def)
  have "task_next (ram s') 0x1000 = task_next (ram ?s1) 0x1000"
    unfolding task_next_def by (rule same_outside_load32 [OF fr]) simp_all
  then have list: "task_list (ram (s'\<lparr>placement_address := 0x2301C\<rparr>)) (ready_queue one_task) [0x1000]"
    by (simp add: one_task_def empty_bitmap_kernel_def) (simp add: task_next_def)
  have "tasks_ok ([0x1000] @ [0x23004])" by (simp add: tasks_ok_def task_fits_def tasks_apart_def)
  with that [OF clone alloc list] show thesis .
qed

subsection \<open>The child\<close>

text \<open>
  C18: fork seen from the child. After a successful fork by the task at position \<open>i\<close> of the ready
  queue the scheduler serves the tasks behind it in turn; the switch after them jumps to the
  instruction and stack that fork recorded, makes the child the current task and the clone of the
  parent's directory the current directory, loads CR3 with the physical address stored in that clone, and
  there fork returns 0 and changes nothing.
\<close>

theorem forked_child_runs:
  assumes clone: "clone_directory (Alloc fuel) (current_directory s) (s\<lparr>interrupt_flag := False\<rparr>) = Inr (directory, s1)"
    and alloc: "kmalloc fuel sizeof_Task False False s1 = Inr (n, q, s2)"
    and list: "task_list (ram s2) (ready_queue s) xs"
    and ok: "tasks_ok (xs @ [n])" and nz: "n \<noteq> 0"
    and i: "i < length xs" and cur: "current_task s = xs ! i"
  shows "\<exists>s'. fork fuel eip esp ebp s = Inr (sint (next_pid s), s') \<and> task_page_directory (ram s') n = directory
    \<and> (\<forall>s''. (sched_step ^^ (length xs - Suc i)) s' s'' \<longrightarrow>
         (\<exists>t. switch_task eip' esp' ebp' s'' = (Jump eip esp ebp (cr3 t), t) \<and> current_task t = n
            \<and> current_directory t = directory \<and> cr3 t = dir_PhysicalAddress (ram t) directory
            \<and> fork_return (xs ! i) n eip'' esp'' ebp'' t = (0, t)))"
proof -
  let ?ys = "xs @ [n]"
  have ne: "xs \<noteq> []" using i by auto
  from fork_spec [OF clone alloc list ne ok nz, of eip esp ebp]
  obtain s' where run: "fork fuel eip esp ebp s = Inr (sint (next_pid s), s')" and q: "queue_ok s' ?ys"
      and regs: "saved_regs (ram s') n = (eip, esp, ebp)" and cur': "current_task s' = ?ys ! i"
      and dir: "task_page_directory (ram s') n = directory"
    using i cur by (auto simp: saved_regs_def nth_append)
  have "\<exists>t. switch_task eip' esp' ebp' s'' = (Jump eip esp ebp (cr3 t), t) \<and> current_task t = n
      \<and> current_directory t = directory \<and> cr3 t = dir_PhysicalAddress (ram t) directory
      \<and> fork_return (xs ! i) n eip'' esp'' ebp'' t = (0, t)"
    if steps: "(sched_step ^^ (length xs - Suc i)) s' s''" for s''
  proof -
    have i': "i < length ?ys" using i by simp
    have pos: "queue_ok s'' ?ys" "current_task s'' = ?ys ! (length xs - 1)"
      using rr.run_cur [OF q i' cur' steps] i by simp_all
    have "saved_regs (ram s'') (?ys ! length xs) = saved_regs (ram s') (?ys ! length xs)"
      by (rule waiting_regs [OF q i' cur' steps]) (use i in auto)
    then have kept: "saved_regs (ram s'') n = (eip, esp, ebp)" using regs by simp
    have dir': "task_page_directory (ram s'') n = directory"
      using sched_steps_directory [OF q i' cur' _ steps, of n] dir by simp
    have l: "length xs - 1 < length ?ys" "?ys ! (Suc (length xs - 1) mod length ?ys) = n" using ne by auto
    obtain t where t: "\<forall>e p b. saved_regs (ram t) n = (e, p, b) \<longrightarrow> switch_task eip' esp' ebp' s'' = (Jump e p b (cr3 t), t)"
        "current_task t = n" "current_directory t = task_page_directory (ram s'') n"
        "cr3 t = dir_PhysicalAddress (ram t) (current_directory t)"
        "\<forall>u \<in> set ?ys. u \<noteq> ?ys ! (length xs - 1) \<longrightarrow> saved_regs (ram t) u = saved_regs (ram s'') u"
      by (rule switch_saved [OF pos(1) l(1) pos(2), of eip' esp' ebp', unfolded l(2)]) (rule that; assumption)
    have "n \<noteq> ?ys ! (length xs - 1)" "n \<noteq> xs ! i"
      using ok i by (auto simp: tasks_ok_def nth_append dest: nth_mem)
    then have "saved_regs (ram t) n = (eip, esp, ebp)" using t(5) kept by simp
    with t(1) have "switch_task eip' esp' ebp' s'' = (Jump eip esp ebp (cr3 t), t)" by blast
    then show ?thesis using t(2-4) dir' \<open>n \<noteq> xs ! i\<close> by (intro exI [of _ t]) (simp add: fork_return_def)
  qed
  with run dir show ?thesis by blast
qed

theorem forked_child_runs_witness:
  "\<exists>s' t. fork 0 0x111 0x222 0x333 one_task = Inr (2, s')
     \<and> switch_task 1 2 3 s' = (Jump 0x111 0x222 0x333 (cr3 t), t) \<and> current_task t = 0x23004 \<and> current_directory t = 0x21000"
proof -
  obtain s1 q s2 where w: "clone_directory (Alloc 0) (current_directory one_task) (one_task\<lparr>interrupt_flag := False\<rparr>) = Inr (0x21000, s1)"
      "kmalloc 0 sizeof_Task False False s1 = Inr (0x23004, q, s2)"
      "task_list (ram s2) (ready_queue one_task) [0x1000]" "tasks_ok ([0x1000] @ [0x23004])"
    by (rule one_task_fork)
  from forked_child_runs [OF w(1-4), of 0 "0x111" "0x222" "0x333" 1 2 3 0 0 0]
  show ?thesis by (auto simp: one_task_def)
qed

end
