(* ===== verification/First_Tasks.thy ===== *)
theory First_Tasks
  imports Paging_Setup Fork
begin

text \<open>
  From paging to two tasks: initialise_tasking and the first fork on the heap that initialise_paging
  leaves, with the addresses of the blocks they allocate.
\<close>

subsection \<open>The heap of the kernel\<close>

definition kernel_heap :: "kernel \<Rightarrow> Heap \<Rightarrow> block list \<Rightarrow> bool" where
  "kernel_heap s h bs \<longleftrightarrow> kheap s = Some h \<and> heap_inv h (ram s) 0xC0080000 bs \<and> index_place h = (0xC0000000, 0x20000, 0xCFFFF000)"

lemma kernel_heapD:
  assumes "kernel_heap s h bs"
  shows "kheap s = Some h" "heap_inv h (ram s) 0xC0080000 bs" "ol_lo (m_index h) = 0xC0000000" "ol_hi (m_index h) \<le> 0xC0080000"
    "unat (m_endAddress h) = 0xC0080000 + extent bs"
proof -
  show h: "kheap s = Some h" "heap_inv h (ram s) 0xC0080000 bs" "ol_lo (m_index h) = 0xC0000000"
    using assms by (simp_all add: kernel_heap_def index_place_def ol_lo_def)
  show "ol_hi (m_index h) \<le> 0xC0080000" "unat (m_endAddress h) = 0xC0080000 + extent bs"
    using heap_invD [OF h(2)] by simp_all
qed

text \<open>The index has as many elements as there are holes, so it is far from full.\<close>

lemma length_holes: "length (holes a bs) \<le> length bs"
  by (induction a bs rule: holes.induct) auto

lemma kernel_heap_room:
  assumes "kernel_heap s h bs" and "length bs < 0x20000"
  shows "ol_room (m_index h)"
proof -
  note inv = heap_invD [OF kernel_heapD(2) [OF assms(1)]]
  have "card (set (ol_items (m_index h) (ram s))) \<le> card (set (holes 0xC0080000 bs))"
    unfolding inv(6) by (rule card_image_le) simp
  also have "\<dots> \<le> length bs" using card_length length_holes by (rule order_trans)
  finally have "length (ol_items (m_index h) (ram s)) \<le> length bs"
    using inv(5) by (simp add: distinct_card)
  then have "unat (m_size (m_index h)) < 0x20000" using assms(2) by (simp add: ol_items_def)
  then show ?thesis
    using assms(1) by (simp add: kernel_heap_def index_place_def ol_room_def word_less_unat)
qed

text \<open>The used blocks lie behind the index and outside a hole.\<close>

lemma used_apart_hole:
  assumes inv: "heap_inv h m lo (bs1 @ (n, True) # bs2)"
    and b: "b \<in> set (used lo (bs1 @ (n, True) # bs2))" "in_block b x"
  shows "ol_hi (m_index h) \<le> unat x" and "unat x < lo + extent bs1 \<or> lo + extent bs1 + n \<le> unat x"
proof -
  have bl: "blocks m (unat (m_endAddress h)) lo bs1 (lo + extent bs1)"
      "blocks m (unat (m_endAddress h)) (lo + extent bs1 + n) bs2 (unat (m_endAddress h))"
    using heap_invD(1) [OF inv] by (simp_all add: blocks_append)
  have "b \<in> set (used lo bs1) \<or> b \<in> set (used (lo + extent bs1 + n) bs2)" using b(1) by simp
  then have "lo + 12 \<le> fst b" "fst b + snd b \<le> lo + extent bs1 \<or> lo + extent bs1 + n \<le> fst b"
    using used_bounds [OF bl(1), of b] used_bounds [OF bl(2), of b] by auto
  then show "ol_hi (m_index h) \<le> unat x" "unat x < lo + extent bs1 \<or> lo + extent bs1 + n \<le> unat x"
    using b(2) heap_invD(3) [OF inv] by (auto simp: in_block_def)
qed

text \<open>A request without alignment.\<close>

lemma kernel_heap_alloc:
  assumes heap: "kernel_heap s h bs" and hole: "(n0, True) \<in> set bs" "k + 20 \<le> n0"
  shows "\<exists>p s' h' bs1 n bs2. kmalloc (Suc fuel) (of_nat k) False False s = Inr (p, None, s')
    \<and> bs = bs1 @ (n, True) # bs2 \<and> k + 20 \<le> n \<and> unat p = 0xC0080000 + extent bs1 + 12
    \<and> kernel_heap s' h' (bs1 @ carve (k + 20) n @ bs2) \<and> s' = s\<lparr>kheap := Some h', ram := ram s'\<rparr>
    \<and> (\<forall>x. unat x < 0xC0000000 \<longrightarrow> ram s' x = ram s x)
    \<and> (\<forall>b \<in> set (used 0xC0080000 bs). \<forall>x. in_block b x \<longrightarrow> ram s' x = ram s x)"
proof -
  note H = kernel_heapD [OF heap]
  obtain p s' h' bs1 n bs2 where run: "Alloc (Suc fuel) (of_nat k) False s = Inr (p, s')"
      and bs: "bs = bs1 @ (n, True) # bs2" "k + 20 \<le> n" and p: "p = of_nat (0xC0080000 + extent bs1 + 12)"
      and h': "kheap s' = Some h'" "heap_inv h' (ram s') 0xC0080000 (bs1 @ carve (k + 20) n @ bs2)"
      and fr: "\<And>x. unat x < ol_lo (m_index h) \<or> ol_hi (m_index h) \<le> unat x \<Longrightarrow>
        unat x < 0xC0080000 + extent bs1 \<or> 0xC0080000 + extent bs1 + n \<le> unat x \<Longrightarrow> ram s' x = ram s x"
    using Alloc_spec [OF H(1,2) hole, of fuel] by blast
  note found = large_hole_found [OF H(2) hole]
  have "0xC0080000 + extent bs1 + 12 \<le> 4294967295"
    using H(5) bs unat_le_max32 [of "m_endAddress h"] by (simp add: extent_def)
  then have "unat p = 0xC0080000 + extent bs1 + 12" unfolding p by (intro unat_of_nat32) linarith
  moreover have "s' = s\<lparr>kheap := Some h', ram := ram s'\<rparr>" using Alloc_state [OF H(1) found run] h'(1) by simp
  moreover have "kernel_heap s' h' (bs1 @ carve (k + 20) n @ bs2)"
    using Alloc_index [OF H(1) found run h'(1)] h' heap by (simp add: kernel_heap_def)
  moreover have "kmalloc (Suc fuel) (of_nat k) False False s = Inr (p, None, s')"
    using run H(1) by (simp add: kmalloc_def kmalloc_with_def del: Alloc.simps)
  moreover have "ram s' x = ram s x" if "unat x < 0xC0000000" for x using that H(3) by (intro fr) simp_all
  moreover have "ram s' x = ram s x" if b: "b \<in> set (used 0xC0080000 bs)" "in_block b x" for b x
    using used_apart_hole [OF H(2) [unfolded bs(1)] b [unfolded bs(1)]] by (intro fr) simp_all
  ultimately show ?thesis using bs by (intro exI [of _ p] exI [of _ s'] exI [of _ h'] exI [of _ bs1] exI [of _ n] exI [of _ bs2]) simp
qed

text \<open>A page-aligned request.\<close>

lemma kernel_heap_alloc_aligned:
  assumes heap: "kernel_heap s h bs" and few: "length bs < 0x20000"
    and hole: "(n0, True) \<in> set bs" "k + 20 \<le> n0" and fits: "holes_fit k 0xC0080000 bs"
  shows "\<exists>p s' h' bs1 n bs2. kmalloc_with (Alloc (Suc fuel)) (of_nat k) True True s = Inr (p, None, s')
    \<and> bs = bs1 @ (n, True) # bs2 \<and> k + 20 \<le> n \<and> unat p = Suc ((0xC0080000 + extent bs1) div 4096) * 4096
    \<and> kernel_heap s' h' (bs1 @ carve_aligned k (0xC0080000 + extent bs1) n @ bs2) \<and> s' = s\<lparr>kheap := Some h', ram := ram s'\<rparr>
    \<and> (\<forall>x. unat x < 0xC0000000 \<longrightarrow> ram s' x = ram s x)
    \<and> (\<forall>b \<in> set (used 0xC0080000 bs). \<forall>x. in_block b x \<longrightarrow> ram s' x = ram s x)"
proof -
  note H = kernel_heapD [OF heap]
  obtain p s' h' bs1 n bs2 m' where run: "Alloc (Suc fuel) (of_nat k) True s = Inr (p, s')" "s' = s\<lparr>kheap := Some h', ram := m'\<rparr>"
      and bs: "bs = bs1 @ (n, True) # bs2" "align_fits k (0xC0080000 + extent bs1) n"
      and p: "unat p = Suc ((0xC0080000 + extent bs1) div 4096) * 4096"
      and h': "heap_inv h' m' 0xC0080000 (bs1 @ carve_aligned k (0xC0080000 + extent bs1) n @ bs2)"
      and fr: "\<forall>x. (unat x < ol_lo (m_index h) \<or> ol_hi (m_index h) \<le> unat x)
          \<and> (unat x < 0xC0080000 + extent bs1 \<or> 0xC0080000 + extent bs1 + n \<le> unat x) \<longrightarrow> m' x = ram s x"
      and ix: "index_place h' = index_place h"
    using Alloc_aligned_spec [OF H(1,2) kernel_heap_room [OF heap few] hole fits, of fuel] by (elim exE conjE) (rule that)
  have "kernel_heap s' h' (bs1 @ carve_aligned k (0xC0080000 + extent bs1) n @ bs2)"
    using h' ix heap run(2) by (simp add: kernel_heap_def)
  moreover have "kmalloc_with (Alloc (Suc fuel)) (of_nat k) True True s = Inr (p, None, s')"
    using run(1) H(1) by (simp add: kmalloc_with_def del: Alloc.simps)
  moreover have "k + 20 \<le> n" using align_fitsD(2) [OF bs(2)] by simp
  moreover have "ram s' x = ram s x" if "unat x < 0xC0000000" for x using that fr H(3) run(2) by simp
  moreover have "ram s' x = ram s x" if b: "b \<in> set (used 0xC0080000 bs)" "in_block b x" for b x
    using used_apart_hole [OF H(2) [unfolded bs(1)] b [unfolded bs(1)]] fr run(2) by simp
  moreover have "s' = s\<lparr>kheap := Some h', ram := ram s'\<rparr>" using run(2) by simp
  ultimately show ?thesis using bs(1) p
    by (intro exI [of _ p] exI [of _ s'] exI [of _ h'] exI [of _ bs1] exI [of _ n] exI [of _ bs2]) (simp del: Alloc.simps)
qed

subsection \<open>The address space of the kernel\<close>

text \<open>
  What the processor translates while the kernel runs in the clone of its directory: the memory up to
  \<open>4096 * n\<close> is mapped to itself, the heap to the frames behind it, and the clone at 0xC0081000 has the
  entries of the kernel's directory. The directory and its tables lie between \<open>lo\<close> and \<open>4096 * n\<close>.
\<close>

definition kernel_space :: "nat \<Rightarrow> nat \<Rightarrow> kernel \<Rightarrow> bool" where
  "kernel_space lo n k \<longleftrightarrow> bit (cr0 k) 31 \<and> current_directory k = 0xC0081000
     \<and> (\<forall>x. unat x < 4096 * n \<longrightarrow> translate (ram k) (kernel_directory k + 4096) x = Some x)
     \<and> (\<forall>x. 0xC0000000 \<le> unat x \<and> unat x < 0xC0100000 \<longrightarrow>
          translate (ram k) (kernel_directory k + 4096) x = Some (x - 0xC0000000 + of_nat (4096 * n)))
     \<and> (\<forall>i < 1024. dir_Table (ram k) 0xC0081000 (of_nat i) = dir_Table (ram k) (kernel_directory k) (of_nat i)
          \<and> dir_TablePhysical (ram k) 0xC0081000 (of_nat i) = dir_TablePhysical (ram k) (kernel_directory k) (of_nat i))
     \<and> n \<le> 0xF00 \<and> lo \<le> unat (kernel_directory k) \<and> unat (kernel_directory k) + 8196 \<le> 4096 * n
     \<and> tables_ok (ram k) (kernel_directory k) (unat (kernel_directory k) + 8196) (4096 * n)"

lemma kernel_spaceD:
  assumes "kernel_space lo n k"
  shows "bit (cr0 k) 31" "current_directory k = 0xC0081000"
    "unat x < 4096 * n \<Longrightarrow> translate (ram k) (kernel_directory k + 4096) x = Some x"
    "0xC0000000 \<le> unat x \<Longrightarrow> unat x < 0xC0100000 \<Longrightarrow>
      translate (ram k) (kernel_directory k + 4096) x = Some (x - 0xC0000000 + of_nat (4096 * n))"
    "i < 1024 \<Longrightarrow> dir_Table (ram k) 0xC0081000 (of_nat i) = dir_Table (ram k) (kernel_directory k) (of_nat i)"
    "i < 1024 \<Longrightarrow> dir_TablePhysical (ram k) 0xC0081000 (of_nat i) = dir_TablePhysical (ram k) (kernel_directory k) (of_nat i)"
    "n \<le> 0xF00" "lo \<le> unat (kernel_directory k)" "unat (kernel_directory k) + 8196 \<le> 4096 * n"
    "tables_ok (ram k) (kernel_directory k) (unat (kernel_directory k) + 8196) (4096 * n)"
  using assms by (simp_all add: kernel_space_def)

text \<open>It is kept while nobody writes to the directories and the tables.\<close>

lemma kernel_space_kept:
  assumes sp: "kernel_space lo n k" and g: "paging_globals k' = paging_globals k"
    and same: "\<And>x. lo \<le> unat x \<and> unat x < 0xC0000000 \<or> in_block (0xC0081000, 8196) x \<Longrightarrow> ram k' x = ram k x"
  shows "kernel_space lo n k'"
proof -
  note S = kernel_spaceD [OF sp]
  have g': "cr0 k' = cr0 k" "kernel_directory k' = kernel_directory k" "current_directory k' = current_directory k"
    using g by (simp_all add: paging_globals_def)
  have hi: "4096 * n \<le> 4294967295" using S(7) by linarith
  have ok: "dir_ok (kernel_directory k)" "dir_ok (0xC0081000 :: u32)" using S(7,9) by (simp_all add: dir_ok_def)
  have low: "ram k' x = ram k x" if "unat (kernel_directory k) \<le> unat x" "unat x < 4096 * n" for x
    using that S(7,8) by (intro same) linarith
  note T = translate_within [OF S(10) hi ok(1) S(9) low]
  have "dir_Table (ram k') (kernel_directory k) (of_nat i) = dir_Table (ram k) (kernel_directory k) (of_nat i)"
      "dir_TablePhysical (ram k') (kernel_directory k) (of_nat i) = dir_TablePhysical (ram k) (kernel_directory k) (of_nat i)"
      "dir_Table (ram k') 0xC0081000 (of_nat i) = dir_Table (ram k) 0xC0081000 (of_nat i)"
      "dir_TablePhysical (ram k') 0xC0081000 (of_nat i) = dir_TablePhysical (ram k) 0xC0081000 (of_nat i)" if i: "i < 1024" for i
    by (rule dir_same [OF ok(1) i]; use S(9) in \<open>intro low; linarith\<close>)+
       (rule dir_same [OF ok(2) i]; intro same; simp add: in_block_def)+
  then show ?thesis using sp T(1) T(2) unfolding kernel_space_def g' by simp
qed

text \<open>It is what initialise_paging sets up.\<close>

lemma booted_space:
  assumes boot: "boot_memory s" and fuel: "4096 < fuel"
  obtains s' h n where "initialise_paging fuel junk s = Inr s'" "kernel_space (unat (placement_address s)) n s'"
    "kernel_heap s' h boot_blocks" "cr3 s' = indeterminate s + 4096" "next_pid s' = next_pid s"
    "kernel_directory s' = of_nat (placed_at True (placement_address s + 128))"
    "kept_below (placement_address s) (ram s) (ram s')"
proof -
  obtain s' h n where p: "initialise_paging fuel junk s = Inr s'" "kheap s' = Some h" "heap_inv h (ram s') 0xC0080000 boot_blocks"
      "unat (placement_address s') \<le> 4096 * n"
      "\<forall>x. unat x < 4096 * n \<longrightarrow> translate (ram s') (kernel_directory s' + 4096) x = Some x"
      "\<forall>x. 0xC0000000 \<le> unat x \<and> unat x < 0xC0100000 \<longrightarrow>
         translate (ram s') (kernel_directory s' + 4096) x = Some (x - 0xC0000000 + of_nat (4096 * n))"
      "bit (cr0 s') 31" "current_directory s' = 0xC0081000" "cr3 s' = indeterminate s + 4096"
      "\<forall>i < 1024. dir_Table (ram s') 0xC0081000 (of_nat i) = dir_Table (ram s') (kernel_directory s') (of_nat i)"
      "placement_address s \<le> kernel_directory s'" "unat (kernel_directory s') + 8196 \<le> unat (placement_address s')" "n \<le> 0xF00"
      "index_place h = (0xC0000000, 0x20000, 0xCFFFF000)" "next_pid s' = next_pid s" "kept_below (placement_address s) (ram s) (ram s')"
      "growable (kernel_directory s') (n + 256) s'" "kernel_directory s' = of_nat (placed_at True (placement_address s + 128))"
      "\<forall>i < 1024. dir_TablePhysical (ram s') 0xC0081000 (of_nat i) = dir_TablePhysical (ram s') (kernel_directory s') (of_nat i)"
    using initialise_paging_spec [OF boot fuel, of junk] by (elim exE conjE) (rule that; assumption)
  have "paging_ok (kernel_directory s') (s'\<lparr>kheap := None\<rparr>)" using p(17) by (simp add: growable_def)
  from tables_ok_mono [OF paging_okD(6) [OF this], of "4096 * n"] p(4)
  have "tables_ok (ram s') (kernel_directory s') (unat (kernel_directory s') + 8196) (4096 * n)" by simp
  then have "kernel_space (unat (placement_address s)) n s'"
    using p(4-8,10-13,19) by (simp add: kernel_space_def word_le_unat)
  moreover have "kernel_heap s' h boot_blocks" using p(2,3,14) by (simp add: kernel_heap_def)
  ultimately show thesis using that p(1,9,15,16,18) by blast
qed

subsection \<open>The first task\<close>

text \<open>The task may be put into either hole.\<close>

definition one_task_blocks :: "block list \<Rightarrow> bool" where
  "one_task_blocks bs \<longleftrightarrow> bs = [(44, False), (4040, True), (8216, False), (511988, True)]
     \<or> bs = [(4084, True), (8216, False), (44, False), (511944, True)]"

lemma boot_blocks_split:
  assumes "boot_blocks = bs1 @ (n, True) # bs2"
  shows "bs1 = [] \<and> n = 4084 \<and> bs2 = [(8216, False), (511988, True)] \<or> bs1 = [(4084, True), (8216, False)] \<and> n = 511988 \<and> bs2 = []"
  using assms unfolding boot_blocks_def by (auto simp: Cons_eq_append_conv)

lemma kernel_heap_payload:
  assumes "kernel_heap s h bs" and "b \<in> set (used 0xC0080000 bs)" and "\<And>x. \<not> in_block b x \<Longrightarrow> m x = ram s x" and "kheap s' = kheap s"
  shows "kernel_heap (s'\<lparr>ram := m\<rparr>) h bs"
  using assms heap_inv_payload [of h "ram s" "0xC0080000" bs m] by (auto simp: kernel_heap_def)

lemma first_task:
  assumes heap: "kernel_heap s h boot_blocks"
  shows "\<exists>t s' h' bs. initialise_tasking (Suc fuel) s = Inr s' \<and> kernel_heap s' h' bs \<and> one_task_blocks bs
    \<and> (unat t, 24) \<in> set (used 0xC0080000 bs)
    \<and> s' = s\<lparr>kheap := Some h', ram := ram s', interrupt_flag := True, current_task := t, ready_queue := t, next_pid := next_pid s + 1\<rparr>
    \<and> task_id (ram s') t = next_pid s \<and> task_next (ram s') t = 0
    \<and> (\<forall>x. unat x < 0xC0000000 \<longrightarrow> ram s' x = ram s x) \<and> (\<forall>x. in_block (0xC0081000, 8196) x \<longrightarrow> ram s' x = ram s x)"
proof -
  let ?s = "s\<lparr>interrupt_flag := False\<rparr>"
  have "kernel_heap ?s h boot_blocks" using heap by (simp add: kernel_heap_def)
  moreover have "(4084, True) \<in> set boot_blocks" "24 + 20 \<le> (4084 :: nat)" by (simp_all add: boot_blocks_def)
  ultimately obtain t s1 h1 bs1 n bs2 where run: "kmalloc (Suc fuel) (of_nat 24) False False ?s = Inr (t, None, s1)"
      and bs: "boot_blocks = bs1 @ (n, True) # bs2" and t: "unat t = 0xC0080000 + extent bs1 + 12"
      and h1: "kernel_heap s1 h1 (bs1 @ carve (24 + 20) n @ bs2)" and s1: "s1 = ?s\<lparr>kheap := Some h1, ram := ram s1\<rparr>"
      and fr: "\<And>x. unat x < 0xC0000000 \<Longrightarrow> ram s1 x = ram ?s x"
        "\<And>b x. b \<in> set (used 0xC0080000 boot_blocks) \<Longrightarrow> in_block b x \<Longrightarrow> ram s1 x = ram ?s x"
    using kernel_heap_alloc [of ?s h boot_blocks 4084 24 fuel] by blast
  let ?bs = "bs1 @ carve 44 n @ bs2"
  have one: "one_task_blocks ?bs" "(unat t, 24) \<in> set (used 0xC0080000 ?bs)"
    using boot_blocks_split [OF bs] t by (auto simp: one_task_blocks_def carve_def)
  have ub: "0xC0083038 \<ge> unat t + 24" "0xC008000C \<le> unat t" "unat t + 24 \<le> 0xC0081000 \<or> 0xC0083004 \<le> unat t"
    using boot_blocks_split [OF bs] t by auto
  have fits: "task_fits t" using ub by (simp add: task_fits_def)
  define s2 where "s2 = s1\<lparr>ready_queue := t, current_task := t\<rparr>"
  let ?s3 = "init_task t (current_directory s2) s2"
  have "other_tasks t (ram s1) (ram ?s3)" using init_task_frame [OF fits, of s2 "current_directory s2"] by (simp add: s2_def)
  then have fr3: "ram ?s3 x = ram s1 x" if "\<not> in_block (unat t, 24) x" for x
    using that same_outside_byte [of "unat t" "unat t + 24"] by (auto simp: other_tasks_def in_block_def)
  define s' where "s' = ?s3\<lparr>interrupt_flag := True\<rparr>"
  have "s' = s1\<lparr>ready_queue := t, current_task := t, next_pid := next_pid s1 + 1, interrupt_flag := True, ram := ram ?s3\<rparr>"
    by (simp add: s'_def init_task_def Let_def s2_def)
  also have "kernel_heap \<dots> h1 ?bs"
    by (rule kernel_heap_payload [OF _ one(2)]) (use h1 fr3 in simp_all)
  finally have heap': "kernel_heap s' h1 ?bs" .
  obtain m1 where s1': "s1 = ?s\<lparr>kheap := Some h1, ram := m1\<rparr>" using s1 by blast
  have "s' = s\<lparr>kheap := Some h1, ram := ram s', interrupt_flag := True, current_task := t, ready_queue := t, next_pid := next_pid s + 1\<rparr>"
    unfolding s'_def s2_def s1' by (simp add: init_task_def Let_def)
  moreover have "initialise_tasking (Suc fuel) s = Inr s'"
    using run by (simp add: initialise_tasking_def Let_def sizeof_Task_def s'_def s2_def)
  moreover have "next_pid s2 = next_pid s" unfolding s2_def s1' by simp
  then have "task_id (ram s') t = next_pid s" "task_next (ram s') t = 0"
    by (simp_all add: s'_def init_task_fields)
  moreover have "ram s' x = ram s x" if "unat x < 0xC0000000" for x
    using fr3 [of x] fr(1) [OF that] that ub by (auto simp: in_block_def s'_def)
  moreover have "ram s' x = ram s x" if "in_block (0xC0081000, 8196) x" for x
    using fr3 [of x] fr(2) [OF _ that] that ub by (auto simp: in_block_def s'_def boot_blocks_def)
  ultimately show ?thesis using heap' one by blast
qed

subsection \<open>The second task\<close>

text \<open>The heap when the child's directory has been allocated, too.\<close>

lemma one_task_split:
  assumes "one_task_blocks bs" and "bs = bs1 @ (n, True) # bs2" and "8216 \<le> n"
  shows "bs2 = [] \<and> (bs1 = [(44, False), (4040, True), (8216, False)] \<and> n = 511988
    \<or> bs1 = [(4084, True), (8216, False), (44, False)] \<and> n = 511944)"
  using assms unfolding one_task_blocks_def by (elim disjE) (auto simp: Cons_eq_append_conv)

lemma one_task_ends: "one_task_blocks bs \<Longrightarrow> b \<in> set (used 0xC0080000 bs) \<Longrightarrow> fst b + snd b \<le> 0xC0084000"
  by (auto simp: one_task_blocks_def)

lemma one_task_apart:
  "one_task_blocks bs \<Longrightarrow> (a, 24) \<in> set (used 0xC0080000 bs) \<Longrightarrow> a + 24 \<le> 0xC0081000 \<or> 0xC0083004 \<le> a"
  by (auto simp: one_task_blocks_def)

lemma one_task_aligned:
  assumes "one_task_blocks bs"
  shows "holes_fit 8196 0xC0080000 bs" and "length bs = 4" and "(511988, True) \<in> set bs \<or> (511944, True) \<in> set bs"
  using assms by (auto simp: one_task_blocks_def align_fits_def front_def)

lemma child_directory_blocks:
  assumes "one_task_blocks bs" and "bs = bs1 @ (n, True) # bs2" and "8216 \<le> n"
    and t: "(unat t, 24) \<in> set (used 0xC0080000 bs)"
  defines "bs' \<equiv> bs1 @ carve_aligned 8196 (0xC0080000 + extent bs1) n @ bs2"
  shows "Suc ((0xC0080000 + extent bs1) div 4096) * 4096 = 0xC0084000"
    and "{(unat t, 24), (0xC0081000, 8196), (0xC0084000, 8196)} \<subseteq> set (used 0xC0080000 bs')"
    and "has_room 499700 bs'"
proof -
  have t': "(unat t, 24) \<in> set (used 0xC0080000 (bs1 @ (n, True) # bs2))" using t assms(2) by simp
  note two = one_task_split [OF assms(1-3)]
  have a: "0xC0080000 + extent bs1 = 0xC008300C \<or> 0xC0080000 + extent bs1 = 0xC0083038" using two by auto
  then show "Suc ((0xC0080000 + extent bs1) div 4096) * 4096 = 0xC0084000" by (elim disjE) simp_all
  have c: "carve_aligned 8196 (0xC0080000 + extent bs1) n = [(4072, True), (8216, False), (499700, True)]
      \<and> bs1 = [(44, False), (4040, True), (8216, False)]
    \<or> carve_aligned 8196 (0xC0080000 + extent bs1) n = [(4028, True), (8216, False), (499700, True)]
      \<and> bs1 = [(4084, True), (8216, False), (44, False)]"
    using two by (elim conjE disjE) (simp_all add: carve_aligned_def front_def)
  have "(499700, True) \<in> set bs'" using c by (elim conjE disjE) (simp_all add: bs'_def)
  then show "has_room 499700 bs'" unfolding has_room_def by blast
  have "bs2 = []" using two by simp
  then show "{(unat t, 24), (0xC0081000, 8196), (0xC0084000, 8196)} \<subseteq> set (used 0xC0080000 bs')"
    using c t' by (elim conjE disjE) (simp_all add: bs'_def)
qed

lemma heap_pool_cong:
  "heap_pool s room L lo hi \<Longrightarrow> kheap s' = kheap s \<Longrightarrow> ram s' = ram s \<Longrightarrow> heap_pool s' room L lo hi"
  by (simp add: heap_pool_def)

lemma kernel_heap_pool:
  assumes "kernel_heap s h bs" and "extent bs = 0x80000" and "L \<subseteq> set (used 0xC0080000 bs)" and "has_room room bs"
  shows "heap_pool s room L 0xC0000000 0xC0100000"
  using assms kernel_heapD [OF assms(1)]
  by (auto simp: heap_pool_def intro!: exI [of _ h] exI [of _ "0xC0080000"] exI [of _ bs])

text \<open>
  The clone of the current directory by fork: its address, and the heap as a pool that keeps the
  task and the two directories.
\<close>

lemma clone_for_child:
  assumes heap: "kernel_heap s h bs" "one_task_blocks bs" and t: "(unat t, 24) \<in> set (used 0xC0080000 bs)"
    and kt: "\<And>i. i < 1024 \<Longrightarrow> dir_Table (ram s) 0xC0081000 (of_nat i) = dir_Table (ram s) (kernel_directory s) (of_nat i)"
    and kd: "unat (kernel_directory s) + 8196 \<le> 0xC0000000"
  shows "\<exists>s2. clone_directory (Alloc (Suc fuel)) 0xC0081000 s = Inr (0xC0084000, s2)
    \<and> heap_pool s2 499700 {(unat t, 24), (0xC0081000, 8196), (0xC0084000, 8196)} 0xC0000000 0xC0100000
    \<and> (\<forall>x. unat x < 0xC0000000 \<or> in_block (unat t, 24) x \<or> in_block (0xC0081000, 8196) x \<longrightarrow> ram s2 x = ram s x)
    \<and> (\<forall>i < 1024. dir_Table (ram s2) 0xC0084000 (of_nat i) = dir_Table (ram s) (kernel_directory s) (of_nat i))
    \<and> paging_globals s2 = paging_globals s"
proof -
  have len: "length bs < 0x20000" and fits: "holes_fit 8196 0xC0080000 bs" using one_task_aligned [OF heap(2)] by simp_all
  obtain n0 where n0: "(n0, True) \<in> set bs" "8196 + 20 \<le> n0" using one_task_aligned(3) [OF heap(2)] by (elim disjE) (rule that, assumption, simp)+
  obtain p s1 h1 bs1 n bs2 where al: "kmalloc_with (Alloc (Suc fuel)) (of_nat 8196) True True s = Inr (p, None, s1)"
      and bs: "bs = bs1 @ (n, True) # bs2" "8196 + 20 \<le> n" and p: "unat p = Suc ((0xC0080000 + extent bs1) div 4096) * 4096"
      and h1: "kernel_heap s1 h1 (bs1 @ carve_aligned 8196 (0xC0080000 + extent bs1) n @ bs2)"
      and s1: "s1 = s\<lparr>kheap := Some h1, ram := ram s1\<rparr>"
      and fr: "\<And>x. unat x < 0xC0000000 \<Longrightarrow> ram s1 x = ram s x"
        "\<And>b x. b \<in> set (used 0xC0080000 bs) \<Longrightarrow> in_block b x \<Longrightarrow> ram s1 x = ram s x"
    using kernel_heap_alloc_aligned [OF heap(1) len n0 fits, of fuel] by blast
  let ?bs = "bs1 @ carve_aligned 8196 (0xC0080000 + extent bs1) n @ bs2"
  have "8216 \<le> n" using bs(2) by simp
  note C = child_directory_blocks [OF heap(2) bs(1) this t]
  have "unat p = unat (0xC0084000 :: u32)" using p C(1) by simp
  then have p': "p = 0xC0084000" by (simp only: word_eq_unat)
  have live: "(0xC0081000, 8196) \<in> set (used 0xC0080000 bs)"
    using heap(2) by (auto simp: one_task_blocks_def)
  have t84: "unat t + 24 \<le> 0xC0084000" using one_task_split [OF heap(2) bs(1) \<open>8216 \<le> n\<close>] t bs(1) by auto
  obtain m1 where s1': "s1 = s\<lparr>kheap := Some h1, ram := m1\<rparr>" using s1 by blast
  have kd1: "kernel_directory s1 = kernel_directory s" unfolding s1' by simp
  have ok: "dir_ok (0xC0081000 :: u32)" "dir_ok (kernel_directory s)" "dir_ok (0xC0084000 :: u32)"
      "dirs_apart (0xC0081000 :: u32) 0xC0084000" "dirs_apart (kernel_directory s) 0xC0084000"
    using kd by (simp_all add: dir_ok_def dirs_apart_def)
  have kept: "dir_Table (ram s1) 0xC0081000 (of_nat i) = dir_Table (ram s) 0xC0081000 (of_nat i)"
      "dir_Table (ram s1) (kernel_directory s) (of_nat i) = dir_Table (ram s) (kernel_directory s) (of_nat i)" if "i < 1024" for i
    using kd by (intro dir_same(1) [OF _ that] ok fr(1) fr(2) [OF live]; simp add: in_block_def)+
  have "kernel_tables 0xC0081000 s1" unfolding kernel_tables_def kd1 using ok(1,2) kept kt by simp
  from clone_shared_directory_spec [OF _ this ok(3,4), of "Alloc (Suc fuel)" s None] al ok(5)
  obtain s2 where c: "clone_directory (Alloc (Suc fuel)) 0xC0081000 s = Inr (0xC0084000, s2)"
      "\<And>i. i < 1024 \<Longrightarrow> dir_Table (ram s2) 0xC0084000 (of_nat i) = dir_Table (ram s1) 0xC0081000 (of_nat i)"
      "same_outside 0xC0084000 0xC0086004 (ram s1) (ram s2)" "s2 = s1\<lparr>ram := ram s2\<rparr>"
    by (auto simp: sizeof_PageDirectory_def p' kd1 simp del: Alloc.simps)
  have byte: "ram s2 x = ram s1 x" if "\<not> in_block (0xC0084000, 8196) x" for x
    using that same_outside_byte [OF c(3), of x] by (auto simp: in_block_def)
  have "kernel_heap (s1\<lparr>ram := ram s2\<rparr>) h1 ?bs"
    by (rule kernel_heap_payload [OF h1 _ byte]) (use C(2) in auto)
  moreover have "extent ?bs = 0x80000" using kernel_heapD(5) [OF h1] kernel_heapD(5) [OF heap(1)] one_task_split [OF heap(2) bs(1) \<open>8216 \<le> n\<close>]
    by (auto simp: carve_aligned_def front_def)
  ultimately have "heap_pool s2 499700 {(unat t, 24), (0xC0081000, 8196), (0xC0084000, 8196)} 0xC0000000 0xC0100000"
    using kernel_heap_pool C(2,3) c(4) by metis
  moreover have "ram s2 x = ram s x" if "unat x < 0xC0000000 \<or> in_block (unat t, 24) x \<or> in_block (0xC0081000, 8196) x" for x
    using that byte [of x] fr(1) [of x] fr(2) [OF t, of x] fr(2) [OF live, of x] t84 by (auto simp: in_block_def)
  moreover have "paging_globals s2 = paging_globals s" by (subst c(4), subst s1') (simp add: directories.obs_simps)
  ultimately show ?thesis using c(1,2) kept kt by auto
qed

text \<open>The fork: the child's task is allocated from the heap as well, and both tasks stay live blocks.\<close>

lemma tasks_ok_pair:
  assumes "task_fits t" "task_fits n" "unat t + 24 \<le> unat n \<or> unat n + 24 \<le> unat t"
  shows "tasks_ok ([t] @ [n])"
  using assms by (auto simp: tasks_ok_def tasks_apart_def)

lemma second_task:
  assumes heap: "kernel_heap s h bs" "one_task_blocks bs" and t: "(unat t, 24) \<in> set (used 0xC0080000 bs)"
    and q: "ready_queue s = t" "current_task s = t" "task_next (ram s) t = 0" "current_directory s = 0xC0081000"
    and kt: "\<And>i. i < 1024 \<Longrightarrow> dir_Table (ram s) 0xC0081000 (of_nat i) = dir_Table (ram s) (kernel_directory s) (of_nat i)"
    and kd: "unat (kernel_directory s) + 8196 \<le> 0xC0000000"
  shows "\<exists>n s' L. fork (Suc fuel) eip esp ebp s = Inr (sint (next_pid s), s') \<and> queue_ok s' [t, n]
    \<and> task_id (ram s') n = next_pid s \<and> task_id (ram s') t = task_id (ram s) t \<and> saved_regs (ram s') n = (eip, esp, ebp)
    \<and> task_page_directory (ram s') n = 0xC0084000 \<and> current_task s' = t \<and> interrupt_flag s'
    \<and> heap_pool s' 499656 L 0xC0000000 0xC0100000 \<and> (unat t, 24) \<in> L \<and> (\<exists>k \<ge> 24. (unat n, k) \<in> L)
    \<and> (0xC0081000, 8196) \<in> L \<and> paging_globals s' = paging_globals s
    \<and> (\<forall>x. unat x < 0xC0000000 \<or> in_block (0xC0081000, 8196) x \<longrightarrow> ram s' x = ram s x)
    \<and> (\<forall>i < 1024. dir_Table (ram s') 0xC0084000 (of_nat i) = dir_Table (ram s) (kernel_directory s) (of_nat i))"
proof -
  let ?s = "s\<lparr>interrupt_flag := False\<rparr>" and ?L = "{(unat t, 24), (0xC0081000, 8196), (0xC0084000, 8196)}"
  have "kernel_heap ?s h bs" using heap(1) by (simp add: kernel_heap_def)
  from clone_for_child [OF this heap(2) t, of fuel] kt kd
  obtain s2 where c: "clone_directory (Alloc (Suc fuel)) 0xC0081000 ?s = Inr (0xC0084000, s2)"
      and pool: "heap_pool s2 499700 ?L 0xC0000000 0xC0100000"
      and fr2: "\<And>x. unat x < 0xC0000000 \<or> in_block (unat t, 24) x \<or> in_block (0xC0081000, 8196) x \<Longrightarrow> ram s2 x = ram s x"
      and pg2: "paging_globals s2 = paging_globals s"
      and dir2: "\<And>i. i < 1024 \<Longrightarrow> dir_Table (ram s2) 0xC0084000 (of_nat i) = dir_Table (ram s) (kernel_directory s) (of_nat i)"
    by (auto simp: paging_globals_def)
  have "24 + 20 \<le> (499700 :: nat)" by simp
  from heap.serve [OF pool this, of fuel]
  obtain n k s3 where al: "kmalloc (Suc fuel) sizeof_Task False False s2 = Inr (n, None, s3)" and k: "24 \<le> k"
      and pool3: "heap_pool s3 499656 (insert (unat n, k) ?L) 0xC0000000 0xC0100000"
      and ap: "\<And>b. b \<in> ?L \<Longrightarrow> apart_blocks (unat n, k) b"
      and fr3: "\<And>x. unat x < 0xC0000000 \<or> (\<exists>b \<in> ?L. in_block b x) \<Longrightarrow> ram s3 x = ram s2 x"
    by (auto simp: sizeof_Task_def)
  let ?K = "insert (unat n, k) ?L"
  have live: "0xC0000000 \<le> unat t" "unat t + 24 \<le> 0xC0100000" "0xC0000000 \<le> unat n" "unat n + k \<le> 0xC0100000"
    using heap.bounds [OF pool3] by auto
  have tn: "unat t + 24 \<le> unat n \<or> unat n + 24 \<le> unat t" using ap [of "(unat t, 24)"] k by (auto simp: apart_blocks_def)
  have ok: "tasks_ok ([t] @ [n])" by (rule tasks_ok_pair) (use live k tn in \<open>auto simp: task_fits_def\<close>)
  have same: "ram s3 x = ram s x" if "unat x < 0xC0000000 \<or> in_block (unat t, 24) x \<or> in_block (0xC0081000, 8196) x" for x
    using fr2 [OF that] fr3 [of x] that by auto
  have fields: "task_next (ram s3) t = task_next (ram s) t" "task_id (ram s3) t = task_id (ram s) t"
    unfolding task_next_def task_id_def
    by (rule load32_bytes; use live in \<open>auto intro!: same simp: in_block_def unat_plus_numeral\<close>)+
  have list: "task_list (ram s3) (ready_queue s) [t]" using fields(1) q(1,3) live(1) by (auto simp: word_le_unat)
  have nz: "n \<noteq> 0" using live(3) by auto
  obtain s' where f: "fork (Suc fuel) eip esp ebp s = Inr (sint (next_pid s), s')" "queue_ok s' ([t] @ [n])"
      "task_id (ram s') n = next_pid s" "task_page_directory (ram s') n = 0xC0084000" "task_eip (ram s') n = eip"
      "task_esp (ram s') n = esp" "task_ebp (ram s') n = ebp" "current_task s' = current_task s" "interrupt_flag s'"
      "s' = s3\<lparr>ram := ram s', next_pid := next_pid s + 1, interrupt_flag := True\<rparr>"
      "\<forall>u \<in> set [t]. task_id (ram s') u = task_id (ram s3) u"
      "\<forall>x. (\<forall>u \<in> set ([t] @ [n]). unat x < unat u \<or> unat u + 24 \<le> unat x) \<longrightarrow> ram s' x = ram s3 x"
    using fork_spec [OF c [folded q(4)] al list list.distinct(2) ok nz, of eip esp ebp]
    by (elim exE conjE) (rule that; assumption)
  have byte: "ram s' x = ram s3 x" if "\<forall>b \<in> ?K. \<not> in_block b x" for x
    using f(12) that k by (auto simp: in_block_def)
  have "heap_pool (s3\<lparr>ram := ram s'\<rparr>) 499656 ?K 0xC0000000 0xC0100000"
    by (rule heap.client_write [OF pool3 byte])
  then have "heap_pool s' 499656 ?K 0xC0000000 0xC0100000" by (rule heap_pool_cong) (subst f(10), simp)+
  moreover have "ram s' x = ram s x" if x: "unat x < 0xC0000000 \<or> in_block (0xC0081000, 8196) x" for x
  proof -
    have "unat t + 24 \<le> 0xC0081000 \<or> 0xC0083004 \<le> unat t" using one_task_apart [OF heap(2) t] .
    then have "ram s' x = ram s3 x"
      using x live k ap [of "(0xC0081000, 8196)"] by (intro f(12) [rule_format]) (auto simp: in_block_def apart_blocks_def)
    then show ?thesis using same [of x] x by auto
  qed
  moreover have "paging_globals s' = paging_globals s"
    unfolding pg2 [symmetric] directories_alloc.kmalloc_quiet [OF al [unfolded kmalloc_def], symmetric]
    by (subst f(10)) (simp add: paging_globals_def)
  moreover have "dir_Table (ram s') 0xC0084000 (of_nat i) = dir_Table (ram s) (kernel_directory s) (of_nat i)" if i: "i < 1024" for i
  proof -
    have "ram s' x = ram s2 x" if "unat (0xC0084000 :: u32) \<le> unat x" "unat x < unat (0xC0084000 :: u32) + 8196" for x
    proof -
      have b: "in_block (0xC0084000, 8196) x" using that by (simp add: in_block_def)
      have "apart_blocks (unat t, 24) (0xC0084000, 8196)" using one_task_ends [OF heap(2) t] by (simp add: apart_blocks_def)
      then have "ram s' x = ram s3 x" using f(12) b ap [of "(0xC0084000, 8196)"] k by (auto simp: apart_blocks_def in_block_def)
      also have "\<dots> = ram s2 x" using b by (intro fr3) auto
      finally show ?thesis .
    qed
    then show ?thesis using dir_same(1) [of "0xC0084000" i "ram s'" "ram s2"] dir2 [OF i] i by (simp add: dir_ok_def)
  qed
  ultimately show ?thesis using f(1-9,11) fields q(2) k
    by (intro exI [of _ n] exI [of _ s'] exI [of _ ?K]) (auto simp: saved_regs_def)
qed

end
