(* ===== verification/Descriptor_Tables.thy ===== *)
theory Descriptor_Tables
  imports Libc_String
begin

text \<open>
  The segment and interrupt descriptor tables of \<^verbatim>\<open>kernel/arch/i386/GlobalDescriptorTable.cpp\<close> and
  \<^verbatim>\<open>InterruptDescriptorTable.cpp\<close>, as packed structures in memory, with the port writes that set up
  the interrupt controllers. The decoding functions state how the processor reads a descriptor.
\<close>

lemma same_outside_store16:
  assumes "same_outside lo hi m m'" and "lo \<le> unat a" and "unat a + 2 \<le> hi" and "hi \<le> 4294967296"
  shows "same_outside lo hi m (store16 m' a v)"
  unfolding same_outside_def
proof (intro allI impI)
  fix x :: u32 assume x: "unat x < lo \<or> hi \<le> unat x"
  then have "\<not> x - a < 2" using assms by (auto simp: offset_less_iff)
  then have "store16 m' a v x = m' x" by (rule store16_frame)
  also have "\<dots> = m x" using same_outside_byte [OF assms(1) x] .
  finally show "store16 m' a v x = m x" .
qed

subsection \<open>The table registers\<close>

text \<open>
  The registers that \<^verbatim>\<open>gdt.S\<close> and \<^verbatim>\<open>idt.S\<close> load: the limit and base of the two tables and the
  segment selectors.
\<close>

record cpu =
  gdtr :: "u16 \<times> u32"
  idtr :: "u16 \<times> u32"
  cs :: u16
  ds :: u16
  es :: u16
  fs :: u16
  gs :: u16
  ss :: u16

definition table_pointer :: "memory \<Rightarrow> u32 \<Rightarrow> u16 \<times> u32" where
  "table_pointer m p = (load16 m p, load32 m (p + 2))"

definition gdt_load_and_set :: "u32 \<Rightarrow> memory \<Rightarrow> cpu \<Rightarrow> cpu" where
  "gdt_load_and_set p m c = c\<lparr>gdtr := table_pointer m p, ds := 0x10, es := 0x10, fs := 0x10,
     gs := 0x10, ss := 0x10, cs := 0x08\<rparr>"

definition load_idt :: "u32 \<Rightarrow> memory \<Rightarrow> cpu \<Rightarrow> cpu" where
  "load_idt p m c = c\<lparr>idtr := table_pointer m p\<rparr>"

subsection \<open>Segment descriptors\<close>

definition GDT_NUM_ENTRIES :: u32 where "GDT_NUM_ENTRIES = 3"

text \<open>
  A packed GlobalDescriptorTableEntry: limit_low at 0, base_low at 2, base_mid at 4, access at 5,
  granularity at 6, base_high at 7.
\<close>

definition CreateEntry :: "u32 \<Rightarrow> u32 \<Rightarrow> u32 \<Rightarrow> u32 \<Rightarrow> u8 \<Rightarrow> u8 \<Rightarrow> memory \<Rightarrow> memory" where
  "CreateEntry gdt_entries num base limit access gran m =
     (let e = gdt_entries + 8 * num;
          m = store16 m (e + 2) (ucast (base AND 0xFFFF));
          m = m(e + 4 := ucast (drop_bit 16 base AND 0xFF));
          m = m(e + 7 := ucast (drop_bit 24 base AND 0xFF));
          m = store16 m e (ucast (limit AND 0xFFFF));
          m = m(e + 6 := ucast (drop_bit 16 limit AND 0x0F));
          m = m(e + 6 := m (e + 6) OR (gran AND 0xF0))
      in m(e + 5 := access))"

text \<open>The table pointer: a 16 bit limit and, packed behind it, the 32 bit base.\<close>

definition set_table_pointer :: "u32 \<Rightarrow> u16 \<Rightarrow> u32 \<Rightarrow> memory \<Rightarrow> memory" where
  "set_table_pointer p limit base m = store32 (store16 m p limit) (p + 2) base"

definition InitGDT :: "u32 \<Rightarrow> u32 \<Rightarrow> memory \<Rightarrow> cpu \<Rightarrow> memory \<times> cpu" where
  "InitGDT gdt_entries gtdPointer m c =
     (let m = set_table_pointer gtdPointer (ucast (8 * GDT_NUM_ENTRIES - 1)) gdt_entries m;
          m = CreateEntry gdt_entries 0 0 0 0 0 m;
          m = CreateEntry gdt_entries 1 0 0xFFFFFFFF 0x9A 0xCF m;
          m = CreateEntry gdt_entries 2 0 0xFFFFFFFF 0x92 0xCF m
      in (m, gdt_load_and_set gtdPointer m c))"

definition segment_base :: "memory \<Rightarrow> u32 \<Rightarrow> u32" where
  "segment_base m e = ucast (load16 m (e + 2)) OR push_bit 16 (ucast (m (e + 4))) OR push_bit 24 (ucast (m (e + 7)))"

definition segment_limit :: "memory \<Rightarrow> u32 \<Rightarrow> u32" where
  "segment_limit m e = ucast (load16 m e) OR push_bit 16 (ucast (m (e + 6)) AND 0x0F)"

definition segment_access :: "memory \<Rightarrow> u32 \<Rightarrow> u8" where "segment_access m e = m (e + 5)"

definition segment_flags :: "memory \<Rightarrow> u32 \<Rightarrow> u8" where "segment_flags m e = m (e + 6) AND 0xF0"

definition segment_at :: "memory \<Rightarrow> u32 \<Rightarrow> u32 \<times> u32 \<times> u8 \<times> u8" where
  "segment_at m e = (segment_base m e, segment_limit m e, segment_access m e, segment_flags m e)"

lemma mask_bits:
  "(w :: u32) AND 0xFFFF = take_bit 16 w" "w AND 0xFF = take_bit 8 w" "w AND 0x0F = take_bit 4 w"
  "w AND 0xFFFFF = take_bit 20 w" "(b :: u8) AND 0x0F = take_bit 4 b"
  by (simp_all add: take_bit_eq_mask mask_eq_exp_minus_1)

lemma base_parts:
  "(ucast (ucast (take_bit 16 b) :: u16) :: u32) OR push_bit 16 (ucast (ucast (take_bit 8 (drop_bit 16 b)) :: u8))
     OR push_bit 24 (ucast (ucast (take_bit 8 (drop_bit 24 b)) :: u8)) = (b :: u32)"
proof (rule bit_word_eqI)
  fix n :: nat assume "n < LENGTH(32)"
  then consider "n < 16" | "16 \<le> n" "n < 24" | "24 \<le> n" "n < 32" by fastforce
  then show "bit ((ucast (ucast (take_bit 16 b) :: u16) :: u32) OR push_bit 16 (ucast (ucast (take_bit 8 (drop_bit 16 b)) :: u8))
     OR push_bit 24 (ucast (ucast (take_bit 8 (drop_bit 24 b)) :: u8))) n = bit b n"
    by cases (auto simp: bit_simps)
qed

lemma limit_parts:
  "(ucast (ucast (take_bit 16 l) :: u16) :: u32)
     OR push_bit 16 (take_bit 4 (ucast (ucast (take_bit 4 (drop_bit 16 l)) OR (g AND 0xF0) :: u8)))
   = take_bit 20 (l :: u32)"
proof (rule bit_word_eqI)
  fix n :: nat assume n: "n < LENGTH(32)"
  have g: "\<not> bit ((g :: u8) AND 0xF0) k" if "k < 4" for k
  proof -
    have "(0xF0 :: u8) = push_bit 4 0xF" by simp
    then show ?thesis using that by (simp only: bit_and_iff bit_push_bit_iff) simp
  qed
  from n consider "n < 16" | "16 \<le> n" "n < 20" | "20 \<le> n" "n < 32" by fastforce
  then show "bit ((ucast (ucast (take_bit 16 l) :: u16) :: u32)
     OR push_bit 16 (take_bit 4 (ucast (ucast (take_bit 4 (drop_bit 16 l)) OR (g AND 0xF0) :: u8)))) n
     = bit (take_bit 20 l) n"
    by cases (auto simp: bit_or_iff bit_push_bit_iff bit_take_bit_iff bit_ucast_iff bit_drop_bit_eq g)
qed

lemma flags_part: "(ucast (take_bit 4 (l :: u32)) OR (g AND 0xF0) :: u8) AND 0xF0 = g AND 0xF0"
proof -
  have eq: "(0xF0 :: u8) = NOT (mask 4)" by (simp add: mask_eq_exp_minus_1)
  show ?thesis unfolding eq by (rule bit_word_eqI) (auto simp: bit_simps)
qed

text \<open>
  A segment descriptor written by CreateEntry decodes to the base and access byte given, to the
  low 20 bits of the limit and to the upper four bits of the granularity byte.
\<close>

lemma CreateEntry_decodes:
  fixes gdt_entries num base limit :: u32 and access gran :: u8 and m :: memory
  defines "m' \<equiv> CreateEntry gdt_entries num base limit access gran m" and "e \<equiv> gdt_entries + 8 * num"
  shows "segment_at m' e = (base, limit AND 0xFFFFF, access, gran AND 0xF0)"
proof -
  have bytes: "m' e = ucast (ucast (take_bit 16 limit) :: u16)"
      "m' (e + 1) = ucast (drop_bit 8 (ucast (take_bit 16 limit) :: u16))"
      "m' (e + 2) = ucast (ucast (take_bit 16 base) :: u16)"
      "m' (e + 3) = ucast (drop_bit 8 (ucast (take_bit 16 base) :: u16))"
      "m' (e + 4) = ucast (take_bit 8 (drop_bit 16 base))" "m' (e + 5) = access"
      "m' (e + 6) = ucast (take_bit 4 (drop_bit 16 limit)) OR (gran AND 0xF0)"
      "m' (e + 7) = ucast (take_bit 8 (drop_bit 24 base))"
    by (simp_all add: m'_def e_def CreateEntry_def Let_def store16_def mask_bits)
  have halves: "load16 m' e = ucast (take_bit 16 limit)" "load16 m' (e + 2) = ucast (take_bit 16 base)"
    unfolding load16_def by (simp_all only: bytes bytes_of_u16 add.assoc) (simp_all add: bytes bytes_of_u16)
  show ?thesis
    unfolding segment_at_def segment_base_def segment_limit_def segment_access_def segment_flags_def halves bytes mask_bits
    by (simp only: base_parts limit_parts flags_part)
qed

definition selected :: "memory \<Rightarrow> u32 \<Rightarrow> u16 \<Rightarrow> u32 \<times> u32 \<times> u8 \<times> u8" where
  "selected m base selector = segment_at m (base + ucast (selector AND 0xFFF8))"

lemma CreateEntry_frame:
  assumes "unat gdt_entries + 24 \<le> 4294967295" and "num = of_nat k" and "k < 3"
  shows "same_outside (unat gdt_entries + 8 * k) (unat gdt_entries + 8 * k + 8) m
    (CreateEntry gdt_entries num base limit access gran m)"
proof -
  have "unat (gdt_entries + 8 * num + of_nat j) = unat gdt_entries + 8 * k + j" if "j < 8" for j
  proof -
    have "gdt_entries + 8 * num + of_nat j = of_nat (unat gdt_entries + 8 * k + j)" using assms(2) by simp
    also have "unat \<dots> = unat gdt_entries + 8 * k + j" using assms that by (intro unat_of_nat32) linarith
    finally show ?thesis .
  qed
  from this [of 0] this [of 2] this [of 4] this [of 5] this [of 6] this [of 7] assms show ?thesis
    unfolding CreateEntry_def Let_def
    by (intro same_outside_upd same_outside_store16 same_outside_refl) auto
qed

lemma segment_cong:
  assumes e: "unat e + 8 \<le> 4294967295"
    and same: "\<And>x. unat e \<le> unat x \<Longrightarrow> unat x < unat e + 8 \<Longrightarrow> m' x = m x"
  shows "segment_at m' e = segment_at m e"
proof -
  have byte: "m' (e + of_nat k) = m (e + of_nat k)" if "k < 8" for k
  proof -
    have "unat (e + of_nat k) = unat e + k" using e that by (subst unat_add_no_wrap) (auto simp: unat_of_nat32)
    then show ?thesis using that by (intro same) auto
  qed
  have nx: "e + 2 + 1 = e + 3" by simp
  have "m' e = m e" "m' (e + 1) = m (e + 1)" "m' (e + 2) = m (e + 2)" "m' (e + 3) = m (e + 3)"
      "m' (e + 4) = m (e + 4)" "m' (e + 5) = m (e + 5)" "m' (e + 6) = m (e + 6)" "m' (e + 7) = m (e + 7)"
    using byte [of 0] byte [of 1] byte [of 2] byte [of 3] byte [of 4] byte [of 5] byte [of 6] byte [of 7]
    by simp_all
  then show ?thesis
    unfolding segment_at_def segment_base_def segment_limit_def segment_access_def segment_flags_def
      load16_def nx by (simp only:)
qed

lemma segment_frame:
  assumes fr: "same_outside lo hi m m'" and e: "unat e + 8 \<le> 4294967295"
    and sep: "unat e + 8 \<le> lo \<or> hi \<le> unat e"
  shows "segment_at m' e = segment_at m e"
  by (rule segment_cong [OF e], rule same_outside_byte [OF fr]) (use sep in auto)

lemma table_pointer_set:
  assumes "unat p + 6 \<le> 4294967295"
  shows "table_pointer (set_table_pointer p limit base m) p = (limit, base)"
    "same_outside (unat p) (unat p + 6) m (set_table_pointer p limit base m)"
proof -
  have p2: "unat (p + 2) = unat p + 2" using assms by (subst unat_add_no_wrap) auto
  have "load16 (store32 (store16 m p limit) (p + 2) base) p = load16 (store16 m p limit) p"
  proof (rule load16_cong)
    fix x :: u32 assume "x - p < 2"
    then have "\<not> x - (p + 2) < 4" using assms p2 by (auto simp: offset_less_iff)
    then show "store32 (store16 m p limit) (p + 2) base x = store16 m p limit x" by (rule store32_frame)
  qed
  then show "table_pointer (set_table_pointer p limit base m) p = (limit, base)"
    by (simp add: table_pointer_def set_table_pointer_def)
  show "same_outside (unat p) (unat p + 6) m (set_table_pointer p limit base m)"
    unfolding set_table_pointer_def using assms p2
    by (intro same_outside_store32 same_outside_store16 same_outside_refl) auto
qed

lemma table_pointer_frame:
  assumes fr: "same_outside lo hi m m'" and p: "unat p + 6 \<le> 4294967295"
    and sep: "unat p + 6 \<le> lo \<or> hi \<le> unat p"
  shows "table_pointer m' p = table_pointer m p"
proof -
  have "unat (p + 2) = unat p + 2" using p by (subst unat_add_no_wrap) auto
  then have "load32 m' (p + 2) = load32 m (p + 2)"
    using p sep by (intro same_outside_load32 [OF fr]) auto
  moreover have "load16 m' p = load16 m p"
    by (rule load16_cong, rule same_outside_byte [OF fr]) (use p sep in \<open>auto simp: offset_less_iff\<close>)
  ultimately show ?thesis by (simp add: table_pointer_def)
qed

lemma InitGDT_spec:
  assumes g: "unat gdt_entries + 24 \<le> 4294967295"
    and p: "unat gtdPointer + 6 \<le> 4294967295"
      "unat gtdPointer + 6 \<le> unat gdt_entries \<or> unat gdt_entries + 24 \<le> unat gtdPointer"
    and init: "InitGDT gdt_entries gtdPointer m c = (m', c')"
  shows "gdtr c' = (23, gdt_entries) \<and> selected m' gdt_entries (cs c') = (0, 0xFFFFF, 0x9A, 0xC0)
    \<and> (\<forall>sel \<in> {ds c', es c', fs c', gs c', ss c'}. selected m' gdt_entries sel = (0, 0xFFFFF, 0x92, 0xC0))
    \<and> segment_at m' gdt_entries = (0, 0, 0, 0)"
proof -
  define m0 where "m0 = set_table_pointer gtdPointer (ucast (8 * GDT_NUM_ENTRIES - 1)) gdt_entries m"
  define m1 where "m1 = CreateEntry gdt_entries 0 0 0 0 0 m0"
  define m2 where "m2 = CreateEntry gdt_entries 1 0 0xFFFFFFFF 0x9A 0xCF m1"
  have m': "m' = CreateEntry gdt_entries 2 0 0xFFFFFFFF 0x92 0xCF m2"
      and c': "c' = gdt_load_and_set gtdPointer m' c"
    using init by (auto simp: InitGDT_def Let_def m0_def m1_def m2_def)
  have fr1: "same_outside (unat gdt_entries) (unat gdt_entries + 8) m0 m1"
    unfolding m1_def using CreateEntry_frame [OF g, of 0 0] by simp
  have fr2: "same_outside (unat gdt_entries + 8) (unat gdt_entries + 16) m1 m2"
    unfolding m2_def using CreateEntry_frame [OF g, of 1 1] by (simp add: add.assoc)
  have fr3: "same_outside (unat gdt_entries + 16) (unat gdt_entries + 24) m2 m'"
    unfolding m' using CreateEntry_frame [OF g, of 2 2] by (simp add: add.assoc)
  have "table_pointer m' gtdPointer = table_pointer m2 gtdPointer"
    by (rule table_pointer_frame [OF fr3 p(1)]) (use p(2) in auto)
  also have "\<dots> = table_pointer m1 gtdPointer"
    by (rule table_pointer_frame [OF fr2 p(1)]) (use p(2) in auto)
  also have "\<dots> = table_pointer m0 gtdPointer"
    by (rule table_pointer_frame [OF fr1 p(1)]) (use p(2) in auto)
  also have "\<dots> = (23, gdt_entries)"
    unfolding m0_def table_pointer_set(1) [OF p(1)] by (simp add: GDT_NUM_ENTRIES_def)
  finally have gdtr: "table_pointer m' gtdPointer = (23, gdt_entries)" .
  have e1: "unat (gdt_entries + 8) = unat gdt_entries + 8" using g by (subst unat_add_no_wrap) auto
  have "segment_at m' (gdt_entries + 8) = segment_at m2 (gdt_entries + 8)"
    by (rule segment_frame [OF fr3]) (use g e1 in auto)
  also have "\<dots> = (0, 0xFFFFF, 0x9A, 0xC0)"
    unfolding m2_def using CreateEntry_decodes [of gdt_entries 1 0 "0xFFFFFFFF" "0x9A" "0xCF" m1] by simp
  finally have code: "segment_at m' (gdt_entries + 8) = (0, 0xFFFFF, 0x9A, 0xC0)" .
  have data: "segment_at m' (gdt_entries + 16) = (0, 0xFFFFF, 0x92, 0xC0)"
    unfolding m' using CreateEntry_decodes [of gdt_entries 2 0 "0xFFFFFFFF" "0x92" "0xCF" m2] by simp
  have "segment_at m' gdt_entries = segment_at m2 gdt_entries"
    by (rule segment_frame [OF fr3]) (use g in auto)
  also have "\<dots> = segment_at m1 gdt_entries" by (rule segment_frame [OF fr2]) (use g in auto)
  also have "\<dots> = (0, 0, 0, 0)"
    unfolding m1_def using CreateEntry_decodes [of gdt_entries 0 0 0 0 0 m0] by simp
  finally have null: "segment_at m' gdt_entries = (0, 0, 0, 0)" .
  show ?thesis using gdtr code data null by (simp add: c' gdt_load_and_set_def selected_def)
qed

lemma InitGDT_frame:
  assumes g: "unat gdt_entries + 24 \<le> 4294967295" and p: "unat gtdPointer + 6 \<le> 4294967295"
    and init: "InitGDT gdt_entries gtdPointer m c = (m', c')"
    and x: "unat x < unat gdt_entries \<or> unat gdt_entries + 24 \<le> unat x"
      "unat x < unat gtdPointer \<or> unat gtdPointer + 6 \<le> unat x"
  shows "m' x = m x"
proof -
  have keep: "CreateEntry gdt_entries (of_nat k) base limit access gran m1 x = m1 x" if "k < 3"
    for k base limit access gran m1
    by (rule same_outside_byte [OF CreateEntry_frame [OF g refl that]]) (use x(1) that in auto)
  have "set_table_pointer gtdPointer l b m x = m x" for l b
    by (rule same_outside_byte [OF table_pointer_set(2) [OF p] x(2)])
  with init keep [of 0] keep [of 1] keep [of 2] show ?thesis by (auto simp: InitGDT_def Let_def)
qed

text \<open>
  C36: InitGDT loads a table of three descriptors. The code selector the processor ends with selects
  a flat ring 0 code segment, all data selectors a flat ring 0 data segment, both with 20 bit
  limits in pages, and the first descriptor is the null descriptor.
\<close>

theorem InitGDT_segments:
  assumes g: "unat gdt_entries + 24 \<le> 4294967295"
    and p: "unat gtdPointer + 6 \<le> 4294967295"
      "unat gtdPointer + 6 \<le> unat gdt_entries \<or> unat gdt_entries + 24 \<le> unat gtdPointer"
    and init: "InitGDT gdt_entries gtdPointer m c = (m', c')"
  shows "gdtr c' = (23, gdt_entries) \<and> selected m' gdt_entries (cs c') = (0, 0xFFFFF, 0x9A, 0xC0)
    \<and> (\<forall>sel \<in> {ds c', es c', fs c', gs c', ss c'}. selected m' gdt_entries sel = (0, 0xFFFFF, 0x92, 0xC0))
    \<and> segment_at m' gdt_entries = (0, 0, 0, 0)"
  using assms by (rule InitGDT_spec)

theorem InitGDT_segments_witness:
  "\<exists>m' c'. InitGDT 0x8000 0x7000 (\<lambda>_. 0xAA) \<lparr>gdtr = (0, 0), idtr = (0, 0), cs = 0, ds = 0, es = 0,
       fs = 0, gs = 0, ss = 0\<rparr> = (m', c')
     \<and> selected m' 0x8000 (cs c') = (0, 0xFFFFF, 0x9A, 0xC0)"
proof -
  let ?c = "\<lparr>gdtr = (0, 0), idtr = (0, 0), cs = 0, ds = 0, es = 0, fs = 0, gs = 0, ss = 0\<rparr>"
  obtain m' c' where i: "InitGDT 0x8000 0x7000 (\<lambda>_. 0xAA) ?c = (m', c')" by fastforce
  from InitGDT_segments [OF _ _ _ i] i show ?thesis by simp
qed

subsection \<open>Interrupt gates\<close>

definition IDT_NUM_ENTRIES :: u32 where "IDT_NUM_ENTRIES = 256"

text \<open>A packed IDTGate: handler_low at 0, segsel at 2, zero at 4, config at 5, handler_high at 6.\<close>

definition CreateGate :: "u32 \<Rightarrow> u8 \<Rightarrow> u32 \<Rightarrow> u8 \<Rightarrow> u8 \<Rightarrow> memory \<Rightarrow> memory" where
  "CreateGate entries num base sel flags m =
     (let e = entries + 8 * ucast num;
          m = store16 m e (ucast (base AND 0xFFFF));
          m = store16 m (e + 6) (ucast (drop_bit 16 base AND 0xFFFF));
          m = store16 m (e + 2) (ucast sel);
          m = m(e + 4 := 0)
      in m(e + 5 := flags))"

text \<open>The bytes written to ports, in order.\<close>

type_synonym port_writes = "(u16 \<times> u8) list"

definition outb :: "u16 \<Rightarrow> u8 \<Rightarrow> port_writes \<Rightarrow> port_writes" where
  "outb port v out = out @ [(port, v)]"

definition RemapPIC :: "port_writes \<Rightarrow> port_writes" where
  "RemapPIC out =
     (let out = outb 0x20 0x11 out; out = outb 0xA0 0x11 out;
          out = outb 0x21 0x20 out; out = outb 0xA1 0x28 out;
          out = outb 0x21 0x04 out; out = outb 0xA1 0x02 out;
          out = outb 0x21 0x01 out; out = outb 0xA1 0x01 out;
          out = outb 0x21 0x0 out
      in outb 0xA1 0x0 out)"

text \<open>\<open>isr n\<close> is the address of the stub isr0 to isr31 or irq32 to irq47 of \<^verbatim>\<open>idt.S\<close>.\<close>

definition create_gates :: "(nat \<Rightarrow> u32) \<Rightarrow> u32 \<Rightarrow> nat list \<Rightarrow> memory \<Rightarrow> memory" where
  "create_gates isr entries = fold (\<lambda>n. CreateGate entries (of_nat n) (isr n) 0x08 0x8E)"

definition Init_IDT ::
    "(nat \<Rightarrow> u32) \<Rightarrow> u32 \<Rightarrow> u32 \<Rightarrow> memory \<Rightarrow> cpu \<Rightarrow> port_writes \<Rightarrow> memory \<times> cpu \<times> port_writes" where
  "Init_IDT isr entries idtPointer m c out =
     (let m = memset m entries 0 (8 * IDT_NUM_ENTRIES);
          m = set_table_pointer idtPointer (ucast (IDT_NUM_ENTRIES * 8 - 1)) entries m;
          m = create_gates isr entries [0..<32] m;
          c = load_idt idtPointer m c;
          out = RemapPIC out
      in (create_gates isr entries [32..<48] m, c, out))"

definition gate_handler :: "memory \<Rightarrow> u32 \<Rightarrow> u32" where
  "gate_handler m e = ucast (load16 m e) OR push_bit 16 (ucast (load16 m (e + 6)))"

definition gate_at :: "memory \<Rightarrow> u32 \<Rightarrow> nat \<Rightarrow> u32 \<times> u16 \<times> u8 \<times> u8" where
  "gate_at m entries n = (let e = entries + 8 * of_nat n
     in (gate_handler m e, load16 m (e + 2), m (e + 4), m (e + 5)))"

lemma handler_parts:
  "(ucast (ucast (take_bit 16 b) :: u16) :: u32) OR push_bit 16 (ucast (ucast (take_bit 16 (drop_bit 16 b)) :: u16)) = b"
proof (rule bit_word_eqI)
  fix n :: nat assume "n < LENGTH(32)"
  then consider "n < 16" | "16 \<le> n" "n < 32" by fastforce
  then show "bit ((ucast (ucast (take_bit 16 b) :: u16) :: u32)
     OR push_bit 16 (ucast (ucast (take_bit 16 (drop_bit 16 b)) :: u16))) n = bit b n"
    by cases (auto simp: bit_simps)
qed

lemma ucast_of_nat8: "n < 256 \<Longrightarrow> (ucast (of_nat n :: u8) :: u32) = of_nat n"
  by (simp add: unsigned_of_nat take_bit_nat_eq_self)

lemma gate_created:
  assumes "n < 256"
  shows "gate_at (CreateGate entries (of_nat n) base sel flags m) entries n = (base, ucast sel, 0, flags)"
proof -
  let ?e = "entries + 8 * of_nat n" and ?m = "CreateGate entries (of_nat n) base sel flags m"
  have bytes: "?m ?e = ucast (ucast (take_bit 16 base) :: u16)"
      "?m (?e + 1) = ucast (drop_bit 8 (ucast (take_bit 16 base) :: u16))"
      "?m (?e + 2) = ucast (ucast sel :: u16)" "?m (?e + 3) = ucast (drop_bit 8 (ucast sel :: u16))"
      "?m (?e + 4) = 0" "?m (?e + 5) = flags"
      "?m (?e + 6) = ucast (ucast (take_bit 16 (drop_bit 16 base)) :: u16)"
      "?m (?e + 7) = ucast (drop_bit 8 (ucast (take_bit 16 (drop_bit 16 base)) :: u16))"
    by (simp_all add: CreateGate_def Let_def store16_def mask_bits ucast_of_nat8 [OF assms])
  have nx: "?e + 2 + 1 = ?e + 3" "?e + 6 + 1 = ?e + 7" by simp_all
  have "load16 ?m ?e = ucast (take_bit 16 base)" "load16 ?m (?e + 2) = ucast sel"
      "load16 ?m (?e + 6) = ucast (take_bit 16 (drop_bit 16 base))"
    unfolding load16_def nx bytes by (rule bytes_of_u16)+
  then show ?thesis by (simp add: gate_at_def gate_handler_def Let_def bytes handler_parts)
qed

definition gate_address :: "u32 \<Rightarrow> nat \<Rightarrow> nat" where
  "gate_address entries n = unat entries + 8 * n"

lemma unat_gate:
  assumes "unat entries + 2048 \<le> 4294967295" and "n < 256" and "k < 8"
  shows "unat (entries + 8 * of_nat n + of_nat k) = gate_address entries n + k"
proof -
  have "entries + 8 * of_nat n + of_nat k = of_nat (unat entries + 8 * n + k)" by simp
  also have "unat \<dots> = unat entries + 8 * n + k" using assms by (intro unat_of_nat32) linarith
  finally show ?thesis by (simp add: gate_address_def)
qed

lemma unat_gate_offsets:
  assumes "unat entries + 2048 \<le> 4294967295" and "n < 256"
  shows "unat (entries + 8 * of_nat n) = gate_address entries n"
    "unat (entries + 8 * of_nat n + 2) = gate_address entries n + 2"
    "unat (entries + 8 * of_nat n + 4) = gate_address entries n + 4"
    "unat (entries + 8 * of_nat n + 5) = gate_address entries n + 5"
    "unat (entries + 8 * of_nat n + 6) = gate_address entries n + 6"
  using unat_gate [OF assms, of 0] unat_gate [OF assms, of 2] unat_gate [OF assms, of 4]
    unat_gate [OF assms, of 5] unat_gate [OF assms, of 6] by simp_all

lemma CreateGate_frame:
  assumes "unat entries + 2048 \<le> 4294967295" and "n < 256"
  shows "same_outside (gate_address entries n) (gate_address entries n + 8) m
    (CreateGate entries (of_nat n) base sel flags m)"
proof -
  have "gate_address entries n + 8 \<le> 4294967296" using assms by (simp add: gate_address_def)
  with unat_gate_offsets [OF assms] show ?thesis
    unfolding CreateGate_def Let_def ucast_of_nat8 [OF assms(2)]
    by (intro same_outside_upd same_outside_store16 same_outside_refl) auto
qed

lemma gate_cong:
  assumes "\<And>k. k < 8 \<Longrightarrow> m' (entries + 8 * of_nat n + of_nat k) = m (entries + 8 * of_nat n + of_nat k)"
  shows "gate_at m' entries n = gate_at m entries n"
proof -
  define e where "e = entries + 8 * of_nat n"
  have byte: "m' (e + of_nat k) = m (e + of_nat k)" if "k < 8" for k using assms [OF that] by (simp add: e_def)
  have nx: "e + 2 + 1 = e + 3" "e + 6 + 1 = e + 7" by simp_all
  have "m' e = m e" "m' (e + 1) = m (e + 1)" "m' (e + 2) = m (e + 2)" "m' (e + 3) = m (e + 3)"
      "m' (e + 4) = m (e + 4)" "m' (e + 5) = m (e + 5)" "m' (e + 6) = m (e + 6)" "m' (e + 7) = m (e + 7)"
    using byte [of 0] byte [of 1] byte [of 2] byte [of 3] byte [of 4] byte [of 5] byte [of 6] byte [of 7]
    by simp_all
  then show ?thesis
    unfolding gate_at_def gate_handler_def load16_def Let_def e_def [symmetric] nx by (simp only:)
qed

lemma gate_frame:
  assumes "unat entries + 2048 \<le> 4294967295" and "n < 256" and fr: "same_outside lo hi m m'"
    and "gate_address entries n + 8 \<le> lo \<or> hi \<le> gate_address entries n"
  shows "gate_at m' entries n = gate_at m entries n"
proof (rule gate_cong)
  fix k :: nat assume k: "k < 8"
  show "m' (entries + 8 * of_nat n + of_nat k) = m (entries + 8 * of_nat n + of_nat k)"
    by (rule same_outside_byte [OF fr]) (use unat_gate [OF assms(1,2) k] k assms(4) in auto)
qed

lemma create_gates_at:
  assumes e: "unat entries + 2048 \<le> 4294967295" and n: "n < 256"
  shows "\<forall>k \<in> set ks. k < 256 \<Longrightarrow> gate_at (create_gates isr entries ks m) entries n
    = (if n \<in> set ks then (isr n, 8, 0, 0x8E) else gate_at m entries n)"
proof (induction ks arbitrary: m)
  case (Cons k ks)
  let ?m = "CreateGate entries (of_nat k) (isr k) 0x08 0x8E m"
  have k: "k < 256" using Cons.prems by simp
  have "gate_at (create_gates isr entries (k # ks) m) entries n
      = (if n \<in> set ks then (isr n, 8, 0, 0x8E) else gate_at ?m entries n)"
    using Cons by (simp add: create_gates_def)
  moreover have "gate_at ?m entries n = gate_at m entries n" if "n \<noteq> k"
    by (rule gate_frame [OF e n CreateGate_frame [OF e k]]) (use that in \<open>auto simp: gate_address_def\<close>)
  moreover have "gate_at ?m entries k = (isr k, 8, 0, 0x8E)" using gate_created [OF k] by simp
  ultimately show ?case by auto
qed (simp add: create_gates_def)

lemma create_gates_frame:
  assumes e: "unat entries + 2048 \<le> 4294967295"
  shows "\<forall>k \<in> set ks. k < 256 \<Longrightarrow> same_outside (unat entries) (unat entries + 2048) m (create_gates isr entries ks m)"
proof (induction ks arbitrary: m)
  case (Cons k ks)
  let ?m = "CreateGate entries (of_nat k) (isr k) 0x08 0x8E m"
  have "same_outside (unat entries) (unat entries + 2048) m ?m"
    by (rule same_outside_mono [OF CreateGate_frame [OF e, of k]]) (use Cons.prems in \<open>auto simp: gate_address_def\<close>)
  also have "same_outside (unat entries) (unat entries + 2048) ?m (create_gates isr entries ks ?m)"
    using Cons by simp
  finally show ?case by (simp add: create_gates_def)
qed (simp add: create_gates_def)

lemma Init_IDT_spec:
  assumes e: "unat entries + 2048 \<le> 4294967295"
    and p: "unat idtPointer + 6 \<le> unat entries \<or> unat entries + 2048 \<le> unat idtPointer"
      "unat idtPointer + 6 \<le> 4294967295"
    and n: "n < 256" and init: "Init_IDT isr entries idtPointer m c out = (m', c', out')"
  shows "idtr c' = (2047, entries)
    \<and> gate_at m' entries n = (if n < 48 then (isr n, 8, 0, 0x8E) else (0, 0, 0, 0))
    \<and> out' = out @ [(0x20, 0x11), (0xA0, 0x11), (0x21, 0x20), (0xA1, 0x28), (0x21, 0x04), (0xA1, 0x02),
        (0x21, 0x01), (0xA1, 0x01), (0x21, 0), (0xA1, 0)]"
proof -
  define m1 where "m1 = memset m entries 0 2048"
  define m2 where "m2 = set_table_pointer idtPointer (ucast (IDT_NUM_ENTRIES * 8 - 1)) entries m1"
  have m': "m' = create_gates isr entries [32..<48] (create_gates isr entries [0..<32] m2)"
    using init by (simp add: Init_IDT_def Let_def m1_def m2_def IDT_NUM_ENTRIES_def)
  have "same_outside (unat idtPointer) (unat idtPointer + 6) m1 m2"
    unfolding m2_def by (rule table_pointer_set(2) [OF p(2)])
  then have "gate_at m2 entries n = gate_at m1 entries n"
    by (rule gate_frame [OF e n]) (use p(1) n in \<open>auto simp: gate_address_def\<close>)
  also have "\<dots> = gate_at (\<lambda>_. 0) entries n"
  proof (rule gate_cong)
    fix k :: nat assume k: "k < 8"
    have "entries + 8 * of_nat n + of_nat k - entries < 2048"
      using unat_gate [OF e n k] n k e by (subst offset_less_iff) (auto simp: gate_address_def)
    then show "m1 (entries + 8 * of_nat n + of_nat k) = 0" by (simp add: m1_def memset_eq_filled filled_def)
  qed
  also have "\<dots> = (0, 0, 0, 0)" by (simp add: gate_at_def gate_handler_def load16_def)
  finally have blank: "gate_at m2 entries n = (0, 0, 0, 0)" .
  have "\<forall>k \<in> set [32..<48]. k < 256" "\<forall>k \<in> set [0..<32]. k < (256 :: nat)" by auto
  from create_gates_at [OF e n this(1)] create_gates_at [OF e n this(2)]
  have "gate_at m' entries n = (if 32 \<le> n \<and> n < 48 then (isr n, 8, 0, 0x8E)
      else if n < 32 then (isr n, 8, 0, 0x8E) else (0, 0, 0, 0))"
    unfolding m' blank set_upt atLeastLessThan_iff by (simp only: blank le0 simp_thms)
  then have "gate_at m' entries n = (if n < 48 then (isr n, 8, 0, 0x8E) else (0, 0, 0, 0))" by auto
  moreover have "table_pointer (create_gates isr entries [0..<32] m2) idtPointer = table_pointer m2 idtPointer"
    by (rule table_pointer_frame [OF create_gates_frame [OF e] p(2) p(1)]) simp
  moreover have "table_pointer m2 idtPointer = (2047, entries)"
    unfolding m2_def table_pointer_set(1) [OF p(2)] by (simp add: IDT_NUM_ENTRIES_def)
  ultimately show ?thesis
    using init by (auto simp: Init_IDT_def Let_def RemapPIC_def outb_def load_idt_def m1_def m2_def IDT_NUM_ENTRIES_def)
qed

lemma Init_IDT_frame:
  assumes e: "unat entries + 2048 \<le> 4294967295" and p: "unat idtPointer + 6 \<le> 4294967295"
    and init: "Init_IDT isr entries idtPointer m c out = (m', c', out')"
    and x: "unat x < unat entries \<or> unat entries + 2048 \<le> unat x"
      "unat x < unat idtPointer \<or> unat idtPointer + 6 \<le> unat x"
  shows "m' x = m x \<and> c' = c\<lparr>idtr := idtr c'\<rparr>"
proof -
  have gates: "create_gates isr entries ks m1 x = m1 x" if "\<forall>k \<in> set ks. k < 256" for ks m1
    by (rule same_outside_byte [OF create_gates_frame [OF e that] x(1)])
  have ptr: "set_table_pointer idtPointer l b m1 x = m1 x" for l b m1
    by (rule same_outside_byte [OF table_pointer_set(2) [OF p] x(2)])
  have "\<not> x - entries < 2048" using e x(1) by (auto simp: offset_less_iff)
  then have "memset m entries 0 2048 x = m x" by (simp add: memset_eq_filled filled_def)
  with init gates [of "[0..<32]"] gates [of "[32..<48]"] ptr show ?thesis
    by (auto simp: Init_IDT_def Let_def IDT_NUM_ENTRIES_def load_idt_def simp del: upt_conv_Cons)
qed

text \<open>
  C37: after Init_IDT the processor uses the table of 256 gates, the gates of the vectors 0 to 47 hold the addresses of their stubs with the
  kernel code segment as present 32 bit interrupt gates, all other gates are blank, and the
  interrupt controllers have been sent exactly the remapping sequence that puts the IRQs on the
  vectors 32 to 47.
\<close>

theorem Init_IDT_gates:
  assumes e: "unat entries + 2048 \<le> 4294967295"
    and p: "unat idtPointer + 6 \<le> unat entries \<or> unat entries + 2048 \<le> unat idtPointer"
      "unat idtPointer + 6 \<le> 4294967295"
    and n: "n < 256" and init: "Init_IDT isr entries idtPointer m c out = (m', c', out')"
  shows "idtr c' = (2047, entries)
    \<and> gate_at m' entries n = (if n < 48 then (isr n, 8, 0, 0x8E) else (0, 0, 0, 0))
    \<and> out' = out @ [(0x20, 0x11), (0xA0, 0x11), (0x21, 0x20), (0xA1, 0x28), (0x21, 0x04), (0xA1, 0x02),
        (0x21, 0x01), (0xA1, 0x01), (0x21, 0), (0xA1, 0)]"
  using assms by (rule Init_IDT_spec)

theorem Init_IDT_gates_witness:
  "\<exists>m' c' out'. Init_IDT (\<lambda>n. 0x1000 + of_nat n) 0x8000 0x7000 (\<lambda>_. 0) \<lparr>gdtr = (0, 0), idtr = (0, 0),
       cs = 0, ds = 0, es = 0, fs = 0, gs = 0, ss = 0\<rparr> [] = (m', c', out')
     \<and> idtr c' = (2047, 0x8000) \<and> gate_at m' 0x8000 33 = (0x1021, 8, 0, 0x8E) \<and> length out' = 10"
proof -
  let ?c = "\<lparr>gdtr = (0, 0), idtr = (0, 0), cs = 0, ds = 0, es = 0, fs = 0, gs = 0, ss = 0\<rparr>"
  obtain m' c' out' where
      i: "Init_IDT (\<lambda>n. 0x1000 + of_nat n) 0x8000 0x7000 (\<lambda>_. 0) ?c [] = (m', c', out')"
    by (metis prod_cases3)
  from Init_IDT_gates [OF _ _ _ _ i, of 33] i show ?thesis by auto
qed

end
