(* ===== verification/Terminal.thy ===== *)
theory Terminal
  imports Libc_String
begin

text \<open>
  \<^verbatim>\<open>kernel/arch/i386/tty.cpp\<close> with \<^verbatim>\<open>vga.h\<close>, and \<^verbatim>\<open>libc/stdio/stdio.cpp\<close> compiled for the kernel
  (with \<^verbatim>\<open>__is_libk\<close>). The screen is the text buffer of the display adapter in memory, a cell has two
  bytes. Everything that prints takes and returns the terminal and the memory, because format
  strings, arguments and the screen are all in that memory.
\<close>

subsection \<open>The display adapter\<close>

definition VGA_WIDTH :: u32 where "VGA_WIDTH = 80"
definition VGA_HEIGHT :: u32 where "VGA_HEIGHT = 25"
definition VGA_MEMORY :: u32 where "VGA_MEMORY = 0xB8000"

lemmas vga_sizes = VGA_WIDTH_def VGA_HEIGHT_def VGA_MEMORY_def

datatype vga_color = VGA_COLOR_BLACK | VGA_COLOR_BLUE | VGA_COLOR_GREEN | VGA_COLOR_CYAN | VGA_COLOR_RED
  | VGA_COLOR_MAGENTA | VGA_COLOR_BROWN | VGA_COLOR_LIGHT_GREY | VGA_COLOR_DARK_GREY | VGA_COLOR_LIGHT_BLUE
  | VGA_COLOR_LIGHT_GREEN | VGA_COLOR_LIGHT_CYAN | VGA_COLOR_LIGHT_RED | VGA_COLOR_LIGHT_MAGENTA
  | VGA_COLOR_LIGHT_BROWN | VGA_COLOR_WHITE

primrec color_code :: "vga_color \<Rightarrow> u8" where
  "color_code VGA_COLOR_BLACK = 0" | "color_code VGA_COLOR_BLUE = 1" | "color_code VGA_COLOR_GREEN = 2"
| "color_code VGA_COLOR_CYAN = 3" | "color_code VGA_COLOR_RED = 4" | "color_code VGA_COLOR_MAGENTA = 5"
| "color_code VGA_COLOR_BROWN = 6" | "color_code VGA_COLOR_LIGHT_GREY = 7"
| "color_code VGA_COLOR_DARK_GREY = 8" | "color_code VGA_COLOR_LIGHT_BLUE = 9"
| "color_code VGA_COLOR_LIGHT_GREEN = 10" | "color_code VGA_COLOR_LIGHT_CYAN = 11"
| "color_code VGA_COLOR_LIGHT_RED = 12" | "color_code VGA_COLOR_LIGHT_MAGENTA = 13"
| "color_code VGA_COLOR_LIGHT_BROWN = 14" | "color_code VGA_COLOR_WHITE = 15"

definition vga_entry_color :: "vga_color \<Rightarrow> vga_color \<Rightarrow> u8" where
  "vga_entry_color fg bg = color_code fg OR push_bit 4 (color_code bg)"

definition vga_entry :: "u8 \<Rightarrow> u8 \<Rightarrow> u16" where
  "vga_entry uc color = ucast uc OR push_bit 8 (ucast color)"

subsection \<open>The terminal\<close>

record tty =
  terminal_row :: u32
  terminal_column :: u32
  terminal_color :: u8
  terminal_buffer :: u32

definition put_cell :: "tty \<Rightarrow> memory \<Rightarrow> u32 \<Rightarrow> u16 \<Rightarrow> memory" where
  "put_cell t m index v = store16 m (terminal_buffer t + 2 * index) v"

definition Initialise :: "tty \<Rightarrow> memory \<Rightarrow> tty \<times> memory" where
  "Initialise t m =
     (let t = t\<lparr>terminal_row := 0, terminal_column := 0,
                terminal_color := vga_entry_color VGA_COLOR_LIGHT_GREY VGA_COLOR_BLACK,
                terminal_buffer := VGA_MEMORY\<rparr>
      in (t, fold (\<lambda>y. fold (\<lambda>x m. put_cell t m (of_nat y * VGA_WIDTH + of_nat x)
                                      (vga_entry 32 (terminal_color t)))
                        [0..<unat VGA_WIDTH])
               [0..<unat VGA_HEIGHT] m))"

definition SetColor :: "u8 \<Rightarrow> tty \<Rightarrow> tty" where
  "SetColor color t = t\<lparr>terminal_color := color\<rparr>"

definition PutEntryAt :: "u8 \<Rightarrow> u8 \<Rightarrow> u32 \<Rightarrow> u32 \<Rightarrow> tty \<Rightarrow> memory \<Rightarrow> memory" where
  "PutEntryAt c color x y t m = put_cell t m (y * VGA_WIDTH + x) (vga_entry c color)"

definition advance :: "tty \<Rightarrow> tty" where
  "advance t =
     (let t = t\<lparr>terminal_column := terminal_column t + 1\<rparr>
      in if terminal_column t = VGA_WIDTH then
           let t = t\<lparr>terminal_column := 0\<rparr>;
               t = t\<lparr>terminal_row := terminal_row t + 1\<rparr>
           in if terminal_row t = VGA_HEIGHT then t\<lparr>terminal_row := 0\<rparr> else t
         else t)"

definition PutChar :: "u8 \<Rightarrow> tty \<Rightarrow> memory \<Rightarrow> tty \<times> memory" where
  "PutChar uc t m =
     (advance t, PutEntryAt uc (terminal_color t) (terminal_column t) (terminal_row t) t m)"

function Write_from :: "u32 \<Rightarrow> u32 \<Rightarrow> u32 \<Rightarrow> tty \<Rightarrow> memory \<Rightarrow> tty \<times> memory" where
  "Write_from data n i t m =
     (if i < n then let (t, m) = PutChar (m (data + i)) t m in Write_from data n (i + 1) t m
      else (t, m))"
  by pat_completeness auto
termination
  by (relation "measure (\<lambda>(data, n, i, t, m). unat n - unat i)") (auto simp: unat_plus_one word_less_unat)

declare Write_from.simps [simp del]

definition Write :: "u32 \<Rightarrow> u32 \<Rightarrow> tty \<Rightarrow> memory \<Rightarrow> tty \<times> memory" where
  "Write data n t m = Write_from data n 0 t m"

definition WriteString :: "u32 \<Rightarrow> tty \<Rightarrow> memory \<Rightarrow> (tty \<times> memory) option" where
  "WriteString data t m = map_option (\<lambda>n. Write data n t m) (strlen m data)"

text \<open>The constructor of the object stdio.cpp writes to.\<close>

definition TTY :: "tty \<Rightarrow> memory \<Rightarrow> tty \<times> memory" where
  "TTY t m = Initialise t m"

subsection \<open>Standard output\<close>

text \<open>putchar stores its argument in a local variable and writes that one byte.\<close>

definition putchar :: "int \<Rightarrow> tty \<Rightarrow> memory \<Rightarrow> int \<times> tty \<times> memory" where
  "putchar ic t m = (let (t, m) = PutChar (word_of_int ic) t m in (ic, t, m))"

function print_from :: "u32 \<Rightarrow> u32 \<Rightarrow> u32 \<Rightarrow> tty \<Rightarrow> memory \<Rightarrow> bool \<times> tty \<times> memory" where
  "print_from data n i t m =
     (if i < n then
        let (r, t, m) = putchar (uint (m (data + i))) t m
        in if r = -1 then (False, t, m) else print_from data n (i + 1) t m
      else (True, t, m))"
  by pat_completeness auto
termination
  by (relation "measure (\<lambda>(data, n, i, t, m). unat n - unat i)") (auto simp: unat_plus_one word_less_unat)

declare print_from.simps [simp del]

definition print :: "u32 \<Rightarrow> u32 \<Rightarrow> tty \<Rightarrow> memory \<Rightarrow> bool \<times> tty \<times> memory" where
  "print data n t m = print_from data n 0 t m"

text \<open>
  The number of characters up to the next percent sign or the end, counted from \<open>amount\<close>. Characters
  are bytes; 37, 99 and 115 are the percent sign, c and s.
\<close>

partial_function (option) plain_run :: "memory \<Rightarrow> u32 \<Rightarrow> u32 \<Rightarrow> u32 option" where
  "plain_run m format amount =
     (if m (format + amount) \<noteq> 0 \<and> m (format + amount) \<noteq> 37
      then plain_run m format (amount + 1) else Some amount)"

definition INT_MAX :: int where "INT_MAX = 2147483647"

definition maxrem :: "int \<Rightarrow> u32" where
  "maxrem written = word_of_int (INT_MAX - written)"

definition add_written :: "int \<Rightarrow> u32 \<Rightarrow> int" where
  "add_written written n = sint (word_of_int written + n :: u32)"

text \<open>
  The loop of printf. \<open>ap\<close> is the position of the next variable argument on the stack. The result
  is the value returned, the terminal and the memory; \<open>None\<close> if a loop does not end.
\<close>

partial_function (option) printf_loop ::
    "u32 \<Rightarrow> u32 \<Rightarrow> int \<Rightarrow> tty \<Rightarrow> memory \<Rightarrow> (int \<times> tty \<times> memory) option" where
  "printf_loop format ap written t m =
     (if m format = 0 then Some (written, t, m)
      else if m format \<noteq> 37 \<or> m (format + 1) = 37 then
        (let format = (if m format = 37 then format + 1 else format)
         in Option.bind (plain_run m format 1) (\<lambda>amount.
              if maxrem written < amount then Some (-1, t, m)
              else case print format amount t m of (ok, t, m) \<Rightarrow>
                if \<not> ok then Some (-1, t, m)
                else printf_loop (format + amount) ap (add_written written amount) t m))
      else if m (format + 1) = 99 then
        (let c = word_of_int (sint (load32 m ap)) :: u8
         in if maxrem written = 0 then Some (-1, t, m)
            else case putchar (uint c) t m of (r, t, m) \<Rightarrow>
              if r = -1 then Some (-1, t, m)
              else printf_loop (format + 2) (ap + 4) (add_written written 1) t m)
      else if m (format + 1) = 115 then
        (let str = load32 m ap
         in Option.bind (strlen m str) (\<lambda>n.
              if maxrem written < n then Some (-1, t, m)
              else case print str n t m of (ok, t, m) \<Rightarrow>
                if \<not> ok then Some (-1, t, m)
                else printf_loop (format + 2) (ap + 4) (add_written written n) t m))
      else
        Option.bind (strlen m format) (\<lambda>n.
          if maxrem written < n then Some (-1, t, m)
          else case print format n t m of (ok, t, m) \<Rightarrow>
            if \<not> ok then Some (-1, t, m)
            else printf_loop (format + n) ap (add_written written n) t m))"

definition printf :: "u32 \<Rightarrow> u32 \<Rightarrow> tty \<Rightarrow> memory \<Rightarrow> (int \<times> tty \<times> memory) option" where
  "printf format ap t m = printf_loop format ap 0 t m"

text \<open>puts passes its argument, at \<open>ap\<close> on the stack, to printf with a format at \<open>literal\<close>.\<close>

definition puts :: "u32 \<Rightarrow> u32 \<Rightarrow> u32 \<Rightarrow> tty \<Rightarrow> memory \<Rightarrow> (int \<times> tty \<times> memory) option" where
  "puts literal ap str t m = printf literal ap t (store32 m ap str)"

text \<open>
  abort and the stub for pure virtual functions print the message at \<open>literal\<close> and loop for ever: the
  value is the terminal and the memory they loop with, \<open>None\<close> if printf does not return.
\<close>

definition abort_kernel :: "u32 \<Rightarrow> u32 \<Rightarrow> tty \<Rightarrow> memory \<Rightarrow> (tty \<times> memory) option" where
  "abort_kernel literal ap t m = Option.bind (printf literal ap t m) (\<lambda>(_, t, m). Some (t, m))"

definition cxa_pure_virtual :: "u32 \<Rightarrow> u32 \<Rightarrow> tty \<Rightarrow> memory \<Rightarrow> (tty \<times> memory) option" where
  "cxa_pure_virtual literal ap t m = Option.bind (printf literal ap t m) (\<lambda>(_, t, m). Some (t, m))"

end
