(* ===== verification/Screen.thy ===== *)
theory Screen
  imports Terminal Word_Arrays
begin

text \<open>
  The terminal against an abstract screen: a list of 2000 cells and a position in it. Putting a
  character is an update of the list at the position and a step to the next position, cyclically;
  writing text is the fold of that, and initialising the terminal blanks the whole screen. Formatted
  output on this screen is the subject of theory Formatted_Output.
\<close>

subsection \<open>The text buffer as an array of cells\<close>

definition cell_get :: "unit \<Rightarrow> memory \<Rightarrow> nat \<Rightarrow> u16" where
  "cell_get u m k = load16 m (VGA_MEMORY + 2 * of_nat k)"

definition cell_put :: "unit \<Rightarrow> memory \<Rightarrow> nat \<Rightarrow> u16 \<Rightarrow> memory" where
  "cell_put u m k v = store16 m (VGA_MEMORY + 2 * of_nat k) v"

lemma cell_address: "k < 2000 \<Longrightarrow> unat (VGA_MEMORY + 2 * of_nat k) = 0xB8000 + 2 * k"
proof -
  assume k: "k < 2000"
  have "(VGA_MEMORY + 2 * of_nat k) = (of_nat (0xB8000 + 2 * k) :: u32)" by (simp add: VGA_MEMORY_def)
  also have "unat \<dots> = 0xB8000 + 2 * k" using k by (intro unat_of_nat32) simp
  finally show ?thesis .
qed

lemma cell_put_byte:
  "k < 2000 \<Longrightarrow> unat x < 0xB8000 + 2 * k \<or> 0xB8000 + 2 * k + 2 \<le> unat x \<Longrightarrow> cell_put u m k v x = m x"
  unfolding cell_put_def
  by (rule store16_frame) (auto simp: offset_less_iff cell_address)

interpretation screen: word_array cell_get cell_put "\<lambda>_. 2000" "\<lambda>_. True"
proof
  fix u m k v
  show "cell_get u (cell_put u m k v) k = v" by (simp add: cell_get_def cell_put_def)
next
  fix u m k j v assume kj: "k < (2000 :: nat)" "j < (2000 :: nat)" "j \<noteq> k"
  show "cell_get u (cell_put u m k v) j = cell_get u m j"
    unfolding cell_get_def
  proof (rule load16_cong)
    fix x :: u32 assume "x - (VGA_MEMORY + 2 * of_nat j) < 2"
    then have "0xB8000 + 2 * j \<le> unat x" "unat x < 0xB8000 + 2 * j + 2"
      using kj(2) by (auto simp: offset_less_iff cell_address)
    with kj show "cell_put u m k v x = m x" by (intro cell_put_byte) auto
  qed
qed

subsection \<open>The abstract screen\<close>

type_synonym screen = "nat \<times> u16 list"

definition type_char :: "u8 \<Rightarrow> u8 \<Rightarrow> screen \<Rightarrow> screen" where
  "type_char color c = (\<lambda>(p, cells). (Suc p mod 2000, cells[p := vga_entry c color]))"

definition tty_ok :: "tty \<Rightarrow> bool" where
  "tty_ok t \<longleftrightarrow> terminal_row t < VGA_HEIGHT \<and> terminal_column t < VGA_WIDTH \<and> terminal_buffer t = VGA_MEMORY"

definition position :: "tty \<Rightarrow> nat" where
  "position t = unat (terminal_row t) * 80 + unat (terminal_column t)"

definition abs_screen :: "tty \<times> memory \<Rightarrow> screen" where
  "abs_screen = (\<lambda>(t, m). (position t, screen.view () m 2000))"

lemma tty_okD:
  assumes "tty_ok t"
  shows "unat (terminal_row t) < 25" "unat (terminal_column t) < 80" "position t < 2000"
  using assms by (auto simp: tty_ok_def vga_sizes word_less_unat position_def)

lemma advance_position:
  assumes "tty_ok t"
  shows "tty_ok (advance t)" and "position (advance t) = Suc (position t) mod 2000"
    and "terminal_color (advance t) = terminal_color t"
proof -
  note b = tty_okD [OF assms]
  have col: "unat (terminal_column t + 1) = Suc (unat (terminal_column t))"
    using b by (subst unat_add_no_wrap) auto
  have row: "unat (terminal_row t + 1) = Suc (unat (terminal_row t))"
    using b by (subst unat_add_no_wrap) auto
  have ceq: "terminal_column t = 79 \<longleftrightarrow> unat (terminal_column t) = 79"
    and req: "terminal_row t = 24 \<longleftrightarrow> unat (terminal_row t) = 24"
    by (simp_all add: word_eq_unat)
  show "tty_ok (advance t)"
    using assms b by (auto simp: advance_def tty_ok_def vga_sizes Let_def word_less_unat col row ceq req)
  show "position (advance t) = Suc (position t) mod 2000"
    using b by (auto simp: advance_def position_def vga_sizes Let_def col row ceq req)
  show "terminal_color (advance t) = terminal_color t" by (simp add: advance_def Let_def)
qed

lemma PutChar_cell:
  assumes "tty_ok t"
  shows "PutChar c t m = (advance t, cell_put () m (position t) (vga_entry c (terminal_color t)))"
proof -
  have "terminal_row t * VGA_WIDTH + terminal_column t = of_nat (position t)"
    by (simp add: position_def VGA_WIDTH_def)
  then show ?thesis
    using assms by (simp add: PutChar_def PutEntryAt_def put_cell_def cell_put_def tty_ok_def)
qed

lemma cell_put_frame:
  "k < 2000 \<Longrightarrow> same_outside 0xB8000 0xB8FA0 m (cell_put u m k v)"
  unfolding same_outside_def by (intro allI impI cell_put_byte) auto

lemma PutChar_spec:
  assumes ok: "tty_ok t" and put: "PutChar c t m = (t', m')"
  shows "tty_ok t'" and "abs_screen (t', m') = type_char (terminal_color t) c (abs_screen (t, m))"
    and "same_outside 0xB8000 0xB8FA0 m m'" and "terminal_color t' = terminal_color t"
  using put tty_okD(3) [OF ok] advance_position [OF ok] cell_put_frame [OF tty_okD(3) [OF ok]]
  by (auto simp: PutChar_cell [OF ok] abs_screen_def type_char_def screen.view_put)

subsection \<open>Clearing the screen\<close>

lemma fill_row:
  fixes v :: u16 and m :: memory and b n :: nat
  assumes "b + n \<le> 2000"
  defines "m' \<equiv> fold (\<lambda>x m. cell_put () m (b + x) v) [0..<n] m"
  shows "(\<forall>k < 2000. cell_get () m' k = (if b \<le> k \<and> k < b + n then v else cell_get () m k))
    \<and> same_outside 0xB8000 0xB8FA0 m m'"
  using assms(1) unfolding m'_def
proof (induction n)
  case (Suc n)
  then show ?case
    by (auto simp: screen.get_put_same screen.get_put_other less_Suc_eq intro: same_outside_trans [OF _ cell_put_frame])
qed auto

lemma fill_rows:
  fixes v :: u16 and m :: memory and n :: nat
  assumes "n \<le> 25"
  defines "m' \<equiv> fold (\<lambda>y. fold (\<lambda>x m. cell_put () m (y * 80 + x) v) [0..<80]) [0..<n] m"
  shows "(\<forall>k < 2000. cell_get () m' k = (if k < n * 80 then v else cell_get () m k)) \<and> same_outside 0xB8000 0xB8FA0 m m'"
  using assms(1) unfolding m'_def
proof (induction n)
  case (Suc n)
  let ?m = "fold (\<lambda>y. fold (\<lambda>x m. cell_put () m (y * 80 + x) v) [0..<80]) [0..<n] m"
  have IH: "\<And>k. k < 2000 \<Longrightarrow> cell_get () ?m k = (if k < n * 80 then v else cell_get () m k)"
      "same_outside 0xB8000 0xB8FA0 m ?m"
    using Suc by auto
  have fits: "n * 80 + 80 \<le> 2000" using Suc.prems by simp
  have step: "fold (\<lambda>y. fold (\<lambda>x m. cell_put () m (y * 80 + x) v) [0..<80]) [0..<Suc n] m
      = fold (\<lambda>x m. cell_put () m (n * 80 + x) v) [0..<80] ?m"
    by (simp only: upt_Suc_append [OF le0] fold_append comp_apply fold_simps)
  have "(if n * 80 \<le> k \<and> k < n * 80 + 80 then v else if k < n * 80 then v else c) = (if k < Suc n * 80 then v else c)"
    for k and c :: u16 by auto
  with fill_row [OF fits, of v ?m] IH show ?case unfolding step by (auto intro: same_outside_trans)
qed simp

text \<open>
  Initialise shows a blank screen in light grey on black with the cursor in the first cell and
  changes no memory outside the text buffer; the terminal it leaves is one on which the cursor stays
  on the screen.
\<close>

lemma Initialise_blank_screen:
  assumes "Initialise t m = (t', m')"
  shows "tty_ok t' \<and> terminal_color t' = 7 \<and> abs_screen (t', m') = (0, replicate 2000 (vga_entry 32 7))
    \<and> same_outside 0xB8000 0xB8FA0 m m'"
proof -
  let ?v = "vga_entry 32 7"
  have t': "t' = t\<lparr>terminal_row := 0, terminal_column := 0, terminal_color := 7, terminal_buffer := VGA_MEMORY\<rparr>"
    using assms by (simp add: Initialise_def Let_def vga_entry_color_def)
  have put: "put_cell t' mm (of_nat y * 80 + of_nat x) (vga_entry 32 (terminal_color t'))
      = cell_put () mm (y * 80 + x) ?v" for mm x y
    by (simp add: t' put_cell_def cell_put_def)
  have "m' = fold (\<lambda>y. fold (\<lambda>x m. cell_put () m (y * 80 + x) ?v) [0..<80]) [0..<25] m"
    using assms by (simp add: Initialise_def Let_def vga_entry_color_def t' [symmetric] put vga_sizes(1,2)
        del: upt_conv_Cons_Cons upt.simps)
  with fill_rows [of 25 ?v m]
  have cells: "\<And>k. k < 2000 \<Longrightarrow> cell_get () m' k = ?v" and fr: "same_outside 0xB8000 0xB8FA0 m m'" by auto
  have "screen.view () m' 2000 = replicate 2000 ?v"
    by (rule nth_equalityI) (simp_all add: cells)
  with fr show ?thesis by (simp add: t' tty_ok_def vga_sizes abs_screen_def position_def)
qed

subsection \<open>Writing text\<close>

text \<open>Memory from \<open>data\<close> on, \<open>n\<close> bytes, that does not touch the text buffer.\<close>

definition off_screen :: "u32 \<Rightarrow> nat \<Rightarrow> bool" where
  "off_screen data n \<longleftrightarrow> unat data + n \<le> 4294967295 \<and> (unat data + n \<le> 0xB8000 \<or> 0xB8FA0 \<le> unat data)"

lemma off_screen_byte:
  assumes "off_screen data n" and "k < n" and fr: "same_outside 0xB8000 0xB8FA0 m m'"
  shows "m' (data + of_nat k) = m (data + of_nat k)"
proof -
  have "unat (data + of_nat k) = unat data + k"
    using assms(1,2) by (subst unat_add_no_wrap) (auto simp: off_screen_def unat_of_nat32)
  then show ?thesis using assms(1,2) by (intro same_outside_byte [OF fr]) (auto simp: off_screen_def)
qed

lemma Write_from_refines:
  assumes off: "off_screen data (unat n)"
  shows "i \<le> n \<Longrightarrow> tty_ok t \<Longrightarrow> Write_from data n i t m = (t', m') \<Longrightarrow>
    tty_ok t' \<and> terminal_color t' = terminal_color t \<and> same_outside 0xB8000 0xB8FA0 m m'
    \<and> abs_screen (t', m') = fold (type_char (terminal_color t))
        (map (\<lambda>k. m (data + of_nat k)) [unat i..<unat n]) (abs_screen (t, m))"
proof (induction "unat n - unat i" arbitrary: i t m)
  case 0
  then show ?case by (auto simp: Write_from.simps [of data n i] word_less_unat)
next
  case (Suc c)
  have lt: "i < n" using Suc.hyps(2) by (simp add: word_less_unat)
  have succ: "unat (i + 1) = Suc (unat i)" using lt by (rule unat_plus_one)
  obtain t1 m1 where put: "PutChar (m (data + i)) t m = (t1, m1)" by fastforce
  note P = PutChar_spec [OF Suc.prems(2) put]
  have rest: "Write_from data n (i + 1) t1 m1 = (t', m')"
    using Suc.prems(3) lt put by (simp add: Write_from.simps [of data n i])
  have "c = unat n - unat (i + 1)" using Suc.hyps(2) succ by simp
  note IH = Suc.hyps(1) [OF this inc_le [OF lt] P(1) rest]
  have bytes: "map (\<lambda>k. m1 (data + of_nat k)) [unat (i + 1)..<unat n]
      = map (\<lambda>k. m (data + of_nat k)) [unat (i + 1)..<unat n]"
    by (rule map_cong) (auto intro: off_screen_byte [OF off _ P(3)])
  have "[unat i..<unat n] = unat i # [unat (i + 1)..<unat n]"
    using lt succ by (simp add: upt_conv_Cons word_less_unat)
  then have "fold (type_char (terminal_color t)) (map (\<lambda>k. m (data + of_nat k)) [unat i..<unat n]) (abs_screen (t, m))
      = fold (type_char (terminal_color t)) (map (\<lambda>k. m (data + of_nat k)) [unat (i + 1)..<unat n]) (abs_screen (t1, m1))"
    by (simp add: P(2))
  with IH bytes P(3,4) show ?case by (auto intro: same_outside_trans)
qed

lemma print_from_Write: "print_from data n i t m = (True, Write_from data n i t m)"
proof (induction data n i t m rule: Write_from.induct)
  case (1 data n i t m)
  show ?case
  proof (cases "i < n")
    case True
    have "uint (m (data + i)) \<noteq> -1" using uint_ge_0 [of "m (data + i)"] by linarith
    with 1 [OF True] True show ?thesis
      by (simp add: print_from.simps [of data n i] Write_from.simps [of data n i] putchar_def case_prod_beta Let_def)
  next
    case False
    then show ?thesis by (simp add: print_from.simps [of data n i] Write_from.simps [of data n i])
  qed
qed

lemma print_Write: "print data n t m = (True, Write data n t m)"
  by (simp add: print_def Write_def print_from_Write)

text \<open>
  C35: writing \<open>n\<close> bytes that lie outside the text buffer shows exactly these bytes, in order, from the
  cursor on, and changes no other memory; the cursor stays on the screen.
\<close>

theorem Write_refines:
  assumes off: "off_screen data (unat n)" and ok: "tty_ok t" and w: "Write data n t m = (t', m')"
  shows "tty_ok t' \<and> abs_screen (t', m') = fold (type_char (terminal_color t))
        (map (\<lambda>k. m (data + of_nat k)) [0..<unat n]) (abs_screen (t, m))
    \<and> same_outside 0xB8000 0xB8FA0 m m'"
  using Write_from_refines [OF off _ ok w [unfolded Write_def]] by simp

theorem Write_refines_witness:
  "\<exists>t' m'. Write 0x5000 3 \<lparr>terminal_row = 0, terminal_column = 0, terminal_color = 7, terminal_buffer = VGA_MEMORY\<rparr>
       (\<lambda>_. 0) = (t', m') \<and> tty_ok t' \<and> position t' = 3"
proof -
  let ?t = "\<lparr>terminal_row = 0, terminal_column = 0, terminal_color = 7, terminal_buffer = VGA_MEMORY\<rparr>"
  have ok: "tty_ok ?t" by (simp add: tty_ok_def vga_sizes)
  obtain t' m' where w: "Write 0x5000 3 ?t (\<lambda>_. 0) = (t', m')" by fastforce
  have "off_screen 0x5000 (unat (3 :: u32))" by (simp add: off_screen_def)
  from Write_refines [OF this ok w] w show ?thesis
    by (auto simp: abs_screen_def type_char_def position_def upt_rec)
qed

subsection \<open>Formatted output\<close>

lemma cstr_end: "cstr m s xs \<Longrightarrow> m (s + of_nat (length xs)) = 0"
  by (induction xs arbitrary: s) (auto simp: ac_simps, metis add.assoc)

end
