(* ===== verification/Interrupts.thy ===== *)
theory Interrupts
  imports Fork Descriptor_Tables Screen "HOL-Library.Signed_Division"
begin

text \<open>
  The interrupt side of the kernel: the dispatcher and the table of handlers of
  \<^verbatim>\<open>InterruptDescriptorTable.cpp\<close>, the timer of \<^verbatim>\<open>kernel/Timer.cpp\<close> and the keyboard of
  \<^verbatim>\<open>kernel/Keyboard.h\<close>. The machine is the kernel state with the terminal, the bytes written to
  ports, and what a read from a port yields. The record also has the addresses the linker chose for
  the handlers, the table of handlers and the format string, and the stack slot of the argument
  of printf.
\<close>

record machine =
  sys :: kernel
  console :: tty
  out_ports :: port_writes
  in_port :: "u16 \<Rightarrow> u8"
  ticks :: u32
  irq_routines :: u32
  literal_c :: u32
  arg_slot :: u32
  code_TickHandler :: u32
  code_keyboard_handler :: u32

definition inb :: "u16 \<Rightarrow> machine \<Rightarrow> u8" where
  "inb port s = in_port s port"

text \<open>A port of 16 bits is two consecutive ports of one byte.\<close>

definition inw :: "u16 \<Rightarrow> machine \<Rightarrow> u16" where
  "inw port s = ucast (in_port s port) OR push_bit 8 (ucast (in_port s (port + 1)))"

lemma inw_bytes: "ucast (inw port s) = in_port s port" "ucast (drop_bit 8 (inw port s)) = in_port s (port + 1)"
  by (rule bit_word_eqI; auto simp: inw_def bit_simps dest: bit_imp_le_length)+

definition set_ram :: "memory \<Rightarrow> machine \<Rightarrow> machine" where
  "set_ram m s = s\<lparr>sys := (sys s)\<lparr>ram := m\<rparr>\<rparr>"

definition out :: "u16 \<Rightarrow> u8 \<Rightarrow> machine \<Rightarrow> machine" where
  "out port v s = s\<lparr>out_ports := outb port v (out_ports s)\<rparr>"

definition InstallHandler :: "u32 \<Rightarrow> u32 \<Rightarrow> machine \<Rightarrow> machine" where
  "InstallHandler interruptNumber handler s =
     set_ram (store32 (ram (sys s)) (irq_routines s + 4 * interruptNumber) handler) s"

definition UninstallHandler :: "u32 \<Rightarrow> machine \<Rightarrow> machine" where
  "UninstallHandler interruptNumber s =
     set_ram (store32 (ram (sys s)) (irq_routines s + 4 * interruptNumber) 0) s"

subsection \<open>The timer\<close>

definition TimerPhase :: "int \<Rightarrow> machine \<Rightarrow> fault + machine" where
  "TimerPhase frequency s =
     (if frequency = 0 then Inl DivideError
      else let divisor = 1193180 sdiv frequency;
               s = out 0x43 0x36 s;
               s = out 0x40 (word_of_int (divisor AND 0xFF)) s
           in Inr (out 0x40 (word_of_int (drop_bit 8 divisor)) s))"

definition Timer_init :: "int \<Rightarrow> machine \<Rightarrow> fault + machine" where
  "Timer_init frequency s =
     rbind (TimerPhase frequency s) (\<lambda>s. Inr (InstallHandler 0 (code_TickHandler s) s))"

text \<open>The registers read by switch_task: the return address of read_eip, ESP and EBP.\<close>

type_synonym context_regs = "u32 \<times> u32 \<times> u32"

definition TickHandler :: "context_regs \<Rightarrow> machine \<Rightarrow> control \<times> machine" where
  "TickHandler regs s =
     (let s = s\<lparr>ticks := ticks s + 1\<rparr>;
          (eip, esp, ebp) = regs;
          (c, k) = switch_task eip esp ebp (sys s)
      in (c, s\<lparr>sys := k\<rparr>))"

subsection \<open>The keyboard\<close>

definition KEYBOARD_DATA_PORT :: u16 where "KEYBOARD_DATA_PORT = 0x60"

definition CharacterMap :: "u8 list" where
  "CharacterMap =
     [0, 27, 49, 50, 51, 52, 53, 54, 55, 56, 57, 48, 45, 61, 8, 9,
      113, 119, 101, 114, 116, 121, 117, 105, 111, 112, 91, 93, 10, 0,
      97, 115, 100, 102, 103, 104, 106, 107, 108, 59, 39, 96, 0,
      92, 122, 120, 99, 118, 98, 110, 109, 44, 46, 47, 0, 42, 0, 32, 0,
      0, 0, 0, 0, 0, 0, 0, 0, 0, 0, 0, 0, 0, 0, 0, 45, 0, 0, 0, 43]
     @ replicate 49 0"

definition keyboard_handler :: "machine \<Rightarrow> fault + machine" where
  "keyboard_handler s =
     (let scancode = inb KEYBOARD_DATA_PORT s
      in if scancode AND 0x80 \<noteq> 0 then Inr s
         else let m = store32 (ram (sys s)) (arg_slot s) (ucast (CharacterMap ! unat scancode))
              in case printf (literal_c s) (arg_slot s) (console s) m of
                   None \<Rightarrow> Inl (Spin ''printf'')
                 | Some (_, t, m) \<Rightarrow> Inr (set_ram m (s\<lparr>console := t\<rparr>)))"

subsection \<open>The dispatchers\<close>

text \<open>A call through the table of handlers; a null pointer is not called.\<close>

definition run_handler :: "u32 \<Rightarrow> context_regs \<Rightarrow> machine \<Rightarrow> fault + (control \<times> machine)" where
  "run_handler handler regs s =
     (if handler = 0 then Inr (Returns, s)
      else if handler = code_TickHandler s then Inr (TickHandler regs s)
      else if handler = code_keyboard_handler s then rbind (keyboard_handler s) (\<lambda>s. Inr (Returns, s))
      else Inl (BadCall handler))"

text \<open>The end-of-interrupt commands, which only a handler that returns lets the dispatcher reach.\<close>

definition send_eoi :: "u32 \<Rightarrow> machine \<Rightarrow> machine" where
  "send_eoi int_no s =
     (let s = (if int_no \<ge> 40 then out 0xA0 0x20 s else s)
      in out 0x20 0x20 s)"

definition irq_handler :: "u32 \<Rightarrow> context_regs \<Rightarrow> machine \<Rightarrow> fault + (control \<times> machine)" where
  "irq_handler int_no regs s =
     (let handler = load32 (ram (sys s)) (irq_routines s + 4 * (int_no - 32))
      in rbind (run_handler handler regs s) (\<lambda>(c, s).
           case c of Returns \<Rightarrow> Inr (Returns, send_eoi int_no s) | Jump _ _ _ _ \<Rightarrow> Inr (c, s)))"

text \<open>
  The exception handler prints the message at \<open>literal\<close> and spins forever: the result is the machine
  it spins with, \<open>None\<close> if printf does not return.
\<close>

definition isr_handler :: "u32 \<Rightarrow> machine \<Rightarrow> machine option" where
  "isr_handler literal s =
     (case printf literal (arg_slot s) (console s) (ram (sys s)) of
        None \<Rightarrow> None
      | Some (_, t, m) \<Rightarrow> Some (set_ram m (s\<lparr>console := t\<rparr>)))"

end
