(* ===== verification/Interrupt_Properties.thy ===== *)
theory Interrupt_Properties
  imports Interrupts
begin

text \<open>
  Properties of the interrupt side: which commands reach the interrupt controllers, which divisor
  the timer is programmed with, and what a key press shows.
\<close>

lemma load32_InstallHandler:
  "load32 (ram (sys (InstallHandler n h s))) (irq_routines s + 4 * n) = h"
  by (simp add: InstallHandler_def set_ram_def)

text \<open>
  C38: an interrupt request whose handler returns is acknowledged after the handler: the slave
  controller gets the end-of-interrupt command exactly for the vectors from 40 on, then the master
  controller always.
\<close>

theorem irq_acknowledged:
  assumes "irq_handler int_no regs s = Inr (Returns, s')"
  shows "\<exists>s1. run_handler (load32 (ram (sys s)) (irq_routines s + 4 * (int_no - 32))) regs s = Inr (Returns, s1)
    \<and> out_ports s' = out_ports s1 @ (if 40 \<le> int_no then [(0xA0, 0x20)] else []) @ [(0x20, 0x20)]
    \<and> sys s' = sys s1"
proof -
  obtain c s1 where run: "run_handler (load32 (ram (sys s)) (irq_routines s + 4 * (int_no - 32))) regs s = Inr (c, s1)"
      and res: "(case c of Returns \<Rightarrow> Inr (Returns, send_eoi int_no s1) | Jump _ _ _ _ \<Rightarrow> Inr (c, s1))
        = (Inr (Returns, s') :: fault + control \<times> machine)"
    using assms unfolding irq_handler_def Let_def by (auto elim!: rbind_InrE)
  show ?thesis
  proof (cases c)
    case Returns
    with res have "s' = send_eoi int_no s1" by simp
    with run Returns show ?thesis
      by (intro exI [of _ s1]) (simp add: send_eoi_def out_def outb_def Let_def)
  qed (use res in simp)
qed

definition demo_machine :: "memory \<Rightarrow> machine" where
  "demo_machine m = \<lparr>sys = two_tasks\<lparr>ram := m\<rparr>,
     console = \<lparr>terminal_row = 0, terminal_column = 0, terminal_color = 7, terminal_buffer = VGA_MEMORY\<rparr>,
     out_ports = [], in_port = (\<lambda>_. 0x1E), ticks = 0, irq_routines = 0x6000, literal_c = 0x5000,
     arg_slot = 0x7000, code_TickHandler = 0x111, code_keyboard_handler = 0x222\<rparr>"

theorem irq_acknowledged_witness:
  "\<exists>s'. irq_handler 41 (0, 0, 0) (demo_machine (\<lambda>_. 0)) = Inr (Returns, s')
     \<and> out_ports s' = [(0xA0, 0x20), (0x20, 0x20)]"
proof -
  obtain s' where r: "irq_handler 41 (0, 0, 0) (demo_machine (\<lambda>_. 0)) = Inr (Returns, s')"
    by (simp add: irq_handler_def run_handler_def demo_machine_def)
  from irq_acknowledged [OF r] r show ?thesis by (auto simp: run_handler_def demo_machine_def)
qed

text \<open>
  C40: once tasking is initialised the timer interrupt does not return to the dispatcher: control
  jumps into the next task and no end-of-interrupt command is sent before that task runs.
\<close>

theorem timer_switches_without_acknowledge:
  assumes task: "current_task (sys s) \<noteq> 0" and code: "code_TickHandler s \<noteq> 0"
    and installed: "load32 (ram (sys s)) (irq_routines s) = code_TickHandler s"
  shows "\<exists>c s'. irq_handler 32 regs s = Inr (c, s') \<and> c \<noteq> Returns \<and> out_ports s' = out_ports s
    \<and> ticks s' = ticks s + 1"
proof -
  obtain eip esp ebp where regs: "regs = (eip, esp, ebp)" by (cases regs)
  obtain e p b a k where sw: "switch_task eip esp ebp (sys s) = (Jump e p b a, k)"
    using task by (simp add: switch_task_def switch_after_eip Let_def)
  show ?thesis
    using code installed sw
    by (simp add: irq_handler_def run_handler_def TickHandler_def regs Let_def)
qed

theorem timer_switches_without_acknowledge_witness:
  "\<exists>c s'. irq_handler 32 (1, 2, 3) (demo_machine (store32 (\<lambda>_. 0) 0x6000 0x111)) = Inr (c, s')
     \<and> c \<noteq> Returns \<and> out_ports s' = []"
  using timer_switches_without_acknowledge [of "demo_machine (store32 (\<lambda>_. 0) 0x6000 0x111)" "(1, 2, 3)"]
  by (auto simp: demo_machine_def two_tasks_def)

subsection \<open>The timer divisor\<close>

text \<open>
  C39: for every frequency from 19 Hz up to the clock rate the timer is programmed in mode 3 with the
  quotient of the clock rate and the frequency, sent as low and high byte.
\<close>

theorem TimerPhase_divisor:
  assumes "19 \<le> frequency" and "frequency \<le> 1193180"
  shows "\<exists>lo hi s'. TimerPhase frequency s = Inr s'
    \<and> out_ports s' = out_ports s @ [(0x43, 0x36), (0x40, lo), (0x40, hi)]
    \<and> uint lo + 256 * uint hi = 1193180 div frequency \<and> 1 \<le> 1193180 div frequency"
proof -
  define d where "d = 1193180 div frequency"
  have sd: "1193180 sdiv frequency = d" using assms by (simp add: signed_divide_int_def d_def)
  have "d \<le> 1193180 div 19" unfolding d_def by (rule zdiv_mono2) (use assms in auto)
  then have d: "0 \<le> d" "d < 65536" using assms by (simp_all add: d_def pos_imp_zdiv_nonneg_iff)
  have lo: "uint (word_of_int (d AND 0xFF) :: u8) = d mod 256"
  proof -
    have "d AND 0xFF = take_bit 8 d" by (simp add: take_bit_eq_mask mask_eq_exp_minus_1)
    then show ?thesis by (simp add: take_bit_eq_mod uint_word_of_int)
  qed
  have hi: "uint (word_of_int (drop_bit 8 d) :: u8) = d div 256"
    using d by (simp add: drop_bit_eq_div uint_word_of_int)
  have "1 \<le> d" unfolding d_def using assms by (simp add: zdiv_mono2 pos_imp_zdiv_pos_iff [of frequency 1193180] int_one_le_iff_zero_less)
  with assms sd lo hi show ?thesis
    unfolding d_def [symmetric]
    by (intro exI [of _ "word_of_int (d AND 0xFF)"] exI [of _ "word_of_int (drop_bit 8 d)"])
       (simp add: TimerPhase_def Let_def out_def outb_def)
qed

theorem TimerPhase_divisor_witness:
  "\<exists>lo hi s'. TimerPhase 100 (demo_machine (\<lambda>_. 0)) = Inr s'
     \<and> out_ports s' = [(0x43, 0x36), (0x40, lo), (0x40, hi)] \<and> uint lo + 256 * uint hi = 11931"
  using TimerPhase_divisor [of 100 "demo_machine (\<lambda>_. 0)"] by (auto simp: demo_machine_def)

subsection \<open>Key presses\<close>

lemma printf_char:
  assumes "m fmt = 37" "m (fmt + 1) = 99" "m (fmt + 2) = 0" and off: "off_screen fmt 3" and ok: "tty_ok t"
    and arg: "load32 m ap = ucast c"
  shows "printf fmt ap t m = Some (1, PutChar c t m)"
proof -
  obtain t' m' where put: "PutChar c t m = (t', m')" by fastforce
  have "m' (fmt + of_nat 2) = m (fmt + of_nat 2)"
    by (rule off_screen_byte [OF off _ PutChar_spec(3) [OF ok put]]) simp
  then have stop: "m' (fmt + 2) = 0" using assms(3) by simp
  have c: "(word_of_int (sint (load32 m ap)) :: u8) = c" unfolding arg
    by (rule bit_word_eqI) (auto simp: bit_simps)
  have "uint c \<noteq> -1" using uint_ge_0 [of c] by linarith
  moreover have "maxrem 0 \<noteq> 0" by (simp add: maxrem_def INT_MAX_def)
  moreover have "add_written 0 1 = 1" by (simp add: add_written_def)
  ultimately have "printf fmt ap t m = printf_loop (fmt + 2) (ap + 4) 1 t' m'"
    unfolding printf_def printf_loop.simps [of fmt] using assms(1,2) put c
    by (simp add: putchar_def Let_def)
  also have "\<dots> = Some (1, t', m')" using stop by (simp add: printf_loop.simps)
  finally show ?thesis using put by simp
qed

lemma screen_store32:
  assumes "off_screen a 4"
  shows "screen.view () (store32 m a v) 2000 = screen.view () m 2000"
proof (rule nth_equalityI)
  fix k assume "k < length (screen.view () (store32 m a v) 2000)"
  then have k: "k < 2000" by simp
  have "cell_get () (store32 m a v) k = cell_get () m k"
    unfolding cell_get_def
  proof (rule load16_cong)
    fix x :: u32 assume "x - (VGA_MEMORY + 2 * of_nat k) < 2"
    then have "0xB8000 + 2 * k \<le> unat x" "unat x < 0xB8000 + 2 * k + 2"
      using k by (auto simp: offset_less_iff cell_address)
    then have "\<not> x - a < 4" using assms k by (auto simp: offset_less_iff off_screen_def)
    then show "store32 m a v x = m x" by (rule store32_frame)
  qed
  with k show "screen.view () (store32 m a v) 2000 ! k = screen.view () m 2000 ! k" by simp
qed simp

text \<open>A key press in detail: what the handler changes.\<close>

lemma keyboard_press:
  assumes ok: "tty_ok (console s)" and fmt: "cstr (ram (sys s)) (literal_c s) [37, 99]"
    and off: "off_screen (literal_c s) 3" "off_screen (arg_slot s) 4"
    and sep: "unat (literal_c s) + 3 \<le> unat (arg_slot s) \<or> unat (arg_slot s) + 4 \<le> unat (literal_c s)"
    and press: "\<not> bit (in_port s 0x60) 7"
  shows "\<exists>t' m'. keyboard_handler s = Inr (set_ram m' (s\<lparr>console := t'\<rparr>)) \<and> tty_ok t'
    \<and> abs_screen (t', m') = type_char (terminal_color (console s)) (CharacterMap ! unat (in_port s 0x60))
          (abs_screen (console s, ram (sys s)))
    \<and> (\<forall>x. (unat x < 0xB8000 \<or> 0xB8FA0 \<le> unat x) \<and> (unat x < unat (arg_slot s) \<or> unat (arg_slot s) + 4 \<le> unat x)
          \<longrightarrow> m' x = ram (sys s) x)"
proof -
  define c where "c = CharacterMap ! unat (in_port s 0x60)"
  define m where "m = store32 (ram (sys s)) (arg_slot s) (ucast c)"
  obtain t' m' where put: "PutChar c (console s) m = (t', m')" by fastforce
  have fr: "same_outside (unat (arg_slot s)) (unat (arg_slot s) + 4) (ram (sys s)) m"
    unfolding m_def by (rule same_outside_store32) (use off(2) in \<open>auto simp: off_screen_def\<close>)
  from fr have byte: "m (literal_c s + of_nat k) = ram (sys s) (literal_c s + of_nat k)" if "k < 3" for k
  proof (rule same_outside_byte)
    have "unat (literal_c s + of_nat k) = unat (literal_c s) + k"
      using off(1) that by (subst unat_add_no_wrap) (auto simp: off_screen_def unat_of_nat32)
    then show "unat (literal_c s + of_nat k) < unat (arg_slot s) \<or> unat (arg_slot s) + 4 \<le> unat (literal_c s + of_nat k)"
      using sep that by linarith
  qed
  have "literal_c s + 1 + 1 = literal_c s + 2" by simp
  with fmt have "ram (sys s) (literal_c s) = 37" "ram (sys s) (literal_c s + 1) = 99"
      "ram (sys s) (literal_c s + 2) = 0"
    by (simp_all only: cstr.simps)
  then have fmt': "m (literal_c s) = 37" "m (literal_c s + 1) = 99" "m (literal_c s + 2) = 0"
    using byte [of 0] byte [of 1] byte [of 2] by simp_all
  have "load32 m (arg_slot s) = ucast c" by (simp add: m_def)
  from printf_char [OF fmt' off(1) ok this]
  have "printf (literal_c s) (arg_slot s) (console s) m = Some (1, t', m')" unfolding put .
  then have "keyboard_handler s = Inr (set_ram m' (s\<lparr>console := t'\<rparr>))"
    using press and_power_bit [of "in_port s 0x60" 7]
    by (simp add: keyboard_handler_def inb_def KEYBOARD_DATA_PORT_def Let_def m_def c_def)
  moreover have "abs_screen (console s, m) = abs_screen (console s, ram (sys s))"
    by (simp add: abs_screen_def m_def screen_store32 [OF off(2)])
  moreover have "m' x = ram (sys s) x" if "unat x < 0xB8000 \<or> 0xB8FA0 \<le> unat x" "unat x < unat (arg_slot s) \<or> unat (arg_slot s) + 4 \<le> unat x" for x
    using same_outside_byte [OF PutChar_spec(3) [OF ok put] that(1)] same_outside_byte [OF fr that(2)] by simp
  ultimately show ?thesis
    using PutChar_spec(1,2) [OF ok put] by (intro exI [of _ t'] exI [of _ m']) (simp add: c_def)
qed

text \<open>
  The release of a key changes nothing; a key press shows the character the map has for its scan
  code at the cursor and advances the cursor.
\<close>

lemma keyboard_shows_character:
  assumes ok: "tty_ok (console s)" and fmt: "cstr (ram (sys s)) (literal_c s) [37, 99]"
    and off: "off_screen (literal_c s) 3" "off_screen (arg_slot s) 4"
    and sep: "unat (literal_c s) + 3 \<le> unat (arg_slot s) \<or> unat (arg_slot s) + 4 \<le> unat (literal_c s)"
    and code: "code = in_port s 0x60"
  shows "if bit code 7 then keyboard_handler s = Inr s
    else \<exists>s'. keyboard_handler s = Inr s' \<and> tty_ok (console s')
      \<and> abs_screen (console s', ram (sys s')) =
          type_char (terminal_color (console s)) (CharacterMap ! unat code) (abs_screen (console s, ram (sys s)))"
proof (cases "bit code 7")
  case True
  then show ?thesis using and_power_bit [of code 7] code by (simp add: keyboard_handler_def inb_def KEYBOARD_DATA_PORT_def Let_def)
next
  case False
  with keyboard_press [OF ok fmt off sep] code show ?thesis by (auto simp: set_ram_def)
qed

end
