(* ===== verification/Interrupt_Run.thy ===== *)
theory Interrupt_Run
  imports Interrupt_Properties Fork
begin

text \<open>
  The machine under interrupts: a step is one interrupt request, with any registers and any byte at
  the keyboard, or a task that was switched to and continues inside switch_task. \<open>machine_ok\<close> is the well-formedness that every step keeps and under which no request
  faults; it says which of the memory of the kernel has to stay apart.
\<close>

text \<open>Pairwise separate regions of memory, each an address and a length.\<close>

fun separate :: "(u32 \<times> nat) list \<Rightarrow> bool" where
  "separate [] = True"
| "separate ((a, n) # rs) =
     (unat a + n \<le> 4294967295 \<and> (\<forall>(b, k) \<in> set rs. unat a + n \<le> unat b \<or> unat b + k \<le> unat a) \<and> separate rs)"

definition irq_table :: "machine \<Rightarrow> bool" where
  "irq_table s \<longleftrightarrow> (\<forall>k < 16. load32 (ram (sys s)) (irq_routines s + 4 * of_nat k) =
     (if k = 0 then code_TickHandler s else if k = 1 then code_keyboard_handler s else 0))"

definition machine_regions :: "machine \<Rightarrow> u32 list \<Rightarrow> (u32 \<times> nat) list" where
  "machine_regions s xs = [(0xB8000, 4000), (irq_routines s, 64), (literal_c s, 3), (arg_slot s, 4)] @ map (\<lambda>t. (t, 24)) xs"

definition machine_ok :: "u32 list \<Rightarrow> machine \<Rightarrow> bool" where
  "machine_ok xs s \<longleftrightarrow> queue_ok (sys s) xs \<and> current_task (sys s) \<in> set xs \<and> tty_ok (console s) \<and> irq_table s
     \<and> cstr (ram (sys s)) (literal_c s) [37, 99] \<and> separate (machine_regions s xs)
     \<and> code_TickHandler s \<noteq> 0 \<and> code_keyboard_handler s \<noteq> 0 \<and> code_keyboard_handler s \<noteq> code_TickHandler s"

inductive irq_step :: "machine \<Rightarrow> machine \<Rightarrow> bool" where
  request: "n < 16 \<Longrightarrow> irq_handler (32 + of_nat n) regs (s\<lparr>in_port := ports\<rparr>) = Inr (c, s') \<Longrightarrow> irq_step s s'"
| resumed: "switch_task_after_eip eax esp ebp (sys s) = (c, k) \<Longrightarrow> irq_step s (s\<lparr>sys := k\<rparr>)"

inductive_cases irq_stepE: "irq_step s s'"

lemma machine_okD:
  assumes "machine_ok xs s"
  shows "queue_ok (sys s) xs" "current_task (sys s) \<in> set xs" "tty_ok (console s)" "irq_table s"
    "cstr (ram (sys s)) (literal_c s) [37, 99]" "separate (machine_regions s xs)"
    "code_TickHandler s \<noteq> 0" "code_keyboard_handler s \<noteq> 0" "code_keyboard_handler s \<noteq> code_TickHandler s"
  using assms by (simp_all add: machine_ok_def)

text \<open>The environment may put any byte at the ports, and commands to the controllers do not matter.\<close>

lemma machine_ok_ports [simp]:
  "machine_ok xs (s\<lparr>in_port := p\<rparr>) = machine_ok xs s" "machine_ok xs (s\<lparr>out_ports := q\<rparr>) = machine_ok xs s"
  "machine_ok xs (s\<lparr>ticks := i\<rparr>) = machine_ok xs s"
  by (simp_all add: machine_ok_def irq_table_def machine_regions_def)

lemma machine_ok_eoi [simp]: "machine_ok xs (send_eoi n s) = machine_ok xs s"
  by (simp add: send_eoi_def out_def Let_def)

text \<open>
  A change of the kernel's memory and of the console that leaves the table of handlers and the format
  of the keyboard handler alone and keeps the queue.
\<close>

lemma irq_entry_bytes:
  assumes "unat t + 64 \<le> 4294967295" and "k < 16" and "\<And>x. unat t \<le> unat x \<Longrightarrow> unat x < unat t + 64 \<Longrightarrow> m' x = m x"
  shows "load32 m' (t + 4 * of_nat k) = load32 m (t + 4 * of_nat k)"
proof -
  have "unat (t + 4 * of_nat k) = unat t + 4 * k" using assms(1,2) by (intro unat_cell [of _ 16]) simp_all
  then show ?thesis using assms(1,2) by (intro load32_bytes assms(3)) linarith+
qed

lemma format_bytes:
  assumes "cstr m a [37, 99]" and "unat a + 3 \<le> 4294967295" and "\<And>x. unat a \<le> unat x \<Longrightarrow> unat x < unat a + 3 \<Longrightarrow> m' x = m x"
  shows "cstr m' a [37, 99]"
proof -
  have "unat (a + 1) = unat a + 1" "unat (a + 2) = unat a + 2" using assms(2) by (simp_all add: unat_add_no_wrap)
  then have "m' a = m a" "m' (a + 1) = m (a + 1)" "m' (a + 2) = m (a + 2)" by (intro assms(3); simp)+
  moreover have "a + 1 + 1 = a + 2" by simp
  ultimately show ?thesis using assms(1) by (simp only: cstr.simps) simp
qed

lemma machine_ok_update:
  assumes ok: "machine_ok xs s" and q: "queue_ok k xs" "current_task k \<in> set xs" and t: "tty_ok t"
    and same: "\<And>x. unat (irq_routines s) \<le> unat x \<and> unat x < unat (irq_routines s) + 64
        \<or> unat (literal_c s) \<le> unat x \<and> unat x < unat (literal_c s) + 3 \<Longrightarrow> ram k x = ram (sys s) x"
  shows "machine_ok xs (s\<lparr>sys := k, console := t\<rparr>)"
proof -
  note M = machine_okD [OF ok]
  have fits: "unat (irq_routines s) + 64 \<le> 4294967295" "unat (literal_c s) + 3 \<le> 4294967295"
    using M(6) by (simp_all add: machine_regions_def)
  have "load32 (ram k) (irq_routines s + 4 * of_nat j) = load32 (ram (sys s)) (irq_routines s + 4 * of_nat j)" if "j < 16" for j
    by (rule irq_entry_bytes [OF fits(1) that same]) simp
  then have "irq_table (s\<lparr>sys := k, console := t\<rparr>)" using M(4) by (simp add: irq_table_def)
  moreover have "cstr (ram k) (literal_c s) [37, 99]" by (rule format_bytes [OF M(5) fits(2) same]) simp
  ultimately show ?thesis using M q t by (simp add: machine_ok_def machine_regions_def)
qed

lemma task_same:
  assumes fits: "task_fits u" and same: "\<And>x. unat u \<le> unat x \<Longrightarrow> unat x < unat u + 24 \<Longrightarrow> m' x = m x"
  shows "task_id m' u = task_id m u" "task_next m' u = task_next m u" "saved_regs m' u = saved_regs m u"
proof -
  have "load32 m' (u + of_nat d) = load32 m (u + of_nat d)" if d: "d \<le> 20" for d
  proof -
    have "unat (u + of_nat d) = unat u + d"
      using fits d by (subst unat_add_no_wrap) (simp_all add: task_fits_def unat_of_nat32)
    then show ?thesis using d fits by (intro load32_bytes same) (simp_all add: task_fits_def)
  qed
  from this [of 0] this [of 4] this [of 8] this [of 12] this [of 20]
  show "task_id m' u = task_id m u" "task_next m' u = task_next m u" "saved_regs m' u = saved_regs m u"
    by (simp_all add: task_fields saved_regs_def)
qed

lemma queue_ok_same:
  assumes q: "queue_ok k xs" and g: "ready_queue k' = ready_queue k"
    and same: "\<And>u x. u \<in> set xs \<Longrightarrow> unat u \<le> unat x \<Longrightarrow> unat x < unat u + 24 \<Longrightarrow> ram k' x = ram k x"
  shows "queue_ok k' xs"
proof -
  have q': "tasks_ok xs" "task_list (ram k) (ready_queue k) xs" using q by (simp_all add: queue_ok_def)
  have "task_next (ram k') u = task_next (ram k) u" if "u \<in> set xs" for u
    by (rule task_same(2) [OF tasks_okD(1) [OF q'(1) that] same [OF that]])
  with task_list_frame [OF q'(2)] q'(1) g show ?thesis by (simp add: queue_ok_def)
qed

subsection \<open>Every request is handled\<close>

lemma separate_tasks:
  assumes "separate (machine_regions s xs)" and "u \<in> set xs"
  shows "unat (irq_routines s) + 64 \<le> unat u \<or> unat u + 24 \<le> unat (irq_routines s)"
    "unat (literal_c s) + 3 \<le> unat u \<or> unat u + 24 \<le> unat (literal_c s)"
    "unat (arg_slot s) + 4 \<le> unat u \<or> unat u + 24 \<le> unat (arg_slot s)" "0xB8FA0 \<le> unat u \<or> unat u + 24 \<le> 0xB8000"
  using assms by (auto simp: machine_regions_def)

lemma switch_ok:
  assumes ok: "machine_ok xs s"
  shows "\<exists>e p b a k. switch_task eip esp ebp (sys s) = (Jump e p b a, k) \<and> machine_ok xs (s\<lparr>sys := k\<rparr>)"
proof -
  note M = machine_okD [OF ok]
  obtain i where i: "i < length xs" "current_task (sys s) = xs ! i" using M(2) by (auto simp: in_set_conv_nth)
  let ?m = "save_context (xs ! i) eip esp ebp (ram (sys s))"
  obtain e p b a k where run: "switch_task eip esp ebp (sys s) = (Jump e p b a, k)" and k: "ram k = ?m"
    unfolding switch_next [OF M(1) i, of eip esp ebp] by auto
  have xi: "xs ! i \<in> set xs" using i(1) by simp
  have "task_fits (xs ! i)" using M(1) xi by (simp add: queue_ok_def tasks_ok_def)
  from save_context_frame [OF this, of "ram (sys s)" eip esp ebp]
  have fr: "?m x = ram (sys s) x" if "unat x < unat (xs ! i) \<or> unat (xs ! i) + 24 \<le> unat x" for x
    using same_outside_byte that by (auto simp: other_tasks_def)
  have "Suc i mod length xs < length xs" using i(1) by (intro mod_less_divisor) linarith
  then have "queue_ok k xs \<and> current_task k \<in> set xs"
    using rr.step_next [OF M(1) i sched_step.switch [OF run]] by simp
  then have "machine_ok xs (s\<lparr>sys := k, console := console s\<rparr>)"
    using M(3) separate_tasks(1,2) [OF M(6) xi] by (intro machine_ok_update [OF ok] fr [folded k]) auto
  moreover have "s\<lparr>sys := k, console := console s\<rparr> = s\<lparr>sys := k\<rparr>" by (cases s) simp
  ultimately have "machine_ok xs (s\<lparr>sys := k\<rparr>)" by (simp only:)
  with run show ?thesis by blast
qed

lemma tick_ok:
  assumes ok: "machine_ok xs s"
  shows "\<exists>e p b a s'. TickHandler regs s = (Jump e p b a, s') \<and> machine_ok xs s'"
proof -
  obtain eip esp ebp where regs: "regs = (eip, esp, ebp)" by (cases regs)
  have "machine_ok xs (s\<lparr>ticks := ticks s + 1\<rparr>)" using ok by simp
  from switch_ok [OF this, of eip esp ebp] show ?thesis by (auto simp: TickHandler_def regs Let_def)
qed

lemma resumed_ok:
  assumes ok: "machine_ok xs s" and run: "switch_task_after_eip eax esp ebp (sys s) = (c, k)"
  shows "machine_ok xs (s\<lparr>sys := k\<rparr>)"
proof -
  have "current_task (sys s) \<noteq> 0" using machine_okD(1,2) [OF ok] task_list_nonzero by (auto simp: queue_ok_def)
  then show ?thesis using switch_ok [OF ok, of eax esp ebp] run by (simp add: switch_task_def)
qed

lemma keyboard_ok:
  assumes ok: "machine_ok xs s"
  shows "\<exists>s'. keyboard_handler s = Inr s' \<and> machine_ok xs s'"
proof (cases "bit (in_port s 0x60) 7")
  case True
  then show ?thesis using ok and_power_bit [of "in_port s 0x60" 7] by (simp add: keyboard_handler_def inb_def KEYBOARD_DATA_PORT_def Let_def)
next
  case False
  note M = machine_okD [OF ok]
  have off: "off_screen (literal_c s) 3" "off_screen (arg_slot s) 4"
      "unat (literal_c s) + 3 \<le> unat (arg_slot s) \<or> unat (arg_slot s) + 4 \<le> unat (literal_c s)"
    using M(6) by (auto simp: machine_regions_def off_screen_def)
  obtain t' m' where r: "keyboard_handler s = Inr (set_ram m' (s\<lparr>console := t'\<rparr>))" "tty_ok t'"
      and fr: "\<And>x. unat x < 0xB8000 \<or> 0xB8FA0 \<le> unat x \<Longrightarrow> unat x < unat (arg_slot s) \<or> unat (arg_slot s) + 4 \<le> unat x \<Longrightarrow>
        m' x = ram (sys s) x"
    using keyboard_press [OF M(3,5) off False] by blast
  let ?k = "(sys s)\<lparr>ram := m'\<rparr>"
  have "ram ?k x = ram (sys s) x" if "u \<in> set xs" "unat u \<le> unat x" "unat x < unat u + 24" for u x
    using that separate_tasks(3,4) [OF M(6) that(1)] by (simp, intro fr) auto
  then have "queue_ok ?k xs" by (intro queue_ok_same [OF M(1)]) simp_all
  moreover have same: "m' x = ram (sys s) x" if "unat (irq_routines s) \<le> unat x \<and> unat x < unat (irq_routines s) + 64
      \<or> unat (literal_c s) \<le> unat x \<and> unat x < unat (literal_c s) + 3" for x
  proof (rule fr)
    have "0xB8FA0 \<le> unat (irq_routines s) \<or> unat (irq_routines s) + 64 \<le> 0xB8000"
        "0xB8FA0 \<le> unat (literal_c s) \<or> unat (literal_c s) + 3 \<le> 0xB8000"
      using M(6) by (auto simp: machine_regions_def)
    then show "unat x < 0xB8000 \<or> 0xB8FA0 \<le> unat x" using that by linarith
    have "unat (arg_slot s) + 4 \<le> unat (irq_routines s) \<or> unat (irq_routines s) + 64 \<le> unat (arg_slot s)"
      using M(6) by (auto simp: machine_regions_def)
    then show "unat x < unat (arg_slot s) \<or> unat (arg_slot s) + 4 \<le> unat x" using that off(3) by linarith
  qed
  ultimately have "machine_ok xs (s\<lparr>sys := ?k, console := t'\<rparr>)"
    using M(2) r(2) by (intro machine_ok_update [OF ok]) simp_all
  moreover have eq: "set_ram m' (s\<lparr>console := t'\<rparr>) = s\<lparr>sys := ?k, console := t'\<rparr>" by (cases s) (simp add: set_ram_def)
  have "keyboard_handler s = Inr (s\<lparr>sys := ?k, console := t'\<rparr>)" using r(1) unfolding eq .
  ultimately show ?thesis by blast
qed

lemma irq_ok:
  assumes ok: "machine_ok xs s" and n: "n < 16"
  shows "\<exists>c s'. irq_handler (32 + of_nat n) regs s = Inr (c, s') \<and> machine_ok xs s' \<and> (c \<noteq> Returns \<longleftrightarrow> n = 0)"
proof -
  note M = machine_okD [OF ok]
  have h: "load32 (ram (sys s)) (irq_routines s + 4 * (32 + of_nat n - 32)) =
      (if n = 0 then code_TickHandler s else if n = 1 then code_keyboard_handler s else 0)"
    using M(4) n by (simp add: irq_table_def)
  obtain e p b a s1 where tick: "TickHandler regs s = (Jump e p b a, s1)" "machine_ok xs s1" using tick_ok [OF ok, of regs] by blast
  obtain s2 where key: "keyboard_handler s = Inr s2" "machine_ok xs s2" using keyboard_ok [OF ok] by blast
  show ?thesis
    using h M(7-9) tick key ok by (cases "n = 0"; cases "n = 1") (simp_all add: irq_handler_def run_handler_def)
qed

lemma irq_steps_ok: "irq_step\<^sup>*\<^sup>* s s' \<Longrightarrow> machine_ok xs s \<Longrightarrow> machine_ok xs s'"
proof (induction rule: rtranclp_induct)
  case (step y z)
  then have y: "machine_ok xs y" by blast
  from step.hyps(2) show ?case
  proof (rule irq_stepE)
    fix n regs ports c
    assume "n < 16" "irq_handler (32 + of_nat n) regs (y\<lparr>in_port := ports\<rparr>) = Inr (c, z)"
    then show ?thesis using irq_ok [of xs "y\<lparr>in_port := ports\<rparr>" n regs] y by simp
  next
    fix eax esp ebp c k
    assume "z = y\<lparr>sys := k\<rparr>" "switch_task_after_eip eax esp ebp (sys y) = (c, k)"
    then show ?thesis using resumed_ok [OF y] by blast
  qed
qed

text \<open>
  C5: interrupts never fault. In every machine that any number of interrupt requests with any
  registers and any keyboard input and of resumed task switches leads to from a well-formed one, the
  machine is well-formed again, with the same tasks in the ready queue, and the dispatcher handles each
  of the 16 requests: the timer's jumps into a task, all others return.
\<close>

theorem interrupts_handled:
  assumes ok: "machine_ok xs s" and run: "irq_step\<^sup>*\<^sup>* s s'"
  shows "machine_ok xs s' \<and> (\<forall>n < 16. \<forall>regs. \<exists>c s''.
    irq_handler (32 + of_nat n) regs s' = Inr (c, s'') \<and> (c \<noteq> Returns \<longleftrightarrow> n = 0))"
proof (intro conjI allI impI)
  show ok': "machine_ok xs s'" by (rule irq_steps_ok [OF run ok])
  fix n :: nat and regs assume "n < 16"
  from irq_ok [OF ok' this, of regs]
  show "\<exists>c s''. irq_handler (32 + of_nat n) regs s' = Inr (c, s'') \<and> (c \<noteq> Returns \<longleftrightarrow> n = 0)" by (elim exE conjE) (intro exI conjI)
qed

text \<open>Two tasks, the two handlers and the format of the keyboard handler.\<close>

definition run_memory :: memory where
  "run_memory = (\<lambda>a. if a = 0x1015 then 0x20 else if a = 0x5000 then 37 else if a = 0x5001 then 99
     else if a = 0x6000 then 0x11 else if a = 0x6001 then 1 else if a = 0x6004 then 0x22 else if a = 0x6005 then 2 else 0)"

lemma run_machine_ok: "machine_ok [0x1000, 0x2000] (demo_machine run_memory)"
proof -
  have "queue_ok (two_tasks\<lparr>ram := run_memory\<rparr>) [0x1000, 0x2000]"
    by (simp add: queue_ok_def tasks_ok_def task_fits_def tasks_apart_def two_tasks_def empty_bitmap_kernel_def
        task_next_def load32_def run_memory_def)
  moreover have "load32 run_memory (0x6000 + 4 * of_nat k) = (if k = 0 then 0x111 else if k = 1 then 0x222 else 0)" if "k < 16" for k
    using that by (simp add: less_Suc_eq numeral_eq_Suc, elim disjE) (simp_all add: load32_def run_memory_def)
  then have "irq_table (demo_machine run_memory)" by (simp add: irq_table_def demo_machine_def)
  ultimately show ?thesis
    by (simp add: machine_ok_def machine_regions_def demo_machine_def two_tasks_def tty_ok_def vga_sizes)
       (simp add: run_memory_def)
qed

theorem interrupts_handled_witness:
  "\<exists>s1 s2. irq_step\<^sup>*\<^sup>* (demo_machine run_memory) s2 \<and> irq_step (demo_machine run_memory) s1 \<and> irq_step s1 s2
     \<and> machine_ok [0x1000, 0x2000] s2"
proof -
  let ?s = "demo_machine run_memory"
  have n: "(0 :: nat) < 16" "(1 :: nat) < 16" by simp_all
  obtain c1 s1 where 1: "irq_handler (32 + of_nat 0) (1, 2, 3) (?s\<lparr>in_port := in_port ?s\<rparr>) = Inr (c1, s1)" "machine_ok [0x1000, 0x2000] s1"
    using irq_ok [OF run_machine_ok n(1), of "(1, 2, 3)"] by auto
  obtain c2 s2 where 2: "irq_handler (32 + of_nat 1) (1, 2, 3) (s1\<lparr>in_port := in_port s1\<rparr>) = Inr (c2, s2)"
    using irq_ok [OF 1(2) n(2), of "(1, 2, 3)"] by auto
  note steps = irq_step.request [OF n(1) 1(1)] irq_step.request [OF n(2) 2]
  then have "irq_step\<^sup>*\<^sup>* ?s s2" by (meson rtranclp.intros)
  with interrupts_handled [OF run_machine_ok this] steps show ?thesis by blast
qed

end
