(* ===== verification/File_System.thy ===== *)
theory File_System
  imports Fork
begin

text \<open>
  The virtual file system of \<^verbatim>\<open>kernel/FIleSystem/FileSystem.cpp\<close> and the initial ramdisk of
  \<^verbatim>\<open>kernel/FIleSystem/initrd.cpp\<close>. File nodes, directory entries and the headers of the ramdisk
  are structures in the byte memory; the globals of \<^verbatim>\<open>initrd.cpp\<close> are a record.

  A file node holds function pointers. The record has the addresses of the three functions of
  \<^verbatim>\<open>initrd.cpp\<close> whose address is taken; a call through any other non-null pointer is the fault
  \<^const>\<open>BadCall\<close>.
\<close>

subsection \<open>Structures\<close>

definition FS_FILE :: u32 where "FS_FILE = 1"
definition FS_DIRECTORY :: u32 where "FS_DIRECTORY = 2"

text \<open>struct fs_node on i386: the name at 0, then fourteen words from offset 128 on, 184 bytes in all.\<close>

datatype node_field = n_mask | n_uid | n_gid | n_flags | n_inode | n_len | n_impl | n_read | n_write | n_open | n_close
  | n_readdir | n_finddir | n_ptr

primrec node_offset :: "node_field \<Rightarrow> u32" where
  "node_offset n_mask = 128" | "node_offset n_uid = 132" | "node_offset n_gid = 136"
| "node_offset n_flags = 140" | "node_offset n_inode = 144" | "node_offset n_len = 148"
| "node_offset n_impl = 152" | "node_offset n_read = 156" | "node_offset n_write = 160"
| "node_offset n_open = 164" | "node_offset n_close = 168" | "node_offset n_readdir = 172"
| "node_offset n_finddir = 176" | "node_offset n_ptr = 180"

definition node_get :: "memory \<Rightarrow> u32 \<Rightarrow> node_field \<Rightarrow> u32" where
  "node_get m node f = load32 m (node + node_offset f)"

definition node_set :: "u32 \<Rightarrow> node_field \<Rightarrow> u32 \<Rightarrow> memory \<Rightarrow> memory" where
  "node_set node f v m = store32 m (node + node_offset f) v"

definition sizeof_fs_node :: u32 where "sizeof_fs_node = 184"

text \<open>
  A file header of the ramdisk has the magic byte at 0, the name at 1, the offset of the file at 68
  and its length at 72, 76 bytes in all. The header of the ramdisk is the number of files.
\<close>

definition sizeof_file_header :: u32 where "sizeof_file_header = 76"
definition sizeof_initrd_header :: u32 where "sizeof_initrd_header = 4"

definition fh_name :: "u32 \<Rightarrow> u32" where "fh_name h = h + 1"
definition fh_offset :: "memory \<Rightarrow> u32 \<Rightarrow> u32" where "fh_offset m h = load32 m (h + 68)"
definition fh_length :: "memory \<Rightarrow> u32 \<Rightarrow> u32" where "fh_length m h = load32 m (h + 72)"

record initrd =
  initrd_header :: u32
  file_headers :: u32
  initrd_root :: u32
  initrd_dev :: u32
  root_nodes :: u32
  nroot_nodes :: u32
  direntry :: u32
  literal_dev :: u32
  literal_initrd :: u32
  code_initrd_read :: u32
  code_initrd_readdir :: u32
  code_initrd_finddir :: u32

definition file_header_at :: "initrd \<Rightarrow> u32 \<Rightarrow> u32" where
  "file_header_at r i = file_headers r + sizeof_file_header * i"

definition root_node_at :: "initrd \<Rightarrow> u32 \<Rightarrow> u32" where
  "root_node_at r i = root_nodes r + sizeof_fs_node * i"

text \<open>A call into the string library that does not return.\<close>

definition must_return :: "string \<Rightarrow> 'a option \<Rightarrow> fault + 'a" where
  "must_return what r = (case r of None \<Rightarrow> Inl (Spin what) | Some x \<Rightarrow> Inr x)"

subsection \<open>The ramdisk\<close>

definition initrd_read :: "initrd \<Rightarrow> memory \<Rightarrow> u32 \<Rightarrow> u32 \<Rightarrow> u32 \<Rightarrow> u32 \<Rightarrow> u32 \<times> memory" where
  "initrd_read r m node offset n buffer =
     (let header = file_header_at r (node_get m node n_inode);
          header_length = fh_length m header; header_offset = fh_offset m header
      in if offset > header_length then (0, m)
         else let n = (if offset + n > header_length then header_length - offset else n)
              in (n, memcpy m buffer (header_offset + offset) n))"

definition dirent_ino :: "u32 \<Rightarrow> u32" where "dirent_ino d = d + 128"

definition initrd_readdir :: "initrd \<Rightarrow> memory \<Rightarrow> u32 \<Rightarrow> u32 \<Rightarrow> fault + (u32 \<times> memory)" where
  "initrd_readdir r m node index =
     (if node = initrd_root r \<and> index = 0 then
        rbind (must_return ''strcpy'' (strcpy m (direntry r) (literal_dev r))) (\<lambda>(m, _).
          let m = m(direntry r + 3 := 0);
              m = store32 m (dirent_ino (direntry r)) 0
          in Inr (direntry r, m))
      else if index - 1 \<ge> nroot_nodes r then Inr (0, m)
      else
        let src = root_node_at r (index - 1)
        in rbind (must_return ''strcpy'' (strcpy m (direntry r) src)) (\<lambda>(m, _).
           rbind (must_return ''strlen'' (strlen m src)) (\<lambda>n.
             let m = m(direntry r + n := 0);
                 m = store32 m (dirent_ino (direntry r)) (node_get m src n_inode)
             in Inr (direntry r, m))))"

text \<open>
  The loop of initrd_finddir over the remaining nodes. The loop variable and nroot_nodes are
  signed, so a negative number of nodes means no iteration.
\<close>

primrec find_node :: "nat \<Rightarrow> initrd \<Rightarrow> memory \<Rightarrow> u32 \<Rightarrow> u32 \<Rightarrow> fault + u32" where
  "find_node 0 r m name i = Inr 0"
| "find_node (Suc left) r m name i =
     rbind (must_return ''strcmp'' (strcmp m name (root_node_at r i))) (\<lambda>c.
       if c = 0 then Inr (root_node_at r i) else find_node left r m name (i + 1))"

definition initrd_finddir :: "initrd \<Rightarrow> memory \<Rightarrow> u32 \<Rightarrow> u32 \<Rightarrow> fault + u32" where
  "initrd_finddir r m node name =
     rbind (if node = initrd_root r
            then rbind (must_return ''strcmp'' (strcmp m name (literal_dev r))) (\<lambda>c. Inr (c = 0))
            else Inr False) (\<lambda>is_dev.
       if is_dev then Inr (initrd_dev r)
       else find_node (nat (sint (nroot_nodes r))) r m name 0)"

subsection \<open>The virtual file system\<close>

definition read_fs :: "initrd \<Rightarrow> memory \<Rightarrow> u32 \<Rightarrow> u32 \<Rightarrow> u32 \<Rightarrow> u32 \<Rightarrow> fault + (u32 \<times> memory)" where
  "read_fs r m node offset n buffer =
     (let f = node_get m node n_read
      in if f \<noteq> 0 then
           if f = code_initrd_read r then Inr (initrd_read r m node offset n buffer) else Inl (BadCall f)
         else Inr (0, m))"

definition write_fs :: "initrd \<Rightarrow> memory \<Rightarrow> u32 \<Rightarrow> u32 \<Rightarrow> u32 \<Rightarrow> u32 \<Rightarrow> fault + (u32 \<times> memory)" where
  "write_fs r m node offset n buffer =
     (let f = node_get m node n_write in if f \<noteq> 0 then Inl (BadCall f) else Inr (0, m))"

definition close_fs :: "initrd \<Rightarrow> memory \<Rightarrow> u32 \<Rightarrow> fault + memory" where
  "close_fs r m node = (let f = node_get m node n_close in if f \<noteq> 0 then Inl (BadCall f) else Inr m)"

definition open_fs :: "initrd \<Rightarrow> memory \<Rightarrow> u32 \<Rightarrow> fault + memory" where
  "open_fs r m node = (let f = node_get m node n_open in if f \<noteq> 0 then Inl (BadCall f) else Inr m)"

definition readdir_fs :: "initrd \<Rightarrow> memory \<Rightarrow> u32 \<Rightarrow> u32 \<Rightarrow> fault + (u32 \<times> memory)" where
  "readdir_fs r m node index =
     (let f = node_get m node n_readdir
      in if node_get m node n_flags AND 7 \<noteq> FS_DIRECTORY \<or> f = 0 then Inr (0, m)
         else if f = code_initrd_readdir r then initrd_readdir r m node index else Inl (BadCall f))"

definition finddir_fs :: "initrd \<Rightarrow> memory \<Rightarrow> u32 \<Rightarrow> u32 \<Rightarrow> fault + u32" where
  "finddir_fs r m node name =
     (if node_get m node n_flags AND 7 \<noteq> FS_DIRECTORY \<or> node_get m node n_readdir = 0 then Inr 0
      else let f = node_get m node n_finddir
           in if f \<noteq> 0 then
                if f = code_initrd_finddir r then initrd_finddir r m node name else Inl (BadCall f)
              else Inr 0)"

subsection \<open>Setting up the ramdisk\<close>

text \<open>The directory nodes for the root and for dev.\<close>

definition set_dir_node :: "initrd \<Rightarrow> u32 \<Rightarrow> memory \<Rightarrow> memory" where
  "set_dir_node r node m =
     (let m = node_set node n_len 0 m; m = node_set node n_inode 0 m; m = node_set node n_gid 0 m;
          m = node_set node n_uid 0 m; m = node_set node n_mask 0 m;
          m = node_set node n_flags FS_DIRECTORY m;
          m = node_set node n_read 0 m; m = node_set node n_write 0 m;
          m = node_set node n_open 0 m; m = node_set node n_close 0 m;
          m = node_set node n_readdir (code_initrd_readdir r) m;
          m = node_set node n_finddir (code_initrd_finddir r) m;
          m = node_set node n_ptr 0 m
      in node_set node n_impl 0 m)"

definition set_file_node :: "initrd \<Rightarrow> u32 \<Rightarrow> memory \<Rightarrow> memory" where
  "set_file_node r i m =
     (let node = root_node_at r i;
          m = node_set node n_gid 0 m; m = node_set node n_uid 0 m; m = node_set node n_mask 0 m;
          m = node_set node n_len (fh_length m (file_header_at r i)) m;
          m = node_set node n_inode i m;
          m = node_set node n_flags FS_FILE m;
          m = node_set node n_read (code_initrd_read r) m; m = node_set node n_write 0 m;
          m = node_set node n_readdir 0 m; m = node_set node n_finddir 0 m;
          m = node_set node n_open 0 m; m = node_set node n_close 0 m
      in node_set node n_impl 0 m)"

text \<open>The loop over the files. The number of files is read from the ramdisk in every iteration.\<close>

function load_files :: "initrd \<Rightarrow> u32 \<Rightarrow> u32 \<Rightarrow> memory \<Rightarrow> fault + memory" where
  "load_files r location i m =
     (if i < load32 m (initrd_header r) then
        let h = file_header_at r i;
            m = store32 m (h + 68) (fh_offset m h + location)
        in case strcpy m (root_node_at r i) (fh_name h) of
             None \<Rightarrow> Inl (Spin ''strcpy'')
           | Some (m, _) \<Rightarrow> load_files r location (i + 1) (set_file_node r i m)
      else Inr m)"
  by pat_completeness auto
termination
  by (relation "measure (\<lambda>(r, location, i, m). 4294967295 - unat i)")
     (auto simp: unat_plus_one dest!: less_le_trans [OF _ unat_le_max32] simp: word_less_unat)

declare load_files.simps [simp del]

definition initialise_initrd :: "nat \<Rightarrow> u32 \<Rightarrow> initrd \<Rightarrow> kernel \<Rightarrow> fault + (u32 \<times> initrd \<times> kernel)" where
  "initialise_initrd fuel location r s =
     (let r = r\<lparr>initrd_header := location\<rparr>;
          r = r\<lparr>file_headers := location + sizeof_initrd_header\<rparr>
      in rbind (kmalloc fuel sizeof_fs_node False False s) (\<lambda>(p, _, s).
         let r = r\<lparr>initrd_root := p\<rparr>
         in rbind (must_return ''strcpy'' (strcpy (ram s) (initrd_root r) (literal_initrd r))) (\<lambda>(m, _).
            let s = s\<lparr>ram := set_dir_node r (initrd_root r) m\<rparr>
            in rbind (kmalloc fuel sizeof_fs_node False False s) (\<lambda>(p, _, s).
               let r = r\<lparr>initrd_dev := p\<rparr>
               in rbind (must_return ''strcpy'' (strcpy (ram s) (initrd_dev r) (literal_dev r))) (\<lambda>(m, _).
                  let s = s\<lparr>ram := set_dir_node r (initrd_dev r) m\<rparr>
                  in rbind (kmalloc fuel (sizeof_fs_node * load32 (ram s) (initrd_header r)) False False s)
                       (\<lambda>(p, _, s).
                     let r = r\<lparr>root_nodes := p\<rparr>;
                         r = r\<lparr>nroot_nodes := load32 (ram s) (initrd_header r)\<rparr>
                     in rbind (load_files r location 0 (ram s)) (\<lambda>m.
                          Inr (initrd_root r, r, s\<lparr>ram := m\<rparr>))))))))"

end
