(* ===== verification/Ramdisk.thy ===== *)
theory Ramdisk
  imports File_System
begin

text \<open>
  What the file system operations return: a read stays inside the file except for sums of offset
  and size that wrap around to at most its length, a directory lookup finds the first file with the name, and a directory
  listing yields the names in order.
\<close>

subsection \<open>Reading files\<close>

lemma initrd_read_spec:
  assumes h: "h = file_header_at r (node_get m node n_inode)"
    and no_wrap: "unat offset + unat n < 4294967296"
    and k: "k = min n (fh_length m h - offset)"
    and safe: "ascending_safe buffer (fh_offset m h + offset) k"
  shows "initrd_read r m node offset n buffer =
    (if offset \<le> fh_length m h then (k, blit m buffer (fh_offset m h + offset) k) else (0, m))"
proof (cases "offset \<le> fh_length m h")
  case True
  have sum: "unat (offset + n) = unat offset + unat n" using no_wrap by (rule unat_add_no_wrap)
  have rest: "unat (fh_length m h - offset) = unat (fh_length m h) - unat offset"
    using True by (intro unat_sub_no_wrap) (simp add: word_le_unat)
  have "(if fh_length m h < offset + n then fh_length m h - offset else n) = k"
    using True sum rest unfolding k min_def by (auto simp: word_less_unat word_le_unat word_eq_unat)
  then show ?thesis
    using True memcpy_eq_blit [OF safe, of m]
    by (simp add: initrd_read_def h [symmetric] Let_def not_less [symmetric])
next
  case False
  then have "fh_length m h < offset" by simp
  with False show ?thesis by (simp add: initrd_read_def h [symmetric] Let_def)
qed

text \<open>
  The sum of offset and size is computed with wrap-around. When it overflows and the wrapped
  value is not beyond the length of the file, the size is not limited: the read reports and copies
  more bytes than the file has from the offset on.
\<close>

lemma initrd_read_overflow:
  assumes h: "h = file_header_at r (node_get m node n_inode)"
    and "offset \<le> fh_length m h" and "4294967296 \<le> unat offset + unat n"
    and "offset + n \<le> fh_length m h"
  shows "initrd_read r m node offset n buffer = (n, memcpy m buffer (fh_offset m h + offset) n)
    \<and> fh_length m h - offset < n"
proof -
  have "unat (fh_length m h - offset) = unat (fh_length m h) - unat offset"
    using assms(2) by (intro unat_sub_no_wrap) (simp add: word_le_unat)
  moreover have "unat (fh_length m h) \<le> 4294967295" by (rule unat_le_max32)
  ultimately have "fh_length m h - offset < n" using assms(3) unat_le_max32 [of offset]
    unfolding word_less_unat by linarith
  then show ?thesis
    using assms(2,4) by (simp add: initrd_read_def h [symmetric] Let_def not_less [symmetric])
qed

text \<open>The requests for which it happens, as an inequality of natural numbers.\<close>

definition read_overruns :: "u32 \<Rightarrow> u32 \<Rightarrow> u32 \<Rightarrow> bool" where
  "read_overruns len offset n \<longleftrightarrow> 4294967296 \<le> unat offset + unat n \<and> unat offset + unat n \<le> 4294967296 + unat len"

lemma wrapped_sum:
  fixes a b :: u32
  assumes "4294967296 \<le> unat a + unat b"
  shows "unat (a + b) = unat a + unat b - 4294967296"
proof -
  have "unat a + unat b < 2 * 4294967296" using unat_le_max32 [of a] unat_le_max32 [of b] by linarith
  then show ?thesis using assms by (simp add: unat_word_ariths mod_if)
qed


text \<open>A ramdisk at 0x3000 with one file of 8 bytes at 0x5000; its node is at 0x4000.\<close>

definition demo_initrd :: initrd where
  "demo_initrd = \<lparr>initrd_header = 0x3000, file_headers = 0x3004, initrd_root = 0x100, initrd_dev = 0x200,
     root_nodes = 0x4000, nroot_nodes = 1, direntry = 0x300, literal_dev = 0x400, literal_initrd = 0x500,
     code_initrd_read = 0x600, code_initrd_readdir = 0x700, code_initrd_finddir = 0x800\<rparr>"

definition demo_disk :: memory where
  "demo_disk = (store32 (store32 (\<lambda>_. 0) (0x3004 + 68) 0x5000) (0x3004 + 72) 8)(0x5003 := 42)"

lemma demo_disk_file:
  "file_header_at demo_initrd (node_get demo_disk 0x4000 n_inode) = 0x3004"
  "fh_length demo_disk 0x3004 = 8" "fh_offset demo_disk 0x3004 = 0x5000" "demo_disk 0x5003 = 42"
  by (simp_all add: demo_disk_def demo_initrd_def file_header_at_def node_get_def fh_length_def fh_offset_def
      mem_simps)


subsection \<open>Looking up names\<close>

definition node_names :: "initrd \<Rightarrow> memory \<Rightarrow> u8 list list \<Rightarrow> bool" where
  "node_names r m ns \<longleftrightarrow> nroot_nodes r = of_nat (length ns) \<and> length ns < 2147483648
     \<and> (\<forall>i < length ns. cstr m (root_node_at r (of_nat i)) (ns ! i))"

definition first_named :: "u8 list \<Rightarrow> u8 list list \<Rightarrow> nat option" where
  "first_named x ns = (if x \<in> set ns then Some (length (takeWhile (\<lambda>y. y \<noteq> x) ns)) else None)"

lemma first_named_Cons:
  "first_named x (n # ns) = (if n = x then Some 0 else map_option Suc (first_named x ns))"
  by (auto simp: first_named_def)

lemma find_node_first:
  "cstr m name x \<Longrightarrow> (\<And>j. j < length ns \<Longrightarrow> cstr m (root_node_at r (of_nat (i + j))) (ns ! j)) \<Longrightarrow>
   find_node (length ns) r m name (of_nat i) =
     Inr (case first_named x ns of Some j \<Rightarrow> root_node_at r (of_nat (i + j)) | None \<Rightarrow> 0)"
proof (induction ns arbitrary: i)
  case (Cons n ns)
  obtain c where c: "strcmp m name (root_node_at r (of_nat i)) = Some c" "c = 0 \<longleftrightarrow> x = n"
    using strcmp_spec [OF Cons.prems(1), of "root_node_at r (of_nat i)" n] Cons.prems(2) [of 0] by auto
  have IH: "find_node (length ns) r m name (of_nat (Suc i)) =
      Inr (case first_named x ns of Some j \<Rightarrow> root_node_at r (of_nat (Suc i + j)) | None \<Rightarrow> 0)"
  proof (rule Cons.IH [OF Cons.prems(1)])
    fix j assume "j < length ns"
    with Cons.prems(2) [of "Suc j"] show "cstr m (root_node_at r (of_nat (Suc i + j))) (ns ! j)" by simp
  qed
  have step: "of_nat i + 1 = (of_nat (Suc i) :: u32)" by simp
  show ?case
  proof (cases "n = x")
    case True
    with c show ?thesis by (simp add: must_return_def first_named_Cons)
  next
    case False
    with c have "find_node (length (n # ns)) r m name (of_nat i) = find_node (length ns) r m name (of_nat (Suc i))"
      unfolding find_node.simps list.size(4) step [symmetric] by (simp add: must_return_def)
    also note IH
    finally show ?thesis
      using False by (simp add: first_named_Cons ac_simps split: option.split)
  qed
qed (simp add: first_named_def)

lemma initrd_finddir_spec:
  assumes names: "node_names r m ns" and name: "cstr m name x" and dev: "cstr m (literal_dev r) d"
  shows "initrd_finddir r m node name =
    Inr (if node = initrd_root r \<and> x = d then initrd_dev r
         else case first_named x ns of Some j \<Rightarrow> root_node_at r (of_nat j) | None \<Rightarrow> 0)"
proof -
  obtain c where c: "strcmp m name (literal_dev r) = Some c" "c = 0 \<longleftrightarrow> x = d"
    using strcmp_spec [OF name dev] by blast
  have "sint (nroot_nodes r) = int (length ns)"
    using names by (simp add: node_names_def signed_of_nat signed_take_bit_int_eq_self)
  then have count: "nat (sint (nroot_nodes r)) = length ns" by simp
  have "find_node (length ns) r m name (of_nat 0)
      = Inr (case first_named x ns of Some j \<Rightarrow> root_node_at r (of_nat (0 + j)) | None \<Rightarrow> 0)"
    by (rule find_node_first [OF name]) (use names in \<open>simp add: node_names_def\<close>)
  with c count show ?thesis by (simp add: initrd_finddir_def must_return_def split: option.split)
qed

text \<open>
  A lookup in the ramdisk always returns when the names are terminated strings. In the root
  directory the name of the dev directory gives its node; every other name gives the first file
  node with that name, or the null pointer if there is none.
\<close>

lemma initrd_finddir_finds_first:
  assumes names: "node_names r m ns" and name: "cstr m name x" and dev: "cstr m (literal_dev r) d"
  shows "initrd_finddir r m node name =
    Inr (if node = initrd_root r \<and> x = d then initrd_dev r
         else case first_named x ns of Some j \<Rightarrow> root_node_at r (of_nat j) | None \<Rightarrow> 0)"
  using assms by (rule initrd_finddir_spec)

definition demo_names :: memory where
  "demo_names = (\<lambda>a. if a = 0x4000 \<or> a = 0xA000 then 97 else if a = 0x400 then 100
     else if a = 0x401 then 101 else if a = 0x402 then 118 else 0)"

lemma demo_names_strings:
  "node_names demo_initrd demo_names [[97]]" "cstr demo_names 0xA000 [97]"
  "cstr demo_names (literal_dev demo_initrd) [100, 101, 118]"
  by (simp_all add: node_names_def demo_initrd_def demo_names_def root_node_at_def)

subsection \<open>Listing a directory\<close>

lemma cstr_iff:
  "cstr m s xs \<longleftrightarrow> (\<forall>i < length xs. m (s + of_nat i) = xs ! i \<and> xs ! i \<noteq> 0) \<and> m (s + of_nat (length xs)) = 0"
proof (induction xs arbitrary: s)
  case (Cons x xs)
  have "s + 1 + of_nat k = s + of_nat (Suc k)" for k by simp
  with Cons.IH [of "s + 1"] show ?case
    by (auto simp: All_less_Suc2 simp del: of_nat_Suc)
qed simp

lemma blit_frame:
  "unat d + unat n \<le> 4294967295 \<Longrightarrow> same_outside (unat d) (unat d + unat n) m (blit m d s n)"
  by (auto simp: same_outside_def blit_def offset_less_iff)

lemma cstr_frame:
  assumes fr: "same_outside lo hi m m'" and str: "cstr m s xs"
    and fits: "unat s + length xs < 4294967296" and sep: "unat s + length xs < lo \<or> hi \<le> unat s"
  shows "cstr m' s xs"
proof -
  have "m' (s + of_nat i) = m (s + of_nat i)" if "i \<le> length xs" for i
  proof -
    have "unat (s + of_nat i) = unat s + i"
      using that fits by (subst unat_add_no_wrap) (auto simp: unat_of_nat32)
    then show ?thesis using that sep by (intro same_outside_byte [OF fr]) auto
  qed
  with str show ?thesis unfolding cstr_iff by simp
qed

lemma ascending_safe_apart:
  assumes "unat (d :: u32) + unat n \<le> 4294967295" and "unat s + unat n \<le> 4294967295"
    and "unat s + unat n \<le> unat d \<or> unat d + unat n \<le> unat s"
  shows "ascending_safe d s n"
proof -
  have "n \<le> d - s" using assms unfolding word_le_unat by (simp add: unat_sub_if') arith
  then show ?thesis by (simp add: ascending_safe_def)
qed

text \<open>A string copied by strcpy arrives at the destination.\<close>

lemma strcpy_string:
  assumes str: "cstr m s xs" and d: "d \<noteq> 0" "unat d + length xs < 4294967295"
    and s: "unat s + length xs < 4294967295"
    and sep: "unat s + length xs < unat d \<or> unat d + length xs < unat s"
  shows "\<exists>m'. strcpy m d s = Some (m', d) \<and> cstr m' d xs
    \<and> same_outside (unat d) (unat d + (length xs + 1)) m m'"
proof -
  define n where "n = (of_nat (length xs + 1) :: u32)"
  have un: "unat n = length xs + 1" unfolding n_def using d(2) by (intro unat_of_nat_le) simp
  have safe: "ascending_safe d s n" by (rule ascending_safe_apart) (use sep d(2) s un in auto)
  have copied: "blit m d s n (d + of_nat i) = m (s + of_nat i)" if "i \<le> length xs" for i
  proof (rule blit_inside)
    have "unat (of_nat i :: u32) = i" using that d(2) by (intro unat_of_nat_le) linarith
    then show "of_nat i < n" using that by (simp add: word_less_unat un)
  qed
  have "cstr (blit m d s n) d xs" using str copied unfolding cstr_iff by simp
  moreover have "same_outside (unat d) (unat d + (length xs + 1)) m (blit m d s n)"
    using blit_frame [of d n m s] d(2) un by simp
  moreover have "strcpy m d s = Some (blit m d s n, d)"
    using strcpy_spec [OF str d(1)] safe d(2) unfolding n_def by simp
  ultimately show ?thesis by blast
qed

text \<open>
  Where the structures lie: the directory entry fits below the end of memory, is not at address zero
  and overlaps no file node, and the names fit into their fields.
\<close>

definition listing_ok :: "initrd \<Rightarrow> u8 list list \<Rightarrow> bool" where
  "listing_ok r ns \<longleftrightarrow> direntry r \<noteq> 0 \<and> unat (direntry r) + 132 < 4294967295
     \<and> (\<forall>j < length ns. length (ns ! j) < 128
          \<and> unat (root_node_at r (of_nat j)) + 184 < 4294967295
          \<and> (unat (root_node_at r (of_nat j)) + 184 \<le> unat (direntry r)
             \<or> unat (direntry r) + 132 \<le> unat (root_node_at r (of_nat j))))"

text \<open>Terminating the copied name again and entering the inode number keeps the name.\<close>

lemma dirent_finish:
  fixes v :: u32
  assumes "cstr m d xs" and "length xs < 128" and "unat d + 132 < 4294967295"
  defines "m' \<equiv> store32 (m(d + of_nat (length xs) := 0)) (dirent_ino d) v"
  shows "cstr m' d xs" and "load32 m' (dirent_ino d) = v" and "same_outside (unat d) (unat d + 132) m m'"
proof -
  have u: "unat (d + 128) = unat d + 128" using assms(3) by (simp add: unat_plus_numeral)
  have same: "m(d + of_nat (length xs) := 0) = m"
    using assms(1) unfolding cstr_iff by (intro fun_upd_idem) simp
  then have m': "m' = store32 m (d + 128) v" by (simp only: m'_def dirent_ino_def)
  have fr: "same_outside (unat d + 128) (unat d + 132) m m'"
    unfolding m' by (rule same_outside_store32) (use u assms(3) in auto)
  show "cstr m' d xs" by (rule cstr_frame [OF fr assms(1)]) (use assms(2,3) in auto)
  show "load32 m' (dirent_ino d) = v" by (simp add: m' dirent_ino_def)
  show "same_outside (unat d) (unat d + 132) m m'" by (rule same_outside_mono [OF fr]) auto
qed

text \<open>
  Listing a directory of the ramdisk with a position after 0 yields the name and the inode number
  of the file at that position, in the directory entry and nowhere else; a position after the last
  file yields the null pointer and changes nothing.
\<close>

lemma initrd_readdir_lists_names:
  assumes names: "node_names r m ns" and ok: "listing_ok r ns"
    and index: "index = of_nat (Suc j)" and j: "Suc j < 4294967296"
  shows "if j < length ns
    then \<exists>m'. initrd_readdir r m node index = Inr (direntry r, m') \<and> cstr m' (direntry r) (ns ! j)
      \<and> load32 m' (dirent_ino (direntry r)) = node_get m (root_node_at r (of_nat j)) n_inode
      \<and> same_outside (unat (direntry r)) (unat (direntry r) + 132) m m'
    else initrd_readdir r m node index = Inr (0, m)"
proof -
  have i: "index - 1 = of_nat j" "unat (of_nat j :: u32) = j"
    using index j by (simp_all add: unat_of_nat32)
  have n: "unat (nroot_nodes r) = length ns" "nroot_nodes r = of_nat (length ns)"
    using names by (simp_all add: node_names_def unat_of_nat32)
  have nz: "index \<noteq> 0" using index j by (metis unat_of_nat32 unat_0 nat.distinct(1))
  show ?thesis
  proof (cases "j < length ns")
    case False
    then have "nroot_nodes r \<le> index - 1" unfolding i(1) word_le_unat i(2) n(1) by simp
    with False nz show ?thesis by (simp add: initrd_readdir_def)
  next
    case True
    define src where "src = root_node_at r (of_nat j)"
    define d where "d = direntry r"
    have lt: "\<not> nroot_nodes r \<le> of_nat j" using True unfolding word_le_unat i(2) n(1) by simp
    have b: "length (ns ! j) < 128" "unat src + 184 < 4294967295" "d \<noteq> 0" "unat d + 132 < 4294967295"
        "unat src + 184 \<le> unat d \<or> unat d + 132 \<le> unat src"
      using ok True by (simp_all add: listing_ok_def src_def d_def)
    have str: "cstr m src (ns ! j)" using names True by (simp add: node_names_def src_def)
    obtain m1 where m1: "strcpy m d src = Some (m1, d)" "cstr m1 d (ns ! j)"
        and fr1: "same_outside (unat d) (unat d + (length (ns ! j) + 1)) m m1"
      using strcpy_string [OF str b(3)] b by auto
    have fr1': "same_outside (unat d) (unat d + 132) m m1"
      by (rule same_outside_mono [OF fr1]) (use b(1) in auto)
    have "cstr m1 src (ns ! j)" by (rule cstr_frame [OF fr1' str]) (use b in auto)
    then have len: "strlen m1 src = Some (of_nat (length (ns ! j)))" by (rule strlen_cstr)
    have "m1(d + of_nat (length (ns ! j)) := 0) = m1"
      using m1(2) unfolding cstr_iff by (intro fun_upd_idem) simp
    moreover have "node_get m1 src n_inode = node_get m src n_inode"
      unfolding node_get_def by (rule same_outside_load32 [OF fr1']) (use b in \<open>auto simp: unat_plus_numeral\<close>)
    ultimately have run: "initrd_readdir r m node index = Inr (d,
        store32 (m1(d + of_nat (length (ns ! j)) := 0)) (dirent_ino d) (node_get m src n_inode))"
      using nz i lt m1(1) len by (simp add: initrd_readdir_def must_return_def Let_def src_def d_def)
    show ?thesis
      using run dirent_finish [OF m1(2) b(1,4)] True same_outside_trans [OF fr1']
      by (auto simp: d_def src_def)
  qed
qed

end
