(* ===== verification/Boot.thy ===== *)
theory Boot
  imports Interrupt_Run Ramdisk Address_Space
begin

text \<open>
  The boot sequence of \<^verbatim>\<open>kernel/kernel.cpp\<close>. The system is the machine with the processor's table
  registers, the variables of the ramdisk and the globals fs_root and initial_esp; the image has the
  addresses the linker chose for the tables, the stubs and the greeting, and the contents of the
  heap object before its constructor runs.

  \<open>kernel_main\<close> follows the parent, and only while the processor finds the kernel through CR3; the child
  that fork makes returns 0 from fork when the scheduler first switches to it. Interrupts that arrive
  during the sequence are not part of it.
\<close>

record system =
  mach :: machine
  core :: cpu
  ramdisk :: initrd
  fs_root :: u32
  initial_esp :: u32

record image =
  at_gdt_entries :: u32
  at_gtdPointer :: u32
  at_entries :: u32
  at_idtPointer :: u32
  at_isr :: "nat \<Rightarrow> u32"
  literal_hello :: u32
  heap_junk :: Heap

definition mods_addr :: "memory \<Rightarrow> u32 \<Rightarrow> u32" where
  "mods_addr m mboot_ptr = load32 m (mboot_ptr + 24)"

definition boot_devices :: "image \<Rightarrow> u32 \<Rightarrow> u32 \<Rightarrow> system \<Rightarrow> fault + (u32 \<times> system)" where
  "boot_devices img mboot_ptr initial_stack s =
     (let s = s\<lparr>initial_esp := initial_stack\<rparr>;
          (m, c) = InitGDT (at_gdt_entries img) (at_gtdPointer img) (ram (sys (mach s))) (core s);
          (m, c, p) = Init_IDT (at_isr img) (at_entries img) (at_idtPointer img) m c (out_ports (mach s));
          s = s\<lparr>mach := (set_ram m (mach s))\<lparr>out_ports := p\<rparr>, core := c\<rparr>;
          initrd_location = load32 m (mods_addr m mboot_ptr);
          initrd_end = load32 m (mods_addr m mboot_ptr + 4);
          h = mach s;
          h = h\<lparr>sys := SetPlacementAddress initrd_end (sys h)\<rparr>;
          h = InstallHandler 1 (code_keyboard_handler h) h
      in rbind (Timer_init 100 h) (\<lambda>h. Inr (initrd_location, s\<lparr>mach := h\<rparr>)))"

text \<open>
  With paging enabled the processor reaches every byte, the next instruction included, through the page
  directory whose physical address is in CR3; the low 12 bits of the register are flags. The memory of the
  model is the linear one which the directories of the kernel describe. So the run goes on only if
  CR3 has the physical address of the entries of one of them, the one that the kernel's own directory
  translates their linear address to. What the processor does otherwise is not the code of the
  kernel any more.
\<close>

definition addresses_directory :: "kernel \<Rightarrow> u32 \<Rightarrow> bool" where
  "addresses_directory k dir \<longleftrightarrow>
     translate (ram k) (kernel_directory k + 4096) (dir + 4096) = Some (cr3 k AND 0xFFFFF000)"

definition next_fetch :: "kernel \<Rightarrow> fault + kernel" where
  "next_fetch k =
     (if bit (cr0 k) 31 \<and> \<not> addresses_directory k (kernel_directory k) \<and> \<not> addresses_directory k (current_directory k)
      then Inl BadDirectory else Inr k)"

text \<open>\<open>regs\<close>: the return address of read_eip and the stack registers that fork stores for the child.\<close>

definition kernel_main ::
    "nat \<Rightarrow> image \<Rightarrow> context_regs \<Rightarrow> u32 \<Rightarrow> u32 \<Rightarrow> system \<Rightarrow> fault + (int \<times> int \<times> system)" where
  "kernel_main fuel img regs mboot_ptr initial_stack s =
     rbind (boot_devices img mboot_ptr initial_stack s) (\<lambda>(initrd_location, s).
     rbind (initialise_paging fuel (heap_junk img) (sys (mach s))) (\<lambda>k.
     rbind (next_fetch k) (\<lambda>k.
     rbind (initialise_tasking fuel k) (\<lambda>k.
     rbind (case regs of (eip, esp, ebp) \<Rightarrow> fork fuel eip esp ebp k) (\<lambda>(ret, k).
     let pid = getpid k;
         h = mach s
     in case printf (literal_hello img) (arg_slot h) (console h) (ram k) of
          None \<Rightarrow> Inl (Spin ''printf'')
        | Some (_, t, m) \<Rightarrow>
            let k = k\<lparr>ram := m, interrupt_flag := True\<rparr>
            in rbind (initialise_initrd fuel initrd_location (ramdisk s) k) (\<lambda>(root, r, k).
                 Inr (ret, pid, s\<lparr>mach := h\<lparr>sys := k, console := t\<rparr>, ramdisk := r, fs_root := root\<rparr>)))))))"

subsection \<open>The devices after boot\<close>

definition remap_writes :: port_writes where
  "remap_writes = [(0x20, 0x11), (0xA0, 0x11), (0x21, 0x20), (0xA1, 0x28), (0x21, 0x04), (0xA1, 0x02),
     (0x21, 0x01), (0xA1, 0x01), (0x21, 0), (0xA1, 0)]"

lemma Timer_100:
  "Timer_init 100 h = Inr (InstallHandler 0 (code_TickHandler h)
     (h\<lparr>out_ports := out_ports h @ [(0x43, 0x36), (0x40, 0x9B), (0x40, 0x2E)]\<rparr>))"
  by (simp add: Timer_init_def TimerPhase_def Let_def out_def outb_def signed_divide_int_def)

lemma table_read:
  assumes "separate [(at_gdt_entries img, 24), (at_gtdPointer img, 6), (at_entries img, 2048),
      (at_idtPointer img, 6), (a, n)]"
    and "InitGDT (at_gdt_entries img) (at_gtdPointer img) m c = (m1, c1)"
    and "Init_IDT (at_isr img) (at_entries img) (at_idtPointer img) m1 c1 p = (m2, c2, p2)"
    and "unat a \<le> unat x" "unat x < unat a + n"
  shows "m2 x = m x"
proof -
  have fits: "unat (at_gdt_entries img) + 24 \<le> 4294967295" "unat (at_gtdPointer img) + 6 \<le> 4294967295"
      "unat (at_entries img) + 2048 \<le> 4294967295" "unat (at_idtPointer img) + 6 \<le> 4294967295"
    using assms(1) by simp_all
  have "unat (at_gdt_entries img) + 24 \<le> unat a \<or> unat a + n \<le> unat (at_gdt_entries img)"
      "unat (at_gtdPointer img) + 6 \<le> unat a \<or> unat a + n \<le> unat (at_gtdPointer img)"
      "unat (at_entries img) + 2048 \<le> unat a \<or> unat a + n \<le> unat (at_entries img)"
      "unat (at_idtPointer img) + 6 \<le> unat a \<or> unat a + n \<le> unat (at_idtPointer img)"
    using assms(1) by simp_all
  with assms(4,5) have out: "unat x < unat (at_gdt_entries img) \<or> unat (at_gdt_entries img) + 24 \<le> unat x"
      "unat x < unat (at_gtdPointer img) \<or> unat (at_gtdPointer img) + 6 \<le> unat x"
      "unat x < unat (at_entries img) \<or> unat (at_entries img) + 2048 \<le> unat x"
      "unat x < unat (at_idtPointer img) \<or> unat (at_idtPointer img) + 6 \<le> unat x"
    by linarith+
  have "m2 x = m1 x" using Init_IDT_frame [OF fits(3,4) assms(3) out(3,4)] by (rule conjunct1)
  also have "\<dots> = m x" by (rule InitGDT_frame [OF fits(1,2) assms(2) out(1,2)])
  finally show ?thesis .
qed

text \<open>The regions the first part of the boot sequence reads and writes.\<close>

definition boot_regions :: "image \<Rightarrow> u32 \<Rightarrow> u32 \<Rightarrow> memory \<Rightarrow> (u32 \<times> nat) list" where
  "boot_regions img irq mboot_ptr m =
     [(at_gdt_entries img, 24), (at_gtdPointer img, 6), (at_entries img, 2048), (at_idtPointer img, 6),
      (irq, 64), (mboot_ptr + 24, 4), (mods_addr m mboot_ptr, 8)]"

lemma boot_regions_fit:
  assumes "separate (boot_regions img irq mboot_ptr m)"
  shows "unat (at_gdt_entries img) + 24 \<le> 4294967295" "unat (at_gtdPointer img) + 6 \<le> 4294967295"
      "unat (at_entries img) + 2048 \<le> 4294967295" "unat (at_idtPointer img) + 6 \<le> 4294967295"
      "unat irq + 64 \<le> 4294967295" "unat (mboot_ptr + 24) + 4 \<le> 4294967295"
      "unat (mods_addr m mboot_ptr) + 8 \<le> 4294967295"
  using assms unfolding boot_regions_def by simp_all

lemma boot_information_kept:
  assumes lay: "separate (boot_regions img irq mboot_ptr m)"
    and gdt: "InitGDT (at_gdt_entries img) (at_gtdPointer img) m c = (m1, c1)"
    and idt: "Init_IDT (at_isr img) (at_entries img) (at_idtPointer img) m1 c1 p = (m2, c2, p2)"
  defines "mods \<equiv> mods_addr m mboot_ptr"
  shows "mods_addr m2 mboot_ptr = mods \<and> load32 m2 mods = load32 m mods \<and> load32 m2 (mods + 4) = load32 m (mods + 4)"
proof -
  note fits = boot_regions_fit [OF lay]
  have tables: "separate [(at_gdt_entries img, 24), (at_gtdPointer img, 6), (at_entries img, 2048), (at_idtPointer img, 6), r]"
    if "r \<in> {(mboot_ptr + 24, 4), (mods, 8)}" for r
    using lay that unfolding boot_regions_def mods_def by (elim insertE) simp_all
  have mods4: "unat (mods + 4) = unat mods + 4"
    using fits(7) by (subst unat_add_no_wrap) (simp_all add: mods_def)
  have "mods_addr m2 mboot_ptr = mods"
    unfolding mods_addr_def mods_def
    by (rule load32_bytes, use fits in simp, rule table_read [OF tables gdt idt]) simp_all
  moreover have "load32 m2 mods = load32 m mods" "load32 m2 (mods + 4) = load32 m (mods + 4)"
    by (rule load32_bytes, use fits(7) mods4 in \<open>simp add: mods_def\<close>,
        rule table_read [OF tables gdt idt, of mods 8], simp_all add: mods4)+
  ultimately show ?thesis by simp
qed

lemma boot_tables_kept:
  assumes lay: "separate (boot_regions img irq mboot_ptr m)"
    and gdt: "InitGDT (at_gdt_entries img) (at_gtdPointer img) m c = (m1, c1)"
    and idt: "Init_IDT (at_isr img) (at_entries img) (at_idtPointer img) m1 c1 p = (m2, c2, p2)"
    and fr: "same_outside (unat irq) (unat irq + 64) m2 m4"
  shows "\<forall>n < 48. gate_at m4 (at_entries img) n = (at_isr img n, 8, 0, 0x8E)"
    "segment_at m4 (at_gdt_entries img + 8) = segment_at m1 (at_gdt_entries img + 8)"
proof -
  note fits = boot_regions_fit [OF lay]
  have sep: "unat (at_entries img) + 2048 \<le> unat irq \<or> unat irq + 64 \<le> unat (at_entries img)"
      "unat (at_gdt_entries img) + 24 \<le> unat irq \<or> unat irq + 64 \<le> unat (at_gdt_entries img)"
      "unat (at_gdt_entries img) + 24 \<le> unat (at_entries img) \<or> unat (at_entries img) + 2048 \<le> unat (at_gdt_entries img)"
      "unat (at_gdt_entries img) + 24 \<le> unat (at_idtPointer img) \<or> unat (at_idtPointer img) + 6 \<le> unat (at_gdt_entries img)"
      "unat (at_entries img) + 2048 \<le> unat (at_idtPointer img) \<or> unat (at_idtPointer img) + 6 \<le> unat (at_entries img)"
    using lay unfolding boot_regions_def by simp_all
  show "\<forall>n < 48. gate_at m4 (at_entries img) n = (at_isr img n, 8, 0, 0x8E)"
  proof (intro allI impI)
    fix n :: nat assume n: "n < 48"
    have "gate_at m4 (at_entries img) n = gate_at m2 (at_entries img) n"
      by (rule gate_frame [OF fits(3) _ fr]) (use sep(1) n in \<open>auto simp: gate_address_def\<close>)
    with Init_IDT_spec [OF fits(3) _ fits(4) _ idt, of n] sep(5) n show "gate_at m4 (at_entries img) n = (at_isr img n, 8, 0, 0x8E)"
      by auto
  qed
  have e: "unat (at_gdt_entries img + 8) = unat (at_gdt_entries img) + 8"
    using fits(1) by (subst unat_add_no_wrap) auto
  show "segment_at m4 (at_gdt_entries img + 8) = segment_at m1 (at_gdt_entries img + 8)"
  proof (rule segment_cong)
    fix x :: u32 assume x: "unat (at_gdt_entries img + 8) \<le> unat x" "unat x < unat (at_gdt_entries img + 8) + 8"
    have "m4 x = m2 x" by (rule same_outside_byte [OF fr]) (use sep(2) x e in auto)
    also have "\<dots> = m1 x"
      by (rule conjunct1 [OF Init_IDT_frame [OF fits(3,4) idt]]) (use sep(3,4) x e in auto)
    finally show "m4 x = m1 x" .
  qed (use fits(1) e in simp)
qed

lemma boot_devices_eq:
  fixes mboot_ptr :: u32 and s :: system
  assumes gdt: "InitGDT (at_gdt_entries img) (at_gtdPointer img) (ram (sys (mach s))) (core s) = (m1, c1)"
    and idt: "Init_IDT (at_isr img) (at_entries img) (at_idtPointer img) m1 c1 (out_ports (mach s)) = (m2, c2, p2)"
  defines "mods \<equiv> mods_addr m2 mboot_ptr" and "irq \<equiv> irq_routines (mach s)"
  shows "boot_devices img mboot_ptr initial_stack s = Inr (load32 m2 mods,
    s\<lparr>initial_esp := initial_stack, core := c2, mach := (mach s)\<lparr>
      sys := (sys (mach s))\<lparr>placement_address := load32 m2 (mods + 4),
        ram := store32 (store32 m2 (irq + 4) (code_keyboard_handler (mach s))) irq (code_TickHandler (mach s))\<rparr>,
      out_ports := p2 @ [(0x43, 0x36), (0x40, 0x9B), (0x40, 0x2E)]\<rparr>\<rparr>)"
  unfolding boot_devices_def Let_def mods_def irq_def
  by (simp add: gdt idt Timer_100 InstallHandler_def SetPlacementAddress_def set_ram_def)

text \<open>
  When the tables, the multiboot information and the table of handlers do not overlap, the first
  part of the boot sequence succeeds. It returns the start of the ramdisk module, puts the placement
  address at its end, leaves the processor with the flat code segment and the table of interrupt
  gates, installs the timer and the keyboard handler for IRQ 0 and 1, and programs the interrupt
  controllers and then the timer for 100 Hz.
\<close>

lemma boot_devices_ready:
  fixes s :: system and img :: image
  defines "m \<equiv> ram (sys (mach s))" and "irq \<equiv> irq_routines (mach s)"
  assumes lay: "separate (boot_regions img irq mboot_ptr m)"
  shows "\<exists>s' m'. boot_devices img mboot_ptr initial_stack s = Inr (load32 m (mods_addr m mboot_ptr), s')
    \<and> m' = ram (sys (mach s')) \<and> initial_esp s' = initial_stack
    \<and> placement_address (sys (mach s')) = load32 m (mods_addr m mboot_ptr + 4)
    \<and> gdtr (core s') = (23, at_gdt_entries img)
    \<and> selected m' (at_gdt_entries img) (cs (core s')) = (0, 0xFFFFF, 0x9A, 0xC0)
    \<and> idtr (core s') = (2047, at_entries img)
    \<and> (\<forall>n < 48. gate_at m' (at_entries img) n = (at_isr img n, 8, 0, 0x8E))
    \<and> load32 m' irq = code_TickHandler (mach s) \<and> load32 m' (irq + 4) = code_keyboard_handler (mach s)
    \<and> out_ports (mach s') = out_ports (mach s) @ remap_writes @ [(0x43, 0x36), (0x40, 0x9B), (0x40, 0x2E)]"
proof -
  note fits = boot_regions_fit [OF lay]
  have ptrs: "unat (at_gtdPointer img) + 6 \<le> unat (at_gdt_entries img) \<or> unat (at_gdt_entries img) + 24 \<le> unat (at_gtdPointer img)"
      "unat (at_idtPointer img) + 6 \<le> unat (at_entries img) \<or> unat (at_entries img) + 2048 \<le> unat (at_idtPointer img)"
    using lay unfolding boot_regions_def by auto
  obtain m1 c1 where gdt: "InitGDT (at_gdt_entries img) (at_gtdPointer img) m (core s) = (m1, c1)" by fastforce
  obtain m2 c2 p2 where idt: "Init_IDT (at_isr img) (at_entries img) (at_idtPointer img) m1 c1 (out_ports (mach s)) = (m2, c2, p2)"
    by (metis prod_cases3)
  define m3 where "m3 = store32 m2 (irq + 4) (code_keyboard_handler (mach s))"
  define m4 where "m4 = store32 m3 irq (code_TickHandler (mach s))"
  have irq4: "unat (irq + 4) = unat irq + 4" using fits(5) by (subst unat_add_no_wrap) simp_all
  have fr: "same_outside (unat irq) (unat irq + 64) m2 m4"
    unfolding m4_def m3_def using fits(5) irq4 by (intro same_outside_store32 same_outside_refl) simp_all
  have kbd: "load32 m4 (irq + 4) = code_keyboard_handler (mach s)"
    using fits(5) irq4 by (simp add: m4_def m3_def load32_store32_apart apart_def)
  note kept = boot_tables_kept [OF lay gdt idt fr] and info = boot_information_kept [OF lay gdt idt]
  have c2: "c2 = c1\<lparr>idtr := idtr c2\<rparr>"
    using idt by (auto simp: Init_IDT_def Let_def load_idt_def)
  from InitGDT_spec [OF fits(1,2) ptrs(1) gdt]
  have g: "gdtr c1 = (23, at_gdt_entries img)" "selected m1 (at_gdt_entries img) (cs c1) = (0, 0xFFFFF, 0x9A, 0xC0)"
    by simp_all
  have "cs c1 = 8" using gdt by (auto simp: InitGDT_def Let_def gdt_load_and_set_def)
  with g kept(2) have code: "selected m4 (at_gdt_entries img) (cs c1) = (0, 0xFFFFF, 0x9A, 0xC0)"
    by (simp add: selected_def)
  from Init_IDT_spec [OF fits(3) ptrs(2) fits(4) _ idt, of 0]
  have i: "idtr c2 = (2047, at_entries img)" "p2 = out_ports (mach s) @ remap_writes"
    by (simp_all add: remap_writes_def)
  have c2': "gdtr c2 = gdtr c1" "cs c2 = cs c1" by (subst c2, simp)+
  from boot_devices_eq [of img s, OF gdt [unfolded m_def] idt, of mboot_ptr initial_stack] info
  show ?thesis
    by (intro exI [of _ "s\<lparr>initial_esp := initial_stack, core := c2, mach := (mach s)\<lparr>
        sys := (sys (mach s))\<lparr>placement_address := load32 m (mods_addr m mboot_ptr + 4), ram := m4\<rparr>,
        out_ports := p2 @ [(0x43, 0x36), (0x40, 0x9B), (0x40, 0x2E)]\<rparr>\<rparr>"] exI [of _ m4])
       (simp add: kept(1) kbd code g(1) i c2' m4_def [unfolded m3_def, symmetric] irq_def [symmetric],
        simp add: m4_def)
qed

text \<open>A layout as a linker and a boot loader could choose it.\<close>

definition boot_image :: image where
  "boot_image = \<lparr>at_gdt_entries = 0x108000, at_gtdPointer = 0x108020, at_entries = 0x109000,
     at_idtPointer = 0x108030, at_isr = (\<lambda>n. 0x101000 + of_nat n), literal_hello = 0x106000,
     heap_junk = \<lparr>m_index = \<lparr>m_elements = 0, m_size = 0, m_maxSize = 0, m_lessThanPredicate = HeaderLessThan\<rparr>,
       m_startAddress = 0, m_endAddress = 0, m_maxAddress = 0, m_supervisor = False, m_readonly = False\<rparr>\<rparr>"

definition boot_system :: system where
  "boot_system = \<lparr>mach = demo_machine (store32 (store32 (store32 (\<lambda>_. 0) 0x9018 0x9100) 0x9100 0x200000) 0x9104 0x201000),
     core = \<lparr>gdtr = (0, 0), idtr = (0, 0), cs = 0, ds = 0, es = 0, fs = 0, gs = 0, ss = 0\<rparr>,
     ramdisk = \<lparr>initrd_header = 0, file_headers = 0, initrd_root = 0, initrd_dev = 0, root_nodes = 0,
       nroot_nodes = 0, direntry = 0, literal_dev = 0, literal_initrd = 0, code_initrd_read = 0,
       code_initrd_readdir = 0, code_initrd_finddir = 0\<rparr>, fs_root = 0, initial_esp = 0\<rparr>"

end
