(* ===== verification/Ramdisk_Mount.thy ===== *)
theory Ramdisk_Mount
  imports Ramdisk Block_Pool
begin

text \<open>
  Mounting the ramdisk: initialise_initrd turns the file headers of a boot module into file nodes.
  Every file of the module can then be found by its name and read back, with either of the two
  allocators behind kmalloc.
\<close>

subsection \<open>Node fields\<close>

lemma node_offsets_apart: "f \<noteq> g \<Longrightarrow> 4 \<le> node_offset g - node_offset f"
  by (cases f; cases g; simp)

lemma node_get_set [simp]: "node_get (node_set node f v m) node g = (if g = f then v else node_get m node g)"
proof (cases "g = f")
  case False
  have "node + node_offset g - (node + node_offset f) = node_offset g - node_offset f"
      "node + node_offset f - (node + node_offset g) = node_offset f - node_offset g" by simp_all
  then have "load32 (store32 m (node + node_offset f) v) (node + node_offset g) = load32 m (node + node_offset g)"
    using node_offsets_apart [of f g] node_offsets_apart [of g f] False by (intro load32_store32_disp) simp_all
  with False show ?thesis by (simp add: node_get_def node_set_def)
qed (simp add: node_get_def node_set_def)

lemma node_offset_bounds: "128 \<le> unat (node_offset f) \<and> unat (node_offset f) + 4 \<le> 184"
  by (cases f) simp_all

lemma unat_node_field:
  assumes "unat node + 184 \<le> 4294967295"
  shows "unat (node + node_offset f) = unat node + unat (node_offset f)"
  using assms node_offset_bounds [of f] by (intro unat_add_no_wrap) linarith

lemma node_set_frame:
  assumes "unat node + 184 \<le> 4294967295"
  shows "same_outside (unat node + 128) (unat node + 184) m (node_set node f v m)"
  unfolding node_set_def using assms node_offset_bounds [of f] unat_node_field [OF assms, of f]
  by (intro same_outside_store32) auto

lemma node_sets_frame:
  assumes "unat node + 184 \<le> 4294967295" and "same_outside (unat node + 128) (unat node + 184) m m'"
  shows "same_outside (unat node + 128) (unat node + 184) m (node_set node f v m')"
  using assms(2) node_set_frame [OF assms(1)] by (rule same_outside_trans)

lemma node_get_inside:
  assumes "unat node + 184 \<le> 4294967295" and "\<And>x. in_block (unat node, 184) x \<Longrightarrow> m' x = m x"
  shows "node_get m' node f = node_get m node f"
  unfolding node_get_def
proof (rule load32_cong, rule assms(2))
  fix x :: u32 assume "x - (node + node_offset f) < 4"
  then show "in_block (unat node, 184) x"
    using assms(1) node_offset_bounds [of f] unat_node_field [OF assms(1), of f]
    by (auto simp: offset_less_iff in_block_def)
qed

lemma cstr_inside:
  assumes str: "cstr m s xs" and n: "length xs < n" "unat s + n \<le> 4294967295"
    and same: "\<And>x. in_block (unat s, n) x \<Longrightarrow> m' x = m x"
  shows "cstr m' s xs"
proof -
  have "m' (s + of_nat i) = m (s + of_nat i)" if "i \<le> length xs" for i
  proof (rule same)
    have "unat (s + of_nat i) = unat s + i"
      using that n by (subst unat_add_no_wrap) (auto simp: unat_of_nat32)
    then show "in_block (unat s, n) (s + of_nat i)" using that n by (simp add: in_block_def)
  qed
  with str show ?thesis unfolding cstr_iff by simp
qed

subsection \<open>The files of a module\<close>

text \<open>A file is its name, its offset from the start of the module and its contents.\<close>

type_synonym disk_file = "u8 list \<times> nat \<times> u8 list"

definition raw_header :: "memory \<Rightarrow> u32 \<Rightarrow> disk_file \<Rightarrow> bool" where
  "raw_header m h f \<longleftrightarrow> (case f of (name, off, contents) \<Rightarrow> length name < 64 \<and> cstr m (fh_name h) name
     \<and> fh_offset m h = of_nat off \<and> fh_length m h = of_nat (length contents))"

text \<open>What the loop over the files makes of a file header and its node.\<close>

definition file_loaded :: "initrd \<Rightarrow> u32 \<Rightarrow> memory \<Rightarrow> nat \<Rightarrow> disk_file \<Rightarrow> bool" where
  "file_loaded r location m i f \<longleftrightarrow> (case f of (name, off, contents) \<Rightarrow>
     let node = root_node_at r (of_nat i); h = file_header_at r (of_nat i)
     in cstr m node name \<and> fh_offset m h = of_nat off + location \<and> fh_length m h = of_nat (length contents)
        \<and> node_get m node n_inode = of_nat i \<and> node_get m node n_len = of_nat (length contents)
        \<and> node_get m node n_flags = FS_FILE \<and> node_get m node n_read = code_initrd_read r
        \<and> node_get m node n_write = 0 \<and> node_get m node n_readdir = 0 \<and> node_get m node n_finddir = 0)"

lemma raw_header_inside:
  assumes "raw_header m h f" and "unat h + 76 \<le> 4294967295" and "\<And>x. in_block (unat h, 76) x \<Longrightarrow> m' x = m x"
  shows "raw_header m' h f"
proof -
  obtain name off contents where f: "f = (name, off, contents)" by (cases f)
  have u: "unat (h + 1) = unat h + 1" "unat (h + 68) = unat h + 68" "unat (h + 72) = unat h + 72"
    using assms(2) by (simp_all add: unat_plus_numeral unat_add_no_wrap)
  have "cstr m' (h + 1) name"
    by (rule cstr_inside [of m _ _ 64]) (use assms u f in \<open>auto simp: raw_header_def fh_name_def in_block_def\<close>)
  moreover have "load32 m' (h + 68) = load32 m (h + 68)" "load32 m' (h + 72) = load32 m (h + 72)"
    by (rule load32_cong, rule assms(3), use assms(2) u in \<open>auto simp: offset_less_iff in_block_def\<close>)+
  ultimately show ?thesis using assms(1) f by (simp add: raw_header_def fh_name_def fh_offset_def fh_length_def)
qed

lemma file_loaded_inside:
  assumes "file_loaded r location m i f" and "length (fst f) < 64"
    and n: "unat (root_node_at r (of_nat i)) + 184 \<le> 4294967295" and h: "unat (file_header_at r (of_nat i)) + 76 \<le> 4294967295"
    and same: "\<And>x. in_block (unat (root_node_at r (of_nat i)), 184) x \<or> in_block (unat (file_header_at r (of_nat i)), 76) x
      \<Longrightarrow> m' x = m x"
  shows "file_loaded r location m' i f"
proof -
  obtain name off contents where f: "f = (name, off, contents)" by (cases f)
  define node where "node = root_node_at r (of_nat i)"
  define hd where "hd = file_header_at r (of_nat i)"
  have u: "unat (hd + 68) = unat hd + 68" "unat (hd + 72) = unat hd + 72"
    using h by (simp_all add: unat_plus_numeral hd_def)
  have "cstr m' node name"
    by (rule cstr_inside [of m _ _ 184])
       (use assms(1,2) n same f in \<open>auto simp: file_loaded_def Let_def node_def\<close>)
  moreover have "node_get m' node g = node_get m node g" for g
    by (rule node_get_inside) (use n same in \<open>auto simp: node_def\<close>)
  moreover have "load32 m' (hd + 68) = load32 m (hd + 68)" "load32 m' (hd + 72) = load32 m (hd + 72)"
    by (rule load32_cong, rule same, use h u in \<open>auto simp: offset_less_iff in_block_def hd_def\<close>)+
  ultimately show ?thesis
    using assms(1) f by (simp add: file_loaded_def Let_def node_def hd_def fh_offset_def fh_length_def)
qed

text \<open>Where the headers and the nodes of \<open>n\<close> files lie.\<close>

definition mount_layout :: "initrd \<Rightarrow> u32 \<Rightarrow> nat \<Rightarrow> bool" where
  "mount_layout r location n \<longleftrightarrow> initrd_header r = location \<and> file_headers r = location + 4
     \<and> unat location + 4 + 76 * n \<le> 4294967295 \<and> unat (root_nodes r) + 184 * n \<le> 4294967295
     \<and> root_nodes r \<noteq> 0 \<and> apart_blocks (unat location, 4 + 76 * n) (unat (root_nodes r), 184 * n)"

lemma unat_base_index:
  assumes "unat (b :: u32) + k * n \<le> 4294967295" and "i < n" and "0 < k" and "k < 4294967296"
  shows "unat (b + of_nat k * of_nat i) = unat b + k * i"
proof -
  have "k * i \<le> k * n" using assms(2) by simp
  then have le: "unat b + k * i \<le> 4294967295" using assms(1) by linarith
  have "b + of_nat k * of_nat i = of_nat (unat b + k * i)" by simp
  also have "unat \<dots> = unat b + k * i" using le by (intro unat_of_nat32) linarith
  finally show ?thesis .
qed

lemma mount_places:
  assumes "mount_layout r location n" and "i < n"
  shows "unat (root_node_at r (of_nat i)) = unat (root_nodes r) + 184 * i"
    "unat (file_header_at r (of_nat i)) = unat location + 4 + 76 * i"
    "unat (root_node_at r (of_nat i)) + 184 \<le> 4294967295" "unat (file_header_at r (of_nat i)) + 76 \<le> 4294967295"
proof -
  have l: "unat (location + 4) = unat location + 4"
    using assms by (subst unat_add_no_wrap) (auto simp: mount_layout_def)
  have in1: "76 * i + 76 \<le> 76 * n" "184 * i + 184 \<le> 184 * n" using assms(2) by auto
  show n: "unat (root_node_at r (of_nat i)) = unat (root_nodes r) + 184 * i"
    using unat_base_index [of "root_nodes r" 184 n i] assms
    by (simp add: root_node_at_def sizeof_fs_node_def mount_layout_def)
  show h: "unat (file_header_at r (of_nat i)) = unat location + 4 + 76 * i"
    using unat_base_index [of "location + 4" 76 n i] assms l
    by (simp add: file_header_at_def sizeof_file_header_def mount_layout_def)
  show "unat (root_node_at r (of_nat i)) + 184 \<le> 4294967295" "unat (file_header_at r (of_nat i)) + 76 \<le> 4294967295"
    unfolding n h using in1 assms(1) by (auto simp: mount_layout_def)
qed

lemma set_file_node_fields:
  fixes r :: initrd and i :: u32
  defines "node \<equiv> root_node_at r i"
  shows "node_get (set_file_node r i m) node n_inode = i" "node_get (set_file_node r i m) node n_flags = FS_FILE"
    "node_get (set_file_node r i m) node n_read = code_initrd_read r" "node_get (set_file_node r i m) node n_write = 0"
    "node_get (set_file_node r i m) node n_readdir = 0" "node_get (set_file_node r i m) node n_finddir = 0"
  by (simp_all add: set_file_node_def Let_def node_def)

lemma set_file_node_len:
  assumes "unat (root_node_at r i) + 184 \<le> 4294967295" and "unat (file_header_at r i) + 76 \<le> 4294967295"
    and "apart_blocks (unat (root_node_at r i), 184) (unat (file_header_at r i), 76)"
  shows "node_get (set_file_node r i m) (root_node_at r i) n_len = fh_length m (file_header_at r i)"
    "same_outside (unat (root_node_at r i) + 128) (unat (root_node_at r i) + 184) m (set_file_node r i m)"
proof -
  let ?n = "root_node_at r i" and ?h = "file_header_at r i"
  define m3 where "m3 = node_set ?n n_mask 0 (node_set ?n n_uid 0 (node_set ?n n_gid 0 m))"
  have fr: "same_outside (unat ?n + 128) (unat ?n + 184) m m3"
    unfolding m3_def by (intro node_sets_frame [OF assms(1)] same_outside_refl)
  have "unat (?h + 72) = unat ?h + 72" using assms(2) by (simp add: unat_plus_numeral)
  then have "fh_length m3 ?h = fh_length m ?h"
    unfolding fh_length_def
    by (intro same_outside_load32 [OF fr]) (use assms(2,3) in \<open>auto simp: apart_blocks_def\<close>)
  then show "node_get (set_file_node r i m) ?n n_len = fh_length m ?h"
    by (simp add: set_file_node_def Let_def m3_def)
  show "same_outside (unat ?n + 128) (unat ?n + 184) m (set_file_node r i m)"
    unfolding set_file_node_def Let_def by (intro node_sets_frame [OF assms(1)] same_outside_refl)
qed

text \<open>One iteration of the loop.\<close>

lemma load_one:
  assumes lay: "mount_layout r location n" and i: "i < n"
    and raw: "raw_header m (file_header_at r (of_nat i)) f"
  defines "node \<equiv> root_node_at r (of_nat i)" and "h \<equiv> file_header_at r (of_nat i)"
  shows "\<exists>m1. strcpy (store32 m (h + 68) (fh_offset m h + location)) node (fh_name h) = Some (m1, node)
    \<and> file_loaded r location (set_file_node r (of_nat i) m1) i f
    \<and> (\<forall>x. \<not> in_block (unat node, 184) x \<and> \<not> in_block (unat h, 76) x \<longrightarrow> set_file_node r (of_nat i) m1 x = m x)"
proof -
  note pl = mount_places [OF lay i, folded node_def h_def]
  obtain name off contents where f: "f = (name, off, contents)" by (cases f)
  have ap: "apart_blocks (unat node, 184) (unat h, 76)"
    unfolding pl(1,2) using lay i by (auto simp: mount_layout_def apart_blocks_def)
  have hr: "length name < 64" "cstr m (h + 1) name" "fh_offset m h = of_nat off" "fh_length m h = of_nat (length contents)"
    using raw f by (simp_all add: raw_header_def fh_name_def h_def)
  have u: "unat (h + 1) = unat h + 1" "unat (h + 68) = unat h + 68" "unat (h + 72) = unat h + 72"
    using pl(4) by (simp_all add: unat_plus_numeral unat_add_no_wrap)
  define m0 where "m0 = store32 m (h + 68) (fh_offset m h + location)"
  have fr0: "same_outside (unat h + 68) (unat h + 72) m m0"
    unfolding m0_def by (rule same_outside_store32) (use u pl(4) in auto)
  have str0: "cstr m0 (h + 1) name" by (rule cstr_frame [OF fr0 hr(2)]) (use u pl(4) hr(1) in auto)
  have nz: "node \<noteq> 0"
  proof
    assume "node = 0"
    then have "unat (root_nodes r) = 0" using pl(1) by simp
    then show False using lay by (simp add: mount_layout_def unat_eq_0)
  qed
  obtain m1 where m1: "strcpy m0 node (h + 1) = Some (m1, node)" "cstr m1 node name"
      and fr1: "same_outside (unat node) (unat node + (length name + 1)) m0 m1"
    using strcpy_string [OF str0 nz] u pl(3,4) hr(1) ap by (auto simp: apart_blocks_def)
  define m2 where "m2 = set_file_node r (of_nat i) m1"
  note L = set_file_node_len [OF pl(3,4) [unfolded node_def h_def] ap [unfolded node_def h_def], of m1, folded node_def h_def m2_def]
  have fr1': "same_outside (unat node) (unat node + 184) m0 m1"
    by (rule same_outside_mono [OF fr1]) (use hr(1) in auto)
  have fr2: "same_outside (unat node) (unat node + 184) m0 m2"
    by (rule same_outside_trans [OF fr1' same_outside_mono [OF L(2)]]) auto
  have off: "fh_offset m2 h = of_nat off + location" "fh_length m2 h = of_nat (length contents)"
    "fh_length m1 h = of_nat (length contents)"
  proof -
    have "load32 m2 (h + 68) = load32 m0 (h + 68)" "load32 m2 (h + 72) = load32 m0 (h + 72)"
        "load32 m1 (h + 72) = load32 m0 (h + 72)" "load32 m0 (h + 72) = load32 m (h + 72)"
      by (rule same_outside_load32 [OF fr2] same_outside_load32 [OF fr1'] same_outside_load32 [OF fr0];
          use u pl(4) ap in \<open>auto simp: apart_blocks_def\<close>)+
    then show "fh_offset m2 h = of_nat off + location" "fh_length m2 h = of_nat (length contents)"
      "fh_length m1 h = of_nat (length contents)"
      using hr(3,4) by (simp_all add: fh_offset_def fh_length_def m0_def)
  qed
  have "cstr m2 node name" by (rule cstr_frame [OF L(2) m1(2)]) (use pl(3) hr(1) in auto)
  then have "file_loaded r location m2 i f"
    using off L(1) set_file_node_fields [of r "of_nat i" m1]
    unfolding file_loaded_def f Let_def node_def [symmetric] h_def [symmetric] m2_def [symmetric] by simp
  moreover have "m2 x = m x" if "\<not> in_block (unat node, 184) x" "\<not> in_block (unat h, 76) x" for x
    using same_outside_byte [OF fr2, of x] same_outside_byte [OF fr0, of x] that by (auto simp: in_block_def not_less)
  ultimately show ?thesis using m1(1) by (auto simp: m0_def m2_def fh_name_def)
qed

text \<open>The bytes the loop writes for file \<open>j\<close>.\<close>

definition touched :: "initrd \<Rightarrow> nat \<Rightarrow> u32 \<Rightarrow> bool" where
  "touched r j x \<longleftrightarrow> in_block (unat (root_node_at r (of_nat j)), 184) x \<or> in_block (unat (file_header_at r (of_nat j)), 76) x"

lemma touched_apart:
  assumes lay: "mount_layout r location n" and "i < n" "j < n" "i \<noteq> j" and "touched r j x"
  shows "\<not> touched r i x"
proof -
  note pi = mount_places(1,2) [OF lay \<open>i < n\<close>] and pj = mount_places(1,2) [OF lay \<open>j < n\<close>]
  have "76 * i + 76 \<le> 76 * n" "184 * i + 184 \<le> 184 * n" "76 * j + 76 \<le> 76 * n" "184 * j + 184 \<le> 184 * n"
    using assms(2,3) by auto
  moreover have "i + 1 \<le> j \<or> j + 1 \<le> i" using assms(4) by linarith
  moreover have "apart_blocks (unat location, 4 + 76 * n) (unat (root_nodes r), 184 * n)"
    using lay by (simp add: mount_layout_def)
  ultimately show ?thesis
    using assms(5) unfolding touched_def in_block_def apart_blocks_def fst_conv snd_conv pi pj by linarith
qed

lemma touched_not_count:
  assumes lay: "mount_layout r location n" and "j < n" and "touched r j x"
  shows "\<not> in_block (unat location, 4) x"
proof -
  have "184 * j + 184 \<le> 184 * n" using assms(2) by auto
  moreover have "apart_blocks (unat location, 4 + 76 * n) (unat (root_nodes r), 184 * n)"
    using lay by (simp add: mount_layout_def)
  ultimately show ?thesis
    using assms(3) mount_places(1,2) [OF lay assms(2)]
    unfolding touched_def in_block_def apart_blocks_def fst_conv snd_conv by linarith
qed

text \<open>What the loop needs of the memory from file \<open>i\<close> on.\<close>

definition unloaded :: "initrd \<Rightarrow> u32 \<Rightarrow> disk_file list \<Rightarrow> nat \<Rightarrow> memory \<Rightarrow> bool" where
  "unloaded r location fs i m \<longleftrightarrow> load32 m location = of_nat (length fs)
     \<and> (\<forall>j. i \<le> j \<and> j < length fs \<longrightarrow> raw_header m (file_header_at r (of_nat j)) (fs ! j))"

lemma load_files_step:
  assumes lay: "mount_layout r location (length fs)" and i: "i < length fs" and un: "unloaded r location fs i m"
  shows "\<exists>m2. load_files r location (of_nat i) m = load_files r location (of_nat (Suc i)) m2
    \<and> unloaded r location fs (Suc i) m2 \<and> file_loaded r location m2 i (fs ! i)
    \<and> (\<forall>x. \<not> touched r i x \<longrightarrow> m2 x = m x)"
proof -
  let ?h = "file_header_at r (of_nat i)" and ?n = "root_node_at r (of_nat i)"
  have len: "length fs \<le> 4294967295" using lay by (simp add: mount_layout_def)
  have cond: "of_nat i < load32 m (initrd_header r)"
    using i len lay un by (simp add: unloaded_def mount_layout_def word_less_unat unat_of_nat32)
  have "raw_header m ?h (fs ! i)" using un i by (simp add: unloaded_def)
  from load_one [OF lay i this]
  obtain m1 where step: "strcpy (store32 m (?h + 68) (fh_offset m ?h + location)) ?n (fh_name ?h) = Some (m1, ?n)"
      and ok: "file_loaded r location (set_file_node r (of_nat i) m1) i (fs ! i)"
      and fr: "\<And>x. \<not> touched r i x \<Longrightarrow> set_file_node r (of_nat i) m1 x = m x"
    unfolding touched_def by auto
  define m2 where "m2 = set_file_node r (of_nat i) m1"
  note fr = fr [folded m2_def]
  have run: "load_files r location (of_nat i) m = load_files r location (of_nat (Suc i)) m2"
    unfolding load_files.simps [of r location "of_nat i" m] using cond step
    by (simp add: m2_def Let_def add.commute [of 1])
  have "load32 m2 location = load32 m location"
  proof (rule load32_cong, rule fr)
    fix x :: u32 assume "x - location < 4"
    then have "in_block (unat location, 4) x"
      using lay by (auto simp: in_block_def offset_less_iff mount_layout_def)
    then show "\<not> touched r i x" using touched_not_count [OF lay i] by blast
  qed
  moreover have "raw_header m2 (file_header_at r (of_nat j)) (fs ! j)" if j: "Suc i \<le> j" "j < length fs" for j
  proof (rule raw_header_inside [of m])
    fix x assume "in_block (unat (file_header_at r (of_nat j)), 76) x"
    then have "touched r j x" by (simp add: touched_def)
    then show "m2 x = m x" using touched_apart [OF lay i j(2)] j(1) by (intro fr) auto
  qed (use un j mount_places(4) [OF lay j(2)] in \<open>auto simp: unloaded_def\<close>)
  ultimately show ?thesis
    using run ok fr un by (intro exI [of _ m2]) (simp add: unloaded_def m2_def)
qed

lemma load_files_all:
  assumes lay: "mount_layout r location (length fs)"
  shows "i \<le> length fs \<Longrightarrow> unloaded r location fs i m \<Longrightarrow>
    \<forall>j. i \<le> j \<and> j < length fs \<longrightarrow> length (fst (fs ! j)) < 64 \<Longrightarrow>
    \<exists>m'. load_files r location (of_nat i) m = Inr m'
      \<and> (\<forall>j. i \<le> j \<and> j < length fs \<longrightarrow> file_loaded r location m' j (fs ! j))
      \<and> (\<forall>x. (\<forall>j. i \<le> j \<and> j < length fs \<longrightarrow> \<not> touched r j x) \<longrightarrow> m' x = m x)"
proof (induction "length fs - i" arbitrary: i m)
  case 0
  then show ?case
    using lay by (intro exI [of _ m]) (auto simp: load_files.simps mount_layout_def unloaded_def)
next
  case (Suc d)
  have i: "i < length fs" using Suc.hyps(2) by linarith
  obtain m2 where run: "load_files r location (of_nat i) m = load_files r location (of_nat (Suc i)) m2"
      and un: "unloaded r location fs (Suc i) m2" and ok: "file_loaded r location m2 i (fs ! i)"
      and fr: "\<And>x. \<not> touched r i x \<Longrightarrow> m2 x = m x"
    using load_files_step [OF lay i Suc.prems(2)] by blast
  have "d = length fs - Suc i" "Suc i \<le> length fs"
      "\<forall>j. Suc i \<le> j \<and> j < length fs \<longrightarrow> length (fst (fs ! j)) < 64"
    using Suc.hyps(2) Suc.prems(3) i by auto
  from Suc.hyps(1) [OF this(1,2) un this(3)]
  obtain m' where m': "load_files r location (of_nat (Suc i)) m2 = Inr m'"
      and rest: "\<And>j. Suc i \<le> j \<Longrightarrow> j < length fs \<Longrightarrow> file_loaded r location m' j (fs ! j)"
      and fr': "\<And>x. (\<And>j. Suc i \<le> j \<Longrightarrow> j < length fs \<Longrightarrow> \<not> touched r j x) \<Longrightarrow> m' x = m2 x"
    by blast
  have "file_loaded r location m' i (fs ! i)"
  proof (rule file_loaded_inside [OF ok])
    fix x assume "in_block (unat (root_node_at r (of_nat i)), 184) x \<or> in_block (unat (file_header_at r (of_nat i)), 76) x"
    then have "touched r i x" by (simp add: touched_def)
    then show "m' x = m2 x" using touched_apart [OF lay _ i] by (intro fr') auto
  qed (use i Suc.prems(3) mount_places(3,4) [OF lay i] in auto)
  then have "file_loaded r location m' j (fs ! j)" if "i \<le> j" "j < length fs" for j
    using rest [of j] that by (cases "j = i") auto
  moreover have "m' x = m x" if "\<And>j. i \<le> j \<Longrightarrow> j < length fs \<Longrightarrow> \<not> touched r j x" for x
    using fr' [of x] fr [of x] that i by simp
  ultimately show ?case using run m' by auto
qed

subsection \<open>Directory nodes\<close>

definition dir_node :: "initrd \<Rightarrow> memory \<Rightarrow> u32 \<Rightarrow> bool" where
  "dir_node r m node \<longleftrightarrow> node_get m node n_flags = FS_DIRECTORY \<and> node_get m node n_read = 0
     \<and> node_get m node n_write = 0 \<and> node_get m node n_readdir = code_initrd_readdir r
     \<and> node_get m node n_finddir = code_initrd_finddir r"

lemma set_dir_node_ok: "dir_node r (set_dir_node r node m) node"
  by (simp add: dir_node_def set_dir_node_def Let_def)

lemma set_dir_node_frame:
  assumes "unat node + 184 \<le> 4294967295"
  shows "same_outside (unat node + 128) (unat node + 184) m (set_dir_node r node m)"
  unfolding set_dir_node_def Let_def by (intro node_sets_frame [OF assms] same_outside_refl)

lemma dir_node_inside:
  assumes "dir_node r m node" and "unat node + 184 \<le> 4294967295" and "\<And>x. in_block (unat node, 184) x \<Longrightarrow> m' x = m x"
  shows "dir_node r m' node"
  using assms(1) node_get_inside [OF assms(2,3)] by (simp add: dir_node_def)

lemma code_of_updates [simp]:
  "set_dir_node (r\<lparr>initrd_header := a\<rparr>) = set_dir_node r" "set_dir_node (r\<lparr>file_headers := a\<rparr>) = set_dir_node r"
  "set_dir_node (r\<lparr>initrd_root := a\<rparr>) = set_dir_node r" "set_dir_node (r\<lparr>initrd_dev := a\<rparr>) = set_dir_node r"
  by (simp_all add: set_dir_node_def fun_eq_iff)

subsection \<open>Mounting\<close>

text \<open>The module as the boot loader leaves it, from \<open>location\<close> to \<open>limit\<close>.\<close>

definition disk_ok :: "memory \<Rightarrow> u32 \<Rightarrow> disk_file list \<Rightarrow> nat \<Rightarrow> bool" where
  "disk_ok m location fs limit \<longleftrightarrow> load32 m location = of_nat (length fs) \<and> length fs < 2147483648
     \<and> unat location + 4 + 76 * length fs \<le> limit \<and> limit \<le> 4294967295
     \<and> (\<forall>i < length fs. raw_header m (location + 4 + 76 * of_nat i) (fs ! i))"

definition mounted :: "initrd \<Rightarrow> memory \<Rightarrow> u32 \<Rightarrow> disk_file list \<Rightarrow> bool" where
  "mounted r m location fs \<longleftrightarrow> mount_layout r location (length fs) \<and> nroot_nodes r = of_nat (length fs)
     \<and> (\<forall>i < length fs. file_loaded r location m i (fs ! i)) \<and> dir_node r m (initrd_root r) \<and> dir_node r m (initrd_dev r)"

text \<open>A string in constant data: outside what the allocator owns.\<close>

definition constant_string :: "memory \<Rightarrow> nat \<Rightarrow> nat \<Rightarrow> u32 \<Rightarrow> u8 list \<Rightarrow> bool" where
  "constant_string m lo hi a xs \<longleftrightarrow> cstr m a xs \<and> length xs < 128 \<and> unat a + 128 \<le> 4294967295
     \<and> (unat a + 128 \<le> lo \<or> hi \<le> unat a)"

lemma constant_string_kept:
  assumes "constant_string m lo hi a xs" and "\<And>x. unat x < lo \<or> hi \<le> unat x \<Longrightarrow> m' x = m x"
  shows "constant_string m' lo hi a xs"
  using assms(1) cstr_inside [of m a xs 128 m', OF _ _ _ assms(2)]
  unfolding constant_string_def by (auto simp: in_block_def)

lemma disk_inside:
  assumes "disk_ok m location fs limit"
    and inside: "\<And>x. unat location \<le> unat x \<Longrightarrow> unat x < limit \<Longrightarrow> m' x = m x"
  shows "disk_ok m' location fs limit"
proof -
  have b: "unat location + 4 + 76 * length fs \<le> limit" "limit \<le> 4294967295" using assms(1) by (simp_all add: disk_ok_def)
  have l: "unat (location + 4) = unat location + 4" using b by (subst unat_add_no_wrap) auto
  have "raw_header m' (location + 4 + 76 * of_nat i) (fs ! i)" if i: "i < length fs" for i
  proof -
    have u: "unat (location + 4 + 76 * of_nat i) = unat location + 4 + 76 * i"
      using unat_base_index [of "location + 4" 76 "length fs" i] b i l by simp
    have i76: "76 * i + 76 \<le> 76 * length fs" using i by auto
    have "raw_header m (location + 4 + 76 * of_nat i) (fs ! i)" using assms(1) i by (simp add: disk_ok_def)
    moreover have "unat (location + 4 + 76 * of_nat i) + 76 \<le> 4294967295" unfolding u using b i76 by linarith
    moreover have "m' x = m x" if "in_block (unat (location + 4 + 76 * of_nat i), 76) x" for x
      by (rule inside; use that b i76 in \<open>simp only: in_block_def u fst_conv snd_conv; linarith\<close>)
    ultimately show ?thesis by (rule raw_header_inside)
  qed
  moreover have "load32 m' location = load32 m location"
    by (rule load32_cong, rule inside) (use b in \<open>auto simp: offset_less_iff\<close>)
  ultimately show ?thesis using assms(1) by (simp add: disk_ok_def)
qed

lemma disk_kept:
  assumes "disk_ok m location fs limit" and "limit \<le> lo \<or> hi \<le> unat location"
    and "\<And>x. unat x < lo \<or> hi \<le> unat x \<Longrightarrow> m' x = m x"
  shows "disk_ok m' location fs limit"
  by (rule disk_inside [OF assms(1) assms(3)]) (use assms(2) in linarith)

lemma disk_unloaded:
  assumes "disk_ok m location fs limit" and "file_headers r = location + 4"
  shows "unloaded r location fs 0 m"
  using assms by (simp add: disk_ok_def unloaded_def file_header_at_def sizeof_file_header_def)

lemma touched_inside:
  assumes "mount_layout r location n" and "j < n" and "touched r j x"
  shows "in_block (unat (root_nodes r), 184 * n) x \<or> in_block (unat location + 4, 76 * n) x"
proof -
  have "76 * j + 76 \<le> 76 * n" "184 * j + 184 \<le> 184 * n" using assms(2) by auto
  with assms(3) mount_places(1,2) [OF assms(1,2)] show ?thesis
    unfolding touched_def in_block_def fst_conv snd_conv by linarith
qed

context block_pool
begin

text \<open>Allocating a directory node, naming it after a string outside the pool and filling it in.\<close>

lemma add_dir:
  assumes pool: "pool s room L lo hi" and room: "204 \<le> room"
    and str: "cstr (ram s) lit xs" and len: "length xs < 128" and lit: "unat lit + 128 \<le> 4294967295"
      "unat lit + 128 \<le> lo \<or> hi \<le> unat lit"
  shows "\<exists>p n s1 m. kmalloc (Suc fuel) sizeof_fs_node False False s = Inr (p, None, s1)
    \<and> strcpy (ram s1) p lit = Some (m, p) \<and> 184 \<le> n \<and> unat p + n \<le> 4294967295
    \<and> pool (s1\<lparr>ram := set_dir_node r p m\<rparr>) (room - 204) (insert (unat p, n) L) lo hi
    \<and> dir_node r (set_dir_node r p m) p \<and> (\<forall>b \<in> L. apart_blocks (unat p, n) b)
    \<and> (\<forall>x. unat x < lo \<or> hi \<le> unat x \<or> (\<exists>b \<in> L. in_block b x) \<longrightarrow> set_dir_node r p m x = ram s x)"
proof -
  have k: "184 + 20 \<le> room" using room by simp
  from serve [OF pool k, of fuel]
  obtain p n s1 where run: "kmalloc (Suc fuel) (of_nat 184) False False s = Inr (p, None, s1)" and n: "184 \<le> n"
      and pool1: "pool s1 (room - (184 + 20)) (insert (unat p, n) L) lo hi"
      and ap: "\<forall>b \<in> L. apart_blocks (unat p, n) b"
      and fr: "\<And>x. unat x < lo \<or> hi \<le> unat x \<or> (\<exists>b \<in> L. in_block b x) \<Longrightarrow> ram s1 x = ram s x"
    by blast
  have b: "0 < lo" "hi \<le> 4294967295" "lo \<le> unat p" "unat p + n \<le> hi" using bounds [OF pool1] by auto
  have str1: "cstr (ram s1) lit xs"
    by (rule cstr_inside [OF str len lit(1)], rule fr) (use lit(2) in \<open>auto simp: in_block_def\<close>)
  have nz: "p \<noteq> 0" using b(1,3) by auto
  obtain m where m: "strcpy (ram s1) p lit = Some (m, p)"
      and fr1: "same_outside (unat p) (unat p + (length xs + 1)) (ram s1) m"
    using strcpy_string [OF str1 nz] b n len lit by auto
  have "same_outside (unat p) (unat p + n) (ram s1) m"
    by (rule same_outside_mono [OF fr1]) (use len n in auto)
  moreover have "same_outside (unat p) (unat p + n) m (set_dir_node r p m)"
    by (rule same_outside_mono [OF set_dir_node_frame]) (use b n in auto)
  ultimately have fr2: "same_outside (unat p) (unat p + n) (ram s1) (set_dir_node r p m)"
    by (rule same_outside_trans)
  have "pool (s1\<lparr>ram := set_dir_node r p m\<rparr>) (room - 204) (insert (unat p, n) L) lo hi"
  proof (rule client_write)
    fix x assume "\<forall>b \<in> insert (unat p, n) L. \<not> in_block b x"
    then have "unat x < unat p \<or> unat p + n \<le> unat x" by (auto simp: in_block_def not_less)
    then show "set_dir_node r p m x = ram s1 x" by (rule same_outside_byte [OF fr2])
  qed (use pool1 in simp)
  moreover have "set_dir_node r p m x = ram s x"
    if x: "unat x < lo \<or> hi \<le> unat x \<or> (\<exists>b \<in> L. in_block b x)" for x
  proof -
    have "unat x < unat p \<or> unat p + n \<le> unat x"
      using x b ap by (fastforce simp: in_block_def apart_blocks_def)
    then show ?thesis using same_outside_byte [OF fr2] fr [OF x] by simp
  qed
  ultimately show ?thesis
    using run m n b ap set_dir_node_ok [of r p m]
    by (intro exI [of _ p] exI [of _ n] exI [of _ s1] exI [of _ m]) (simp add: sizeof_fs_node_def)
qed

text \<open>Filling the node array, allocated as the block at \<open>p\<close>, from the module.\<close>

lemma fill_nodes:
  assumes disk: "disk_ok m location fs limit" and out: "limit \<le> lo \<or> hi \<le> unat location"
    and p: "lo \<le> unat p" "unat p + n \<le> hi" "184 * length fs \<le> n" "0 < lo" "hi \<le> 4294967295"
    and r: "initrd_header r = location" "file_headers r = location + 4" "root_nodes r = p"
  shows "mount_layout r location (length fs)" and "\<exists>m'. load_files r location 0 m = Inr m'
      \<and> (\<forall>i < length fs. file_loaded r location m' i (fs ! i))
      \<and> (\<forall>x. \<not> in_block (unat p, n) x \<and> \<not> in_block (unat location + 4, 76 * length fs) x \<longrightarrow> m' x = m x)"
proof -
  have "p \<noteq> 0" using p(1,4) by auto
  then show lay: "mount_layout r location (length fs)"
    using disk out p r by (auto simp: mount_layout_def disk_ok_def apart_blocks_def)
  have short: "\<forall>j. 0 \<le> j \<and> j < length fs \<longrightarrow> length (fst (fs ! j)) < 64"
    using disk by (auto simp: disk_ok_def raw_header_def)
  obtain m' where m': "load_files r location (of_nat 0) m = Inr m'"
      and ok: "\<forall>j. 0 \<le> j \<and> j < length fs \<longrightarrow> file_loaded r location m' j (fs ! j)"
      and fr: "\<And>x. (\<forall>j. 0 \<le> j \<and> j < length fs \<longrightarrow> \<not> touched r j x) \<Longrightarrow> m' x = m x"
    using load_files_all [OF lay le0 disk_unloaded [OF disk r(2)] short] by blast
  have "m' x = m x" if "\<not> in_block (unat p, n) x" "\<not> in_block (unat location + 4, 76 * length fs) x" for x
    by (rule fr) (use touched_inside [OF lay] that p(3) r(3) in \<open>fastforce simp: in_block_def\<close>)
  then show "\<exists>m'. load_files r location 0 m = Inr m'
      \<and> (\<forall>i < length fs. file_loaded r location m' i (fs ! i))
      \<and> (\<forall>x. \<not> in_block (unat p, n) x \<and> \<not> in_block (unat location + 4, 76 * length fs) x \<longrightarrow> m' x = m x)"
    using m' ok by auto
qed

text \<open>The three allocations of initialise_initrd, with the two directory nodes filled in.\<close>

lemma mount_alloc:
  assumes pool: "pool s room L lo hi" and room: "184 * k + 428 \<le> room"
    and root_name: "constant_string (ram s) lo hi (literal_initrd r) xs"
    and dev_name: "constant_string (ram s) lo hi (literal_dev r) ds"
  obtains p1 s1 m1 p2 s2 m2 p3 n3 s3 room' L'
  where "kmalloc (Suc fuel) sizeof_fs_node False False s = Inr (p1, None, s1)"
      "strcpy (ram s1) p1 (literal_initrd r) = Some (m1, p1)"
      "kmalloc (Suc fuel) sizeof_fs_node False False (s1\<lparr>ram := set_dir_node r p1 m1\<rparr>) = Inr (p2, None, s2)"
      "strcpy (ram s2) p2 (literal_dev r) = Some (m2, p2)"
      "kmalloc (Suc fuel) (of_nat (184 * k)) False False (s2\<lparr>ram := set_dir_node r p2 m2\<rparr>) = Inr (p3, None, s3)"
    and "184 * k \<le> n3" "lo \<le> unat p3" "unat p3 + n3 \<le> hi"
    and "pool s3 room' L' lo hi" "L \<subseteq> L'" "(unat p3, n3) \<in> L'"
    and "\<And>x. unat x < lo \<or> hi \<le> unat x \<or> (\<exists>b \<in> L. in_block b x) \<Longrightarrow>
        ram s3 x = ram s x \<and> set_dir_node r p2 m2 x = ram s x"
    and "\<And>b. b \<in> L \<Longrightarrow> apart_blocks (unat p3, n3) b"
    and "dir_node r (ram s3) p1" "lo \<le> unat p1" "unat p1 + 184 \<le> hi" "apart_blocks (unat p3, n3) (unat p1, 184)"
    and "dir_node r (ram s3) p2" "lo \<le> unat p2" "unat p2 + 184 \<le> hi" "apart_blocks (unat p3, n3) (unat p2, 184)"
proof -
  note cs = constant_string_def
  have room1: "204 \<le> room" "204 \<le> room - 204" "184 * k + 20 \<le> room - 204 - 204" using room by simp_all
  obtain p1 n1 s1 m1 where
      run1: "kmalloc (Suc fuel) sizeof_fs_node False False s = Inr (p1, None, s1)" "strcpy (ram s1) p1 (literal_initrd r) = Some (m1, p1)"
      and n1: "184 \<le> n1"
      and pool1: "pool (s1\<lparr>ram := set_dir_node r p1 m1\<rparr>) (room - 204) (insert (unat p1, n1) L) lo hi"
      and d1: "dir_node r (set_dir_node r p1 m1) p1"
      and fr1: "\<And>x. unat x < lo \<or> hi \<le> unat x \<or> (\<exists>b \<in> L. in_block b x) \<Longrightarrow> set_dir_node r p1 m1 x = ram s x"
    using add_dir [OF pool room1(1), of "literal_initrd r" xs fuel r] root_name unfolding cs by blast
  let ?s1 = "s1\<lparr>ram := set_dir_node r p1 m1\<rparr>"
  have dev1: "constant_string (ram ?s1) lo hi (literal_dev r) ds"
    by (rule constant_string_kept [OF dev_name]) (use fr1 in auto)
  obtain p2 n2 s2 m2 where
      run2: "kmalloc (Suc fuel) sizeof_fs_node False False ?s1 = Inr (p2, None, s2)" "strcpy (ram s2) p2 (literal_dev r) = Some (m2, p2)"
      and n2: "184 \<le> n2"
      and pool2: "pool (s2\<lparr>ram := set_dir_node r p2 m2\<rparr>) (room - 204 - 204) (insert (unat p2, n2) (insert (unat p1, n1) L)) lo hi"
      and d2: "dir_node r (set_dir_node r p2 m2) p2"
      and fr2: "\<And>x. unat x < lo \<or> hi \<le> unat x \<or> (\<exists>b \<in> insert (unat p1, n1) L. in_block b x) \<Longrightarrow>
        set_dir_node r p2 m2 x = ram ?s1 x"
    using add_dir [OF pool1 room1(2), of "literal_dev r" ds fuel r] dev1 unfolding cs by blast
  let ?s2 = "s2\<lparr>ram := set_dir_node r p2 m2\<rparr>"
  obtain p3 n3 s3 where run3: "kmalloc (Suc fuel) (of_nat (184 * k)) False False ?s2 = Inr (p3, None, s3)"
      and n3: "184 * k \<le> n3"
      and pool3: "pool s3 (room - 204 - 204 - (184 * k + 20)) (insert (unat p3, n3) (insert (unat p2, n2) (insert (unat p1, n1) L))) lo hi"
      and ap3: "\<And>b. b \<in> insert (unat p2, n2) (insert (unat p1, n1) L) \<Longrightarrow> apart_blocks (unat p3, n3) b"
      and fr3: "\<And>x. unat x < lo \<or> hi \<le> unat x \<or> (\<exists>b \<in> insert (unat p2, n2) (insert (unat p1, n1) L). in_block b x) \<Longrightarrow>
        ram s3 x = ram ?s2 x"
    using serve [OF pool2 room1(3), of fuel] by blast
  have b: "hi \<le> 4294967295" "lo \<le> unat p1" "unat p1 + n1 \<le> hi" "lo \<le> unat p2" "unat p2 + n2 \<le> hi"
      "lo \<le> unat p3" "unat p3 + n3 \<le> hi"
    using bounds [OF pool3] by auto
  have "dir_node r (ram s3) p1"
    by (rule dir_node_inside [OF d1]) (use fr2 fr3 b n1 in \<open>auto simp: in_block_def\<close>)
  moreover have "dir_node r (ram s3) p2"
    by (rule dir_node_inside [OF d2]) (use fr3 b n2 in \<open>auto simp: in_block_def\<close>)
  moreover have "ram s3 x = ram s x \<and> set_dir_node r p2 m2 x = ram s x"
      if "unat x < lo \<or> hi \<le> unat x \<or> (\<exists>b \<in> L. in_block b x)" for x
  proof -
    have "ram s3 x = ram ?s2 x" by (rule fr3) (use that in blast)
    moreover have "set_dir_node r p2 m2 x = ram ?s1 x" by (rule fr2) (use that in blast)
    moreover have "set_dir_node r p1 m1 x = ram s x" by (rule fr1) (use that in blast)
    ultimately show ?thesis by simp
  qed
  moreover have "apart_blocks (unat p3, n3) (unat p1, 184)" "apart_blocks (unat p3, n3) (unat p2, 184)"
    using ap3 [of "(unat p1, n1)"] ap3 [of "(unat p2, n2)"] n1 n2 by (auto simp: apart_blocks_def)
  ultimately show thesis
    using that [OF run1 run2 run3 n3 b(6,7) pool3] b n1 n2 ap3 by auto
qed

lemma mount:
  assumes pool: "pool s room L lo hi" and room: "184 * length fs + 428 \<le> room"
    and disk: "disk_ok (ram s) location fs limit" and out: "limit \<le> lo \<or> hi \<le> unat location"
    and names: "constant_string (ram s) lo hi (literal_initrd r) xs" "constant_string (ram s) lo hi (literal_dev r) ds"
  shows "\<exists>p1 p2 p3 s' r'. r' = r\<lparr>initrd_header := location, file_headers := location + 4, initrd_root := p1,
      initrd_dev := p2, root_nodes := p3, nroot_nodes := of_nat (length fs)\<rparr>
    \<and> initialise_initrd (Suc fuel) location r s = Inr (p1, r', s')
    \<and> mounted r' (ram s') location fs
    \<and> (\<forall>x. (unat x < lo \<or> hi \<le> unat x \<or> (\<exists>b \<in> L. in_block b x))
          \<and> \<not> in_block (unat location + 4, 76 * length fs) x \<longrightarrow> ram s' x = ram s x)
    \<and> (\<exists>room' L'. pool s' room' L' lo hi \<and> L \<subseteq> L')"
proof -
  have b0: "0 < lo" "hi \<le> 4294967295" using bounds [OF pool] by auto
  have disk_b: "unat location + 4 + 76 * length fs \<le> limit" using disk by (simp add: disk_ok_def)
  obtain p1 s1 m1 p2 s2 m2 p3 n3 s3 room' L' where
      run: "kmalloc (Suc fuel) sizeof_fs_node False False s = Inr (p1, None, s1)"
        "strcpy (ram s1) p1 (literal_initrd r) = Some (m1, p1)"
        "kmalloc (Suc fuel) sizeof_fs_node False False (s1\<lparr>ram := set_dir_node r p1 m1\<rparr>) = Inr (p2, None, s2)"
        "strcpy (ram s2) p2 (literal_dev r) = Some (m2, p2)"
        "kmalloc (Suc fuel) (of_nat (184 * length fs)) False False (s2\<lparr>ram := set_dir_node r p2 m2\<rparr>) = Inr (p3, None, s3)"
      and b: "184 * length fs \<le> n3" "lo \<le> unat p3" "unat p3 + n3 \<le> hi"
      and pool3: "pool s3 room' L' lo hi" "L \<subseteq> L'" "(unat p3, n3) \<in> L'"
      and fr: "\<And>x. unat x < lo \<or> hi \<le> unat x \<or> (\<exists>b \<in> L. in_block b x) \<Longrightarrow>
        ram s3 x = ram s x \<and> set_dir_node r p2 m2 x = ram s x"
      and ap: "\<And>b. b \<in> L \<Longrightarrow> apart_blocks (unat p3, n3) b"
      and d1: "dir_node r (ram s3) p1" "lo \<le> unat p1" "unat p1 + 184 \<le> hi" "apart_blocks (unat p3, n3) (unat p1, 184)"
      and d2: "dir_node r (ram s3) p2" "lo \<le> unat p2" "unat p2 + 184 \<le> hi" "apart_blocks (unat p3, n3) (unat p2, 184)"
    by (rule mount_alloc [OF pool room names, of fuel]) (rule that)
  define r' where "r' = r\<lparr>initrd_header := location, file_headers := location + 4, initrd_root := p1,
      initrd_dev := p2, root_nodes := p3, nroot_nodes := of_nat (length fs)\<rparr>"
  have r': "initrd_header r' = location" "file_headers r' = location + 4" "root_nodes r' = p3" by (simp_all add: r'_def)
  have disk3: "disk_ok (ram s3) location fs limit" by (rule disk_kept [OF disk out]) (use fr in blast)
  have "disk_ok (set_dir_node r p2 m2) location fs limit" by (rule disk_kept [OF disk out]) (use fr in blast)
  then have count: "load32 (set_dir_node r p2 m2) location = of_nat (length fs)" "load32 (ram s3) location = of_nat (length fs)"
    using disk3 by (simp_all add: disk_ok_def)
  note fill = fill_nodes [OF disk3 out b(2,3,1) b0 r']
  obtain m' where m': "load_files r' location 0 (ram s3) = Inr m'"
      and ok: "\<forall>i < length fs. file_loaded r' location m' i (fs ! i)"
      and fr': "\<And>x. \<not> in_block (unat p3, n3) x \<Longrightarrow> \<not> in_block (unat location + 4, 76 * length fs) x \<Longrightarrow> m' x = ram s3 x"
    using fill(2) by blast
  have keep: "dir_node r' m' p"
    if "dir_node r (ram s3) p" "lo \<le> unat p" "unat p + 184 \<le> hi" "apart_blocks (unat p3, n3) (unat p, 184)" for p
  proof -
    have "dir_node r m' p"
      by (rule dir_node_inside [OF that(1)], use that(3) b0 in simp, rule fr')
         (use that(2-4) out disk_b in \<open>auto simp: in_block_def apart_blocks_def\<close>)
    then show ?thesis by (simp add: dir_node_def r'_def)
  qed
  have "initialise_initrd (Suc fuel) location r s = Inr (p1, r', s3\<lparr>ram := m'\<rparr>)"
    using run count m'
    by (simp add: initialise_initrd_def Let_def must_return_def sizeof_initrd_header_def sizeof_fs_node_def r'_def)
  moreover have "pool (s3\<lparr>ram := m'\<rparr>) room' L' lo hi"
    by (rule client_write [OF pool3(1)], rule fr') (use pool3(3) out disk_b in \<open>auto simp: in_block_def\<close>)
  moreover have "mounted r' m' location fs"
    using fill(1) ok keep [OF d1] keep [OF d2] by (simp add: mounted_def) (simp add: r'_def)
  moreover have "m' x = ram s x"
    if "unat x < lo \<or> hi \<le> unat x \<or> (\<exists>b \<in> L. in_block b x)" "\<not> in_block (unat location + 4, 76 * length fs) x" for x
  proof -
    have "\<not> in_block (unat p3, n3) x" using that(1) b ap by (fastforce simp: in_block_def apart_blocks_def)
    then show ?thesis using fr' [OF _ that(2)] fr [OF that(1)] by simp
  qed
  ultimately show ?thesis using pool3(2)
    by (intro exI [of _ p1] exI [of _ p2] exI [of _ p3] exI [of _ "s3\<lparr>ram := m'\<rparr>"] exI [of _ r'] conjI
        exI [of _ room'] exI [of _ L']) (simp_all add: r'_def)
qed

end

subsection \<open>Reading the files back\<close>

text \<open>The contents of the files lie behind the headers, inside the module.\<close>

definition contents_ok :: "memory \<Rightarrow> u32 \<Rightarrow> disk_file list \<Rightarrow> nat \<Rightarrow> bool" where
  "contents_ok m location fs limit \<longleftrightarrow> (\<forall>(name, off, contents) \<in> set fs.
     4 + 76 * length fs \<le> off \<and> unat location + off + length contents \<le> limit
     \<and> (\<forall>j < length contents. m (location + of_nat (off + j)) = contents ! j))"

text \<open>The first file with its name; no file is found under the name of the dev directory.\<close>

definition found_as :: "disk_file list \<Rightarrow> u8 list \<Rightarrow> nat \<Rightarrow> bool" where
  "found_as fs dev i \<longleftrightarrow> i < length fs \<and> fst (fs ! i) \<noteq> dev \<and> (\<forall>j < i. fst (fs ! j) \<noteq> fst (fs ! i))"

lemma first_named_nth:
  assumes "i < length ns" and "\<And>j. j < i \<Longrightarrow> ns ! j \<noteq> ns ! i"
  shows "first_named (ns ! i) ns = Some i"
  using assms
proof (induction ns arbitrary: i)
  case (Cons n ns)
  show ?case
  proof (cases i)
    case (Suc k)
    have "first_named (ns ! k) ns = Some k"
      by (rule Cons.IH) (use Cons.prems(1) Cons.prems(2) [of "Suc _"] Suc in auto)
    then show ?thesis using Cons.prems(2) [of 0] Suc by (simp add: first_named_Cons)
  qed (simp add: first_named_Cons)
qed simp

lemma mounted_finddir:
  assumes mt: "mounted r m location fs" and short: "length fs < 2147483648" and i: "found_as fs ds i"
    and key: "cstr m key (fst (fs ! i))" and dev: "cstr m (literal_dev r) ds"
    and codes: "code_initrd_readdir r \<noteq> 0" "code_initrd_finddir r \<noteq> 0"
  shows "finddir_fs r m (initrd_root r) key = Inr (root_node_at r (of_nat i))"
proof -
  have names: "node_names r m (map fst fs)"
    using mt short by (auto simp: mounted_def node_names_def file_loaded_def Let_def case_prod_beta)
  have len: "i < length fs" using i by (simp add: found_as_def)
  have "first_named (map fst fs ! i) (map fst fs) = Some i"
    by (rule first_named_nth) (use i in \<open>auto simp: found_as_def\<close>)
  then have "first_named (fst (fs ! i)) (map fst fs) = Some i" using len by simp
  then have "initrd_finddir r m (initrd_root r) key = Inr (root_node_at r (of_nat i))"
    using initrd_finddir_spec [OF names key dev, of "initrd_root r"] i by (simp add: found_as_def)
  then show ?thesis
    using mt codes by (simp add: finddir_fs_def mounted_def dir_node_def FS_DIRECTORY_def Let_def)
qed

lemma mounted_read:
  assumes mt: "mounted r m location fs" and i: "i < length fs" and f: "fs ! i = (name, off, contents)"
    and cont: "contents_ok m location fs limit" and limit: "limit \<le> 4294967295"
    and code: "code_initrd_read r \<noteq> 0" and n: "length contents \<le> unat n"
    and buf: "unat buffer + length contents \<le> 4294967295" "apart_blocks (unat buffer, length contents) (unat location, limit - unat location)"
  shows "\<exists>m'. read_fs r m (root_node_at r (of_nat i)) 0 n buffer = Inr (of_nat (length contents), m')
    \<and> (\<forall>j < length contents. m' (buffer + of_nat j) = contents ! j)"
proof -
  let ?node = "root_node_at r (of_nat i)" and ?h = "file_header_at r (of_nat i)"
  let ?k = "of_nat (length contents) :: u32"
  have "(name, off, contents) \<in> set fs" using f i nth_mem by metis
  then have c: "unat location + off + length contents \<le> limit"
      "\<And>j. j < length contents \<Longrightarrow> m (location + of_nat (off + j)) = contents ! j"
    using cont by (auto simp: contents_ok_def)
  have fl: "fh_offset m ?h = of_nat off + location" "fh_length m ?h = ?k" "node_get m ?node n_inode = of_nat i"
      "node_get m ?node n_read = code_initrd_read r"
    using mt i f by (auto simp: mounted_def file_loaded_def Let_def)
  have uk: "unat ?k = length contents" using buf(1) by (intro unat_of_nat32) linarith
  have uo: "unat (of_nat off + location) = unat location + off"
  proof -
    have "of_nat off + location = of_nat (unat location + off)" by simp
    also have "unat \<dots> = unat location + off" using c(1) limit by (intro unat_of_nat32) linarith
    finally show ?thesis .
  qed
  have "ascending_safe buffer (of_nat off + location) ?k"
    by (rule ascending_safe_apart) (use buf uo uk c(1) limit in \<open>auto simp: apart_blocks_def\<close>)
  then have safe: "ascending_safe buffer (fh_offset m ?h + 0) ?k" by (simp only: fl(1) add_0_right)
  have "?k \<le> n" using n by (simp only: word_le_unat uk)
  then have k: "?k = min n (fh_length m ?h - 0)" unfolding fl(2) diff_zero by (rule min_absorb2 [symmetric])
  have hd: "?h = file_header_at r (node_get m ?node n_inode)" by (simp only: fl(3))
  have "unat (0 :: u32) + unat n < 4294967296" by simp
  from initrd_read_spec [OF hd this k safe]
  have read: "initrd_read r m ?node 0 n buffer = (?k, blit m buffer (of_nat off + location) ?k)"
    by (simp only: fl(1,2) add_0_right word_zero_le if_True)
  have "blit m buffer (of_nat off + location) ?k (buffer + of_nat j) = contents ! j" if j: "j < length contents" for j
  proof -
    have "of_nat j < ?k" using j uk buf(1) by (simp add: word_less_unat unat_of_nat32)
    then have "blit m buffer (of_nat off + location) ?k (buffer + of_nat j) = m (of_nat off + location + of_nat j)"
      by (rule blit_inside)
    also have "of_nat off + location + of_nat j = location + of_nat (off + j)" by simp
    finally show ?thesis using c(2) [OF j] by simp
  qed
  with read show ?thesis using fl(4) code by (simp add: read_fs_def Let_def)
qed

lemma contents_kept:
  assumes "contents_ok m location fs limit" and "limit \<le> 4294967295"
    and same: "\<And>x. unat location + 4 + 76 * length fs \<le> unat x \<Longrightarrow> unat x < limit \<Longrightarrow> m' x = m x"
  shows "contents_ok m' location fs limit"
proof -
  have "m' (location + of_nat (off + j)) = m (location + of_nat (off + j))"
    if "(name, off, contents) \<in> set fs" "j < length contents" for name off contents j
  proof -
    have c: "4 + 76 * length fs \<le> off" "unat location + off + length contents \<le> limit"
      using assms(1) that(1) by (auto simp: contents_ok_def)
    have "location + of_nat (off + j) = of_nat (unat location + (off + j))" by simp
    also have "unat \<dots> = unat location + (off + j)" using c that(2) assms(2) by (intro unat_of_nat32) linarith
    finally have "unat (location + of_nat (off + j)) = unat location + (off + j)" .
    then show ?thesis by (intro same) (use c that(2) in linarith)+
  qed
  with assms(1) show ?thesis unfolding contents_ok_def by fastforce
qed

text \<open>A string that neither the allocator nor the loop over the files can change.\<close>

definition safe_string :: "memory \<Rightarrow> nat \<Rightarrow> nat \<Rightarrow> u32 \<Rightarrow> nat \<Rightarrow> u32 \<Rightarrow> u8 list \<Rightarrow> bool" where
  "safe_string m lo hi location limit a xs \<longleftrightarrow> constant_string m lo hi a xs
     \<and> (unat a + 128 \<le> unat location \<or> limit \<le> unat a)"

lemma safe_string_kept:
  assumes "safe_string m lo hi location limit a xs" and "unat location + 4 + k \<le> limit"
    and "\<And>x. (unat x < lo \<or> hi \<le> unat x) \<and> \<not> in_block (unat location + 4, k) x \<Longrightarrow> m' x = m x"
  shows "cstr m' a xs"
proof (rule cstr_inside [of m a xs 128])
  fix x assume "in_block (unat a, 128) x"
  then show "m' x = m x"
    using assms(1,2) by (intro assms(3)) (auto simp: safe_string_def constant_string_def in_block_def)
qed (use assms(1) in \<open>auto simp: safe_string_def constant_string_def\<close>)

text \<open>
  C8: the ramdisk round trip. When the heap has room and the boot module holds a well-formed ramdisk
  outside the heap, initialise_initrd succeeds. Looking up the name of a file in the root directory
  it returns then finds the node of the first file with that name, and reading that node with a
  large enough size yields exactly the contents of the file in the module.
\<close>

theorem ramdisk_roundtrip:
  assumes pool: "heap_pool s room L lo hi" and room: "184 * length fs + 428 \<le> room"
    and disk: "disk_ok (ram s) location fs limit" and cont: "contents_ok (ram s) location fs limit"
    and out: "limit \<le> lo \<or> hi \<le> unat location"
    and names: "constant_string (ram s) lo hi (literal_initrd r) xs" "safe_string (ram s) lo hi location limit (literal_dev r) ds"
    and codes: "code_initrd_read r \<noteq> 0" "code_initrd_readdir r \<noteq> 0" "code_initrd_finddir r \<noteq> 0"
    and i: "found_as fs ds i" and f: "fs ! i = (name, off, contents)"
    and key: "safe_string (ram s) lo hi location limit key name"
    and n: "length contents \<le> unat n" and buf: "unat buffer + length contents \<le> 4294967295"
      "apart_blocks (unat buffer, length contents) (unat location, limit - unat location)"
  shows "\<exists>root r' s' node m'. initialise_initrd (Suc fuel) location r s = Inr (root, r', s')
    \<and> finddir_fs r' (ram s') root key = Inr node
    \<and> read_fs r' (ram s') node 0 n buffer = Inr (of_nat (length contents), m')
    \<and> (\<forall>j < length contents. m' (buffer + of_nat j) = contents ! j)"
proof -
  have dev: "constant_string (ram s) lo hi (literal_dev r) ds" using names(2) by (simp add: safe_string_def)
  obtain p1 p2 p3 s' r' where r': "r' = r\<lparr>initrd_header := location, file_headers := location + 4, initrd_root := p1,
        initrd_dev := p2, root_nodes := p3, nroot_nodes := of_nat (length fs)\<rparr>"
      and run: "initialise_initrd (Suc fuel) location r s = Inr (p1, r', s')" and mt: "mounted r' (ram s') location fs"
      and fr: "\<And>x. (unat x < lo \<or> hi \<le> unat x) \<and> \<not> in_block (unat location + 4, 76 * length fs) x \<Longrightarrow> ram s' x = ram s x"
    using heap.mount [OF pool room disk out names(1) dev, of fuel] by blast
  have d: "length fs < 2147483648" "unat location + 4 + 76 * length fs \<le> limit" "limit \<le> 4294967295"
    using disk by (simp_all add: disk_ok_def)
  have "finddir_fs r' (ram s') (initrd_root r') key = Inr (root_node_at r' (of_nat i))"
    by (rule mounted_finddir [OF mt d(1) i])
       (use safe_string_kept [OF key d(2) fr] safe_string_kept [OF names(2) d(2) fr] f codes r' in auto)
  moreover have "contents_ok (ram s') location fs limit"
    by (rule contents_kept [OF cont d(3)], rule fr) (use out in \<open>auto simp: in_block_def\<close>)
  from mounted_read [OF mt _ f this d(3) _ n buf]
  obtain m' where "read_fs r' (ram s') (root_node_at r' (of_nat i)) 0 n buffer = Inr (of_nat (length contents), m')"
      "\<forall>j < length contents. m' (buffer + of_nat j) = contents ! j"
    using i codes(1) by (auto simp: found_as_def r')
  moreover have "initrd_root r' = p1" by (simp add: r')
  ultimately show ?thesis using run by metis
qed

text \<open>The heap as booted, with a ramdisk of one file at 0x3000.\<close>

definition disk_bytes :: memory where
  "disk_bytes = (\<lambda>a. if a = 0x3000 then 1 else if a = 0x3005 then 97 else if a = 0x3048 then 80
     else if a = 0x304C then 2 else if a = 0x3050 then 7 else if a = 0x3051 then 9
     else if a = 0x400 then 100 else if a = 0x500 then 105 else if a = 0xA000 then 97 else 0)"

definition disk_kernel :: kernel where
  "disk_kernel = boot_kernel\<lparr>ram := (\<lambda>a. if a < 0x10000 then disk_bytes a else ram boot_kernel a)\<rparr>"

lemma disk_pool: "heap_pool disk_kernel 0x80000 {} 0xC0000000 0xC0100000"
  unfolding disk_kernel_def
  by (rule heap.client_write [OF boot_pool]) (auto simp: word_less_unat)

lemma disk_kernel_files:
  "disk_ok (ram disk_kernel) 0x3000 [([97], 80, [7, 9])] 0x3052"
  "contents_ok (ram disk_kernel) 0x3000 [([97], 80, [7, 9])] 0x3052"
  "constant_string (ram disk_kernel) 0xC0000000 0xC0100000 0x500 [105]"
  "safe_string (ram disk_kernel) 0xC0000000 0xC0100000 0x3000 0x3052 0x400 [100]"
  "safe_string (ram disk_kernel) 0xC0000000 0xC0100000 0x3000 0x3052 0xA000 [97]"
  by (simp_all add: disk_kernel_def disk_bytes_def disk_ok_def raw_header_def contents_ok_def constant_string_def
      safe_string_def fh_name_def fh_offset_def fh_length_def load32_def All_less_Suc2)

theorem ramdisk_roundtrip_witness:
  "\<exists>root r' s' node m'. initialise_initrd 1 0x3000 demo_initrd disk_kernel = Inr (root, r', s')
     \<and> finddir_fs r' (ram s') root 0xA000 = Inr node
     \<and> read_fs r' (ram s') node 0 100 0x9000 = Inr (2, m') \<and> m' 0x9000 = 7 \<and> m' 0x9001 = 9"
proof -
  let ?fs = "[([97], 80, [7, 9])] :: disk_file list"
  have r: "literal_initrd demo_initrd = 0x500" "literal_dev demo_initrd = 0x400"
      "code_initrd_read demo_initrd \<noteq> 0" "code_initrd_readdir demo_initrd \<noteq> 0" "code_initrd_finddir demo_initrd \<noteq> 0"
    by (simp_all add: demo_initrd_def)
  have i: "found_as ?fs [100] 0" "?fs ! 0 = ([97], 80, [7, 9])" by (simp_all add: found_as_def)
  have "apart_blocks (unat (0x9000 :: u32), length [7 :: u8, 9]) (unat (0x3000 :: u32), 0x3052 - unat (0x3000 :: u32))"
    by (simp add: apart_blocks_def)
  from ramdisk_roundtrip [OF disk_pool _ disk_kernel_files(1,2) _ disk_kernel_files(3) [folded r(1)]
      disk_kernel_files(4) [folded r(2)] r(3-5) i disk_kernel_files(5), of 100 "0x9000" 0, OF _ _ _ _ this]
  show ?thesis by (simp add: All_less_Suc2)
qed

end
