(* ===== verification/Formatted_Output.thy ===== *)
theory Formatted_Output
  imports Screen
begin

text \<open>
  printf against a reference: \<open>render\<close> maps a format and its arguments to the text to show, one
  character of the format after the other. printf, which works on runs of plain characters, shows
  exactly that text and returns its length.
\<close>

subsection \<open>The reference\<close>

datatype fmt_arg = Chr u8 | Str "u8 list"

text \<open>
  37 is the percent sign, 99 and 115 are c and s. After a percent sign with any other character the
  rest of the format is shown as it is. \<open>None\<close>: an argument is missing or of the wrong kind.
\<close>

fun render :: "u8 list \<Rightarrow> fmt_arg list \<Rightarrow> u8 list option" where
  "render [] args = Some []"
| "render (x # xs) args =
     (if x \<noteq> 37 then map_option ((#) x) (render xs args)
      else case xs of
        [] \<Rightarrow> Some [37]
      | y # ys \<Rightarrow>
          if y = 37 then map_option ((#) 37) (render ys args)
          else if y = 99 then
            (case args of Chr c # args' \<Rightarrow> map_option ((#) c) (render ys args') | _ \<Rightarrow> None)
          else if y = 115 then
            (case args of Str zs # args' \<Rightarrow> map_option ((@) zs) (render ys args') | _ \<Rightarrow> None)
          else Some (37 # xs))"

lemma render_plain: "37 \<notin> set us \<Longrightarrow> render (us @ vs) args = map_option ((@) us) (render vs args)"
  by (cases "render vs args"; induction us) auto

text \<open>The arguments on the stack, outside the text buffer.\<close>

fun args_at :: "memory \<Rightarrow> u32 \<Rightarrow> fmt_arg list \<Rightarrow> bool" where
  "args_at m ap [] \<longleftrightarrow> True"
| "args_at m ap (Chr c # args) \<longleftrightarrow> off_screen ap 4 \<and> (ucast (load32 m ap) :: u8) = c \<and> args_at m (ap + 4) args"
| "args_at m ap (Str xs # args) \<longleftrightarrow> off_screen ap 4 \<and> cstr m (load32 m ap) xs
     \<and> off_screen (load32 m ap) (length xs + 1) \<and> args_at m (ap + 4) args"

subsection \<open>What was shown\<close>

definition shown :: "tty \<Rightarrow> memory \<Rightarrow> u8 list \<Rightarrow> tty \<Rightarrow> memory \<Rightarrow> bool" where
  "shown t m xs t' m' \<longleftrightarrow> tty_ok t' \<and> terminal_color t' = terminal_color t \<and> same_outside 0xB8000 0xB8FA0 m m'
     \<and> abs_screen (t', m') = fold (type_char (terminal_color t)) xs (abs_screen (t, m))"

lemma shown_refl: "tty_ok t \<Longrightarrow> shown t m [] t m"
  by (simp add: shown_def)

lemma shown_trans: "shown t m xs t1 m1 \<Longrightarrow> shown t1 m1 ys t2 m2 \<Longrightarrow> shown t m (xs @ ys) t2 m2"
  by (auto simp: shown_def intro: same_outside_trans)

definition bytes_at :: "memory \<Rightarrow> u32 \<Rightarrow> u8 list \<Rightarrow> bool" where
  "bytes_at m a xs \<longleftrightarrow> (\<forall>k < length xs. m (a + of_nat k) = xs ! k)"

lemma cstr_append:
  "cstr m a (xs @ ys) \<Longrightarrow> bytes_at m a xs \<and> cstr m (a + of_nat (length xs)) ys"
proof (induction xs arbitrary: a)
  case (Cons x xs)
  have "a + 1 + of_nat k = a + of_nat (Suc k)" for k by simp
  with Cons.IH [of "a + 1"] Cons.prems show ?case
    by (auto simp: bytes_at_def All_less_Suc2 simp del: of_nat_Suc)
qed (simp add: bytes_at_def)

lemma print_shown:
  assumes "bytes_at m a xs" and "off_screen a (length xs)" and "tty_ok t"
  shows "\<exists>t' m'. print a (of_nat (length xs)) t m = (True, t', m') \<and> shown t m xs t' m'"
proof -
  obtain t' m' where w: "Write a (of_nat (length xs)) t m = (t', m')" by fastforce
  have n: "unat (of_nat (length xs) :: u32) = length xs"
    using assms(2) by (intro unat_of_nat32) (simp add: off_screen_def)
  have "map (\<lambda>k. m (a + of_nat k)) [0..<length xs] = xs"
    by (rule nth_equalityI) (use assms(1) in \<open>simp_all add: bytes_at_def\<close>)
  then have "shown t m xs t' m'"
    using Write_from_refines [of a "of_nat (length xs)" 0 t m t' m'] assms(2,3) w n
    by (simp add: Write_def shown_def)
  with w show ?thesis by (simp add: print_Write)
qed

text \<open>Memory outside the text buffer is as before.\<close>

lemma shown_cstr:
  assumes "shown t m out t' m'" and "cstr m a xs" and "off_screen a (length xs + 1)"
  shows "cstr m' a xs"
proof -
  have byte: "m' (a + of_nat k) = m (a + of_nat k)" if "k \<le> length xs" for k
    by (rule off_screen_byte [OF assms(3)]) (use that assms(1) in \<open>auto simp: shown_def\<close>)
  have "cstr m' b ys" if "cstr m b ys" "\<And>k. k \<le> length ys \<Longrightarrow> m' (b + of_nat k) = m (b + of_nat k)" for b ys
    using that
  proof (induction ys arbitrary: b)
    case (Cons y ys)
    have "m' (b + 1 + of_nat k) = m (b + 1 + of_nat k)" if "k \<le> length ys" for k
      using Cons.prems(2) [of "Suc k"] that by (simp add: add.assoc)
    with Cons.IH [of "b + 1"] Cons.prems(1) Cons.prems(2) [of 0] show ?case by simp
  qed (use that in force)
  from this [OF assms(2) byte] show ?thesis .
qed

lemma shown_load32:
  assumes "shown t m out t' m'" and "off_screen a 4"
  shows "load32 m' a = load32 m a"
  by (rule same_outside_load32 [of "0xB8000" "0xB8FA0"]) (use assms in \<open>auto simp: shown_def off_screen_def\<close>)

lemma shown_args: "shown t m out t' m' \<Longrightarrow> args_at m ap args \<Longrightarrow> args_at m' ap args"
  by (induction m ap args rule: args_at.induct) (auto simp: shown_load32 intro: shown_cstr)

lemma off_screen_suffix:
  assumes "off_screen a (k + n)"
  shows "off_screen (a + of_nat k) n"
proof -
  have "unat (a + of_nat k) = unat a + k"
    using assms by (subst unat_add_no_wrap) (auto simp: off_screen_def unat_of_nat32)
  with assms show ?thesis by (auto simp: off_screen_def)
qed

lemma off_screen_prefix: "off_screen a n \<Longrightarrow> k \<le> n \<Longrightarrow> off_screen a k"
  by (auto simp: off_screen_def)

subsection \<open>The loop of printf\<close>

lemma plain_run_prefix:
  "cstr m (format + i) (us @ vs) \<Longrightarrow> 37 \<notin> set us \<Longrightarrow> vs = [] \<or> hd vs = 37 \<Longrightarrow>
   plain_run m format i = Some (i + of_nat (length us))"
proof (induction us arbitrary: i)
  case Nil
  then show ?case by (cases vs) (auto simp: plain_run.simps)
next
  case (Cons x xs)
  then have "plain_run m format (i + 1) = Some (i + 1 + of_nat (length xs))" by (simp add: add.assoc)
  with Cons.prems show ?case by (simp add: plain_run.simps [of m format i] algebra_simps)
qed

lemma sint_of_nat: "k \<le> 2147483647 \<Longrightarrow> sint (of_nat k :: u32) = int k"
  by (simp add: signed_of_nat signed_take_bit_int_eq_self)

lemma add_written_nat: "w + n \<le> 2147483647 \<Longrightarrow> add_written (int w) (of_nat n) = int (w + n)"
proof -
  assume le: "w + n \<le> 2147483647"
  have "add_written (int w) (of_nat n) = sint (of_nat (w + n) :: u32)" by (simp add: add_written_def)
  also have "\<dots> = int (w + n)" using le by (rule sint_of_nat)
  finally show ?thesis .
qed

lemma maxrem_nat:
  assumes "w + n \<le> 2147483647"
  shows "\<not> maxrem (int w) < of_nat n" and "0 < n \<Longrightarrow> maxrem (int w) \<noteq> 0"
proof -
  have "maxrem (int w) = of_nat (2147483647 - w)"
    using assms by (simp add: maxrem_def INT_MAX_def of_nat_diff)
  moreover have "unat (of_nat (2147483647 - w) :: u32) = 2147483647 - w" by (intro unat_of_nat32) simp
  moreover have "unat (of_nat n :: u32) = n" using assms by (intro unat_of_nat32) simp
  ultimately show "\<not> maxrem (int w) < of_nat n" "0 < n \<Longrightarrow> maxrem (int w) \<noteq> 0"
    using assms by (auto simp: word_less_unat word_eq_unat)
qed

text \<open>The four kinds of iteration.\<close>

lemma loop_run:
  assumes "m format \<noteq> 37 \<and> f = format \<or> m format = 37 \<and> m (format + 1) = 37 \<and> f = format + 1" and "m format \<noteq> 0"
    and "plain_run m f 1 = Some (of_nat n)" and "w + n \<le> 2147483647" and "print f (of_nat n) t m = (True, t1, m1)"
  shows "printf_loop format ap (int w) t m = printf_loop (f + of_nat n) ap (int (w + n)) t1 m1"
  using assms maxrem_nat(1) [OF assms(4)] add_written_nat [OF assms(4)]
  by (subst printf_loop.simps) auto

lemma loop_chr:
  assumes "m format = 37" "m (format + 1) = 99" and "(ucast (load32 m ap) :: u8) = c" and "w + 1 \<le> 2147483647"
    and "PutChar c t m = (t1, m1)"
  shows "printf_loop format ap (int w) t m = printf_loop (format + 2) (ap + 4) (int (w + 1)) t1 m1"
proof -
  have c: "(word_of_int (sint (load32 m ap)) :: u8) = c"
    unfolding assms(3) [symmetric] by (rule bit_word_eqI) (auto simp: bit_simps)
  have "uint c \<noteq> -1" using uint_ge_0 [of c] by linarith
  with assms c maxrem_nat(2) [OF assms(4)] add_written_nat [OF assms(4)] show ?thesis
    by (subst printf_loop.simps) (simp add: putchar_def Let_def)
qed

lemma loop_str:
  assumes "m format = 37" "m (format + 1) = 115" and "strlen m (load32 m ap) = Some (of_nat n)"
    and "w + n \<le> 2147483647" and "print (load32 m ap) (of_nat n) t m = (True, t1, m1)"
  shows "printf_loop format ap (int w) t m = printf_loop (format + 2) (ap + 4) (int (w + n)) t1 m1"
  using assms maxrem_nat(1) [OF assms(4)] add_written_nat [OF assms(4)]
  by (subst printf_loop.simps) (simp add: Let_def)

lemma loop_rest:
  assumes "m format = 37" "m (format + 1) \<notin> {37, 99, 115}" and "strlen m format = Some (of_nat n)"
    and "w + n \<le> 2147483647" and "print format (of_nat n) t m = (True, t1, m1)"
  shows "printf_loop format ap (int w) t m = printf_loop (format + of_nat n) ap (int (w + n)) t1 m1"
  using assms maxrem_nat(1) [OF assms(4)] add_written_nat [OF assms(4)]
  by (subst printf_loop.simps) simp

lemma loop_end: "m format = 0 \<Longrightarrow> printf_loop format ap w t m = Some (w, t, m)"
  by (simp add: printf_loop.simps)

text \<open>The loop does its job on a format, whatever arguments, count and terminal it starts with.\<close>

definition loop_ok :: "u8 list \<Rightarrow> bool" where
  "loop_ok fs \<longleftrightarrow> (\<forall>format ap args out w t m. cstr m format fs \<and> off_screen format (length fs + 1) \<and> args_at m ap args
     \<and> render fs args = Some out \<and> w + length out \<le> 2147483647 \<and> tty_ok t \<longrightarrow>
     (\<exists>t' m'. printf_loop format ap (int w) t m = Some (int (w + length out), t', m') \<and> shown t m out t' m'))"

lemma loop_okD:
  assumes "loop_ok fs" and "cstr m format fs" and "off_screen format (length fs + 1)" and "args_at m ap args"
    and "render fs args = Some out" and "w + length out \<le> 2147483647" and "tty_ok t"
  shows "\<exists>t' m'. printf_loop format ap (int w) t m = Some (int (w + length out), t', m') \<and> shown t m out t' m'"
  using assms unfolding loop_ok_def by blast

text \<open>An iteration that shows \<open>us\<close> and goes on with \<open>vs\<close> behind the first \<open>k\<close> characters.\<close>

lemma loop_continue:
  assumes IH: "loop_ok vs" and step: "printf_loop format ap (int w) t m = printf_loop (format + of_nat k) ap' (int (w + length us)) t1 m1"
    and sh: "shown t m us t1 m1" and str: "cstr m format fs" and fs: "fs = ks @ vs" "length ks = k"
    and off: "off_screen format (length fs + 1)" and args: "args_at m ap' args"
    and out: "render vs args = Some out" and len: "w + length (us @ out) \<le> 2147483647"
  shows "\<exists>t' m'. printf_loop format ap (int w) t m = Some (int (w + length (us @ out)), t', m') \<and> shown t m (us @ out) t' m'"
proof -
  have off': "off_screen (format + of_nat k) (length vs + 1)"
    by (rule off_screen_suffix) (use off fs in \<open>simp add: add.assoc\<close>)
  have "cstr m (format + of_nat k) vs" using cstr_append [of m format ks vs] str fs by simp
  from shown_cstr [OF sh this off'] have str': "cstr m1 (format + of_nat k) vs" .
  have "tty_ok t1" using sh by (simp add: shown_def)
  with loop_okD [OF IH str' off' shown_args [OF sh args] out, of "w + length us" t1] len
  obtain t' m' where r: "printf_loop (format + of_nat k) ap' (int (w + length us)) t1 m1 = Some (int (w + length us + length out), t', m')"
      "shown t1 m1 out t' m'"
    by (auto simp: add.assoc)
  with step shown_trans [OF sh r(2)] show ?thesis by (auto simp: add.assoc)
qed

text \<open>A run of plain characters behind the first character shown.\<close>

lemma loop_ok_run:
  fixes j :: nat
  assumes IH: "\<And>vs. length vs < length fs \<Longrightarrow> loop_ok vs"
    and fs: "fs = x # xs \<and> x \<noteq> 37 \<and> j = 0 \<or> fs = 37 # x # xs \<and> x = 37 \<and> j = 1"
    and str: "cstr m format fs" and off: "off_screen format (length fs + 1)" and args: "args_at m ap args"
    and out: "render fs args = Some out" and len: "w + length out \<le> 2147483647" and ok: "tty_ok t"
  shows "\<exists>t' m'. printf_loop format ap (int w) t m = Some (int (w + length out), t', m') \<and> shown t m out t' m'"
proof -
  define us where "us = takeWhile (\<lambda>c. c \<noteq> 37) xs"
  define vs where "vs = dropWhile (\<lambda>c. c \<noteq> 37) xs"
  have xs: "xs = us @ vs" by (simp add: us_def vs_def)
  have us: "37 \<notin> set us" by (auto simp: us_def dest: set_takeWhileD)
  have vs: "vs = [] \<or> hd vs = 37" using hd_dropWhile [of "\<lambda>c. c \<noteq> 37" xs] by (auto simp: vs_def)
  let ?f = "format + of_nat j" and ?us = "x # us"
  have ks: "fs = (take j fs @ ?us) @ vs" "length (take j fs @ ?us) = j + length ?us" using fs xs by auto
  from out fs have "\<exists>out'. render xs args = Some out' \<and> out = x # out'" by auto
  then obtain out1 where out1: "render vs args = Some out1" "out = ?us @ out1"
    unfolding xs render_plain [OF us] by auto
  have sub: "bytes_at m ?f ?us" "cstr m (?f + 1) (us @ vs)"
    using cstr_append [of m format "take j fs" "?us @ vs"] cstr_append [of m ?f ?us vs] str fs xs ks by auto
  have run: "plain_run m ?f 1 = Some (of_nat (length ?us))" using plain_run_prefix [OF sub(2) us vs] by simp
  have "off_screen ?f (length ?us)"
    by (rule off_screen_suffix, rule off_screen_prefix [OF off]) (use fs xs in auto)
  from print_shown [OF sub(1) this ok]
  obtain t1 m1 where pr: "print ?f (of_nat (length ?us)) t m = (True, t1, m1)" "shown t m ?us t1 m1" by blast
  have "m format \<noteq> 37 \<and> ?f = format \<or> m format = 37 \<and> m (format + 1) = 37 \<and> ?f = format + 1" "m format \<noteq> 0"
    using str fs by auto
  from loop_run [OF this run _ pr(1)] len out1(2)
  have step: "printf_loop format ap (int w) t m = printf_loop (format + of_nat (j + length ?us)) ap (int (w + length ?us)) t1 m1"
    by (simp add: ac_simps)
  have "loop_ok vs" by (rule IH) (use fs xs in auto)
  from loop_continue [OF this step pr(2) str ks off args out1(1)] len show ?thesis unfolding out1(2) by blast
qed

lemma loop_ok_directive:
  assumes IH: "loop_ok ys" and fs: "fs = 37 # y # ys" "y = 99 \<or> y = 115"
    and str: "cstr m format fs" and off: "off_screen format (length fs + 1)" and args: "args_at m ap args"
    and out: "render fs args = Some out" and len: "w + length out \<le> 2147483647" and ok: "tty_ok t"
  shows "\<exists>t' m'. printf_loop format ap (int w) t m = Some (int (w + length out), t', m') \<and> shown t m out t' m'"
proof -
  have ks: "fs = [37, y] @ ys" "length [37 :: u8, y] = 2" using fs by simp_all
  have b: "m format = 37" "m (format + 1) = y" using str fs by auto
  obtain us args' out1 a where o: "render ys args' = Some out1" "out = us @ out1" "args = a # args'"
      "y = 99 \<and> us = [case a of Chr c \<Rightarrow> c] \<and> (\<exists>c. a = Chr c) \<or> y = 115 \<and> a = Str us"
    using out fs(2) unfolding fs(1) by (auto split: list.splits fmt_arg.splits)
  have args': "args_at m (ap + 4) args'" using args o(3) by (cases a) auto
  have "\<exists>t1 m1. printf_loop format ap (int w) t m = printf_loop (format + of_nat 2) (ap + 4) (int (w + length us)) t1 m1
      \<and> shown t m us t1 m1"
  proof (cases a)
    case (Chr c)
    obtain t1 m1 where put: "PutChar c t m = (t1, m1)" by fastforce
    have "shown t m [c] t1 m1" using PutChar_spec [OF ok put] by (simp add: shown_def)
    with loop_chr [OF b(1) _ _ _ put, of ap w] b(2) Chr o args len show ?thesis by auto
  next
    case (Str xs)
    then have x: "cstr m (load32 m ap) us" "off_screen (load32 m ap) (length us + 1)" "y = 115" using o(3,4) args by auto
    from print_shown [of m "load32 m ap" us t] cstr_append [of m _ us "[]"] x off_screen_prefix [OF x(2)] ok
    obtain t1 m1 where "print (load32 m ap) (of_nat (length us)) t m = (True, t1, m1)" "shown t m us t1 m1" by auto
    with loop_str [OF b(1) _ strlen_cstr [OF x(1)] _ this(1), of w] b(2) x(3) o(2) len show ?thesis by auto
  qed
  then obtain t1 m1 where "printf_loop format ap (int w) t m = printf_loop (format + of_nat 2) (ap + 4) (int (w + length us)) t1 m1"
      "shown t m us t1 m1" by blast
  from loop_continue [OF IH this str ks off args' o(1)] len show ?thesis unfolding o(2) by blast
qed

lemma loop_ok_literal:
  assumes fs: "fs = 37 # ys" "ys = [] \<or> hd ys \<notin> {37, 99, 115}"
    and str: "cstr m format fs" and off: "off_screen format (length fs + 1)"
    and len: "w + length fs \<le> 2147483647" and ok: "tty_ok t"
  shows "\<exists>t' m'. printf_loop format ap (int w) t m = Some (int (w + length fs), t', m') \<and> shown t m fs t' m'"
proof -
  have "m format = 37" "m (format + 1) \<notin> {37, 99, 115}" using str fs by (cases ys; auto)+
  moreover obtain t1 m1 where pr: "print format (of_nat (length fs)) t m = (True, t1, m1)" "shown t m fs t1 m1"
    using print_shown [of m format fs t] cstr_append [of m format fs "[]"] str off_screen_prefix [OF off] ok by auto
  ultimately have "printf_loop format ap (int w) t m = printf_loop (format + of_nat (length fs)) ap (int (w + length fs)) t1 m1"
    using loop_rest [OF _ _ strlen_cstr [OF str] len] by blast
  moreover have "m1 (format + of_nat (length fs)) = 0" using cstr_end [OF shown_cstr [OF pr(2) str off]] .
  ultimately show ?thesis using pr(2) loop_end by auto
qed

lemma loop_ok_all: "loop_ok fs"
proof (induction fs rule: length_induct)
  case (1 fs)
  then have IH: "\<And>vs. length vs < length fs \<Longrightarrow> loop_ok vs" by blast
  show ?case
    unfolding loop_ok_def
  proof (intro allI impI, elim conjE)
    fix format ap args out w t m
    assume A: "cstr m format fs" "off_screen format (length fs + 1)" "args_at m ap args"
      "render fs args = Some out" "w + length out \<le> 2147483647" "tty_ok t"
    consider "fs = []" | x xs where "fs = x # xs" "x \<noteq> 37" | xs where "fs = 37 # 37 # xs"
      | y ys where "fs = 37 # y # ys" "y = 99 \<or> y = 115" | ys where "fs = 37 # ys" "ys = [] \<or> hd ys \<notin> {37, 99, 115}"
      by (cases fs; cases "tl fs"; cases "hd fs = 37"; cases "hd (tl fs) = 37") auto
    then show "\<exists>t' m'. printf_loop format ap (int w) t m = Some (int (w + length out), t', m') \<and> shown t m out t' m'"
    proof cases
      case 1
      with A show ?thesis using loop_end [of m format] by (auto simp: shown_refl)
    next
      case (2 x xs)
      then show ?thesis by (intro loop_ok_run [OF IH _ A, of x xs 0]) auto
    next
      case (3 xs)
      then show ?thesis by (intro loop_ok_run [OF IH _ A, of 37 xs 1]) auto
    next
      case (4 y ys)
      then show ?thesis by (intro loop_ok_directive [OF IH 4 A]) simp
    next
      case (5 ys)
      then have "out = fs" using A(4) by (cases ys) auto
      with loop_ok_literal [OF 5 A(1,2) _ A(6)] A(5) show ?thesis by simp
    qed
  qed
qed

lemma printf_shows:
  assumes "cstr m format fs" and "off_screen format (length fs + 1)" and "args_at m ap args"
    and "render fs args = Some out" and "length out \<le> 2147483647" and "tty_ok t"
  shows "\<exists>t' m'. printf format ap t m = Some (int (length out), t', m') \<and> tty_ok t'
    \<and> abs_screen (t', m') = fold (type_char (terminal_color t)) out (abs_screen (t, m))
    \<and> same_outside 0xB8000 0xB8FA0 m m'"
  using loop_okD [OF loop_ok_all assms(1-4), of 0 t] assms(5,6)
  by (auto simp: printf_def shown_def)

text \<open>The message of a kernel that gives up is on the screen when it starts to loop.\<close>

lemma abort_shows:
  assumes "cstr m literal msg" and "off_screen literal (length msg + 1)" and "37 \<notin> set msg"
    and "length msg \<le> 2147483647" and "tty_ok t"
  shows "\<exists>t' m'. abort_kernel literal ap t m = Some (t', m') \<and> cxa_pure_virtual literal ap t m = Some (t', m')
    \<and> abs_screen (t', m') = fold (type_char (terminal_color t)) msg (abs_screen (t, m))"
proof -
  have "render msg [] = Some msg" using render_plain [OF assms(3), of "[]" "[]"] by simp
  from printf_shows [OF assms(1,2) _ this assms(4,5), of ap] show ?thesis
    by (auto simp: abort_kernel_def cxa_pure_virtual_def)
qed

text \<open>
  C9: printf agrees with the reference: for a format and arguments outside the text buffer whose
  rendering is not longer than the greatest int, printf returns, its result is the length of the
  rendering, the screen shows exactly the rendering from the cursor on, and no other memory changes.
\<close>

theorem printf_renders:
  assumes "cstr m format fs" and "off_screen format (length fs + 1)" and "args_at m ap args"
    and "render fs args = Some out" and "length out \<le> 2147483647" and "tty_ok t"
  shows "\<exists>t' m'. printf format ap t m = Some (int (length out), t', m') \<and> tty_ok t'
    \<and> abs_screen (t', m') = fold (type_char (terminal_color t)) out (abs_screen (t, m))
    \<and> same_outside 0xB8000 0xB8FA0 m m'"
  using assms by (rule printf_shows)

text \<open>The format \<^verbatim>\<open>%c=%s%%\<close> with a character and a string.\<close>

definition demo_format :: memory where
  "demo_format = (\<lambda>a. if a \<in> {0x5000, 0x5003, 0x5005, 0x5006} then 37 else if a = 0x5001 then 99
     else if a = 0x5002 then 61 else if a = 0x5004 then 115 else if a = 0x7000 then 65
     else if a = 0x7005 then 0x60 else if a = 0x6000 then 72 else if a = 0x6001 then 105 else 0)"

theorem printf_renders_witness:
  "\<exists>t' m'. printf 0x5000 0x7000 \<lparr>terminal_row = 0, terminal_column = 0, terminal_color = 7, terminal_buffer = VGA_MEMORY\<rparr>
     demo_format = Some (5, t', m') \<and> position t' = 5"
proof -
  let ?t = "\<lparr>terminal_row = 0, terminal_column = 0, terminal_color = 7, terminal_buffer = VGA_MEMORY\<rparr>"
  let ?fs = "[37, 99, 61, 37, 115, 37, 37] :: u8 list" and ?args = "[Chr 65, Str [72, 105]]"
  have "cstr demo_format 0x5000 ?fs" "off_screen 0x5000 (length ?fs + 1)" by (simp_all add: demo_format_def off_screen_def)
  moreover have "args_at demo_format 0x7000 ?args" by (simp add: demo_format_def load32_def off_screen_def)
  moreover have "render ?fs ?args = Some [65, 61, 72, 105, 37]" "tty_ok ?t" by (simp_all add: tty_ok_def vga_sizes)
  ultimately obtain t' m' where p: "printf 0x5000 0x7000 ?t demo_format = Some (5, t', m')"
      "abs_screen (t', m') = fold (type_char 7) [65, 61, 72, 105, 37] (abs_screen (?t, demo_format))"
    using printf_renders [of demo_format "0x5000" ?fs "0x7000" ?args "[65, 61, 72, 105, 37]" ?t] by auto
  from arg_cong [OF p(2), of fst] have "position t' = 5"
    by (simp add: abs_screen_def type_char_def position_def)
  with p(1) show ?thesis by blast
qed

end
