(* ===== verification/Kernel_Boot.thy ===== *)
theory Kernel_Boot
  imports First_Tasks Boot Ramdisk_Mount Formatted_Output
begin

text \<open>
  kernel_main from its first to its last line, on a machine whose image, boot information and ramdisk
  do not overlap. The boot sequence of theory Boot gets past initialise_paging exactly for some values of
  the variable that kmalloc leaves uninitialised; it then runs through, and leaves paging and the heap set
  up, two tasks in the ready queue, the greeting on the screen and the files of the ramdisk mounted.
\<close>

subsection \<open>Devices\<close>

text \<open>The memory that the first part of the boot sequence writes.\<close>

definition boot_writes :: "image \<Rightarrow> u32 \<Rightarrow> (u32 \<times> nat) list" where
  "boot_writes img irq = [(at_gdt_entries img, 24), (at_gtdPointer img, 6), (at_entries img, 2048),
     (at_idtPointer img, 6), (irq, 64)]"

definition outside_all :: "(u32 \<times> nat) list \<Rightarrow> u32 \<Rightarrow> bool" where
  "outside_all rs x \<longleftrightarrow> (\<forall>(a, n) \<in> set rs. unat x < unat a \<or> unat a + n \<le> unat x)"

lemma boot_devices_state:
  fixes s :: system and img :: image
  defines "m \<equiv> ram (sys (mach s))" and "irq \<equiv> irq_routines (mach s)"
  assumes lay: "separate (boot_regions img irq mboot_ptr m)"
  shows "\<exists>c p m'. boot_devices img mboot_ptr initial_stack s = Inr (load32 m (mods_addr m mboot_ptr),
      s\<lparr>initial_esp := initial_stack, core := c, mach := (mach s)\<lparr>
        sys := (sys (mach s))\<lparr>placement_address := load32 m (mods_addr m mboot_ptr + 4), ram := m'\<rparr>, out_ports := p\<rparr>\<rparr>)
    \<and> (\<forall>x. outside_all (boot_writes img irq) x \<longrightarrow> m' x = m x)
    \<and> (\<forall>k < 16. load32 m' (irq + 4 * of_nat k) = (if k = 0 then code_TickHandler (mach s)
          else if k = 1 then code_keyboard_handler (mach s) else load32 m (irq + 4 * of_nat k)))"
proof -
  note fits = boot_regions_fit [OF lay]
  obtain m1 c1 where gdt: "InitGDT (at_gdt_entries img) (at_gtdPointer img) m (core s) = (m1, c1)" by fastforce
  obtain m2 c2 p2 where idt: "Init_IDT (at_isr img) (at_entries img) (at_idtPointer img) m1 c1 (out_ports (mach s)) = (m2, c2, p2)"
    by (metis prod_cases3)
  note info = boot_information_kept [OF lay gdt idt]
  define m4 where "m4 = store32 (store32 m2 (irq + 4) (code_keyboard_handler (mach s))) irq (code_TickHandler (mach s))"
  have irq4: "unat (irq + 4) = unat irq + 4" using fits(5) by (subst unat_add_no_wrap) simp_all
  have fr: "same_outside (unat irq) (unat irq + 8) m2 m4"
    unfolding m4_def using fits(5) irq4 by (intro same_outside_store32 same_outside_refl) simp_all
  have "m4 x = m x" if x: "outside_all (boot_writes img irq) x" for x
  proof -
    have "m4 x = m2 x" by (rule same_outside_byte [OF fr]) (use x in \<open>auto simp: outside_all_def boot_writes_def\<close>)
    also have "\<dots> = m1 x"
      by (rule conjunct1 [OF Init_IDT_frame [OF fits(3,4) idt]]) (use x in \<open>auto simp: outside_all_def boot_writes_def\<close>)
    also have "\<dots> = m x"
      by (rule InitGDT_frame [OF fits(1,2) gdt]) (use x in \<open>auto simp: outside_all_def boot_writes_def\<close>)
    finally show ?thesis .
  qed
  moreover from boot_devices_eq [of img s, OF gdt [unfolded m_def] idt, of mboot_ptr initial_stack] info
  have "boot_devices img mboot_ptr initial_stack s = Inr (load32 m (mods_addr m mboot_ptr),
      s\<lparr>initial_esp := initial_stack, core := c2, mach := (mach s)\<lparr>
        sys := (sys (mach s))\<lparr>placement_address := load32 m (mods_addr m mboot_ptr + 4), ram := m4\<rparr>,
        out_ports := p2 @ [(0x43, 0x36), (0x40, 0x9B), (0x40, 0x2E)]\<rparr>\<rparr>)"
    by (simp add: m4_def irq_def)
  moreover have "load32 m4 (irq + 4 * of_nat k) = (if k = 0 then code_TickHandler (mach s)
      else if k = 1 then code_keyboard_handler (mach s) else load32 m (irq + 4 * of_nat k))" if k: "k < 16" for k
  proof -
    have a: "unat (irq + 4 * of_nat k) = unat irq + 4 * k" using fits(5) k by (intro unat_cell [of _ 16]) simp_all
    have tables: "separate [(at_gdt_entries img, 24), (at_gtdPointer img, 6), (at_entries img, 2048), (at_idtPointer img, 6), (irq, 64)]"
      using lay by (simp add: boot_regions_def irq_def)
    consider "k = 0" | "k = 1" | "2 \<le> k" by linarith
    then show ?thesis
    proof cases
      case 3
      have "load32 m4 (irq + 4 * of_nat k) = load32 m2 (irq + 4 * of_nat k)"
        by (rule load32_bytes [OF _ same_outside_byte [OF fr]]) (use a k 3 fits(5) in auto)
      also have "\<dots> = load32 m (irq + 4 * of_nat k)"
        by (rule load32_bytes [OF _ table_read [OF tables gdt idt]]) (use a k fits(5) in auto)
      finally show ?thesis using 3 by simp
    qed (use fits(5) irq4 in \<open>simp_all add: m4_def load32_store32_apart apart_def\<close>)
  qed
  ultimately show ?thesis by blast
qed

subsection \<open>Paging and tasks\<close>

text \<open>
  The first fetch after initialise_paging. CR3 has the uninitialised value \<open>z\<close> and an offset, so the run
  goes on only if \<open>z\<close> happens to lie in the page of one of the two directories.
\<close>

lemma next_page_base: "((z :: u32) + 4096) AND 0xFFFFF000 = (z AND 0xFFFFF000) + 4096"
proof -
  have "unat ((z + 4096) mod 4096) = (unat z + 4096) mod 4294967296 mod 4096" by (simp add: unat_mod unat_word_ariths)
  also have "\<dots> = (unat z + 4096) mod 4096" by (rule mod_mod_cancel) simp
  finally have "(z + 4096) mod 4096 = z mod 4096" by (simp add: word_eq_unat unat_mod)
  then show ?thesis by (simp add: page_mask)
qed

lemma next_fetch_space:
  assumes sp: "kernel_space lo n k" and z: "cr3 k = z + 4096"
  shows "translate (ram k) (kernel_directory k + 4096) (current_directory k) = Some (of_nat (4096 * n) + 0x81000)"
    and "next_fetch k = (if z AND 0xFFFFF000 \<in> {kernel_directory k, of_nat (4096 * n) + 0x81000} then Inr k else Inl BadDirectory)"
proof -
  note S = kernel_spaceD [OF sp]
  have heap: "0xC0000000 \<le> unat (0xC0081000 :: u32)" "unat (0xC0081000 :: u32) < 0xC0100000"
      "0xC0000000 \<le> unat (0xC0082000 :: u32)" "unat (0xC0082000 :: u32) < 0xC0100000" by simp_all
  show "translate (ram k) (kernel_directory k + 4096) (current_directory k) = Some (of_nat (4096 * n) + 0x81000)"
    using S(4) [OF heap(1,2)] by (simp add: S(2) add.commute)
  have "unat (kernel_directory k + 4096) = unat (kernel_directory k) + 4096" using S(7,9) by (subst unat_add_no_wrap) simp_all
  then have "translate (ram k) (kernel_directory k + 4096) (kernel_directory k + 4096) = Some (kernel_directory k + 4096)"
    using S(9) by (intro S(3)) simp
  moreover have "translate (ram k) (kernel_directory k + 4096) (0xC0081000 + 4096) = Some (of_nat (4096 * n) + 0x81000 + 4096)"
    using S(4) [OF heap(3,4)] by (simp add: add.commute)
  moreover have "a = b" if "a + 4096 = b + 4096" for a b :: u32 using that by simp
  ultimately show "next_fetch k = (if z AND 0xFFFFF000 \<in> {kernel_directory k, of_nat (4096 * n) + 0x81000} then Inr k else Inl BadDirectory)"
    using S(1) unfolding next_fetch_def addresses_directory_def S(2) z next_page_base
    by (simp del: of_nat_mult) (metis add.commute)
qed

text \<open>The kernel after fork.\<close>

definition forked :: "kernel \<Rightarrow> kernel \<Rightarrow> context_regs \<Rightarrow> nat \<Rightarrow> u32 \<Rightarrow> u32 \<Rightarrow> (nat \<times> nat) set \<Rightarrow> nat \<Rightarrow> bool" where
  "forked k1 k regs lo t n L j \<longleftrightarrow> queue_ok k [t, n] \<and> current_task k = t \<and> task_id (ram k) t = 1 \<and> task_id (ram k) n = 2
     \<and> saved_regs (ram k) n = regs \<and> heap_pool k 499656 L 0xC0000000 0xC0100000
     \<and> {(unat t, 24), (0xC0081000, 8196)} \<subseteq> L \<and> (\<exists>i \<ge> 24. (unat n, i) \<in> L)
     \<and> kernel_space lo j k \<and> paging_globals k = paging_globals k1"

lemma boot_tasks:
  assumes boot: "boot_memory k" and pid: "next_pid k = 1" and fuel: "4096 < fuel"
  shows "\<exists>k1 k2 k3 t n L j. initialise_paging fuel junk k = Inr k1 \<and> initialise_tasking fuel k1 = Inr k2
    \<and> fork fuel eip esp ebp k2 = Inr (2, k3) \<and> forked k1 k3 (eip, esp, ebp) (unat (placement_address k)) t n L j
    \<and> kernel_space (unat (placement_address k)) j k1 \<and> cr3 k1 = indeterminate k + 4096
    \<and> kernel_directory k1 = of_nat (placed_at True (placement_address k + 128))
    \<and> kept_below (placement_address k) (ram k) (ram k3)"
proof -
  obtain f where f: "fuel = Suc f" using fuel by (cases fuel) auto
  obtain k1 h j where p: "initialise_paging fuel junk k = Inr k1" "kernel_space (unat (placement_address k)) j k1"
      "kernel_heap k1 h boot_blocks" "cr3 k1 = indeterminate k + 4096" "next_pid k1 = next_pid k"
      "kernel_directory k1 = of_nat (placed_at True (placement_address k + 128))" "kept_below (placement_address k) (ram k) (ram k1)"
    by (rule booted_space [OF boot fuel, of junk])
  note S = kernel_spaceD [OF p(2)]
  have kd: "unat (kernel_directory k1) + 8196 \<le> 0xC0000000" using S(7,9) by linarith
  from first_task [OF p(3), of f]
  obtain t k2 h2 bs where t: "initialise_tasking fuel k1 = Inr k2" "kernel_heap k2 h2 bs" "one_task_blocks bs"
      "(unat t, 24) \<in> set (used 0xC0080000 bs)"
      "k2 = k1\<lparr>kheap := Some h2, ram := ram k2, interrupt_flag := True, current_task := t, ready_queue := t, next_pid := next_pid k1 + 1\<rparr>"
      "task_id (ram k2) t = next_pid k1" "task_next (ram k2) t = 0"
      "\<And>x. unat x < 0xC0000000 \<Longrightarrow> ram k2 x = ram k1 x" "\<And>x. in_block (0xC0081000, 8196) x \<Longrightarrow> ram k2 x = ram k1 x"
    unfolding f by blast
  have "paging_globals k2 = paging_globals k1" by (subst t(5)) (simp add: paging_globals_def)
  then have sp2: "kernel_space (unat (placement_address k)) j k2" and pg2: "paging_globals k2 = paging_globals k1"
    using t(8,9) by (auto intro: kernel_space_kept [OF p(2)])
  obtain m2 where k2: "k2 = k1\<lparr>kheap := Some h2, ram := m2, interrupt_flag := True, current_task := t, ready_queue := t,
      next_pid := next_pid k1 + 1\<rparr>" using t(5) by blast
  have g: "ready_queue k2 = t" "current_task k2 = t" "kernel_directory k2 = kernel_directory k1" "next_pid k2 = 2"
    unfolding k2 using p(5) pid by simp_all
  note second_task [OF t(2-4) g(1,2) t(7) kernel_spaceD(2) [OF sp2] kernel_spaceD(5) [OF sp2] kd [folded g(3)], of f eip esp ebp]
  then obtain n k3 L where n: "fork fuel eip esp ebp k2 = Inr (2, k3)" "queue_ok k3 [t, n]" "task_id (ram k3) n = 2"
      "task_id (ram k3) t = task_id (ram k2) t" "saved_regs (ram k3) n = (eip, esp, ebp)" "current_task k3 = t"
      "heap_pool k3 499656 L 0xC0000000 0xC0100000" "(unat t, 24) \<in> L" "\<exists>j \<ge> 24. (unat n, j) \<in> L"
      "(0xC0081000, 8196) \<in> L" "paging_globals k3 = paging_globals k2"
      "\<And>x. unat x < 0xC0000000 \<or> in_block (0xC0081000, 8196) x \<Longrightarrow> ram k3 x = ram k2 x"
    by (auto simp: f g(4))
  have "kernel_space (unat (placement_address k)) j k3" by (rule kernel_space_kept [OF sp2 n(11)]) (use n(12) in blast)
  moreover have "kept_below (placement_address k) (ram k1) (ram k3)"
  proof (rule kept_belowI [OF order_refl])
    fix x :: u32 assume "unat x < unat (placement_address k)"
    then have "unat x < 0xC0000000" using boot by (simp add: boot_memory_def)
    then show "ram k3 x = ram k1 x" using n(12) t(8) by simp
  qed
  with p(7) have "kept_below (placement_address k) (ram k) (ram k3)" by (rule kept_below_trans)
  moreover have "task_id (ram k3) t = 1" using n(4) t(6) p(5) pid by simp
  ultimately have "forked k1 k3 (eip, esp, ebp) (unat (placement_address k)) t n L j"
    using n pg2 by (simp add: forked_def)
  then show ?thesis using p t(1) n(1) \<open>kept_below _ (ram k) (ram k3)\<close> by blast
qed

subsection \<open>The greeting and the ramdisk\<close>

text \<open>The format string of the call in kernel_main.\<close>

definition hello_text :: "u8 list" where
  "hello_text = map of_char ''Hello, kernel World!'' @ [10]"

lemma hello_text_plain: "length hello_text = 21" "render hello_text [] = Some hello_text"
  by (simp_all add: hello_text_def)

lemma abs_screen_same:
  assumes "\<And>x. 0xB8000 \<le> unat x \<Longrightarrow> unat x < 0xB8FA0 \<Longrightarrow> m' x = m x"
  shows "abs_screen (t, m') = abs_screen (t, m)"
proof -
  have "cell_get () m' k = cell_get () m k" if "k < 2000" for k
    unfolding cell_get_def
  proof (rule load16_cong)
    fix x :: u32 assume "x - (VGA_MEMORY + 2 * of_nat k) < 2"
    then show "m' x = m x" using that by (intro assms) (auto simp: offset_less_iff cell_address)
  qed
  then show ?thesis by (simp add: abs_screen_def screen.view_def)
qed

context memory_observer
begin

lemma heap_quiet: "quiet_alloc obs (Alloc fuel)"
  by unfold_locales (rule Alloc_quiet)

lemma initialise_initrd_quiet: "initialise_initrd fuel location r s = Inr (root, r', s') \<Longrightarrow> obs s' = obs s"
  by (auto simp: initialise_initrd_def must_return_def kmalloc_def Let_def rbind_Inr_iff obs_simps split: option.splits if_splits
      dest!: quiet_alloc.kmalloc_quiet [OF heap_quiet])

end

text \<open>
  The rest of kernel_main: the greeting goes to the screen, and the ramdisk is mounted on the heap
  without touching the tasks.
\<close>

lemma boot_files:
  assumes pool: "heap_pool k room L lo hi" and room: "184 * length files + 428 \<le> room" and lo: "0xB8FA0 \<le> lo"
    and hello: "cstr (ram k) fmt hello_text" "off_screen fmt 22" and tty: "tty_ok t"
    and disk: "disk_ok (ram k) location files limit" "limit \<le> lo" "0xB8FA0 \<le> unat location \<or> limit \<le> 0xB8000"
    and root_name: "constant_string (ram k) lo hi (literal_initrd r) xs" "off_screen (literal_initrd r) 128"
    and dev_name: "constant_string (ram k) lo hi (literal_dev r) dev" "off_screen (literal_dev r) 128"
  shows "\<exists>t' m p1 p2 p3 k' r'. printf fmt ap t (ram k) = Some (21, t', m)
    \<and> initialise_initrd (Suc fuel) location r (k\<lparr>ram := m, interrupt_flag := True\<rparr>) = Inr (p1, r', k')
    \<and> r' = r\<lparr>initrd_header := location, file_headers := location + 4, initrd_root := p1,
        initrd_dev := p2, root_nodes := p3, nroot_nodes := of_nat (length files)\<rparr>
    \<and> mounted r' (ram k') location files \<and> tty_ok t'
    \<and> abs_screen (t', ram k') = fold (type_char (terminal_color t)) hello_text (abs_screen (t, ram k))
    \<and> task_globals k' = task_globals (k\<lparr>interrupt_flag := True\<rparr>) \<and> paging_globals k' = paging_globals k
    \<and> (\<exists>room' L'. heap_pool k' room' L' lo hi \<and> L \<subseteq> L')
    \<and> (\<forall>x. (unat x < lo \<or> hi \<le> unat x \<or> (\<exists>b \<in> L. in_block b x)) \<and> (unat x < 0xB8000 \<or> 0xB8FA0 \<le> unat x)
          \<and> \<not> in_block (unat location + 4, 76 * length files) x \<longrightarrow> ram k' x = ram k x)"
proof -
  have "off_screen fmt (length hello_text + 1)" "args_at (ram k) ap []" "length hello_text \<le> 2147483647"
    using hello(2) by (simp_all add: hello_text_plain)
  from printf_shows [OF hello(1) this(1,2) hello_text_plain(2) this(3) tty]
  obtain t' m where pr: "printf fmt ap t (ram k) = Some (21, t', m)" "tty_ok t'"
      "abs_screen (t', m) = fold (type_char (terminal_color t)) hello_text (abs_screen (t, ram k))"
      "same_outside 0xB8000 0xB8FA0 (ram k) m"
    by (auto simp: hello_text_plain)
  have off: "m x = ram k x" if "unat x < 0xB8000 \<or> 0xB8FA0 \<le> unat x" for x using same_outside_byte [OF pr(4)] that by blast
  let ?k = "k\<lparr>ram := m, interrupt_flag := True\<rparr>"
  have "heap_pool (k\<lparr>ram := m\<rparr>) room L lo hi" by (rule heap.client_write [OF pool]) (use off lo in auto)
  then have pool': "heap_pool ?k room L lo hi" by (rule heap_pool_cong) simp_all
  have disk': "disk_ok (ram ?k) location files limit"
    by (rule disk_kept [OF disk(1) disk(3) [THEN disj_commute [THEN iffD1]]]) (use off in auto)
  have name: "constant_string (ram ?k) lo hi a ys" if "constant_string (ram k) lo hi a ys" "off_screen a 128" for a ys
    using that cstr_inside [of "ram k" a ys 128 m] off
    by (auto simp: constant_string_def off_screen_def in_block_def)
  obtain p1 p2 p3 k' r' where ini: "r' = r\<lparr>initrd_header := location, file_headers := location + 4, initrd_root := p1,
        initrd_dev := p2, root_nodes := p3, nroot_nodes := of_nat (length files)\<rparr>"
      "initialise_initrd (Suc fuel) location r ?k = Inr (p1, r', k')" "mounted r' (ram k') location files"
      "\<exists>room' L'. heap_pool k' room' L' lo hi \<and> L \<subseteq> L'"
      and fr: "\<And>x. (unat x < lo \<or> hi \<le> unat x \<or> (\<exists>b \<in> L. in_block b x)) \<and> \<not> in_block (unat location + 4, 76 * length files) x
        \<Longrightarrow> ram k' x = ram ?k x"
    using heap.mount [OF pool' room disk' _ name [OF root_name] name [OF dev_name], of fuel] disk(2) by blast
  have "unat location + 4 + 76 * length files \<le> limit" using disk(1) by (simp add: disk_ok_def)
  then have "abs_screen (t', ram k') = abs_screen (t', m)"
    using disk(3) lo by (intro abs_screen_same trans [OF fr]) (auto simp: in_block_def)
  moreover have "task_globals k' = task_globals (k\<lparr>interrupt_flag := True\<rparr>)" "paging_globals k' = paging_globals k"
    using tasks.initialise_initrd_quiet [OF ini(2)] directories.initialise_initrd_quiet [OF ini(2)]
    by (simp_all add: task_globals_def paging_globals_def)
  moreover have "ram k' x = ram k x"
    if "(unat x < lo \<or> hi \<le> unat x \<or> (\<exists>b \<in> L. in_block b x)) \<and> (unat x < 0xB8000 \<or> 0xB8FA0 \<le> unat x)
          \<and> \<not> in_block (unat location + 4, 76 * length files) x" for x
    using fr [of x] off [of x] that by simp
  ultimately show ?thesis using pr(1-3) ini
    by (intro exI [of _ t'] exI [of _ m] exI [of _ p1] exI [of _ p2] exI [of _ p3] exI [of _ k'] exI [of _ r']) simp
qed

subsection \<open>The whole sequence\<close>

text \<open>
  What a boot needs. The tables of the image and the screen do not overlap each other or the boot
  information, all of them lie below the end of the ramdisk, the memory behind the ramdisk is blank
  where initialise_paging relies on it, and the ramdisk and the strings of the image are outside the
  tables and the screen. The greatest number of files is what the heap of the kernel has room for.
\<close>

definition constant_data :: "image \<Rightarrow> u32 \<Rightarrow> nat \<Rightarrow> u32 \<Rightarrow> nat \<Rightarrow> bool" where
  "constant_data img irq limit a n \<longleftrightarrow> unat a + n \<le> limit
     \<and> (\<forall>(b, k) \<in> set ((0xB8000, 4000) # boot_writes img irq). unat a + n \<le> unat b \<or> unat b + k \<le> unat a)"

definition name_literal :: "image \<Rightarrow> u32 \<Rightarrow> u32 \<Rightarrow> memory \<Rightarrow> u32 \<Rightarrow> u8 list \<Rightarrow> bool" where
  "name_literal img irq loc m a xs \<longleftrightarrow> cstr m a xs \<and> length xs < 128 \<and> constant_data img irq (unat loc) a 128"

definition bootable :: "image \<Rightarrow> u32 \<Rightarrow> system \<Rightarrow> u32 \<Rightarrow> u32 \<Rightarrow> disk_file list \<Rightarrow> u8 list \<Rightarrow> bool" where
  "bootable img mboot_ptr s loc fin files dev \<longleftrightarrow>
     (let k = sys (mach s); m = ram k; irq = irq_routines (mach s); mods = mods_addr m mboot_ptr; r = ramdisk s; h = mach s
      in load32 m mods = loc \<and> load32 m (mods + 4) = fin \<and> unat loc \<le> unat fin \<and> 0xB8FA0 \<le> unat fin
       \<and> separate (boot_regions img irq mboot_ptr m)
       \<and> (\<forall>(a, n) \<in> set (boot_writes img irq). unat a + n \<le> unat fin)
       \<and> constant_data img irq (unat fin) loc (unat fin - unat loc)
       \<and> (\<forall>(a, n) \<in> set (boot_writes img irq). unat a + n \<le> 0xB8000 \<or> 0xB8FA0 \<le> unat a)
       \<and> boot_memory (k\<lparr>placement_address := fin\<rparr>) \<and> next_pid k = 1 \<and> tty_ok (console (mach s))
       \<and> disk_ok m loc files (unat fin) \<and> contents_ok m loc files (unat fin) \<and> length files \<le> 2713
       \<and> cstr m (literal_hello img) hello_text \<and> constant_data img irq (unat loc) (literal_hello img) 22
       \<and> (\<exists>xs. name_literal img irq loc m (literal_initrd r) xs) \<and> name_literal img irq loc m (literal_dev r) dev
       \<and> code_initrd_read r \<noteq> 0 \<and> code_initrd_readdir r \<noteq> 0 \<and> code_initrd_finddir r \<noteq> 0
       \<and> (\<forall>k < 16. 2 \<le> k \<longrightarrow> load32 m (irq + 4 * of_nat k) = 0)
       \<and> code_TickHandler h \<noteq> 0 \<and> code_keyboard_handler h \<noteq> 0 \<and> code_keyboard_handler h \<noteq> code_TickHandler h
       \<and> cstr m (literal_c h) [37, 99] \<and> constant_data img irq (unat loc) (literal_c h) 3
       \<and> constant_data img irq (unat loc) (arg_slot h) 4
       \<and> (unat (literal_c h) + 3 \<le> unat (arg_slot h) \<or> unat (arg_slot h) + 4 \<le> unat (literal_c h)))"

lemma bootableD:
  assumes "bootable img mboot_ptr s loc fin files dev"
  defines "k \<equiv> sys (mach s)" and "m \<equiv> ram (sys (mach s))" and "irq \<equiv> irq_routines (mach s)" and "r \<equiv> ramdisk s" and "h \<equiv> mach s"
  shows "load32 m (mods_addr m mboot_ptr) = loc" "load32 m (mods_addr m mboot_ptr + 4) = fin" "unat loc \<le> unat fin"
    "0xB8FA0 \<le> unat fin" "separate (boot_regions img irq mboot_ptr m)"
    "\<forall>(a, n) \<in> set (boot_writes img irq). unat a + n \<le> unat fin"
    "constant_data img irq (unat fin) loc (unat fin - unat loc)"
    "\<forall>(a, n) \<in> set (boot_writes img irq). unat a + n \<le> 0xB8000 \<or> 0xB8FA0 \<le> unat a"
    "boot_memory (k\<lparr>placement_address := fin\<rparr>)" "next_pid k = 1" "tty_ok (console (mach s))"
    "disk_ok m loc files (unat fin)" "contents_ok m loc files (unat fin)" "length files \<le> 2713"
    "cstr m (literal_hello img) hello_text" "constant_data img irq (unat loc) (literal_hello img) 22"
    "\<exists>xs. name_literal img irq loc m (literal_initrd r) xs" "name_literal img irq loc m (literal_dev r) dev"
    "code_initrd_read r \<noteq> 0" "code_initrd_readdir r \<noteq> 0" "code_initrd_finddir r \<noteq> 0"
    "\<forall>k < 16. 2 \<le> k \<longrightarrow> load32 m (irq + 4 * of_nat k) = 0"
    "code_TickHandler h \<noteq> 0" "code_keyboard_handler h \<noteq> 0" "code_keyboard_handler h \<noteq> code_TickHandler h"
    "cstr m (literal_c h) [37, 99]" "constant_data img irq (unat loc) (literal_c h) 3" "constant_data img irq (unat loc) (arg_slot h) 4"
    "unat (literal_c h) + 3 \<le> unat (arg_slot h) \<or> unat (arg_slot h) + 4 \<le> unat (literal_c h)"
  using assms(1) unfolding bootable_def Let_def k_def m_def irq_def r_def h_def by - (elim conjE, assumption)+

text \<open>The file system: every file is found under its name and reads back as its contents.\<close>

definition files_served :: "initrd \<Rightarrow> memory \<Rightarrow> u32 \<Rightarrow> nat \<times> nat \<Rightarrow> disk_file list \<Rightarrow> u8 list \<Rightarrow> bool" where
  "files_served r m root module files dev \<longleftrightarrow> (\<forall>i name off contents key n buffer.
     found_as files dev i \<and> files ! i = (name, off, contents) \<and> cstr m key name \<and> length contents \<le> unat n
     \<and> unat buffer + length contents \<le> 4294967295 \<and> apart_blocks (unat buffer, length contents) module \<longrightarrow>
     (\<exists>node m'. finddir_fs r m root key = Inr node \<and> read_fs r m node 0 n buffer = Inr (of_nat (length contents), m')
        \<and> (\<forall>j < length contents. m' (buffer + of_nat j) = contents ! j)))"

lemma constant_dataD:
  assumes "constant_data img irq limit a n"
  shows "unat a + n \<le> limit" "limit \<le> 4294967295 \<Longrightarrow> off_screen a n"
    "unat a \<le> unat x \<Longrightarrow> unat x < unat a + n \<Longrightarrow> outside_all (boot_writes img irq) x"
proof -
  show b: "unat a + n \<le> limit" using assms by (simp add: constant_data_def)
  show "limit \<le> 4294967295 \<Longrightarrow> off_screen a n" using b assms by (auto simp: constant_data_def off_screen_def)
  assume x: "unat a \<le> unat x" "unat x < unat a + n"
  show "outside_all (boot_writes img irq) x"
    unfolding outside_all_def
  proof (clarify)
    fix b k assume "(b, k) \<in> set (boot_writes img irq)" "\<not> unat b + k \<le> unat x"
    moreover have "unat a + n \<le> unat b \<or> unat b + k \<le> unat a" if "(b, k) \<in> set (boot_writes img irq)" for b k
      using assms that unfolding constant_data_def by (auto dest: bspec)
    ultimately show "unat x < unat b" using x by fastforce
  qed
qed

lemma mounted_files:
  assumes mt: "mounted r m location files" and short: "length files < 2147483648" and dev: "cstr m (literal_dev r) dev"
    and cont: "contents_ok m location files limit" "limit \<le> 4294967295"
    and codes: "code_initrd_read r \<noteq> 0" "code_initrd_readdir r \<noteq> 0" "code_initrd_finddir r \<noteq> 0"
  shows "files_served r m (initrd_root r) (unat location, limit - unat location) files dev"
  unfolding files_served_def
proof (intro allI impI, elim conjE)
  fix i name off contents key and n buffer :: u32
  assume f: "found_as files dev i" "files ! i = (name, off, contents)" "cstr m key name" "length contents \<le> unat n"
    "unat buffer + length contents \<le> 4294967295" "apart_blocks (unat buffer, length contents) (unat location, limit - unat location)"
  have "i < length files" using f(1) by (simp add: found_as_def)
  from mounted_read [OF mt this f(2) cont codes(1) f(4-6)] mounted_finddir [OF mt short f(1) _ dev codes(2,3), of key] f(2,3)
  show "\<exists>node m'. finddir_fs r m (initrd_root r) key = Inr node \<and> read_fs r m node 0 n buffer = Inr (of_nat (length contents), m')
      \<and> (\<forall>j < length contents. m' (buffer + of_nat j) = contents ! j)"
    by auto
qed

lemma queue_kept:
  assumes q: "queue_ok k [t, n]" and g: "ready_queue k' = ready_queue k"
    and live: "(unat t, 24) \<in> L" "(unat n, j) \<in> L" "24 \<le> j" and same: "\<And>b x. b \<in> L \<Longrightarrow> in_block b x \<Longrightarrow> ram k' x = ram k x"
  shows "queue_ok k' [t, n]" "task_id (ram k') t = task_id (ram k) t" "task_id (ram k') n = task_id (ram k) n"
    "saved_regs (ram k') n = saved_regs (ram k) n"
proof -
  have fits: "task_fits t" "task_fits n" using q by (simp_all add: queue_ok_def tasks_ok_def)
  have "in_block (unat n, j) x" if "unat n \<le> unat x" "unat x < unat n + 24" for x :: u32
    using that live(3) by (simp add: in_block_def)
  then have task: "ram k' x = ram k x" if "u \<in> set [t, n]" "unat u \<le> unat x" "unat x < unat u + 24" for u x
    using that same [OF live(1), of x] same [OF live(2), of x] by (auto simp: in_block_def)
  show "queue_ok k' [t, n]" by (rule queue_ok_same [OF q g task])
  show "task_id (ram k') t = task_id (ram k) t" by (rule task_same(1) [OF fits(1) task]) simp_all
  show "task_id (ram k') n = task_id (ram k) n" "saved_regs (ram k') n = saved_regs (ram k) n"
    by (rule task_same [OF fits(2) task]; simp)+
qed

text \<open>The kernel when the devices are set up: memory below the end of the ramdisk is as loaded.\<close>

lemma bootable_kernel:
  fixes fin :: u32
  assumes boot: "boot_memory (k\<lparr>placement_address := fin\<rparr>)" and below: "\<forall>(a, n) \<in> set rs. unat a + n \<le> unat fin"
    and same: "\<And>x. outside_all rs x \<Longrightarrow> m x = ram k x"
  shows "boot_memory (k\<lparr>placement_address := fin, ram := m\<rparr>)"
proof -
  have "m (fin + 128 + of_nat j) = 0" if j: "j < 384" for j
  proof -
    have e: "unat (of_nat (128 + j) :: u32) = 128 + j" using j by (intro unat_of_nat32) simp
    have "unat fin + unat (of_nat (128 + j) :: u32) \<le> 4294967295" using boot j unfolding e by (simp add: boot_memory_def)
    then have "unat (fin + of_nat (128 + j)) = unat fin + (128 + j)" by (subst unat_add_no_wrap) (simp_all add: e del: of_nat_add)
    moreover have eq: "fin + 128 + of_nat j = fin + of_nat (128 + j)" by simp
    ultimately have "unat (fin + 128 + of_nat j) = unat fin + (128 + j)" by (simp only: eq)
    then have "outside_all rs (fin + 128 + of_nat j)" using below by (fastforce simp: outside_all_def)
    from same [OF this] show ?thesis using boot j by (simp add: boot_memory_def)
  qed
  with boot show ?thesis by (simp add: boot_memory_def)
qed

text \<open>
  The kernel after fork: the ramdisk, the literals and the screen are as they were, the heap is a
  pool that keeps the two tasks.
\<close>

lemma bootable_data:
  assumes boot: "bootable img mboot_ptr s loc fin files dev"
    and kept: "\<forall>x. unat x < unat fin \<and> outside_all (boot_writes img (irq_routines (mach s))) x \<longrightarrow> m x = ram (sys (mach s)) x"
  shows "disk_ok m loc files (unat fin)" "contents_ok m loc files (unat fin)" "cstr m (literal_hello img) hello_text"
    "name_literal img (irq_routines (mach s)) loc (ram (sys (mach s))) a xs \<Longrightarrow> cstr m a xs"
    "abs_screen (t, m) = abs_screen (t, ram (sys (mach s)))" "cstr m (literal_c (mach s)) [37, 99]"
proof -
  let ?m = "ram (sys (mach s))" and ?irq = "irq_routines (mach s)"
  note same = kept [rule_format, OF conjI]
  note b = bootableD(3,7,12,13,15,16) [OF boot]
  have data: "m x = ?m x" if "constant_data img ?irq l a n" "l \<le> unat fin" "unat a \<le> unat x" "unat x < unat a + n" for l a n x
    using constant_dataD(1,3) [OF that(1)] that by (intro same) auto
  have disk: "m x = ?m x" if "unat loc \<le> unat x" "unat x < unat fin" for x
    using data [OF b(2)] that b(1) by simp
  show "disk_ok m loc files (unat fin)" by (rule disk_inside [OF b(3) disk])
  show "contents_ok m loc files (unat fin)" by (rule contents_kept [OF b(4) unat_le_max32]) (rule disk, simp_all)
  have str: "cstr m a xs" if "cstr ?m a xs" "length xs < n" "constant_data img ?irq (unat loc) a n" for a xs n
    using constant_dataD(1) [OF that(3)] data [OF that(3) b(1)] unat_le_max32 [of loc] that(2)
    by (intro cstr_inside [OF that(1,2)]) (auto simp: in_block_def)
  show "cstr m (literal_hello img) hello_text" by (rule str [OF b(5) _ b(6)]) (simp add: hello_text_plain)
  show "cstr m (literal_c (mach s)) [37, 99]" by (rule str [OF bootableD(26) [OF boot] _ bootableD(27) [OF boot]]) simp
  show "cstr m a xs" if "name_literal img ?irq loc ?m a xs" using that str [of a xs 128] by (simp add: name_literal_def)
  show "abs_screen (t, m) = abs_screen (t, ?m)"
    using bootableD(4,8) [OF boot] by (intro abs_screen_same same) (fastforce simp: outside_all_def)+
qed

text \<open>The machine with the table of handlers filled in and the tasks on the heap is ready for interrupts.\<close>

lemma booted_machine:
  assumes boot: "bootable img mboot_ptr s loc fin files dev"
    and q: "queue_ok k [t, n]" "current_task k = t" and tty: "tty_ok v" and high: "unat fin \<le> unat t" "unat fin \<le> unat n"
    and same: "\<forall>x. unat x < unat fin \<and> \<not> in_block (unat loc + 4, 76 * length files) x \<and> (unat x < 0xB8000 \<or> 0xB8FA0 \<le> unat x)
      \<longrightarrow> ram k x = m4 x"
    and m4: "\<forall>x. outside_all (boot_writes img (irq_routines (mach s))) x \<longrightarrow> m4 x = ram (sys (mach s)) x"
    and tab: "\<And>j. j < 16 \<Longrightarrow> load32 m4 (irq_routines (mach s) + 4 * of_nat j) = (if j = 0 then code_TickHandler (mach s)
      else if j = 1 then code_keyboard_handler (mach s) else load32 (ram (sys (mach s))) (irq_routines (mach s) + 4 * of_nat j))"
  shows "machine_ok [t, n] ((mach s)\<lparr>sys := k, out_ports := p, console := v\<rparr>)"
proof -
  note B = bootableD [OF boot]
  let ?irq = "irq_routines (mach s)" and ?c = "literal_c (mach s)" and ?a = "arg_slot (mach s)"
  have head: "unat loc + 4 + 76 * length files \<le> unat fin" using B(12) by (simp add: disk_ok_def)
  have irq: "unat ?irq + 64 \<le> unat fin" "unat ?irq + 64 \<le> 0xB8000 \<or> 0xB8FA0 \<le> unat ?irq"
      "unat ?irq + 64 \<le> unat loc \<or> unat fin \<le> unat ?irq"
    using B(3,6-8) by (auto simp: boot_writes_def constant_data_def)
  have below: "unat ?c + 3 \<le> unat loc" "unat ?a + 4 \<le> unat loc" "off_screen ?c 3" "off_screen ?a 4"
    using constant_dataD(1,2) [OF B(27)] constant_dataD(1,2) [OF B(28)] unat_le_max32 [of loc] by simp_all
  have apart_irq: "unat ?c + 3 \<le> unat ?irq \<or> unat ?irq + 64 \<le> unat ?c" "unat ?a + 4 \<le> unat ?irq \<or> unat ?irq + 64 \<le> unat ?a"
    using B(27,28) by (auto simp: constant_data_def boot_writes_def)
  have "load32 (ram k) (?irq + 4 * of_nat j) = load32 m4 (?irq + 4 * of_nat j)" if "j < 16" for j
  proof (rule irq_entry_bytes [OF _ that])
    show "unat ?irq + 64 \<le> 4294967295" using irq(1) unat_le_max32 [of fin] by linarith
    fix x :: u32 assume "unat ?irq \<le> unat x" "unat x < unat ?irq + 64"
    then show "ram k x = m4 x" using irq head by (intro same [rule_format]) (auto simp: in_block_def)
  qed
  then have "irq_table ((mach s)\<lparr>sys := k, out_ports := p, console := v\<rparr>)" using tab B(22) by (simp add: irq_table_def)
  moreover have "cstr (ram k) ?c [37, 99]"
  proof (rule format_bytes [OF B(26)])
    show "unat ?c + 3 \<le> 4294967295" using below(1) unat_le_max32 [of loc] by linarith
    fix x :: u32 assume x: "unat ?c \<le> unat x" "unat x < unat ?c + 3"
    then have "ram k x = m4 x" using below(1,3) B(3) by (intro same [rule_format]) (auto simp: in_block_def off_screen_def)
    then show "ram k x = ram (sys (mach s)) x" using m4 constant_dataD(3) [OF B(27) x] by simp
  qed
  moreover have "tasks_apart t n \<or> t = n" "task_fits t" "task_fits n" "distinct [t, n]"
    using q(1) by (auto simp: queue_ok_def tasks_ok_def)
  then have "separate (machine_regions ((mach s)\<lparr>sys := k, out_ports := p, console := v\<rparr>) [t, n])"
    using irq below apart_irq high B(3,4,29) unat_le_max32 [of fin]
    by (simp add: machine_regions_def tasks_apart_def task_fits_def off_screen_def) linarith
  ultimately show ?thesis using q tty B(23-25) by (simp add: machine_ok_def)
qed

text \<open>The end of kernel_main on the kernel after fork, in terms of the machine that was booted.\<close>

lemma boot_ending:
  assumes boot: "bootable img mboot_ptr s loc fin files dev" and pool: "heap_pool k 499656 L 0xC0000000 0xC0100000"
    and low: "\<forall>x. unat x < unat fin \<and> outside_all (boot_writes img (irq_routines (mach s))) x \<longrightarrow> ram k x = ram (sys (mach s)) x"
  shows "\<exists>t' m r' k'. printf (literal_hello img) (arg_slot (mach s)) (console (mach s)) (ram k) = Some (21, t', m)
    \<and> initialise_initrd (Suc fuel) loc (ramdisk s) (k\<lparr>ram := m, interrupt_flag := True\<rparr>) = Inr (initrd_root r', r', k')
    \<and> files_served r' (ram k') (initrd_root r') (unat loc, unat fin - unat loc) files dev \<and> tty_ok t'
    \<and> abs_screen (t', ram k')
      = fold (type_char (terminal_color (console (mach s)))) hello_text (abs_screen (console (mach s), ram (sys (mach s))))
    \<and> task_globals k' = task_globals (k\<lparr>interrupt_flag := True\<rparr>) \<and> paging_globals k' = paging_globals k
    \<and> (\<exists>room' L'. heap_pool k' room' L' 0xC0000000 0xC0100000 \<and> L \<subseteq> L')
    \<and> (\<forall>x. unat fin \<le> unat x \<and> unat x < 0xC0000000 \<longrightarrow> ram k' x = ram k x)
    \<and> (\<forall>x. unat x < unat fin \<and> \<not> in_block (unat loc + 4, 76 * length files) x \<and> (unat x < 0xB8000 \<or> 0xB8FA0 \<le> unat x)
          \<longrightarrow> ram k' x = ram k x)
    \<and> (\<forall>b \<in> L. \<forall>x. in_block b x \<longrightarrow> ram k' x = ram k x)"
proof -
  note B = bootableD [OF boot] and D = bootable_data [OF boot low]
  have fin: "unat fin \<le> 0xE00000" using B(9) by (simp add: boot_memory_def)
  obtain xs where xs: "name_literal img (irq_routines (mach s)) loc (ram (sys (mach s))) (literal_initrd (ramdisk s)) xs"
    using B(17) by blast
  have name: "constant_string (ram k) 0xC0000000 0xC0100000 a ys" "off_screen a 128" "cstr (ram k) a ys" "unat a + 128 \<le> unat loc"
    if "name_literal img (irq_routines (mach s)) loc (ram (sys (mach s))) a ys" for a ys
    using D(4) [OF that] that constant_dataD(1,2) [of img "irq_routines (mach s)" "unat loc" a 128] B(3) fin
    by (simp_all add: name_literal_def constant_string_def)
  have off: "off_screen (literal_hello img) 22" by (rule constant_dataD(2) [OF B(16) unat_le_max32])
  have disk_off: "0xB8FA0 \<le> unat loc \<or> unat fin \<le> 0xB8000" using B(3,7) by (auto simp: constant_data_def)
  have above_screen: "0xB8FA0 \<le> (0xC0000000 :: nat)" by simp
  have room: "184 * length files + 428 \<le> 499656" and lim: "unat fin \<le> 0xC0000000" using B(14) fin by simp_all
  obtain t' m p1 p2 p3 k' r' room' L' where F: "printf (literal_hello img) (arg_slot (mach s)) (console (mach s)) (ram k) = Some (21, t', m)"
      "initialise_initrd (Suc fuel) loc (ramdisk s) (k\<lparr>ram := m, interrupt_flag := True\<rparr>) = Inr (p1, r', k')"
      "r' = (ramdisk s)\<lparr>initrd_header := loc, file_headers := loc + 4, initrd_root := p1,
        initrd_dev := p2, root_nodes := p3, nroot_nodes := of_nat (length files)\<rparr>"
      "mounted r' (ram k') loc files"
      "abs_screen (t', ram k') = fold (type_char (terminal_color (console (mach s)))) hello_text (abs_screen (console (mach s), ram k))"
      "task_globals k' = task_globals (k\<lparr>interrupt_flag := True\<rparr>)" "tty_ok t'" "paging_globals k' = paging_globals k"
      "heap_pool k' room' L' 0xC0000000 0xC0100000" "L \<subseteq> L'"
      and kept: "\<forall>x. (unat x < 0xC0000000 \<or> 0xC0100000 \<le> unat x \<or> (\<exists>b \<in> L. in_block b x)) \<and> (unat x < 0xB8000 \<or> 0xB8FA0 \<le> unat x)
          \<and> \<not> in_block (unat loc + 4, 76 * length files) x \<longrightarrow> ram k' x = ram k x"
    using boot_files [OF pool room above_screen D(3) off B(11) D(1) lim disk_off name(1,2) [OF xs] name(1,2) [OF B(18)],
        where fuel = fuel and ap = "arg_slot (mach s)"]
    by (elim exE conjE) (rule that; assumption)
  note fr = kept [rule_format]
  have head: "unat loc + 4 + 76 * length files \<le> unat fin" "length files < 2147483648" using D(1) by (simp_all add: disk_ok_def)
  have live: "ram k' x = ram k x" if "b \<in> L" "in_block b x" for b x
    using that head fin heap.bounds [OF pool] by (intro fr) (force simp: in_block_def)
  have low_kept: "ram k' x = ram k x"
    if "unat x < unat fin" "\<not> in_block (unat loc + 4, 76 * length files) x" "unat x < 0xB8000 \<or> 0xB8FA0 \<le> unat x" for x
    using fr [of x] that lim by simp
  have above: "ram k' x = ram k x" if "unat fin \<le> unat x" "unat x < 0xC0000000" for x
    using that head(1) B(4) by (intro fr) (auto simp: in_block_def)
  have "cstr (ram k') (literal_dev r') dev"
    using F(3) by (simp, intro cstr_inside [OF name(3) [OF B(18)], of 128] fr)
      (use name(2,4) [OF B(18)] B(3,18) fin in \<open>auto simp: name_literal_def in_block_def off_screen_def\<close>)
  moreover have "contents_ok (ram k') loc files (unat fin)"
    by (rule contents_kept [OF D(2) unat_le_max32], rule fr) (use disk_off fin in \<open>auto simp: in_block_def\<close>)
  ultimately have "files_served r' (ram k') (initrd_root r') (unat loc, unat fin - unat loc) files dev"
    using B(19-21) F(3) unat_le_max32 [of fin] by (intro mounted_files [OF F(4) head(2)]) simp_all
  moreover have "initrd_root r' = p1" using F(3) by simp
  ultimately show ?thesis using F(1,2,5-10) D(5) live low_kept above by (intro exI [of _ t'] exI [of _ m] exI [of _ r'] exI [of _ k']) (simp, blast)
qed

text \<open>The boot sequence up to the fork: the devices, paging and the first two tasks.\<close>

lemma boot_to_fork:
  assumes boot: "bootable img mboot_ptr s loc fin files dev" and fuel: "4096 < fuel"
  obtains c p m4 k1 k2 k3 t n L j where
    "boot_devices img mboot_ptr initial_stack s = Inr (loc, s\<lparr>initial_esp := initial_stack, core := c,
        mach := (mach s)\<lparr>sys := (sys (mach s))\<lparr>placement_address := fin, ram := m4\<rparr>, out_ports := p\<rparr>\<rparr>)"
    "initialise_paging fuel (heap_junk img) ((sys (mach s))\<lparr>placement_address := fin, ram := m4\<rparr>) = Inr k1"
    "initialise_tasking fuel k1 = Inr k2" "fork fuel eip esp ebp k2 = Inr (2, k3)"
    "forked k1 k3 (eip, esp, ebp) (unat fin) t n L j" "kernel_space (unat fin) j k1"
    "cr3 k1 = indeterminate (sys (mach s)) + 4096" "kernel_directory k1 = of_nat (placed_at True (fin + 128))"
    "\<forall>x. unat x < unat fin \<longrightarrow> ram k3 x = m4 x"
    "\<forall>x. outside_all (boot_writes img (irq_routines (mach s))) x \<longrightarrow> m4 x = ram (sys (mach s)) x"
    "\<forall>k < 16. load32 m4 (irq_routines (mach s) + 4 * of_nat k) = (if k = 0 then code_TickHandler (mach s)
          else if k = 1 then code_keyboard_handler (mach s) else load32 (ram (sys (mach s))) (irq_routines (mach s) + 4 * of_nat k))"
proof -
  note B = bootableD [OF boot]
  let ?m = "ram (sys (mach s))" and ?W = "boot_writes img (irq_routines (mach s))"
  obtain c p m4 where dev: "boot_devices img mboot_ptr initial_stack s = Inr (loc, s\<lparr>initial_esp := initial_stack, core := c,
        mach := (mach s)\<lparr>sys := (sys (mach s))\<lparr>placement_address := fin, ram := m4\<rparr>, out_ports := p\<rparr>\<rparr>)"
      and m4: "\<And>x. outside_all ?W x \<Longrightarrow> m4 x = ?m x"
      and tab: "\<And>k. k < 16 \<Longrightarrow> load32 m4 (irq_routines (mach s) + 4 * of_nat k) = (if k = 0 then code_TickHandler (mach s)
          else if k = 1 then code_keyboard_handler (mach s) else load32 ?m (irq_routines (mach s) + 4 * of_nat k))"
    using boot_devices_state [OF B(5), of initial_stack] unfolding B(1,2) by blast
  let ?k0 = "(sys (mach s))\<lparr>placement_address := fin, ram := m4\<rparr>"
  have "boot_memory ?k0" by (rule bootable_kernel [OF B(9,6) m4])
  moreover have "next_pid ?k0 = 1" using B(10) by simp
  ultimately obtain k1 k2 k3 t n L j where K: "initialise_paging fuel (heap_junk img) ?k0 = Inr k1" "initialise_tasking fuel k1 = Inr k2"
      "fork fuel eip esp ebp k2 = Inr (2, k3)" "forked k1 k3 (eip, esp, ebp) (unat (placement_address ?k0)) t n L j"
      "kernel_space (unat (placement_address ?k0)) j k1" "cr3 k1 = indeterminate ?k0 + 4096"
      "kernel_directory k1 = of_nat (placed_at True (placement_address ?k0 + 128))"
      "kept_below (placement_address ?k0) (ram ?k0) (ram k3)"
    using boot_tasks [of ?k0 fuel "heap_junk img" eip esp ebp] fuel by blast
  have low: "\<forall>x. unat x < unat fin \<longrightarrow> ram k3 x = m4 x" using K(8) by (simp add: kept_below_def word_less_unat)
  show thesis by (rule that [OF dev K(1-3) _ _ _ _ low]) (use K(4-7) m4 tab in simp_all)
qed

text \<open>The system that kernel_main leaves, when it goes on behind initialise_paging.\<close>

definition booted :: "system \<Rightarrow> system \<Rightarrow> context_regs \<Rightarrow> u32 \<Rightarrow> u32 \<Rightarrow> disk_file list \<Rightarrow> u8 list \<Rightarrow> bool" where
  "booted s s' regs loc fin files dev \<longleftrightarrow>
     (let h = mach s'; k = sys h; m = ram k
      in (\<exists>t n. machine_ok [t, n] h \<and> current_task k = t \<and> task_id m t = 1 \<and> task_id m n = 2 \<and> saved_regs m n = regs
           \<and> (\<exists>room L. heap_pool k room L 0xC0000000 0xC0100000 \<and> {(unat t, 24), (0xC0081000, 8196)} \<subseteq> L))
       \<and> interrupt_flag k \<and> (\<exists>j. kernel_space (unat fin) j k)
       \<and> cr3 k = indeterminate (sys (mach s)) + 4096 \<and> next_fetch k = Inr k
       \<and> abs_screen (console h, m)
         = fold (type_char (terminal_color (console (mach s)))) hello_text (abs_screen (console (mach s), ram (sys (mach s))))
       \<and> files_served (ramdisk s') m (fs_root s') (unat loc, unat fin - unat loc) files dev)"

lemma kernel_main_goes_on:
  assumes boot: "bootable img mboot_ptr s loc fin files dev" and fuel: "4096 < fuel"
    and dev: "boot_devices img mboot_ptr initial_stack s = Inr (loc, s\<lparr>initial_esp := initial_stack, core := c,
        mach := (mach s)\<lparr>sys := (sys (mach s))\<lparr>placement_address := fin, ram := m4\<rparr>, out_ports := p\<rparr>\<rparr>)"
    and K: "initialise_paging fuel (heap_junk img) ((sys (mach s))\<lparr>placement_address := fin, ram := m4\<rparr>) = Inr k1"
      "initialise_tasking fuel k1 = Inr k2" "fork fuel eip esp ebp k2 = Inr (2, k3)"
      "forked k1 k3 (eip, esp, ebp) (unat fin) t n L j" "kernel_space (unat fin) j k1"
      "cr3 k1 = indeterminate (sys (mach s)) + 4096"
    and k3: "\<forall>x. unat x < unat fin \<longrightarrow> ram k3 x = m4 x"
    and m4: "\<forall>x. outside_all (boot_writes img (irq_routines (mach s))) x \<longrightarrow> m4 x = ram (sys (mach s)) x"
    and tab: "\<forall>k < 16. load32 m4 (irq_routines (mach s) + 4 * of_nat k) = (if k = 0 then code_TickHandler (mach s)
          else if k = 1 then code_keyboard_handler (mach s) else load32 (ram (sys (mach s))) (irq_routines (mach s) + 4 * of_nat k))"
    and go: "next_fetch k1 = Inr k1"
  shows "\<exists>s'. kernel_main fuel img (eip, esp, ebp) mboot_ptr initial_stack s = Inr (2, 1, s') \<and> booted s s' (eip, esp, ebp) loc fin files dev"
proof -
  note B = bootableD [OF boot]
  let ?m = "ram (sys (mach s))" and ?W = "boot_writes img (irq_routines (mach s))"
  obtain f where f: "fuel = Suc f" using fuel by (cases fuel) auto
  obtain i where F3: "queue_ok k3 [t, n]" "current_task k3 = t" "task_id (ram k3) t = 1" "task_id (ram k3) n = 2"
      "saved_regs (ram k3) n = (eip, esp, ebp)" "heap_pool k3 499656 L 0xC0000000 0xC0100000" "(unat t, 24) \<in> L"
      "(0xC0081000, 8196) \<in> L" "(unat n, i) \<in> L" "24 \<le> i" "kernel_space (unat fin) j k3" "paging_globals k3 = paging_globals k1"
    using K(4) by (auto simp: forked_def)
  have low: "\<forall>x. unat x < unat fin \<and> outside_all ?W x \<longrightarrow> ram k3 x = ?m x" using k3 m4 by simp
  obtain t' m5 r' k5 room' L' where F: "printf (literal_hello img) (arg_slot (mach s)) (console (mach s)) (ram k3) = Some (21, t', m5)"
      "initialise_initrd fuel loc (ramdisk s) (k3\<lparr>ram := m5, interrupt_flag := True\<rparr>) = Inr (initrd_root r', r', k5)"
      "files_served r' (ram k5) (initrd_root r') (unat loc, unat fin - unat loc) files dev" "tty_ok t'"
      "abs_screen (t', ram k5)
        = fold (type_char (terminal_color (console (mach s)))) hello_text (abs_screen (console (mach s), ?m))"
      "task_globals k5 = task_globals (k3\<lparr>interrupt_flag := True\<rparr>)" "paging_globals k5 = paging_globals k3"
      "heap_pool k5 room' L' 0xC0000000 0xC0100000" "L \<subseteq> L'"
      and above: "\<forall>x. unat fin \<le> unat x \<and> unat x < 0xC0000000 \<longrightarrow> ram k5 x = ram k3 x"
      and fr: "\<forall>x. unat x < unat fin \<and> \<not> in_block (unat loc + 4, 76 * length files) x \<and> (unat x < 0xB8000 \<or> 0xB8FA0 \<le> unat x)
        \<longrightarrow> ram k5 x = ram k3 x"
      and live: "\<forall>b \<in> L. \<forall>x. in_block b x \<longrightarrow> ram k5 x = ram k3 x"
    using boot_ending [OF boot F3(6) low, of f, folded f] by (elim exE conjE) (rule that; assumption)
  have g: "ready_queue k5 = ready_queue k3" "current_task k5 = t" "interrupt_flag k5" using F(6) F3(2) by (simp_all add: task_globals_def)
  have same: "ram k5 x = ram k3 x" if "b \<in> L" "in_block b x" for b x using live that by blast
  note Q = queue_kept [OF F3(1) g(1) F3(7,9,10) same]
  have fin: "unat fin \<le> 0xE00000" using B(9) by (simp add: boot_memory_def)
  have sp: "kernel_space (unat fin) j k5"
    by (rule kernel_space_kept [OF F3(11) F(7)]) (use above live F3(8) in blast)
  have cr3: "cr3 k5 = indeterminate (sys (mach s)) + 4096" and kd: "kernel_directory k5 = kernel_directory k1"
    using F(7) F3(12) K(6) by (simp_all add: paging_globals_def)
  have go5: "next_fetch k5 = Inr k5"
    using go next_fetch_space(2) [OF K(5,6)] next_fetch_space(2) [OF sp cr3] kd by (simp split: if_splits)
  have ok: "machine_ok [t, n] ((mach s)\<lparr>sys := k5, out_ports := p, console := t'\<rparr>)"
  proof (rule booted_machine [OF boot])
    show "queue_ok k5 [t, n]" "current_task k5 = t" "tty_ok t'" using Q(1) g(2) F(4) by simp_all
    show "unat fin \<le> unat t" "unat fin \<le> unat n" using heap.bounds [OF F3(6)] F3(7,9) fin by fastforce+
    show "\<forall>x. unat x < unat fin \<and> \<not> in_block (unat loc + 4, 76 * length files) x \<and> (unat x < 0xB8000 \<or> 0xB8FA0 \<le> unat x) \<longrightarrow> ram k5 x = m4 x"
      using fr k3 by simp
  qed (use m4 tab in blast)+
  define s' where "s' = s\<lparr>initial_esp := initial_stack, core := c,
      mach := (mach s)\<lparr>sys := k5, out_ports := p, console := t'\<rparr>, ramdisk := r', fs_root := initrd_root r'\<rparr>"
  have s': "mach s' = (mach s)\<lparr>sys := k5, out_ports := p, console := t'\<rparr>" "sys (mach s') = k5" "console (mach s') = t'"
      "ramdisk s' = r'" "fs_root s' = initrd_root r'"
    by (simp_all add: s'_def)
  have pool: "\<exists>room L. heap_pool k5 room L 0xC0000000 0xC0100000 \<and> {(unat t, 24), (0xC0081000, 8196)} \<subseteq> L"
    using F(8,9) F3(7,8) by blast
  have "\<exists>t n. machine_ok [t, n] (mach s') \<and> current_task k5 = t \<and> task_id (ram k5) t = 1 \<and> task_id (ram k5) n = 2
      \<and> saved_regs (ram k5) n = (eip, esp, ebp)
      \<and> (\<exists>room L. heap_pool k5 room L 0xC0000000 0xC0100000 \<and> {(unat t, 24), (0xC0081000, 8196)} \<subseteq> L)"
    using ok Q(2-4) F3(3-5) g(2) pool unfolding s'(1) by (intro exI [of _ t] exI [of _ n]) simp
  then have "booted s s' (eip, esp, ebp) loc fin files dev"
    using g(3) F(3,5) sp cr3 go5 unfolding booted_def Let_def s'(2-5) by blast
  moreover have "kernel_main fuel img (eip, esp, ebp) mboot_ptr initial_stack s = Inr (2, 1, s')"
    using K(1-3) go F3(2,3) F(1,2) by (simp add: kernel_main_def dev getpid_def Let_def s'_def)
  ultimately show ?thesis by blast
qed

lemma kernel_main_run:
  assumes boot: "bootable img mboot_ptr s loc fin files dev" and fuel: "4096 < fuel"
  shows "\<exists>s0 k1 P. boot_devices img mboot_ptr initial_stack s = Inr (loc, s0)
    \<and> initialise_paging fuel (heap_junk img) (sys (mach s0)) = Inr k1 \<and> kernel_directory k1 = of_nat (placed_at True (fin + 128))
    \<and> translate (ram k1) (kernel_directory k1 + 4096) (current_directory k1) = Some P
    \<and> unat fin < unat P \<and> unat P < 0x1000000
    \<and> (if indeterminate (sys (mach s)) AND 0xFFFFF000 \<in> {kernel_directory k1, P}
       then \<exists>s'. kernel_main fuel img regs mboot_ptr initial_stack s = Inr (2, 1, s') \<and> booted s s' regs loc fin files dev
       else kernel_main fuel img regs mboot_ptr initial_stack s = Inl BadDirectory)"
proof -
  obtain eip esp ebp where regs: "regs = (eip, esp, ebp)" by (cases regs)
  obtain c p m4 k1 k2 k3 t n L j where
    dev: "boot_devices img mboot_ptr initial_stack s = Inr (loc, s\<lparr>initial_esp := initial_stack, core := c,
        mach := (mach s)\<lparr>sys := (sys (mach s))\<lparr>placement_address := fin, ram := m4\<rparr>, out_ports := p\<rparr>\<rparr>)"
    and K: "initialise_paging fuel (heap_junk img) ((sys (mach s))\<lparr>placement_address := fin, ram := m4\<rparr>) = Inr k1"
      "initialise_tasking fuel k1 = Inr k2" "fork fuel eip esp ebp k2 = Inr (2, k3)"
      "forked k1 k3 (eip, esp, ebp) (unat fin) t n L j" "kernel_space (unat fin) j k1"
      "cr3 k1 = indeterminate (sys (mach s)) + 4096" "kernel_directory k1 = of_nat (placed_at True (fin + 128))"
    and M: "\<forall>x. unat x < unat fin \<longrightarrow> ram k3 x = m4 x"
      "\<forall>x. outside_all (boot_writes img (irq_routines (mach s))) x \<longrightarrow> m4 x = ram (sys (mach s)) x"
      "\<forall>k < 16. load32 m4 (irq_routines (mach s) + 4 * of_nat k) = (if k = 0 then code_TickHandler (mach s)
          else if k = 1 then code_keyboard_handler (mach s) else load32 (ram (sys (mach s))) (irq_routines (mach s) + 4 * of_nat k))"
    by (rule boot_to_fork [OF boot fuel, of initial_stack eip esp ebp]) (rule that; assumption)
  note nf = next_fetch_space [OF K(5,6)] and S = kernel_spaceD [OF K(5)]
  let ?P = "of_nat (4096 * j) + 0x81000 :: u32"
  have "if indeterminate (sys (mach s)) AND 0xFFFFF000 \<in> {kernel_directory k1, ?P}
       then \<exists>s'. kernel_main fuel img regs mboot_ptr initial_stack s = Inr (2, 1, s') \<and> booted s s' regs loc fin files dev
       else kernel_main fuel img regs mboot_ptr initial_stack s = Inl BadDirectory"
  proof (cases "indeterminate (sys (mach s)) AND 0xFFFFF000 \<in> {kernel_directory k1, ?P}")
    case True
    then have "next_fetch k1 = Inr k1" using nf(2) by (simp only: if_True)
    from kernel_main_goes_on [OF boot fuel dev K(1-6) M this] show ?thesis using True unfolding regs by (simp only: if_True)
  next
    case False
    then have "next_fetch k1 = Inl BadDirectory" using nf(2) by (simp only: if_False)
    then have "kernel_main fuel img regs mboot_ptr initial_stack s = Inl BadDirectory"
      using K(1) by (simp add: kernel_main_def dev)
    with False show ?thesis by (simp only: if_False)
  qed
  note main = this
  show ?thesis
  proof (intro exI conjI)
    show "boot_devices img mboot_ptr initial_stack s = Inr (loc, s\<lparr>initial_esp := initial_stack, core := c,
        mach := (mach s)\<lparr>sys := (sys (mach s))\<lparr>placement_address := fin, ram := m4\<rparr>, out_ports := p\<rparr>\<rparr>)" by (rule dev)
    show "initialise_paging fuel (heap_junk img) (sys (mach (s\<lparr>initial_esp := initial_stack, core := c,
        mach := (mach s)\<lparr>sys := (sys (mach s))\<lparr>placement_address := fin, ram := m4\<rparr>, out_ports := p\<rparr>\<rparr>))) = Inr k1"
      using K(1) by simp
    have "unat (of_nat (4096 * j) + 0x81000 :: u32) = unat (of_nat (4096 * j + 0x81000) :: u32)" by simp
    also have "\<dots> = 4096 * j + 0x81000" using S(7) by (intro unat_of_nat_le) simp
    finally show "unat fin < unat ?P" "unat ?P < 0x1000000" using S(7-9) by linarith+
  qed (rule K(7) nf(1) main)+
qed

text \<open>
  C2: what kernel_main does on a machine that is ready for it. After initialise_paging the processor goes
  on only if the value that kmalloc left in the uninitialised variable for the physical address of the
  new page directory lies in the page where the kernel's directory begins, or in the page where the clone
  does; otherwise CR3 has the address of something else, and the run ends there. If it goes on, kernel_main
  returns: fork returned 2 and getpid 1; the ready queue holds the task with number 1, which is current, and
  the child with number 2 and the registers fork was given; both processor registers for paging are set,
  the walk of the processor maps the memory in use and the heap, and the clone it runs in has the
  entries of the kernel's directory; the heap satisfies its invariant and the task and the directory are
  live blocks of it; interrupts are enabled and the machine is well-formed for handling them; the
  greeting is on the screen behind what was there; and every file of the ramdisk is found under its name in
  the root directory and reads back as its contents.
\<close>

theorem kernel_main_boots:
  assumes boot: "bootable img mboot_ptr s loc fin files dev" and fuel: "4096 < fuel"
  shows "\<exists>s0 k1 P. boot_devices img mboot_ptr initial_stack s = Inr (loc, s0)
    \<and> initialise_paging fuel (heap_junk img) (sys (mach s0)) = Inr k1 \<and> kernel_directory k1 = of_nat (placed_at True (fin + 128))
    \<and> translate (ram k1) (kernel_directory k1 + 4096) (current_directory k1) = Some P
    \<and> unat fin < unat P \<and> unat P < 0x1000000
    \<and> (if indeterminate (sys (mach s)) AND 0xFFFFF000 \<in> {kernel_directory k1, P}
       then \<exists>s'. kernel_main fuel img regs mboot_ptr initial_stack s = Inr (2, 1, s') \<and> booted s s' regs loc fin files dev
       else kernel_main fuel img regs mboot_ptr initial_stack s = Inl BadDirectory)"
  using assms by (rule kernel_main_run)

text \<open>The image of theory Boot with its strings and a ramdisk of one file at 2 MB; \<open>z\<close> is the uninitialised value.\<close>

definition demo_ramdisk :: memory where
  "demo_ramdisk = (\<lambda>a. if a = 0x200000 then 1 else if a = 0x200005 then 97 else if a = 0x200048 then 80
     else if a = 0x20004C then 2 else if a = 0x200050 then 7 else if a = 0x200051 then 9
     else if a = 0x5000 then 37 else if a = 0x5001 then 99 else if a = 0x107000 then 105 else if a = 0x107100 then 100
     else if 0x106000 \<le> a \<and> a < 0x106015 then hello_text ! unat (a - 0x106000)
     else if a = 0x9019 then 0x91 else if a = 0x9102 then 0x20 else if a = 0x9104 then 0x52 else if a = 0x9106 then 0x20 else 0)"

definition demo_system :: "u32 \<Rightarrow> system" where
  "demo_system z = boot_system\<lparr>mach := demo_machine demo_ramdisk\<lparr>sys := (sys (demo_machine demo_ramdisk))\<lparr>next_pid := 1, indeterminate := z\<rparr>\<rparr>,
     ramdisk := demo_initrd\<lparr>literal_initrd := 0x107000, literal_dev := 0x107100\<rparr>\<rparr>"

text \<open>What lies in the text buffer and in the three words below 0x120000 does not matter.\<close>

lemma demo_bootable_memory:
  assumes m: "\<And>x. x < 0xB8000 \<or> 0xB8FA0 \<le> x \<and> x < 0x11FFF4 \<or> 0x120000 \<le> x \<Longrightarrow> m x = demo_ramdisk x" and t: "tty_ok t"
  shows "bootable boot_image 0x9000 (demo_system z\<lparr>mach := (set_ram m (mach (demo_system z)))\<lparr>console := t\<rparr>\<rparr>)
    0x200000 0x200052 [([97], 80, [7, 9])] [100]"
proof -
  let ?s = "demo_system z\<lparr>mach := (set_ram m (mach (demo_system z)))\<lparr>console := t\<rparr>\<rparr>"
  have s: "sys (mach ?s) = (sys (demo_machine demo_ramdisk))\<lparr>ram := m, next_pid := 1, indeterminate := z\<rparr>" "irq_routines (mach ?s) = 0x6000"
      "console (mach ?s) = t" "literal_c (mach ?s) = 0x5000" "arg_slot (mach ?s) = 0x7000"
      "code_TickHandler (mach ?s) = 0x111" "code_keyboard_handler (mach ?s) = 0x222"
      "ramdisk ?s = demo_initrd\<lparr>literal_initrd := 0x107000, literal_dev := 0x107100\<rparr>"
    by (simp_all add: demo_system_def demo_machine_def set_ram_def)
  have mods: "mods_addr m 0x9000 = 0x9100" "load32 m 0x9100 = 0x200000" "load32 m 0x9104 = 0x200052"
    by (simp_all add: mods_addr_def load32_def m) (simp_all add: demo_ramdisk_def)
  have "cstr m 0x106000 hello_text" by (simp add: hello_text_def m) (simp add: hello_text_def demo_ramdisk_def)
  moreover have "separate (boot_regions boot_image 0x6000 0x9000 m)"
    unfolding boot_regions_def mods by (simp add: boot_image_def)
  moreover have "boot_memory ((sys (demo_machine demo_ramdisk))\<lparr>ram := m, next_pid := 1, indeterminate := z, placement_address := 0x200052\<rparr>)"
  proof -
    have blank: "m x = 0" if "0x200052 \<le> unat x" for x
      using that by (subst m) (auto simp: demo_ramdisk_def word_le_nat_alt word_less_nat_alt)
    have "m (0x2000D2 + of_nat k) = 0" if "k < 384" for k
    proof (rule blank)
      have "(0x2000D2 + of_nat k :: u32) = of_nat (0x2000D2 + k)" by simp
      also have "unat \<dots> = 0x2000D2 + k" using that by (intro unat_of_nat32) simp
      finally show "0x200052 \<le> unat (0x2000D2 + of_nat k :: u32)" by simp
    qed
    then show ?thesis by (simp add: boot_memory_def demo_machine_def two_tasks_def empty_bitmap_kernel_def)
  qed
  moreover have "disk_ok m 0x200000 [([97], 80, [7, 9])] 0x200052" "contents_ok m 0x200000 [([97], 80, [7, 9])] 0x200052"
    by (simp_all add: disk_ok_def raw_header_def contents_ok_def fh_name_def fh_offset_def fh_length_def load32_def All_less_Suc2 m)
       (simp_all add: demo_ramdisk_def)
  moreover have "name_literal boot_image 0x6000 0x200000 m 0x107000 [105]" "name_literal boot_image 0x6000 0x200000 m 0x107100 [100]"
    by (simp_all add: name_literal_def constant_data_def boot_writes_def boot_image_def m) (simp_all add: demo_ramdisk_def)
  moreover have "load32 m (0x6000 + 4 * of_nat k) = 0" if "k < 16" for k
    using that by (simp add: less_Suc_eq numeral_eq_Suc, elim disjE) (simp_all add: load32_def m demo_ramdisk_def)
  moreover have "cstr m 0x5000 [37, 99]" by (simp add: m) (simp add: demo_ramdisk_def)
  ultimately show ?thesis
    using t unfolding bootable_def Let_def s
    by (auto simp: mods boot_writes_def boot_image_def constant_data_def demo_initrd_def)
qed

lemma demo_bootable: "bootable boot_image 0x9000 (demo_system z) 0x200000 0x200052 [([97], 80, [7, 9])] [100]"
proof -
  have "demo_system z\<lparr>mach := (set_ram demo_ramdisk (mach (demo_system z)))\<lparr>console := console (mach (demo_system z))\<rparr>\<rparr> = demo_system z"
    by (simp add: demo_system_def set_ram_def demo_machine_def two_tasks_def empty_bitmap_kernel_def)
  moreover have "tty_ok (console (mach (demo_system z)))" by (simp add: demo_system_def demo_machine_def tty_ok_def vga_sizes)
  ultimately show ?thesis using demo_bootable_memory [of demo_ramdisk "console (mach (demo_system z))" z] by simp
qed

lemma demo_directory: "of_nat (placed_at True (0x200052 + 128)) = (0x201000 :: u32)" "(0x201000 :: u32) AND 0xFFFFF000 = 0x201000"
  by (simp_all add: placed_at_def)

text \<open>The same machine with two values of the variable: an address in the page of the directory, and 42.\<close>

theorem kernel_main_boots_witness:
  "(\<exists>s'. kernel_main 5000 boot_image (0x111, 0x222, 0x333) 0x9000 0x120000 (demo_system 0x201000) = Inr (2, 1, s')
       \<and> booted (demo_system 0x201000) s' (0x111, 0x222, 0x333) 0x200000 0x200052 [([97], 80, [7, 9])] [100])
   \<and> kernel_main 5000 boot_image (0x111, 0x222, 0x333) 0x9000 0x120000 (demo_system 42) = Inl BadDirectory"
proof -
  have fuel: "4096 < (5000 :: nat)" by simp
  have z: "indeterminate (sys (mach (demo_system z))) = z" for z by (simp add: demo_system_def)
  have page0: "(42 :: u32) AND 0xFFFFF000 = 0" by simp
  note main = kernel_main_boots [OF demo_bootable fuel, where initial_stack = "0x120000" and regs = "(0x111, 0x222, 0x333)", unfolded z demo_directory(1)]
  from main [of "0x201000"] main [of 42] show ?thesis unfolding demo_directory(2) page0 by (auto split: if_splits)
qed

end
