(* ===== verification/Interrupt_Stubs.thy ===== *)
theory Interrupt_Stubs
  imports Interrupt_Properties
begin

text \<open>
  The assembly stubs of \<^verbatim>\<open>kernel/arch/i386/idt.S\<close> around the dispatchers: what the processor and a stub
  push, how the dispatcher reads it through the structure Registers, and what the stub restores. An
  interrupt arrives in ring 0, so the processor pushes EFLAGS, CS and EIP only.
\<close>

record cpu_context =
  reg_eax :: u32
  reg_ecx :: u32
  reg_edx :: u32
  reg_ebx :: u32
  reg_esp :: u32
  reg_ebp :: u32
  reg_esi :: u32
  reg_edi :: u32
  reg_eip :: u32
  reg_eflags :: u32
  segs :: cpu

definition push :: "u32 \<Rightarrow> u32 \<times> memory \<Rightarrow> u32 \<times> memory" where
  "push v = (\<lambda>(esp, m). (esp - 4, store32 m (esp - 4) v))"

text \<open>What the processor does when it takes the gate: it clears VM, RF, NT, IF and TF.\<close>

definition take_gate :: "u32 option \<Rightarrow> cpu_context \<Rightarrow> u32 \<times> memory \<Rightarrow> u32 \<times> memory" where
  "take_gate err c st =
     (let st = push (reg_eflags c) st; st = push (ucast (cs (segs c))) st; st = push (reg_eip c) st
      in case err of None \<Rightarrow> st | Some e \<Rightarrow> push e st)"

text \<open>pushal stores the value ESP had before it.\<close>

definition pushal :: "cpu_context \<Rightarrow> u32 \<times> memory \<Rightarrow> u32 \<times> memory" where
  "pushal c st =
     (let esp = fst st;
          st = push (reg_eax c) st; st = push (reg_ecx c) st; st = push (reg_edx c) st; st = push (reg_ebx c) st;
          st = push esp st; st = push (reg_ebp c) st; st = push (reg_esi c) st
      in push (reg_edi c) st)"

definition push_segments :: "cpu_context \<Rightarrow> u32 \<times> memory \<Rightarrow> u32 \<times> memory" where
  "push_segments c st =
     (let st = push (ucast (gs (segs c))) st; st = push (ucast (fs (segs c))) st; st = push (ucast (es (segs c))) st
      in push (ucast (ds (segs c))) st)"

definition kernel_segments :: "cpu \<Rightarrow> cpu" where
  "kernel_segments c = c\<lparr>ds := 0x10, es := 0x10, fs := 0x10, gs := 0x10\<rparr>"

text \<open>
  A stub up to the call of its dispatcher: the address of the Registers structure it passes, the
  context in the dispatcher and the memory. The macro pushes 0 where the processor pushed no error
  code.
\<close>

definition stub_enter :: "u32 option \<Rightarrow> u32 \<Rightarrow> cpu_context \<Rightarrow> memory \<Rightarrow> u32 \<times> cpu_context \<times> memory" where
  "stub_enter err number c m =
     (let st = take_gate err c (reg_esp c, m);
          st = (case err of None \<Rightarrow> push 0 st | Some _ \<Rightarrow> st);
          st = push number st;
          st = pushal c st;
          st = push_segments c st;
          registers = fst st;
          (esp, m) = push registers st
      in (registers, c\<lparr>reg_esp := esp, reg_eflags := reg_eflags c AND NOT 0x34300,
            segs := kernel_segments (segs c)\<lparr>cs := 0x08\<rparr>\<rparr>, m))"

text \<open>struct Registers; the words are read at their offsets in the structure.\<close>

datatype registers_field = r_gs | r_fs | r_es | r_ds | r_edi | r_esi | r_ebp | r_esp | r_ebx | r_edx | r_ecx | r_eax
  | r_int_no | r_err_code | r_eip | r_cs | r_eflags

primrec registers_offset :: "registers_field \<Rightarrow> u32" where
  "registers_offset r_gs = 0" | "registers_offset r_fs = 4" | "registers_offset r_es = 8" | "registers_offset r_ds = 12"
| "registers_offset r_edi = 16" | "registers_offset r_esi = 20" | "registers_offset r_ebp = 24" | "registers_offset r_esp = 28"
| "registers_offset r_ebx = 32" | "registers_offset r_edx = 36" | "registers_offset r_ecx = 40" | "registers_offset r_eax = 44"
| "registers_offset r_int_no = 48" | "registers_offset r_err_code = 52" | "registers_offset r_eip = 56"
| "registers_offset r_cs = 60" | "registers_offset r_eflags = 64"

definition registers_get :: "memory \<Rightarrow> u32 \<Rightarrow> registers_field \<Rightarrow> u32" where
  "registers_get m p f = load32 m (p + registers_offset f)"

text \<open>A stub after its dispatcher has returned.\<close>

definition stub_leave :: "cpu_context \<Rightarrow> memory \<Rightarrow> cpu_context" where
  "stub_leave c m =
     (let esp = reg_esp c + 4;
          c = c\<lparr>segs := (segs c)\<lparr>ds := ucast (load32 m esp), es := ucast (load32 m (esp + 4)),
                fs := ucast (load32 m (esp + 8)), gs := ucast (load32 m (esp + 12))\<rparr>\<rparr>;
          esp = esp + 16;
          c = c\<lparr>reg_edi := load32 m esp, reg_esi := load32 m (esp + 4), reg_ebp := load32 m (esp + 8),
                reg_ebx := load32 m (esp + 16), reg_edx := load32 m (esp + 20), reg_ecx := load32 m (esp + 24),
                reg_eax := load32 m (esp + 28)\<rparr>;
          esp = esp + 32 + 8
      in c\<lparr>reg_eip := load32 m esp, segs := (segs c)\<lparr>cs := ucast (load32 m (esp + 4))\<rparr>,
           reg_eflags := load32 m (esp + 8), reg_esp := esp + 12\<rparr>)"

text \<open>One interrupt request: the stub, the dispatcher, and the stub again if the handler returns.\<close>

definition irq_stub :: "u32 \<Rightarrow> context_regs \<Rightarrow> cpu_context \<Rightarrow> machine \<Rightarrow> fault + (control \<times> cpu_context \<times> machine)" where
  "irq_stub number regs c s =
     (let (registers, c, m) = stub_enter None number c (ram (sys s))
      in rbind (irq_handler (registers_get m registers r_int_no) regs (set_ram m s)) (\<lambda>(ctl, s).
           case ctl of Returns \<Rightarrow> Inr (Returns, stub_leave c (ram (sys s)), s) | Jump _ _ _ _ \<Rightarrow> Inr (ctl, c, s)))"

subsection \<open>The frame\<close>

lemma ucast_word_up [simp]: "(ucast (ucast (w :: u16) :: u32) :: u16) = w"
  by (rule bit_word_eqI) (auto simp: bit_simps)

lemma load32_store32_base:
  "4 \<le> b - a \<Longrightarrow> 4 \<le> a - b \<Longrightarrow> load32 (store32 m (a + q) v) (b + q) = load32 m (b + q :: u32)"
  "4 \<le> b \<Longrightarrow> 4 \<le> - b \<Longrightarrow> load32 (store32 m q v) (b + q) = load32 m (b + q :: u32)"
  by (rule load32_store32_disp; simp)+

text \<open>Where the saved words lie, from the lowest word pushed on.\<close>

lemma stub_frame:
  assumes "stub_enter err number c m = (p, c1, m1)"
  shows "p = reg_esp c - 68" and "reg_esp c1 = reg_esp c - 72" and "segs c1 = kernel_segments (segs c)\<lparr>cs := 8\<rparr>"
    and "registers_get m1 p r_int_no = number" "registers_get m1 p r_err_code = (case err of None \<Rightarrow> 0 | Some e \<Rightarrow> e)"
    and "registers_get m1 p r_gs = ucast (ds (segs c))" "registers_get m1 p r_fs = ucast (es (segs c))"
    and "registers_get m1 p r_es = ucast (fs (segs c))" "registers_get m1 p r_ds = ucast (gs (segs c))"
    and "registers_get m1 p r_edi = reg_edi c" "registers_get m1 p r_esi = reg_esi c"
    and "registers_get m1 p r_ebp = reg_ebp c" "registers_get m1 p r_esp = reg_esp c - 20"
    and "registers_get m1 p r_ebx = reg_ebx c" "registers_get m1 p r_edx = reg_edx c"
    and "registers_get m1 p r_ecx = reg_ecx c" "registers_get m1 p r_eax = reg_eax c"
    and "registers_get m1 p r_eip = reg_eip c" "registers_get m1 p r_cs = ucast (cs (segs c))"
    and "registers_get m1 p r_eflags = reg_eflags c"
proof -
  define q where "q = reg_esp c - 72"
  have esp: "reg_esp c = q + 72" by (simp add: q_def)
  note enter = stub_enter_def take_gate_def pushal_def push_segments_def push_def Let_def case_prod_beta
  have p: "p = q + 4" and c1: "c1 = c\<lparr>reg_esp := q, reg_eflags := reg_eflags c AND NOT 0x34300, segs := kernel_segments (segs c)\<lparr>cs := 0x08\<rparr>\<rparr>"
      and m1: "m1 = snd (push p (push_segments c (pushal c (push number
        (push (case err of None \<Rightarrow> 0 | Some e \<Rightarrow> e) (take_gate None c (reg_esp c, m)))))))"
    using assms by (auto simp: enter esp split: option.splits)
  then show "p = reg_esp c - 68" "reg_esp c1 = reg_esp c - 72" "segs c1 = kernel_segments (segs c)\<lparr>cs := 8\<rparr>"
    by (simp_all add: esp)
  note enter' = m1 [unfolded p] p esp registers_get_def add.commute [of q] take_gate_def pushal_def push_segments_def push_def Let_def
  show "registers_get m1 p r_int_no = number" "registers_get m1 p r_err_code = (case err of None \<Rightarrow> 0 | Some e \<Rightarrow> e)"
    "registers_get m1 p r_gs = ucast (ds (segs c))" "registers_get m1 p r_fs = ucast (es (segs c))"
    "registers_get m1 p r_es = ucast (fs (segs c))" "registers_get m1 p r_ds = ucast (gs (segs c))"
    "registers_get m1 p r_edi = reg_edi c" "registers_get m1 p r_esi = reg_esi c"
    "registers_get m1 p r_ebp = reg_ebp c" "registers_get m1 p r_esp = reg_esp c - 20"
    "registers_get m1 p r_ebx = reg_ebx c" "registers_get m1 p r_edx = reg_edx c"
    "registers_get m1 p r_ecx = reg_ecx c" "registers_get m1 p r_eax = reg_eax c"
    "registers_get m1 p r_eip = reg_eip c" "registers_get m1 p r_cs = ucast (cs (segs c))"
    "registers_get m1 p r_eflags = reg_eflags c"
    by (simp_all add: enter' load32_store32_base)
qed

text \<open>The stub reads back what is still in the frame.\<close>

lemma frame_word:
  assumes "\<And>x. x - (esp - 72) < 72 \<Longrightarrow> m' x = m x" and "off \<le> 68"
  shows "load32 m' (esp - 72 + off) = load32 m (esp - 72 + off)"
proof (rule load32_cong, rule assms(1))
  fix x :: u32 assume "x - (esp - 72 + off) < 4"
  then have y: "unat (x - (esp - 72 + off)) < 4" by (simp add: word_less_unat)
  have off: "unat off \<le> 68" using assms(2) by (simp add: word_le_unat)
  have "x - (esp - 72) = (x - (esp - 72 + off)) + off" by simp
  also have "unat \<dots> = unat (x - (esp - 72 + off)) + unat off"
    using y off by (intro unat_add_no_wrap) linarith
  finally show "x - (esp - 72) < 72" unfolding word_less_unat using y off by simp
qed

lemma stub_leave_restores:
  assumes enter: "stub_enter None number c m = (p, c1, m1)"
    and kept: "\<And>x. x - (reg_esp c - 72) < 72 \<Longrightarrow> m2 x = m1 x"
  shows "stub_leave c1 m2 = c"
proof -
  note F = stub_frame [OF enter]
  define q where "q = reg_esp c - 72"
  have p: "p = q + 4" and q1: "reg_esp c1 = q" using F(1,2) by (simp_all add: q_def)
  have word: "load32 m2 (q + off) = load32 m1 (q + off)" if "off \<le> 68" for off
    using frame_word [OF kept that] by (simp add: q_def)
  have get: "load32 m2 (p + registers_offset f) = registers_get m1 p f" for f
    unfolding registers_get_def p add.assoc by (rule word) (cases f; simp)
  have c1: "c1 = c\<lparr>reg_esp := q, reg_eflags := reg_eflags c AND NOT 0x34300, segs := kernel_segments (segs c)\<lparr>cs := 8\<rparr>\<rparr>"
    using enter F(2) by (auto simp: stub_enter_def Let_def case_prod_beta q_def)
  have top: "p + 68 = reg_esp c" using F(1) by simp
  note words = get [of r_gs] get [of r_fs] get [of r_es] get [of r_ds] get [of r_edi] get [of r_esi] get [of r_ebp]
    get [of r_ebx] get [of r_edx] get [of r_ecx] get [of r_eax] get [of r_eip] get [of r_cs] get [of r_eflags]
  note leave = stub_leave_def Let_def q1 p [symmetric] add.assoc
  have "segs (stub_leave c1 m2) = segs c"
    unfolding leave using words by (intro cpu.equality) (simp_all add: F(6-9,19) c1 kernel_segments_def)
  then show ?thesis
    using words top
    by (intro cpu_context.equality) (simp_all add: leave F(10-18,20) c1)
qed

text \<open>
  C19: an interrupt request whose handler returns and leaves the 72 bytes below the interrupted stack
  pointer alone is transparent: the dispatcher reads the vector number the stub pushed, and the
  interrupted program continues with every register, the flags and all segment registers as before.
\<close>

theorem irq_stub_transparent:
  assumes enter: "stub_enter None number c (ram (sys s)) = (p, c1, m1)"
    and handled: "irq_handler number regs (set_ram m1 s) = Inr (Returns, s')"
    and kept: "\<And>x. x - (reg_esp c - 72) < 72 \<Longrightarrow> ram (sys s') x = m1 x"
  shows "registers_get m1 p r_int_no = number \<and> irq_stub number regs c s = Inr (Returns, c, s')"
  using stub_frame(4) [OF enter] stub_leave_restores [OF enter kept] handled enter
  by (simp add: irq_stub_def Let_def)

definition demo_context :: cpu_context where
  "demo_context = \<lparr>reg_eax = 1, reg_ecx = 2, reg_edx = 3, reg_ebx = 4, reg_esp = 0x8000, reg_ebp = 5, reg_esi = 6,
     reg_edi = 7, reg_eip = 0x100123, reg_eflags = 0x202, segs = \<lparr>gdtr = (23, 0x108000), idtr = (2047, 0x109000),
     cs = 8, ds = 0x10, es = 0x10, fs = 0x10, gs = 0x10, ss = 0x10\<rparr>\<rparr>"

theorem irq_stub_transparent_witness:
  "\<exists>s'. irq_stub 41 (0, 0, 0) demo_context (demo_machine (\<lambda>_. 0)) = Inr (Returns, demo_context, s')"
proof -
  obtain p c1 m1 where e: "stub_enter None 41 demo_context (ram (sys (demo_machine (\<lambda>_. 0)))) = (p, c1, m1)"
    using prod_cases3 by blast
  have "same_outside 0x7FB8 0x8000 (\<lambda>_. 0) m1"
    using e by (auto simp: stub_enter_def take_gate_def pushal_def push_segments_def push_def Let_def demo_context_def
        demo_machine_def intro!: same_outside_store32)
  then have "load32 m1 0x6024 = load32 (\<lambda>_. 0) 0x6024" by (rule same_outside_load32) simp_all
  then have null: "load32 m1 0x6024 = 0" by (simp add: load32_def)
  have "irq_handler 41 (0, 0, 0) (set_ram m1 (demo_machine (\<lambda>_. 0))) = Inr (Returns, send_eoi 41 (set_ram m1 (demo_machine (\<lambda>_. 0))))"
    using null by (simp add: irq_handler_def run_handler_def set_ram_def demo_machine_def)
  from irq_stub_transparent [OF e this] show ?thesis
    by (auto simp: send_eoi_def out_def set_ram_def Let_def)
qed

end
