(* ===== verification/Start_Up.thy ===== *)
theory Start_Up
  imports Kernel_Boot Interrupt_Stubs
begin

text \<open>
  The start of the kernel in \<^verbatim>\<open>kernel/arch/i386/boot.S\<close>: the multiboot header, the stack, the call of the
  global constructors through \<^verbatim>\<open>crti.S\<close> and \<^verbatim>\<open>crtn.S\<close>, and the call of kernel_main. The only object with a
  constructor is the terminal of \<^verbatim>\<open>libc/stdio/stdio.cpp\<close>. The address of the stack and the return
  addresses are arguments; the code after the return of kernel_main halts for ever. Also \<^verbatim>\<open>ReadEIP.s\<close>.
\<close>

subsection \<open>The multiboot header\<close>

definition ALIGN :: u32 where "ALIGN = push_bit 0 1"
definition MEMINFO :: u32 where "MEMINFO = push_bit 1 1"
definition FLAGS :: u32 where "FLAGS = ALIGN OR MEMINFO"
definition MAGIC :: u32 where "MAGIC = 0x1BADB002"
definition CHECKSUM :: u32 where "CHECKSUM = - (MAGIC + FLAGS)"

definition multiboot_header :: "u32 list" where "multiboot_header = [MAGIC, FLAGS, CHECKSUM]"

text \<open>What a loader checks: the magic number, and that the three words add up to 0.\<close>

lemma multiboot_header_valid: "hd multiboot_header = 0x1BADB002" "sum_list multiboot_header = 0"
  by (simp_all add: multiboot_header_def MAGIC_def CHECKSUM_def)

subsection \<open>Constructors and kernel_main\<close>

definition pop :: "u32 \<times> memory \<Rightarrow> u32 \<times> u32 \<times> memory" where
  "pop = (\<lambda>(esp, m). (load32 m esp, esp + 4, m))"

text \<open>read_eip pops its return address into EAX and jumps to it: EAX, the address and the stack.\<close>

definition read_eip :: "u32 \<times> memory \<Rightarrow> u32 \<times> u32 \<times> u32 \<times> memory" where
  "read_eip st = (let (eax, st) = pop st in (eax, eax, st))"

lemma read_eip_call: "read_eip (push ret (esp, m)) = (ret, ret, esp, store32 m (esp - 4) ret)"
  by (simp add: read_eip_def push_def pop_def)

definition global_constructors :: "system \<Rightarrow> system" where
  "global_constructors s =
     (let (t, m) = TTY (console (mach s)) (ram (sys (mach s)))
      in s\<lparr>mach := (set_ram m (mach s))\<lparr>console := t\<rparr>\<rparr>)"

definition call_init :: "u32 \<Rightarrow> cpu_context \<Rightarrow> system \<Rightarrow> cpu_context \<times> system" where
  "call_init ret c s =
     (let (esp, m) = push ret (reg_esp c, ram (sys (mach s)));
          (esp, m) = push (reg_ebp c) (esp, m);
          c = c\<lparr>reg_ebp := esp\<rparr>;
          s = global_constructors (s\<lparr>mach := set_ram m (mach s)\<rparr>);
          (ebp, esp, m) = pop (esp, ram (sys (mach s)));
          (eip, esp, m) = pop (esp, m)
      in (c\<lparr>reg_ebp := ebp, reg_eip := eip, reg_esp := esp\<rparr>, s))"

definition start_entry :: "u32 \<Rightarrow> u32 \<Rightarrow> u32 \<Rightarrow> cpu_context \<Rightarrow> system \<Rightarrow> cpu_context \<times> system" where
  "start_entry stack_top ret_init ret_main c s =
     (let c = c\<lparr>reg_esp := stack_top\<rparr>;
          (c, s) = call_init ret_init c s;
          (esp, m) = push (reg_esp c) (reg_esp c, ram (sys (mach s)));
          (esp, m) = push (reg_ebx c) (esp, m);
          k = (sys (mach s))\<lparr>interrupt_flag := False\<rparr>;
          (esp, m) = push ret_main (esp, m)
      in (c\<lparr>reg_esp := esp\<rparr>, s\<lparr>mach := (mach s)\<lparr>sys := k\<lparr>ram := m\<rparr>\<rparr>\<rparr>))"

definition start ::
    "nat \<Rightarrow> image \<Rightarrow> context_regs \<Rightarrow> u32 \<Rightarrow> u32 \<Rightarrow> u32 \<Rightarrow> cpu_context \<Rightarrow> system \<Rightarrow> fault + (int \<times> int \<times> system)" where
  "start fuel img regs stack_top ret_init ret_main c s =
     (let (c, s) = start_entry stack_top ret_init ret_main c s;
          m = ram (sys (mach s))
      in kernel_main fuel img regs (load32 m (reg_esp c + 4)) (load32 m (reg_esp c + 8)) s)"

subsection \<open>The state kernel_main is called with\<close>

definition stack_ok :: "u32 \<Rightarrow> bool" where
  "stack_ok stack_top \<longleftrightarrow> 12 \<le> unat stack_top \<and> (unat stack_top \<le> 0xB8000 \<or> 0xB8FA0 + 12 \<le> unat stack_top)"

lemma start_entry_state:
  assumes st: "stack_ok stack_top"
  obtains e t m where "start_entry stack_top ret_init ret_main c s = (c\<lparr>reg_eip := e, reg_esp := stack_top - 12\<rparr>,
      s\<lparr>mach := (mach s)\<lparr>sys := (sys (mach s))\<lparr>ram := m, interrupt_flag := False\<rparr>, console := t\<rparr>\<rparr>)"
    "tty_ok t" "terminal_color t = 7" "abs_screen (t, m) = (0, replicate 2000 (vga_entry 32 7))"
    "load32 m (stack_top - 8) = reg_ebx c" "load32 m (stack_top - 4) = stack_top" "e = ret_init"
    "\<And>x. unat x < 0xB8000 \<or> 0xB8FA0 \<le> unat x \<Longrightarrow> unat x < unat stack_top - 12 \<or> unat stack_top \<le> unat x \<Longrightarrow>
      m x = ram (sys (mach s)) x"
proof -
  let ?m0 = "ram (sys (mach s))" and ?p = stack_top
  define m1 where "m1 = store32 (store32 ?m0 (?p - 4) ret_init) (?p - 8) (reg_ebp c)"
  obtain t m2 where tty: "Initialise (console (mach s)) m1 = (t, m2)" by fastforce
  from Initialise_blank_screen [OF tty] have T: "tty_ok t" "terminal_color t = 7"
      "abs_screen (t, m2) = (0, replicate 2000 (vga_entry 32 7))" "same_outside 0xB8000 0xB8FA0 m1 m2" by simp_all
  define m where "m = store32 (store32 (store32 m2 (?p - 4) ?p) (?p - 8) (reg_ebx c)) (?p - 12) ret_main"
  have un: "unat (?p - 4) = unat ?p - 4" "unat (?p - 8) = unat ?p - 8" "unat (?p - 12) = unat ?p - 12"
    using st by (simp_all add: stack_ok_def unat_sub word_le_unat)
  have "load32 m2 (?p - 8) = load32 m1 (?p - 8)" "load32 m2 (?p - 4) = load32 m1 (?p - 4)"
    using st un unat_le_max32 [of ?p] by (auto intro!: same_outside_load32 [OF T(4)] simp: stack_ok_def)
  then have saved: "load32 m2 (?p - 8) = reg_ebp c" "load32 m2 (?p - 4) = ret_init" by (simp_all add: m1_def mem_simps)
  have w: "same_outside (unat ?p - 12) (unat ?p) m2 m" "same_outside (unat ?p - 12) (unat ?p) ?m0 m1"
    unfolding m_def m1_def using un st unat_le_max32 [of ?p]
    by (auto intro!: same_outside_store32 simp: stack_ok_def)
  have off: "unat ?p \<le> 0xB8000 \<or> 0xB8FA0 \<le> unat ?p - 12" using st by (auto simp: stack_ok_def)
  show thesis
  proof (rule that [of ret_init t m])
    show "start_entry ?p ret_init ret_main c s = (c\<lparr>reg_eip := ret_init, reg_esp := ?p - 12\<rparr>,
      s\<lparr>mach := (mach s)\<lparr>sys := (sys (mach s))\<lparr>ram := m, interrupt_flag := False\<rparr>, console := t\<rparr>\<rparr>)"
      using tty [unfolded m1_def] saved
      by (cases c) (simp add: start_entry_def call_init_def push_def pop_def global_constructors_def TTY_def set_ram_def m_def)
    show "load32 m (?p - 8) = reg_ebx c" "load32 m (?p - 4) = ?p" by (simp_all add: m_def mem_simps)
    have "m x = m2 x" if "0xB8000 \<le> unat x" "unat x < 0xB8FA0" for x
      using that off by (intro same_outside_byte [OF w(1)]) linarith
    from abs_screen_same [where t = t, OF this] T(3) show "abs_screen (t, m) = (0, replicate 2000 (vga_entry 32 7))" by simp
    show "m x = ?m0 x" if "unat x < 0xB8000 \<or> 0xB8FA0 \<le> unat x" "unat x < unat ?p - 12 \<or> unat ?p \<le> unat x" for x
      using same_outside_byte [OF w(1) that(2)] same_outside_byte [OF T(4) that(1)] same_outside_byte [OF w(2) that(2)] by simp
  qed (use T in simp_all)
qed

subsection \<open>The kernel from its start\<close>

text \<open>Text typed where it fits on the screen.\<close>

lemma type_text:
  assumes "length pre + length xs < 2000" and "length xs \<le> k"
  shows "fold (type_char color) xs (length pre, pre @ replicate k b)
    = (length pre + length xs, pre @ map (\<lambda>c. vga_entry c color) xs @ replicate (k - length xs) b)"
  using assms
proof (induction xs arbitrary: pre k)
  case (Cons x xs)
  then obtain k' where k: "k = Suc k'" by (cases k) auto
  have "type_char color x (length pre, pre @ replicate k b) = (length (pre @ [vga_entry x color]), (pre @ [vga_entry x color]) @ replicate k' b)"
    using Cons.prems by (simp add: type_char_def k list_update_append)
  with Cons.IH [of "pre @ [vga_entry x color]" k'] Cons.prems k show ?case by simp
qed simp

text \<open>A step of the machine under interrupts after which the processor still finds a directory of the kernel.\<close>

definition mapped_step :: "machine \<Rightarrow> machine \<Rightarrow> bool" where
  "mapped_step u v \<longleftrightarrow> irq_step u v \<and> next_fetch (sys v) = Inr (sys v)"

lemma mapped_steps: "mapped_step\<^sup>*\<^sup>* u v \<Longrightarrow> irq_step\<^sup>*\<^sup>* u v"
  by (erule rtranclp_mono [THEN predicate2D, rotated]) (auto simp: mapped_step_def)

text \<open>
  C1: the kernel from its entry point, with the stack outside the text buffer and memory that is ready for
  the boot sequence when kernel_main is called. kernel_main gets the multiboot structure and the top of the
  stack as arguments. After initialise_paging the processor goes on only if the uninitialised value which
  the physical address of the new directory was computed from lies in the page where the kernel's directory
  begins or in the page where the new one does; otherwise the start ends there. If it goes on, the start
  succeeds: the screen shows the greeting in its first row and nothing else, paging and the heap are
  set up and every file of the ramdisk is served, as in C2, and along every sequence of interrupt requests and
  resumed tasks that leaves CR3 with a directory of the kernel one of the two tasks of the ready queue is
  current and every request is handled.
\<close>

theorem kernel_starts:
  assumes st: "stack_ok stack_top" and entry: "start_entry stack_top ret_init ret_main c s = (c0, s0)"
    and boot: "bootable img (reg_ebx c) s0 loc fin files dev" and fuel: "4096 < fuel"
  shows "kernel_main fuel img regs (reg_ebx c) stack_top s0 = start fuel img regs stack_top ret_init ret_main c s
    \<and> (\<exists>sd k1 P. boot_devices img (reg_ebx c) stack_top s0 = Inr (loc, sd)
      \<and> initialise_paging fuel (heap_junk img) (sys (mach sd)) = Inr k1 \<and> kernel_directory k1 = of_nat (placed_at True (fin + 128))
      \<and> translate (ram k1) (kernel_directory k1 + 4096) (current_directory k1) = Some P \<and> unat fin < unat P
      \<and> (if indeterminate (sys (mach s)) AND 0xFFFFF000 \<in> {kernel_directory k1, P}
         then \<exists>s' t n. start fuel img regs stack_top ret_init ret_main c s = Inr (2, 1, s')
           \<and> booted s0 s' regs loc fin files dev
           \<and> abs_screen (console (mach s'), ram (sys (mach s')))
             = (21, map (\<lambda>c. vga_entry c 7) hello_text @ replicate 1979 (vga_entry 32 7))
           \<and> machine_ok [t, n] (mach s') \<and> (\<forall>u. mapped_step\<^sup>*\<^sup>* (mach s') u \<longrightarrow> current_task (sys u) \<in> {t, n}
               \<and> (\<forall>k < 16. \<forall>r. \<exists>c v. irq_handler (32 + of_nat k) r u = Inr (c, v)))
         else start fuel img regs stack_top ret_init ret_main c s = Inl BadDirectory))"
proof -
  obtain e t m where E: "start_entry stack_top ret_init ret_main c s = (c\<lparr>reg_eip := e, reg_esp := stack_top - 12\<rparr>,
      s\<lparr>mach := (mach s)\<lparr>sys := (sys (mach s))\<lparr>ram := m, interrupt_flag := False\<rparr>, console := t\<rparr>\<rparr>)"
      "terminal_color t = 7" "abs_screen (t, m) = (0, replicate 2000 (vga_entry 32 7))"
      "load32 m (stack_top - 8) = reg_ebx c" "load32 m (stack_top - 4) = stack_top"
    by (rule start_entry_state [OF st])
  have s0: "ram (sys (mach s0)) = m" "console (mach s0) = t" "reg_esp c0 = stack_top - 12"
      "indeterminate (sys (mach s0)) = indeterminate (sys (mach s))"
    using entry E(1) by auto
  have run: "start fuel img regs stack_top ret_init ret_main c s = kernel_main fuel img regs (reg_ebx c) stack_top s0"
    using entry s0 E(4,5) by (simp add: start_def Let_def)
  have greeting: "fold (type_char 7) hello_text (0, replicate 2000 (vga_entry 32 7))
      = (21, map (\<lambda>c. vga_entry c 7) hello_text @ replicate 1979 (vga_entry 32 7))"
    using type_text [of "[]" hello_text 2000 7 "vga_entry 32 7"] by (simp add: hello_text_plain)
  have up: "\<exists>t n. abs_screen (console (mach s'), ram (sys (mach s')))
        = (21, map (\<lambda>c. vga_entry c 7) hello_text @ replicate 1979 (vga_entry 32 7))
      \<and> machine_ok [t, n] (mach s') \<and> (\<forall>u. mapped_step\<^sup>*\<^sup>* (mach s') u \<longrightarrow> current_task (sys u) \<in> {t, n}
          \<and> (\<forall>k < 16. \<forall>r. \<exists>c v. irq_handler (32 + of_nat k) r u = Inr (c, v)))"
    if b: "booted s0 s' regs loc fin files dev" for s'
  proof -
    obtain a d where ok: "machine_ok [a, d] (mach s')" using b unfolding booted_def Let_def by blast
    have "current_task (sys u) \<in> {a, d} \<and> (\<forall>k < 16. \<forall>r. \<exists>c v. irq_handler (32 + of_nat k) r u = Inr (c, v))"
      if "mapped_step\<^sup>*\<^sup>* (mach s') u" for u
      using irq_steps_ok [OF mapped_steps [OF that] ok] irq_ok machine_okD(2) by fastforce
    moreover have "abs_screen (console (mach s'), ram (sys (mach s')))
        = (21, map (\<lambda>c. vga_entry c 7) hello_text @ replicate 1979 (vga_entry 32 7))"
      using b s0 E(2,3) greeting by (simp add: booted_def Let_def)
    ultimately show ?thesis using ok by blast
  qed
  obtain sd k1 P where M: "boot_devices img (reg_ebx c) stack_top s0 = Inr (loc, sd)"
      "initialise_paging fuel (heap_junk img) (sys (mach sd)) = Inr k1" "kernel_directory k1 = of_nat (placed_at True (fin + 128))"
      "translate (ram k1) (kernel_directory k1 + 4096) (current_directory k1) = Some P" "unat fin < unat P"
      "if indeterminate (sys (mach s)) AND 0xFFFFF000 \<in> {kernel_directory k1, P}
       then \<exists>s'. kernel_main fuel img regs (reg_ebx c) stack_top s0 = Inr (2, 1, s') \<and> booted s0 s' regs loc fin files dev
       else kernel_main fuel img regs (reg_ebx c) stack_top s0 = Inl BadDirectory"
    using kernel_main_run [OF boot fuel, of stack_top regs] unfolding s0(4) by blast
  have "if indeterminate (sys (mach s)) AND 0xFFFFF000 \<in> {kernel_directory k1, P}
    then \<exists>s' t n. start fuel img regs stack_top ret_init ret_main c s = Inr (2, 1, s') \<and> booted s0 s' regs loc fin files dev
      \<and> abs_screen (console (mach s'), ram (sys (mach s')))
        = (21, map (\<lambda>c. vga_entry c 7) hello_text @ replicate 1979 (vga_entry 32 7))
      \<and> machine_ok [t, n] (mach s') \<and> (\<forall>u. mapped_step\<^sup>*\<^sup>* (mach s') u \<longrightarrow> current_task (sys u) \<in> {t, n}
          \<and> (\<forall>k < 16. \<forall>r. \<exists>c v. irq_handler (32 + of_nat k) r u = Inr (c, v)))
    else start fuel img regs stack_top ret_init ret_main c s = Inl BadDirectory"
  proof (cases "indeterminate (sys (mach s)) AND 0xFFFFF000 \<in> {kernel_directory k1, P}")
    case True
    with M(6) obtain s' where s': "kernel_main fuel img regs (reg_ebx c) stack_top s0 = Inr (2, 1, s')" "booted s0 s' regs loc fin files dev"
      by (simp only: if_True) (elim exE conjE, rule that)
    from up [OF s'(2)] s' True show ?thesis unfolding run by (simp only: if_True) blast
  next
    case False
    with M(6) show ?thesis unfolding run by (simp only: if_False)
  qed
  with M(1-5) run show ?thesis by (intro conjI exI [of _ sd] exI [of _ k1] exI [of _ P]) simp_all
qed

text \<open>The machine of theory Kernel_Boot, entered with the multiboot structure at 0x9000 and a stack below 0x120000.\<close>

definition demo_entry :: cpu_context where
  "demo_entry = \<lparr>reg_eax = 0x2BADB002, reg_ecx = 0, reg_edx = 0, reg_ebx = 0x9000, reg_esp = 0, reg_ebp = 0, reg_esi = 0,
     reg_edi = 0, reg_eip = 0x101000, reg_eflags = 2, segs = core (demo_system 0)\<rparr>"

lemma demo_entry_bootable:
  assumes entry: "start_entry 0x120000 ret_init ret_main demo_entry (demo_system z) = (c0, s0)"
  shows "bootable boot_image 0x9000 s0 0x200000 0x200052 [([97], 80, [7, 9])] [100]"
proof -
  have "stack_ok 0x120000" by (simp add: stack_ok_def)
  then obtain e t m where E: "start_entry 0x120000 ret_init ret_main demo_entry (demo_system z)
        = (demo_entry\<lparr>reg_eip := e, reg_esp := 0x120000 - 12\<rparr>, demo_system z\<lparr>mach := (mach (demo_system z))\<lparr>sys :=
            (sys (mach (demo_system z)))\<lparr>ram := m, interrupt_flag := False\<rparr>, console := t\<rparr>\<rparr>)" "tty_ok t"
      and m: "\<And>x. unat x < 0xB8000 \<or> 0xB8FA0 \<le> unat x \<Longrightarrow> unat x < 0x11FFF4 \<or> 0x120000 \<le> unat x \<Longrightarrow>
        m x = ram (sys (mach (demo_system z))) x"
    by (rule start_entry_state [where ret_init = ret_init and ret_main = ret_main and c = demo_entry and s = "demo_system z"]) simp
  have "s0 = demo_system z\<lparr>mach := (set_ram m (mach (demo_system z)))\<lparr>console := t\<rparr>\<rparr>"
    using entry unfolding E(1)
    by (auto simp: demo_system_def set_ram_def demo_machine_def two_tasks_def empty_bitmap_kernel_def)
  moreover have "m x = demo_ramdisk x" if "x < 0xB8000 \<or> 0xB8FA0 \<le> x \<and> x < 0x11FFF4 \<or> 0x120000 \<le> x" for x
  proof -
    have "ram (sys (mach (demo_system z))) = demo_ramdisk" by (simp add: demo_system_def demo_machine_def)
    moreover have "unat x < 0xB8000 \<or> 0xB8FA0 \<le> unat x" "unat x < 0x11FFF4 \<or> 0x120000 \<le> unat x"
      using that by (auto simp: word_less_unat word_le_unat)
    ultimately show ?thesis using m by simp
  qed
  ultimately show ?thesis using demo_bootable_memory [of m t z] E(2) by simp
qed

theorem kernel_starts_witness:
  "(\<exists>s'. start 5000 boot_image (0x111, 0x222, 0x333) 0x120000 0x101010 0x101020 demo_entry (demo_system 0x201000) = Inr (2, 1, s')
       \<and> abs_screen (console (mach s'), ram (sys (mach s'))) = (21, map (\<lambda>c. vga_entry c 7) hello_text @ replicate 1979 (vga_entry 32 7)))
   \<and> start 5000 boot_image (0x111, 0x222, 0x333) 0x120000 0x101010 0x101020 demo_entry (demo_system 42) = Inl BadDirectory"
proof -
  have st: "stack_ok 0x120000" by (simp add: stack_ok_def)
  have fuel: "4096 < (5000 :: nat)" by simp
  have ebx: "reg_ebx demo_entry = 0x9000" by (simp add: demo_entry_def)
  have z: "indeterminate (sys (mach (demo_system z))) = z" for z by (simp add: demo_system_def)
  have page0: "(42 :: u32) AND 0xFFFFF000 = 0" by simp
  obtain c1 s1 where e1: "start_entry 0x120000 0x101010 0x101020 demo_entry (demo_system 0x201000) = (c1, s1)" by fastforce
  obtain c2 s2 where e2: "start_entry 0x120000 0x101010 0x101020 demo_entry (demo_system 42) = (c2, s2)" by fastforce
  note w = demo_entry_bootable [OF e1, folded ebx] demo_entry_bootable [OF e2, folded ebx]
  from kernel_starts [OF st e1 w(1) fuel, where regs = "(0x111, 0x222, 0x333)", unfolded z demo_directory]
  have "\<exists>s'. start 5000 boot_image (0x111, 0x222, 0x333) 0x120000 0x101010 0x101020 demo_entry (demo_system 0x201000) = Inr (2, 1, s')
       \<and> abs_screen (console (mach s'), ram (sys (mach s'))) = (21, map (\<lambda>c. vga_entry c 7) hello_text @ replicate 1979 (vga_entry 32 7))"
    by (elim exE conjE) (simp, blast)
  moreover from kernel_starts [OF st e2 w(2) fuel, where regs = "(0x111, 0x222, 0x333)", unfolded z demo_directory page0]
  have "start 5000 boot_image (0x111, 0x222, 0x333) 0x120000 0x101010 0x101020 demo_entry (demo_system 42) = Inl BadDirectory"
    by (elim exE conjE) (auto split: if_splits)
  ultimately show ?thesis by blast
qed

end
