(* ===== verification/Task_Resume.thy ===== *)
theory Task_Resume
  imports Fork
begin

text \<open>
  What happens when a task is continued that was suspended inside switch_task of \<^verbatim>\<open>kernel/Task.cpp\<close>. Its
  saved instruction pointer is the address behind the call of read_eip, so the code behind that call
  runs a second time. The comment in the source says that a dummy value in EAX then makes the function
  return; there is no such test, and EAX holds the physical address of the page directory.
\<close>

subsection \<open>Continuing behind read_eip\<close>

text \<open>
  A jump to \<open>ret\<close>, the address behind the call, continues in the middle of switch_task with EAX as the
  value of the call. The variables esp and ebp have the values that were saved: they lie in the frame of
  the task.
\<close>

definition resume :: "u32 \<Rightarrow> control \<times> kernel \<Rightarrow> control \<times> kernel" where
  "resume ret r =
     (case r of
        (Returns, s) \<Rightarrow> r
      | (Jump eip esp ebp eax, s) \<Rightarrow> if eip = ret then switch_task_after_eip eax esp ebp s else r)"

definition task_physical :: "memory \<Rightarrow> u32 \<Rightarrow> u32" where
  "task_physical m t = dir_PhysicalAddress m (task_page_directory m t)"

text \<open>The page directories of the tasks lie outside the structures of the tasks.\<close>

definition directories_apart :: "memory \<Rightarrow> u32 list \<Rightarrow> bool" where
  "directories_apart m xs \<longleftrightarrow> (\<forall>t \<in> set xs. let d = unat (task_page_directory m t) in
     d + 8196 \<le> 4294967295 \<and> (\<forall>u \<in> set xs. d + 8196 \<le> unat u \<or> unat u + 24 \<le> d))"

subsection \<open>One switch\<close>

lemma save_context_other:
  assumes ok: "tasks_ok xs" and t: "t \<in> set xs" and u: "u \<in> set xs" "u \<noteq> t"
  shows "task_eip (save_context t eip esp ebp m) u = task_eip m u"
    "task_page_directory (save_context t eip esp ebp m) u = task_page_directory m u"
  using task_frame [OF save_context_frame [OF tasks_okD(1) [OF ok t]] tasks_okD(1) [OF ok u(1)] tasks_okD(2) [OF ok t u]]
  by blast+

lemma save_context_directory:
  assumes ok: "tasks_ok xs" and t: "t \<in> set xs" and apart: "directories_apart m xs"
  shows "u \<in> set xs \<Longrightarrow> task_page_directory (save_context t eip esp ebp m) u = task_page_directory m u"
    and "u \<in> set xs \<Longrightarrow> task_physical (save_context t eip esp ebp m) u = task_physical m u"
    and "directories_apart (save_context t eip esp ebp m) xs"
proof -
  let ?m = "save_context t eip esp ebp m"
  show pd: "task_page_directory ?m u = task_page_directory m u" if "u \<in> set xs" for u
    using save_context_other(2) [OF ok t that] by (cases "u = t") simp_all
  show "task_physical ?m u = task_physical m u" if u: "u \<in> set xs"
  proof -
    let ?d = "task_page_directory m u"
    have d: "unat ?d + 8196 \<le> 4294967295" "unat ?d + 8196 \<le> unat t \<or> unat t + 24 \<le> unat ?d"
      using apart t u by (auto simp: directories_apart_def Let_def)
    have "unat (?d + 8192) = unat ?d + 8192" using d(1) by (simp add: unat_plus_numeral)
    moreover have "same_outside (unat t) (unat t + 24) m ?m"
      using save_context_frame [OF tasks_okD(1) [OF ok t]] by (simp add: other_tasks_def)
    ultimately have "load32 ?m (?d + 8192) = load32 m (?d + 8192)"
      using d by (intro same_outside_load32) auto
    then show ?thesis by (simp add: task_physical_def dir_PhysicalAddress_def pd [OF u])
  qed
  show "directories_apart ?m xs" using apart pd by (simp add: directories_apart_def)
qed

text \<open>The tasks in \<open>T\<close> have the address of their directory as saved instruction pointer, all others \<open>ret\<close>.\<close>

definition suspended :: "u32 \<Rightarrow> u32 list \<Rightarrow> (u32 \<Rightarrow> u32) \<Rightarrow> u32 set \<Rightarrow> nat \<Rightarrow> control \<times> kernel \<Rightarrow> bool" where
  "suspended ret xs pa T i r \<longleftrightarrow> (\<exists>esp ebp s. r = (Jump (if xs ! i \<in> T then pa (xs ! i) else ret) esp ebp (pa (xs ! i)), s)
     \<and> queue_ok s xs \<and> current_task s = xs ! i \<and> directories_apart (ram s) xs
     \<and> (\<forall>t \<in> set xs. task_physical (ram s) t = pa t)
     \<and> (\<forall>t \<in> set xs. task_eip (ram s) t = (if t \<in> T then pa t else ret)))"

lemma switch_suspended:
  assumes ok: "queue_ok s xs" and i: "i < length xs" and cur: "current_task s = xs ! i"
    and apart: "directories_apart (ram s) xs" and pa: "\<forall>t \<in> set xs. task_physical (ram s) t = pa t"
    and eips: "\<forall>t \<in> set xs. t \<noteq> xs ! i \<longrightarrow> task_eip (ram s) t = (if t \<in> T then pa t else ret)"
    and eip: "eip = (if xs ! i \<in> T then pa (xs ! i) else ret)"
  shows "suspended ret xs pa T (Suc i mod length xs) (switch_task eip esp ebp s)"
proof -
  let ?m = "save_context (xs ! i) eip esp ebp (ram s)" and ?nxt = "xs ! (Suc i mod length xs)"
  obtain e p b a s' where sw: "switch_task eip esp ebp s = (Jump e p b a, s')"
    and s': "ram s' = ?m" "current_task s' = ?nxt" "e = task_eip ?m ?nxt" "a = task_physical ?m ?nxt"
    unfolding switch_next [OF ok i cur] by (simp add: task_physical_def)
  have q: "queue_ok s' xs" using rr.step_next [OF ok i cur sched_step.switch [OF sw]] by simp
  have "Suc i mod length xs < length xs" using i by (intro mod_less_divisor) linarith
  then have xi: "xs ! i \<in> set xs" and nxt: "?nxt \<in> set xs" using i by simp_all
  have tok: "tasks_ok xs" using ok by (simp add: queue_ok_def)
  note D = save_context_directory [OF tok xi apart]
  have "task_eip ?m t = (if t \<in> T then pa t else ret)" if "t \<in> set xs" for t
    using save_context_other(1) [OF tok xi that] eips eip that by (cases "t = xs ! i") simp_all
  then show ?thesis
    using sw s' q D pa nxt by (auto simp: suspended_def)
qed

lemma resume_suspended:
  assumes r: "suspended ret xs pa T i r" and i: "i < length xs" and new: "xs ! i \<notin> T"
  shows "suspended ret xs pa (insert (xs ! i) T) (Suc i mod length xs) (resume ret r)"
proof -
  obtain esp ebp s where s: "r = (Jump ret esp ebp (pa (xs ! i)), s)" "queue_ok s xs" "current_task s = xs ! i"
      "directories_apart (ram s) xs" "\<forall>t \<in> set xs. task_physical (ram s) t = pa t"
      "\<forall>t \<in> set xs. task_eip (ram s) t = (if t \<in> T then pa t else ret)"
    using r new by (auto simp: suspended_def)
  have "xs ! i \<noteq> 0" using s(2) i task_list_nonzero by (auto simp: queue_ok_def)
  then have "resume ret r = switch_task (pa (xs ! i)) esp ebp s" using s(1,3) by (simp add: resume_def switch_task_def)
  then show ?thesis using switch_suspended [OF s(2) i s(3-5), of "insert (xs ! i) T" ret] s(6) by simp
qed

subsection \<open>All tasks suspended\<close>

lemma resume_round:
  fixes xs :: "u32 list"
  assumes start: "suspended ret xs pa {} (Suc i mod length xs) r" and d: "distinct xs" and ne: "xs \<noteq> []"
  shows "k \<le> length xs \<Longrightarrow>
    suspended ret xs pa (set (take k (rotate (Suc i) xs))) ((Suc i + k) mod length xs) ((resume ret ^^ k) r)"
proof (induction k)
  case (Suc k)
  let ?ys = "rotate (Suc i) xs"
  let ?j = "(Suc i + k) mod length xs"
  have k: "k < length ?ys" using Suc.prems by simp
  have y: "?ys ! k = xs ! ?j" using k by (intro nth_rotate) simp
  have "?ys ! k \<notin> set (take k ?ys)"
    using d k by (auto simp: in_set_conv_nth nth_eq_iff_index_eq)
  then have new: "xs ! ?j \<notin> set (take k ?ys)" unfolding y .
  have "?j < length xs" using ne by simp
  from resume_suspended [OF Suc.IH this new] Suc.prems
  have "suspended ret xs pa (insert (xs ! ?j) (set (take k ?ys))) (Suc ?j mod length xs) ((resume ret ^^ Suc k) r)"
    by (simp del: rotate_Suc)
  moreover have "set (take (Suc k) ?ys) = insert (xs ! ?j) (set (take k ?ys))"
    unfolding y [symmetric] using k by (simp add: take_Suc_conv_app_nth del: rotate_Suc)
  ultimately show ?case by (simp add: mod_Suc_eq del: rotate_Suc)
qed (use start in simp)

text \<open>
  C17: when all other tasks were suspended inside switch_task, the next call of switch_task never gets
  back to any of them. Every task continues behind read_eip, saves the address of its page directory as
  the place to continue at and switches on, and after one round the processor jumps into the page
  directory of the next task as if it were code.
\<close>

theorem suspended_tasks_run_into_directory:
  fixes esp ebp :: u32
  assumes ok: "queue_ok s xs" and i: "i < length xs" and cur: "current_task s = xs ! i"
    and apart: "directories_apart (ram s) xs"
    and susp: "\<forall>t \<in> set xs. t \<noteq> xs ! i \<longrightarrow> task_eip (ram s) t = ret"
  defines "nxt \<equiv> xs ! (Suc i mod length xs)" and "run \<equiv> \<lambda>k. (resume ret ^^ k) (switch_task ret esp ebp s)"
  shows "(\<forall>k < length xs. \<exists>e b a s'. run k = (Jump ret e b a, s'))
    \<and> (\<exists>e b s'. run (length xs) = (Jump (task_physical (ram s) nxt) e b (task_physical (ram s) nxt), s')
         \<and> current_task s' = nxt \<and> (\<forall>t \<in> set xs. task_eip (ram s') t = task_physical (ram s) t))"
proof -
  let ?pa = "task_physical (ram s)" and ?ys = "rotate (Suc i) xs"
  have d: "distinct xs" "xs \<noteq> []" using ok i by (auto simp: queue_ok_def tasks_ok_def)
  have "suspended ret xs ?pa {} (Suc i mod length xs) (run 0)"
    unfolding run_def using switch_suspended [OF ok i cur apart, of ?pa "{}" ret ret esp ebp] susp by simp
  note R = resume_round [OF this d, folded run_def]
  have run: "run k = (resume ret ^^ k) (run 0)" for k by (simp add: run_def)
  have y: "?ys ! k = xs ! ((Suc i + k) mod length xs)" if "k < length xs" for k using that by (rule nth_rotate)
  show ?thesis
  proof (intro conjI allI impI)
    fix k assume k: "k < length xs"
    then have "?ys ! k \<notin> set (take k ?ys)" using d by (auto simp: in_set_conv_nth nth_eq_iff_index_eq)
    with R [of k] k show "\<exists>e b a s'. run k = (Jump ret e b a, s')"
      unfolding y [OF k] run [symmetric] by (auto simp: suspended_def simp del: rotate_Suc)
  next
    have "nxt \<in> set xs" using d(2) by (simp add: nxt_def)
    moreover have "suspended ret xs ?pa (set xs) (Suc i mod length xs) (run (length xs))"
      using R [of "length xs"] by (simp add: run [symmetric] del: add_Suc rotate_Suc)
    ultimately show "\<exists>e b s'. run (length xs) = (Jump (?pa nxt) e b (?pa nxt), s') \<and> current_task s' = nxt
        \<and> (\<forall>t \<in> set xs. task_eip (ram s') t = ?pa t)"
      by (auto simp: suspended_def nxt_def)
  qed
qed

text \<open>Two tasks with page directories at 0x10000 and 0x20000; the second one was suspended.\<close>

definition suspended_memory :: memory where
  "suspended_memory = (\<lambda>a. if a = 0x1015 then 0x20 else if a = 0x1012 then 1 else if a = 0x2012 then 2
     else if a = 0x200C then 0x77 else if a = 0x200D then 7 else if a = 0x12001 then 0x20 else if a = 0x12002 then 1
     else if a = 0x22001 then 0x20 else if a = 0x22002 then 2 else 0)"

lemma suspended_fields:
  "task_next suspended_memory 0x1000 = 0x2000" "task_next suspended_memory 0x2000 = 0"
  "task_page_directory suspended_memory 0x1000 = 0x10000" "task_page_directory suspended_memory 0x2000 = 0x20000"
  "task_eip suspended_memory 0x2000 = 0x777" "dir_PhysicalAddress suspended_memory 0x20000 = 0x22000"
  by (simp_all add: task_fields dir_PhysicalAddress_def load32_def suspended_memory_def)

theorem suspended_tasks_run_into_directory_witness:
  "\<exists>e b s'. (resume 0x777 ^^ 2) (switch_task 0x777 0x9000 0x9100 (two_tasks\<lparr>ram := suspended_memory\<rparr>))
     = (Jump 0x22000 e b 0x22000, s') \<and> current_task s' = 0x2000"
proof -
  let ?s = "two_tasks\<lparr>ram := suspended_memory\<rparr>"
  have q: "queue_ok ?s [0x1000, 0x2000]"
    by (simp add: queue_ok_def tasks_ok_def task_fits_def tasks_apart_def two_tasks_def empty_bitmap_kernel_def suspended_fields)
  have h: "(0 :: nat) < length [0x1000, 0x2000 :: u32]" "current_task ?s = [0x1000, 0x2000] ! 0"
    "directories_apart (ram ?s) [0x1000, 0x2000]"
    "\<forall>t \<in> set [0x1000, 0x2000]. t \<noteq> [0x1000, 0x2000] ! 0 \<longrightarrow> task_eip (ram ?s) t = 0x777"
    by (simp_all add: two_tasks_def directories_apart_def suspended_fields)
  from suspended_tasks_run_into_directory [OF q h, of "0x9000" "0x9100"] show ?thesis
    by (auto simp: task_physical_def suspended_fields numeral_2_eq_2)
qed

end
