(* ===== verification/Stack_Move.thy ===== *)
theory Stack_Move
  imports Tasking
begin

text \<open>
  The part of move_stack of \<^verbatim>\<open>kernel/Task.cpp\<close> behind its endless loop, as far as it is C++: the old stack is
  copied to the new one and the words of the copy that point into the old stack are moved along. The
  registers ESP and EBP are read before the loop and set at the end; they are arguments and results here.
\<close>

primrec relocate_loop :: "nat \<Rightarrow> u32 \<Rightarrow> u32 \<Rightarrow> u32 \<Rightarrow> u32 \<Rightarrow> u32 \<Rightarrow> memory \<Rightarrow> fault + memory" where
  "relocate_loop 0 old_stack_pointer initial_esp offset limit i m = Inl OutOfFuel"
| "relocate_loop (Suc fuel) old_stack_pointer initial_esp offset limit i m =
     (if i > limit then
        let tmp = load32 m i;
            m = (if old_stack_pointer < tmp \<and> tmp < initial_esp then store32 m i (tmp + offset) else m)
        in relocate_loop fuel old_stack_pointer initial_esp offset limit (i - 4) m
      else Inr m)"

definition move_stack_copy ::
    "nat \<Rightarrow> u32 \<Rightarrow> u32 \<Rightarrow> u32 \<Rightarrow> u32 \<Rightarrow> u32 \<Rightarrow> memory \<Rightarrow> fault + (u32 \<times> u32 \<times> memory)" where
  "move_stack_copy fuel initial_esp new_stack_start n old_stack_pointer old_base_pointer m =
     (let offset = new_stack_start - initial_esp;
          new_stack_pointer = old_stack_pointer + offset;
          new_base_pointer = old_base_pointer + offset;
          m = memcpy m new_stack_pointer old_stack_pointer (initial_esp - old_stack_pointer)
      in rbind (relocate_loop fuel old_stack_pointer initial_esp offset (new_stack_start - n) new_stack_start m)
           (\<lambda>m. Inr (new_stack_pointer, new_base_pointer, m)))"

subsection \<open>Changing the cells of an array from the top\<close>

context word_array
begin

primrec update_down :: "'h \<Rightarrow> nat \<Rightarrow> ('v \<Rightarrow> bool) \<Rightarrow> ('v \<Rightarrow> 'v) \<Rightarrow> 'm \<Rightarrow> 'm" where
  "update_down h 0 c f m = m"
| "update_down h (Suc k) c f m =
     update_down h k c f (if c (get h m (Suc k)) then put h m (Suc k) (f (get h m (Suc k))) else m)"

lemma get_update_down:
  assumes "wf h"
  shows "k < cap h \<Longrightarrow> j < cap h \<Longrightarrow>
    get h (update_down h k c f m) j = (if 0 < j \<and> j \<le> k \<and> c (get h m j) then f (get h m j) else get h m j)"
proof (induction k arbitrary: m)
  case (Suc k)
  with assms show ?case by (cases "j = Suc k") (auto simp: get_put_same get_put_other)
qed auto

end

lemma update_down_frame:
  assumes "arr_wf h" and "unat x < unat (fst h) + 4 \<or> unat (fst h) + 4 * snd h \<le> unat x"
  shows "k < snd h \<Longrightarrow> w32.update_down h k c f m x = m x"
proof (induction k arbitrary: m)
  case (Suc k)
  have "arr_put h m (Suc k) v x = m x" for v
  proof -
    have "unat (fst h + 4 * of_nat (Suc k)) = unat (fst h) + 4 * Suc k"
      using assms(1) Suc.prems by (intro unat_cell [of _ "snd h"]) (simp_all add: arr_wf_def)
    then have "apart (fst h + 4 * of_nat (Suc k)) 4 x 1"
      using assms Suc.prems unat_lt_2p32 [of x] by (auto simp: apart_def arr_wf_def simp del: unat_lt_2p32)
    then show ?thesis by (simp add: arr_put_def store32_byte_apart)
  qed
  with Suc show ?case by simp
qed simp

subsection \<open>The relocated stack\<close>

text \<open>A word of the stack in its new place: addresses strictly inside the old stack move along.\<close>

definition moved :: "u32 \<Rightarrow> u32 \<Rightarrow> u32 \<Rightarrow> u32 \<Rightarrow> u32" where
  "moved low high offset v = (if low < v \<and> v < high then v + offset else v)"

lemma relocate_loop_array:
  assumes wf: "arr_wf (base, n)"
  shows "k < n \<Longrightarrow> k < fuel \<Longrightarrow> relocate_loop fuel low high offset base (base + 4 * of_nat k) m
    = Inr (w32.update_down (base, n) k (\<lambda>v. low < v \<and> v < high) (\<lambda>v. v + offset) m)"
proof (induction fuel arbitrary: k m)
  case (Suc fuel)
  show ?case
  proof (cases k)
    case (Suc k')
    have "unat (base + 4 * of_nat k) = unat base + 4 * k"
      using wf Suc.prems by (intro unat_cell [of _ n]) (simp_all add: arr_wf_def)
    then have "base < base + 4 * of_nat k" using Suc by (simp add: word_less_unat)
    moreover have "base + 4 * of_nat k - 4 = base + 4 * of_nat k'" using Suc by simp
    moreover have "load32 m (base + 4 * of_nat k) = arr_get (base, n) m k"
      and "store32 m (base + 4 * of_nat k) v = arr_put (base, n) m k v" for v
      by (simp_all add: arr_get_def arr_put_def)
    ultimately have "relocate_loop (Suc fuel) low high offset base (base + 4 * of_nat k) m
        = relocate_loop fuel low high offset base (base + 4 * of_nat k')
            (if low < arr_get (base, n) m k \<and> arr_get (base, n) m k < high
             then arr_put (base, n) m k (arr_get (base, n) m k + offset) else m)"
      by (simp only: relocate_loop.simps Let_def if_True)
    with Suc.IH [of k'] Suc.prems Suc show ?thesis by simp
  qed simp
qed simp

text \<open>The copy is between disjoint ranges.\<close>

lemma copied_stack:
  fixes old dst :: u32
  assumes old: "unat old + n \<le> 4294967295" and dst: "unat dst + n \<le> 4294967295"
    and apart: "unat old + n \<le> unat dst \<or> unat dst + n \<le> unat old"
  shows "j + 4 \<le> n \<Longrightarrow> load32 (memcpy m dst old (of_nat n)) (dst + of_nat j) = load32 m (old + of_nat j)"
    and "same_outside (unat dst) (unat dst + n) m (memcpy m dst old (of_nat n))"
proof -
  have n: "unat (of_nat n :: u32) = n" using old by (intro unat_of_nat32) linarith
  have "of_nat n \<le> dst - old"
    using apart old unfolding word_le_unat n by (auto simp: unat_sub_if_size word_size)
  then have m: "memcpy m dst old (of_nat n) = blit m dst old (of_nat n)"
    by (intro memcpy_eq_blit) (simp add: ascending_safe_def)
  show "same_outside (unat dst) (unat dst + n) m (memcpy m dst old (of_nat n))"
    unfolding m same_outside_def using n dst by (auto intro!: blit_outside simp: offset_less_iff)
  show "load32 (memcpy m dst old (of_nat n)) (dst + of_nat j) = load32 m (old + of_nat j)" if j: "j + 4 \<le> n"
  proof -
    have "blit m dst old (of_nat n) (dst + of_nat j + of_nat i) = m (old + of_nat j + of_nat i)" if i: "i < 4" for i
    proof -
      have "(of_nat (j + i) :: u32) < of_nat n"
        using i j n old by (subst word_less_unat, subst n, subst unat_of_nat32) auto
      from blit_inside [OF this, of m dst old] show ?thesis by (simp add: add.assoc)
    qed
    from this [of 0] this [of 1] this [of 2] this [of 3] show ?thesis by (simp add: m load32_def)
  qed
qed

text \<open>
  C31: the code behind the loop of move_stack moves the stack: with the old stack of \<open>w\<close> words outside the
  new one, which has more room, it ends, the new stack holds the words of the old one with the addresses
  inside the old stack moved along, and the registers are moved by the same distance. The word at
  \<open>new_stack_start\<close>, which is not part of the stack, is treated in the same way; other memory is kept.
\<close>

theorem move_stack_copy_correct:
  fixes old start :: u32
  assumes old: "unat initial_esp = unat old + 4 * w" and room: "w < q" "q < fuel"
    and new: "4 * q \<le> unat start" "unat start + 4 \<le> 4294967295"
    and apart: "unat initial_esp \<le> unat start - 4 * q \<or> unat start + 4 \<le> unat old"
  defines "offset \<equiv> start - initial_esp"
  shows "\<exists>m'. move_stack_copy fuel initial_esp start (4 * of_nat q) old ebp m = Inr (start - 4 * of_nat w, ebp + offset, m')
    \<and> (\<forall>j < w. load32 m' (start - 4 * of_nat w + 4 * of_nat j) = moved old initial_esp offset (load32 m (old + 4 * of_nat j)))
    \<and> load32 m' start = moved old initial_esp offset (load32 m start)
    \<and> same_outside (unat start - 4 * q + 4) (unat start + 4) m m'"
proof -
  let ?base = "start - 4 * of_nat q" and ?h = "(start - 4 * of_nat q, Suc q)" and ?d = "start - 4 * of_nat w"
  have un: "unat (4 * of_nat k :: u32) = 4 * k" if "k \<le> q" for k
    using that new unat_of_nat32 [of "4 * k"] by simp
  have base: "unat ?base = unat start - 4 * q" and d: "unat ?d = unat start - 4 * w"
    using new room un by (simp_all add: unat_sub word_le_unat)
  have ini: "initial_esp = old + 4 * of_nat w"
    using old room un [of w] unat_lt_2p32 [of initial_esp] by (subst word_eq_unat) (simp add: unat_add_no_wrap)
  have len: "initial_esp - old = of_nat (4 * w)" and dst: "old + (start - initial_esp) = ?d" by (simp_all add: ini)
  have wf: "arr_wf ?h" using base new by (simp add: arr_wf_def)
  define m1 where "m1 = memcpy m ?d old (of_nat (4 * w))"
  define m' where "m' = w32.update_down ?h q (\<lambda>v. old < v \<and> v < initial_esp) (\<lambda>v. v + offset) m1"
  have "unat old + 4 * w \<le> 4294967295" using old unat_le_max32 [of initial_esp] by simp
  moreover have top: "unat ?d + 4 * w = unat start" using d new room by simp
  moreover have "unat old + 4 * w \<le> unat ?d \<or> unat ?d + 4 * w \<le> unat old"
    using apart old room(1) top new by linarith
  ultimately have pre: "unat old + 4 * w \<le> 4294967295" "unat ?d + 4 * w \<le> 4294967295"
      "unat old + 4 * w \<le> unat ?d \<or> unat ?d + 4 * w \<le> unat old"
    using new(2) by simp_all
  note C = copied_stack [where m = m, OF pre, folded m1_def]
  have C': "load32 m1 (?d + 4 * of_nat j) = load32 m (old + 4 * of_nat j)" if "j < w" for j
    using C(1) [of "4 * j"] that by simp
  have out: "same_outside (unat start - 4 * w) (unat start) m m1" using C(2) unfolding top unfolding d .
  have run: "relocate_loop fuel old initial_esp offset ?base start m1 = Inr m'"
    using relocate_loop_array [OF wf, of q fuel old initial_esp offset m1] room(2) by (simp add: m'_def)
  have cell: "load32 m' (?base + 4 * of_nat k) = moved old initial_esp offset (load32 m1 (?base + 4 * of_nat k))" if "0 < k" "k \<le> q" for k
    using w32.get_update_down [OF wf, of q k "\<lambda>v. old < v \<and> v < initial_esp" "\<lambda>v. v + offset" m1] that
    by (simp add: arr_get_def m'_def moved_def)
  have "load32 m' (?d + 4 * of_nat j) = moved old initial_esp offset (load32 m (old + 4 * of_nat j))" if j: "j < w" for j
  proof -
    have "?base + 4 * of_nat (q - w + j) = ?d + 4 * of_nat j" using room(1) by (simp add: of_nat_diff algebra_simps)
    moreover have "0 < q - w + j" "q - w + j \<le> q" using room(1) j by simp_all
    ultimately show ?thesis using cell [of "q - w + j"] C' [OF j] by (simp only:)
  qed
  moreover have "load32 m1 start = load32 m start" using out new by (intro same_outside_load32) auto
  then have "load32 m' start = moved old initial_esp offset (load32 m start)" using cell [of q] room(1) by simp
  moreover have "same_outside (unat start - 4 * q + 4) (unat start + 4) m m'"
  proof -
    have "same_outside (unat start - 4 * q + 4) (unat start + 4) m m1" using out by (rule same_outside_mono) (use new room in auto)
    moreover have "same_outside (unat start - 4 * q + 4) (unat start + 4) m1 m'"
      unfolding same_outside_def m'_def using base new by (auto intro!: update_down_frame [OF wf])
    ultimately show ?thesis by (rule same_outside_trans)
  qed
  ultimately show ?thesis
    using run by (intro exI [of _ m']) (simp add: move_stack_copy_def Let_def dst len m1_def offset_def)
qed

text \<open>A stack of two words, the first an address inside it.\<close>

theorem move_stack_copy_correct_witness:
  "\<exists>m'. move_stack_copy 5 0x1008 0x3000 16 0x1000 0x1004 (store32 (store32 (\<lambda>_. 0) 0x1000 0x1004) 0x1004 5)
       = Inr (0x2FF8, 0x2FFC, m')
     \<and> load32 m' 0x2FF8 = 0x2FFC \<and> load32 m' 0x2FFC = 5"
proof -
  let ?m = "store32 (store32 (\<lambda>_. 0) 0x1000 0x1004) 0x1004 5"
  have w: "load32 ?m 0x1000 = 0x1004" "load32 ?m 0x1004 = 5" by (simp_all add: mem_simps)
  have "\<exists>m'. move_stack_copy 5 0x1008 0x3000 (4 * of_nat 4) 0x1000 0x1004 ?m
        = Inr (0x3000 - 4 * of_nat 2, 0x1004 + (0x3000 - 0x1008), m')
      \<and> (\<forall>j < 2. load32 m' (0x3000 - 4 * of_nat 2 + 4 * of_nat j)
            = moved 0x1000 0x1008 (0x3000 - 0x1008) (load32 ?m (0x1000 + 4 * of_nat j)))
      \<and> load32 m' 0x3000 = moved 0x1000 0x1008 (0x3000 - 0x1008) (load32 ?m 0x3000)
      \<and> same_outside (unat (0x3000 :: u32) - 4 * 4 + 4) (unat (0x3000 :: u32) + 4) ?m m'"
    by (rule move_stack_copy_correct) simp_all
  then obtain m' where m': "move_stack_copy 5 0x1008 0x3000 16 0x1000 0x1004 ?m = Inr (0x2FF8, 0x2FFC, m')"
      and cell: "\<And>j. j < 2 \<Longrightarrow> load32 m' (0x2FF8 + 4 * of_nat j) = moved 0x1000 0x1008 0x1FF8 (load32 ?m (0x1000 + 4 * of_nat j))"
    by auto
  show ?thesis using m' cell [of 0] cell [of 1] w by (auto simp: moved_def)
qed

end
