(* ===== verification/Heap_Growth.thy ===== *)
theory Heap_Growth
  imports Paging_Setup
begin

text \<open>
  The heap of the kernel when it has no hole for a request: Alloc of \<^verbatim>\<open>kernel/Heap.cpp\<close> maps new pages
  behind its end, extends the last hole over them and serves the request from it. Combined with the
  state initialise_paging leaves, this is the growth of the kernel's own heap. The new end is on a page
  boundary only if the size was rounded; after that the pages Expand maps may no longer cover the heap.
\<close>

subsection \<open>Frames are allocated independently of the heap\<close>

lemma first_frame_from_kheap: "first_frame_from (s\<lparr>kheap := x\<rparr>) i = first_frame_from s i"
proof (induction s i rule: first_frame_from.induct)
  case (1 s i)
  then show ?case by (subst (1 2) first_frame_from.simps) (auto simp: frame_word_def split: option.split)
qed

lemma alloc_frame_kheap:
  assumes "alloc_frame page isKernel isWritable (s\<lparr>kheap := None\<rparr>) = Inr (s\<lparr>kheap := None, ram := m\<rparr>)"
  shows "alloc_frame page isKernel isWritable s = Inr (s\<lparr>ram := m\<rparr>)"
proof (cases "page_Frame (load32 (ram s) page) = 0")
  case False
  with assms have "ram (s\<lparr>kheap := None\<rparr>) = m" by (auto simp: alloc_frame_def dest: arg_cong [where f = ram])
  with False show ?thesis by (auto simp: alloc_frame_def)
next
  case True
  with assms obtain idx where idx: "first_frame s = Inr idx" "idx \<noteq> -1"
    by (cases "first_frame s") (auto simp: alloc_frame_def first_frame_def first_frame_from_kheap split: if_splits)
  let ?t = "\<lambda>s. update_page (with_Frame idx) page (update_page (with_flag User (\<not> isKernel)) page
    (update_page (with_flag ReadWrite isWritable) page (update_page (with_flag Present True) page (set_frame (idx * 0x1000) s))))"
  have "?t (s\<lparr>kheap := None\<rparr>) = s\<lparr>kheap := None, ram := m\<rparr>"
    using assms True idx by (simp add: alloc_frame_def first_frame_def first_frame_from_kheap Let_def)
  moreover have "ram (?t (s\<lparr>kheap := None\<rparr>)) = ram (?t s)"
    by (simp add: update_page_def set_frame_def set_frame_word_def frame_word_def Let_def)
  ultimately have "ram (?t s) = m" by simp
  moreover have "?t s = s\<lparr>ram := ram (?t s)\<rparr>" by (simp add: update_page_def set_frame_def set_frame_word_def Let_def)
  ultimately show ?thesis using True idx by (simp add: alloc_frame_def Let_def)
qed

text \<open>get_page looks at the number of the page only.\<close>

lemma get_page_inside:
  assumes "q < 1048576" and "r < 4096" and "dir_Table (ram s) dir (of_nat (q div 1024)) \<noteq> 0"
  shows "get_page heap_alloc (of_nat q * 0x1000 + of_nat r) mk dir s = Inr (entry_at (ram s) dir q, s)"
proof -
  have "unat (of_nat q * 0x1000 + of_nat r :: u32) = 4096 * q + r"
  proof -
    have "of_nat q * 0x1000 + of_nat r = (of_nat (4096 * q + r) :: u32)" by simp
    then show ?thesis using assms(1,2) by (simp only:) (intro unat_of_nat32, linarith)
  qed
  then have "(of_nat q * 0x1000 + of_nat r :: u32) div 0x1000 = of_nat q * 0x1000 div 0x1000"
    using assms(1,2) unat_page [of q] by (simp add: word_eq_unat unat_div)
  then have "get_page heap_alloc (of_nat q * 0x1000 + of_nat r) mk dir s = get_page heap_alloc (of_nat q * 0x1000) mk dir s"
    by (simp only: get_page_def)
  then show ?thesis using get_page_there [OF assms(1,3)] by simp
qed

subsection \<open>Expand\<close>

lemma grow_page:
  assumes g: "growable dir n s" and q: "q < 1048576" "dir_Table (ram s) dir (of_nat (q div 1024)) \<noteq> 0" "entry (ram s) dir q = 0"
    and n: "n < frame_limit s"
  obtains m where "alloc_frame (entry_at (ram s) dir q) isKernel isWritable s = Inr (s\<lparr>ram := m\<rparr>)"
    "growable dir (Suc n) (s\<lparr>ram := m\<rparr>)" "page_entry (entry m dir q) n isKernel isWritable"
    "\<And>r. r < 1048576 \<Longrightarrow> r \<noteq> q \<Longrightarrow> entry m dir r = entry (ram s) dir r"
    "\<And>i. i < 1024 \<Longrightarrow> dir_Table m dir (of_nat i) = dir_Table (ram s) dir (of_nat i)"
    "\<And>x. unat (placement_address s) \<le> unat x \<Longrightarrow> m x = ram s x"
proof -
  let ?s = "s\<lparr>kheap := None\<rparr>"
  have G: "paging_ok dir ?s" "kernel_directory s = dir" "\<forall>g < frame_limit s. frame_used s g \<longleftrightarrow> g < n"
    using g by (simp_all add: growable_def)
  have same: "frame_used (t\<lparr>kheap := x\<rparr>) f = frame_used t f" "frame_limit (t\<lparr>kheap := x\<rparr>) = frame_limit t" for t x f
    by (simp_all add: frame_used_def frame_word_def frame_limit_def)
  have "least_free ?s n" using G(3) n by (simp add: least_free_def same)
  moreover have "dir_Table (ram ?s) dir (of_nat (q div 1024)) \<noteq> 0" "page_Frame (entry (ram ?s) dir q) = 0" using q by simp_all
  ultimately obtain m where m: "alloc_frame (entry_at (ram s) dir q) isKernel isWritable ?s = Inr (?s\<lparr>ram := m\<rparr>)"
      "paging_ok dir (?s\<lparr>ram := m\<rparr>)" "page_entry (entry m dir q) n isKernel isWritable"
      "\<forall>r < 1048576. r \<noteq> q \<longrightarrow> entry m dir r = entry (ram s) dir r"
      "\<forall>g < frame_limit s. frame_used (?s\<lparr>ram := m\<rparr>) g \<longleftrightarrow> g = n \<or> frame_used s g"
      "\<forall>i < 1024. dir_Table m dir (of_nat i) = dir_Table (ram s) dir (of_nat i)"
      "\<forall>x. unat (placement_address s) \<le> unat x \<longrightarrow> m x = ram s x"
    using alloc_frame_page_entry [OF G(1) q(1), of n isKernel isWritable] by (auto simp: same)
  have "frame_used (s\<lparr>ram := m\<rparr>) g \<longleftrightarrow> g < Suc n" if "g < frame_limit s" for g
    using that m(5) G(3) by (auto simp: frame_used_def frame_word_def)
  moreover have "?s\<lparr>ram := m\<rparr> = s\<lparr>ram := m, kheap := None\<rparr>" by simp
  with m(2) have "paging_ok dir (s\<lparr>ram := m, kheap := None\<rparr>)" by (simp only:)
  ultimately have "growable dir (Suc n) (s\<lparr>ram := m\<rparr>)" using G(2) by (simp add: growable_def frame_limit_def)
  then show thesis using m alloc_frame_kheap [of _ _ _ s m] by (intro that [of m]) simp_all
qed

text \<open>The memory after the pages from \<open>a\<close> to \<open>b\<close> were mapped to the frames from \<open>n\<close> on.\<close>

definition grown :: "Heap \<Rightarrow> u32 \<Rightarrow> nat \<Rightarrow> nat \<Rightarrow> nat \<Rightarrow> kernel \<Rightarrow> memory \<Rightarrow> bool" where
  "grown h dir a b n s m \<longleftrightarrow> growable dir (n + (b - a)) (s\<lparr>ram := m\<rparr>)
     \<and> (\<forall>q. a \<le> q \<and> q < b \<longrightarrow> page_entry (entry m dir q) (n + (q - a)) (m_supervisor h) (\<not> m_readonly h))
     \<and> (\<forall>q < 1048576. q < a \<or> b \<le> q \<longrightarrow> entry m dir q = entry (ram s) dir q)
     \<and> (\<forall>x. unat (placement_address s) \<le> unat x \<longrightarrow> m x = ram s x)"

lemma grown_first:
  assumes a: "a < b" "a < 1048576" and e: "page_entry (entry m dir a) n (m_supervisor h) (\<not> m_readonly h)"
    and other: "\<And>q. q < 1048576 \<Longrightarrow> q \<noteq> a \<Longrightarrow> entry m dir q = entry (ram s) dir q"
    and high: "\<And>x. unat (placement_address s) \<le> unat x \<Longrightarrow> m x = ram s x"
    and rest: "grown h dir (Suc a) b (Suc n) (s\<lparr>ram := m\<rparr>) m'"
  shows "grown h dir a b n s m'"
proof -
  have G: "growable dir (Suc n + (b - Suc a)) (s\<lparr>ram := m'\<rparr>)"
      "\<And>q. Suc a \<le> q \<Longrightarrow> q < b \<Longrightarrow> page_entry (entry m' dir q) (Suc n + (q - Suc a)) (m_supervisor h) (\<not> m_readonly h)"
      "\<And>q. q < 1048576 \<Longrightarrow> q < Suc a \<or> b \<le> q \<Longrightarrow> entry m' dir q = entry m dir q"
      "\<And>x. unat (placement_address s) \<le> unat x \<Longrightarrow> m' x = m x"
    using rest by (auto simp: grown_def)
  have "Suc n + (b - Suc a) = n + (b - a)" using a(1) by simp
  with G(1) have "growable dir (n + (b - a)) (s\<lparr>ram := m'\<rparr>)" by (simp only:)
  moreover have "page_entry (entry m' dir q) (n + (q - a)) (m_supervisor h) (\<not> m_readonly h)" if "a \<le> q" "q < b" for q
  proof (cases "q = a")
    case False
    with that have "Suc n + (q - Suc a) = n + (q - a)" "Suc a \<le> q" by linarith+
    with G(2) [OF _ that(2)] show ?thesis by metis
  qed (use G(3) [OF a(2)] e in simp)
  ultimately show ?thesis using G(3,4) other high a(1) by (auto simp: grown_def)
qed

lemma expand_loop_maps:
  assumes b: "b < 1048576" and r: "r < 4096" and N: "unat N + 4096 \<le> 4294967295"
  shows "growable dir n s \<Longrightarrow> m_startAddress h + i = of_nat a * 0x1000 + of_nat r \<Longrightarrow> a \<le> b \<Longrightarrow> b - a < fuel \<Longrightarrow>
    unat N \<le> unat i + 4096 * (b - a) \<Longrightarrow> (a < b \<Longrightarrow> unat i + 4096 * (b - a) < unat N + 4096) \<Longrightarrow>
    unmapped (ram s) dir a b \<Longrightarrow> n + (b - a) \<le> frame_limit s \<Longrightarrow> kheap s = Some h \<Longrightarrow>
    \<exists>m. expand_loop fuel heap_alloc N i s = Inr (s\<lparr>ram := m\<rparr>) \<and> grown h dir a b n s m"
proof (induction fuel arbitrary: a n i s)
  case (Suc fuel)
  show ?case
  proof (cases "a < b")
    case False
    then have "\<not> i < N" using Suc.prems(5) by (simp add: word_less_unat)
    then show ?thesis using Suc.prems False by (intro exI [of _ "ram s"]) (auto simp: grown_def)
  next
    case True
    have u: "dir_Table (ram s) dir (of_nat (a div 1024)) \<noteq> 0" "entry (ram s) dir a = 0"
      using Suc.prems(7) True by (simp_all add: unmapped_def)
    have a: "a < 1048576" "n < frame_limit s" using True b Suc.prems(8) by simp_all
    from grow_page [OF Suc.prems(1) a(1) u a(2)] obtain m where
      m: "alloc_frame (entry_at (ram s) dir a) (m_supervisor h) (\<not> m_readonly h) s = Inr (s\<lparr>ram := m\<rparr>)"
        "growable dir (Suc n) (s\<lparr>ram := m\<rparr>)" "page_entry (entry m dir a) n (m_supervisor h) (\<not> m_readonly h)"
        "\<And>q. q < 1048576 \<Longrightarrow> q \<noteq> a \<Longrightarrow> entry m dir q = entry (ram s) dir q"
        "\<And>j. j < 1024 \<Longrightarrow> dir_Table m dir (of_nat j) = dir_Table (ram s) dir (of_nat j)"
        "\<And>x. unat (placement_address s) \<le> unat x \<Longrightarrow> m x = ram s x"
      by blast
    have iN: "unat i + 4096 * (b - a) < unat N + 4096" using Suc.prems(6) True .
    then have less: "i < N" using True by (simp add: word_less_unat)
    have ui: "unat (i + 0x1000) = unat i + 4096" using iN N True by (subst unat_add_no_wrap) auto
    let ?s = "s\<lparr>ram := m\<rparr>"
    have "\<exists>m'. expand_loop fuel heap_alloc N (i + 0x1000) ?s = Inr (?s\<lparr>ram := m'\<rparr>) \<and> grown h dir (Suc a) b (Suc n) ?s m'"
    proof (rule Suc.IH [OF m(2)])
      have "m_startAddress h + (i + 0x1000) = (m_startAddress h + i) + 0x1000" by simp
      then show "m_startAddress h + (i + 0x1000) = of_nat (Suc a) * 0x1000 + of_nat r"
        unfolding Suc.prems(2) by (simp add: algebra_simps)
      show "Suc a \<le> b" "b - Suc a < fuel" "Suc n + (b - Suc a) \<le> frame_limit ?s" "kheap ?s = Some h"
        using True Suc.prems(4,8,9) by (simp_all add: frame_limit_def)
      show "unat N \<le> unat (i + 0x1000) + 4096 * (b - Suc a)" "unat (i + 0x1000) + 4096 * (b - Suc a) < unat N + 4096"
        unfolding ui using Suc.prems(5) iN True by linarith+
      have "q div 1024 < 1024" if "q < b" for q using that b by linarith
      then show "unmapped (ram ?s) dir (Suc a) b"
        using Suc.prems(7) m(4,5) b by (auto simp: unmapped_def)
    qed
    then obtain m' where m': "expand_loop fuel heap_alloc N (i + 0x1000) ?s = Inr (s\<lparr>ram := m'\<rparr>)"
        "grown h dir (Suc a) b (Suc n) ?s m'" by auto
    have "get_page heap_alloc (m_startAddress h + i) True (kernel_directory s) s = Inr (entry_at (ram s) dir a, s)"
      using get_page_inside [OF a(1) r u(1)] Suc.prems(1,2) by (simp add: growable_def)
    then have "expand_loop (Suc fuel) heap_alloc N i s = Inr (s\<lparr>ram := m'\<rparr>)"
      using less m(1) m'(1) Suc.prems(9) by simp
    then show ?thesis using grown_first [OF True a(1) m(3,4,6) m'(2)] by blast
  qed
qed simp

text \<open>\<open>d\<close> is the number of bytes the heap grows by.\<close>

definition expansion :: "Heap \<Rightarrow> u32 \<Rightarrow> nat" where
  "expansion h new_size = unat (expand_round new_size - heap_length h)"

lemma expand_round_even: "even new_size \<Longrightarrow> expand_round new_size = new_size"
  by (simp add: expand_round_def int_of_bool_def even_iff_low_bit)

lemma expansion_length:
  assumes "unat (heap_length h) + expansion h new_size \<le> 4294967295"
  shows "unat (expand_round new_size) = unat (heap_length h) + expansion h new_size"
    and "m_startAddress h + expand_round new_size = m_endAddress h + of_nat (expansion h new_size)"
    and "m_startAddress h + heap_length h = m_endAddress h"
proof -
  have "unat (heap_length h + (expand_round new_size - heap_length h)) = unat (heap_length h) + expansion h new_size"
    using assms unfolding expansion_def by (subst unat_add_no_wrap) auto
  then show "unat (expand_round new_size) = unat (heap_length h) + expansion h new_size" by simp
  show "m_startAddress h + expand_round new_size = m_endAddress h + of_nat (expansion h new_size)"
    by (simp add: expansion_def heap_length_def)
qed (simp add: heap_length_def)

lemma Expand_maps:
  assumes heap: "kheap s = Some h" and g: "growable dir n s" and E: "m_endAddress h = of_nat a * 0x1000"
    and d: "unat (heap_length h) + expansion h new_size + 4096 \<le> 4294967295"
    and b: "b = a + (expansion h new_size + 4095) div 4096" "b < 1048576" "b - a < fuel" "n + (b - a) \<le> frame_limit s"
    and un: "unmapped (ram s) dir a b"
  shows "\<exists>m. Expand fuel heap_alloc new_size s
      = Inr (s\<lparr>ram := m, kheap := Some (h\<lparr>m_endAddress := m_endAddress h + of_nat (expansion h new_size)\<rparr>)\<rparr>)
    \<and> grown h dir a b n s m"
proof -
  let ?d = "expansion h new_size"
  have d': "unat (heap_length h) + ?d \<le> 4294967295" using d by simp
  note N = expansion_length [OF d']
  have addr: "m_startAddress h + heap_length h = of_nat a * 0x1000 + of_nat 0" using N(3) E by simp
  have up: "a \<le> b" "?d \<le> 4096 * (b - a)" "4096 * (b - a) < ?d + 4096" using b(1) by simp_all
  have "\<exists>m. expand_loop fuel heap_alloc (expand_round new_size) (heap_length h) s = Inr (s\<lparr>ram := m\<rparr>) \<and> grown h dir a b n s m"
    by (rule expand_loop_maps [OF b(2) _ _ g addr up(1) b(3) _ _ un b(4) heap]) (use d up N(1) in simp_all)
  then show ?thesis using N(2) heap by (auto simp: Expand_def Let_def)
qed

text \<open>Every address on the new pages is translated.\<close>

lemma grown_translated:
  assumes g: "grown h dir a b n s m" and x: "4096 * a \<le> unat x" "unat x < 4096 * b"
  shows "translate m (dir + 4096) x = Some (of_nat (n + (unat x div 4096 - a)) * 0x1000 + x mod 0x1000)"
proof -
  have "paging_ok dir (s\<lparr>ram := m, kheap := None\<rparr>)" using g by (simp add: grown_def growable_def)
  from paging_okD(6) [OF this] have t: "tables_ok m dir (unat dir + 8196) (unat (placement_address s))" by simp
  have "a \<le> unat x div 4096" "unat x div 4096 < b" using x by (simp_all add: less_eq_div_iff_mult_less_eq div_less_iff_less_mult)
  with g have "page_entry (entry m dir (unat x div 4096)) (n + (unat x div 4096 - a)) (m_supervisor h) (\<not> m_readonly h)"
    by (simp add: grown_def)
  then show ?thesis by (simp add: translate_entry [OF t] page_entry_def Let_def)
qed

text \<open>The other pages are translated as before.\<close>

lemma grown_kept:
  assumes g: "growable dir n s" and m: "grown h dir a b n s m" and x: "unat x < 4096 * a"
  shows "translate m (dir + 4096) x = translate (ram s) (dir + 4096) x"
proof -
  have "paging_ok dir (s\<lparr>ram := m, kheap := None\<rparr>)" "paging_ok dir (s\<lparr>kheap := None\<rparr>)"
    using g m by (simp_all add: grown_def growable_def)
  from paging_okD(6) [OF this(1)] paging_okD(6) [OF this(2)]
  have t: "tables_ok m dir (unat dir + 8196) (unat (placement_address s))" "tables_ok (ram s) dir (unat dir + 8196) (unat (placement_address s))"
    by simp_all
  have "unat x div 4096 < a" "unat x div 4096 < 1048576" using x unat_lt_2p32 [of x] by (simp_all add: div_less_iff_less_mult)
  with m have "entry m dir (unat x div 4096) = entry (ram s) dir (unat x div 4096)" by (simp add: grown_def)
  then show ?thesis by (simp add: translate_entry [OF t(1)] translate_entry [OF t(2)] Let_def)
qed

subsection \<open>Alloc with an expansion\<close>

lemma no_hole_fits:
  assumes inv: "heap_inv h m lo bs" and small: "\<And>k. (k, True) \<in> set bs \<Longrightarrow> k < n + 20" and n: "n + 20 \<le> 4294967295"
  shows "FindSmallestHole h m (of_nat n + 20) False = -1"
proof (rule ccontr)
  define i where "i = FindSmallestHole h m (of_nat n + 20) False"
  assume "FindSmallestHole h m (of_nat n + 20) False \<noteq> -1"
  note f = FindSmallestHole_found [OF i_def [symmetric] this [folded i_def]]
  obtain bs1 k bs2 where bs: "bs = bs1 @ (k, True) # bs2"
      and P: "GetItemAtIndex (m_index h) m i = of_nat (lo + extent bs1)"
      and N: "header_size m (of_nat (lo + extent bs1)) = of_nat k"
    using hole_in_index [OF inv f(1)] by blast
  have le: "k \<le> 4294967295" using heap_invD(7) [OF inv] bs unat_le_max32 [of "m_endAddress h"] by simp
  have "hole_fits m (of_nat n + 20) False (of_nat (lo + extent bs1))"
    using f(2) unfolding ol.get_items [OF f(1), symmetric] P .
  from hole_fits_size [OF this n N le] small [of k] bs show False by simp
qed

lemma heap_inv_above:
  assumes inv: "heap_inv h m lo bs" and P: "P \<le> ol_lo (m_index h)" and same: "\<And>x. P \<le> unat x \<Longrightarrow> m' x = m x"
  shows "heap_inv h m' lo bs"
proof -
  note inv' = heap_invD [OF inv]
  have fr: "same_outside 0 P m m'" using same by (simp add: same_outside_def)
  have le: "P \<le> lo" using P inv'(2,3) by (simp add: ol_wf_def arr_wf_def handle_def ol_lo_def ol_hi_def)
  have "ol_items (m_index h) m' = ol_items (m_index h) m" by (rule ol.items_frame [OF inv'(2) fr]) (use P in simp)
  moreover have "blocks m' (unat (m_endAddress h)) lo bs (unat (m_endAddress h))"
    by (rule blocks_below_frame [OF inv'(1) unat_le_max32 fr le])
  ultimately show ?thesis using inv' by (simp add: heap_inv_def)
qed

text \<open>Writes behind the placement address do not change the address space.\<close>

lemma translate_same:
  assumes ok: "paging_ok dir s" and same: "\<And>x. unat x < unat (placement_address s) \<Longrightarrow> m x = ram s x"
  shows "translate m (dir + 4096) x = translate (ram s) (dir + 4096) x"
proof -
  note o = paging_okD [OF ok]
  show ?thesis by (rule translate_within(1) [OF o(6) unat_le_max32 o(3,5) same])
qed

text \<open>
  What an expansion for a request of \<open>n\<close> bytes needs: the heap ends on a page boundary, behind it lie
  pages with a table and without a frame, there are frames left, the first \<open>f\<close> ones being in use, and the
  heap lies behind the memory of the placement allocator.
\<close>

definition can_grow :: "u32 \<Rightarrow> nat \<Rightarrow> nat \<Rightarrow> nat \<Rightarrow> Heap \<Rightarrow> nat \<Rightarrow> kernel \<Rightarrow> bool" where
  "can_grow dir f a b h d s \<longleftrightarrow> growable dir f s \<and> m_endAddress h = of_nat a * 0x1000
     \<and> b = a + (d + 4095) div 4096 \<and> b < 1048576 \<and> f + (b - a) \<le> frame_limit s \<and> unmapped (ram s) dir a b
     \<and> unat (heap_length h) + d + 4096 \<le> 4294967295 \<and> unat (placement_address s) \<le> ol_lo (m_index h)"

lemma Alloc_expands:
  assumes heap: "kheap s = Some h" and none: "FindSmallestHole h (ram s) (n + 20) align = -1"
    and ex: "Expand fuel (Alloc fuel) (heap_length h + (n + 20)) s = Inr (s\<lparr>ram := m, kheap := Some h1\<rparr>)"
    and grow: "grow_last h1 m (m_endAddress h) (heap_length h) (heap_length h1) = (h2, m2)"
  shows "Alloc (Suc fuel) n align s = Alloc fuel n align (s\<lparr>kheap := Some h2, ram := m2\<rparr>)"
  using assms by (simp add: heap_sizes Let_def add.assoc)

text \<open>The heap and the memory after the expansion, before the request is served.\<close>

lemma grown_heap:
  assumes heap: "kheap s = Some h" and inv: "heap_inv h (ram s) lo (bs @ [(k, True)])"
    and small: "\<forall>j. (j, True) \<in> set (bs @ [(k, True)]) \<longrightarrow> j < n + 20"
    and grow: "can_grow dir f a b h d s" and d: "d = expansion h (heap_length h + (of_nat n + 20))"
    and enough: "n + 20 \<le> d" and fuel: "b - a < fuel"
  obtains h2 m1 m2 where "Alloc (Suc fuel) (of_nat n) False s = Alloc fuel (of_nat n) False (s\<lparr>kheap := Some h2, ram := m2\<rparr>)"
    "heap_inv h2 m2 lo (bs @ [(k + d, True)])" "m_index h2 = m_index h" "m_startAddress h2 = m_startAddress h"
    "m_endAddress h2 = m_endAddress h + of_nat d" "grown h dir a b f s m1"
    "\<forall>x. unat x < lo + extent bs \<longrightarrow> m2 x = m1 x"
proof -
  let ?N = "heap_length h + (of_nat n + 20)"
  have G: "growable dir f s" "m_endAddress h = of_nat a * 0x1000" "b = a + (d + 4095) div 4096" "b < 1048576"
      "f + (b - a) \<le> frame_limit s" "unmapped (ram s) dir a b" "unat (heap_length h) + d + 4096 \<le> 4294967295"
      "unat (placement_address s) \<le> ol_lo (m_index h)"
    using grow unfolding can_grow_def by blast+
  from Expand_maps [OF heap G(1,2) G(7,3) [unfolded d] G(4) fuel G(5,6), of "Alloc fuel"] obtain m1 where
    ex: "Expand fuel (Alloc fuel) ?N s = Inr (s\<lparr>ram := m1, kheap := Some (h\<lparr>m_endAddress := m_endAddress h + of_nat d\<rparr>)\<rparr>)"
      "grown h dir a b f s m1"
    unfolding d by blast
  let ?h1 = "h\<lparr>m_endAddress := m_endAddress h + of_nat d\<rparr>"
  have high: "m1 x = ram s x" if "unat (placement_address s) \<le> unat x" for x using ex(2) that by (simp add: grown_def)
  have inv1: "heap_inv h m1 lo (bs @ [(k, True)])" by (rule heap_inv_above [OF inv G(8) high])
  have uE: "unat (m_endAddress h) = 4096 * a" unfolding G(2) using G(3,4) by (intro unat_page) simp
  have bound: "unat (m_endAddress h) + d \<le> 4294967295" unfolding uE using G(3,4) by linarith
  have len: "d = unat (heap_length ?h1 - heap_length h)"
    using bound by (simp add: heap_length_def unat_of_nat32)
  obtain h2 m2 where gl: "grow_last ?h1 m1 (m_endAddress h) (heap_length h) (heap_length ?h1) = (h2, m2)" by fastforce
  then have "grow_last (h\<lparr>m_endAddress := of_nat (unat (m_endAddress h) + d)\<rparr>) m1 (m_endAddress h) (heap_length h)
      (heap_length ?h1) = (h2, m2)" by simp
  note L = grow_last_extends_last_hole [OF inv1 len bound this]
  have n: "n + 20 \<le> 4294967295" using enough bound by linarith
  show thesis
  proof (rule that [of m2 h2 m1])
    show "Alloc (Suc fuel) (of_nat n) False s = Alloc fuel (of_nat n) False (s\<lparr>kheap := Some h2, ram := m2\<rparr>)"
      using small by (intro Alloc_expands [OF heap no_hole_fits [OF inv _ n] ex(1) gl]) blast
    show "\<forall>x. unat x < lo + extent bs \<longrightarrow> m2 x = m1 x" using same_outside_byte [OF L(2)] by simp
    show "m_endAddress h2 = m_endAddress h + of_nat d" using L(5) by simp
  qed (rule L(1,3,4) ex(2))+
qed

lemma Alloc_grows:
  assumes heap: "kheap s = Some h" and inv: "heap_inv h (ram s) lo (bs @ [(k, True)])"
    and small: "\<forall>j. (j, True) \<in> set (bs @ [(k, True)]) \<longrightarrow> j < n + 20"
    and grow: "can_grow dir f a b h d s" and d: "d = expansion h (heap_length h + (of_nat n + 20))"
    and enough: "n + 20 \<le> d" and fuel: "b - a < fuel"
  shows "\<exists>h' m m1. Alloc (Suc fuel) (of_nat n) False s = Inr (of_nat (lo + extent bs + 12), s\<lparr>kheap := Some h', ram := m\<rparr>)
    \<and> heap_inv h' m lo (bs @ carve (n + 20) (k + d)) \<and> m_endAddress h' = m_endAddress h + of_nat d
    \<and> index_place h' = index_place h \<and> grown h dir a b f s m1
    \<and> (\<forall>x. unat x < ol_lo (m_index h) \<or> ol_hi (m_index h) \<le> unat x \<and> unat x < lo + extent bs \<longrightarrow> m x = m1 x)"
proof -
  obtain h2 m1 m2 where g: "Alloc (Suc fuel) (of_nat n) False s = Alloc fuel (of_nat n) False (s\<lparr>kheap := Some h2, ram := m2\<rparr>)"
      "heap_inv h2 m2 lo (bs @ [(k + d, True)])" "m_index h2 = m_index h" "m_startAddress h2 = m_startAddress h"
      "m_endAddress h2 = m_endAddress h + of_nat d" "grown h dir a b f s m1"
      "\<forall>x. unat x < lo + extent bs \<longrightarrow> m2 x = m1 x"
    by (rule grown_heap [OF heap inv small grow d enough fuel])
  let ?s = "s\<lparr>kheap := Some h2, ram := m2\<rparr>"
  obtain fuel' where fuel': "fuel = Suc fuel'" using fuel by (cases fuel) auto
  have inv2: "heap_inv h2 (ram ?s) lo (bs @ [(k + d, True)])" "kheap ?s = Some h2" using g(2) by simp_all
  have last: "(k + d, True) \<in> set (bs @ [(k + d, True)])" "n + 20 \<le> k + d" using enough by simp_all
  from Alloc_spec [OF inv2(2,1) last, of fuel'] obtain p s' h' bs1 j bs2 where A:
      "Alloc (Suc fuel') (of_nat n) False ?s = Inr (p, s')" "bs @ [(k + d, True)] = bs1 @ (j, True) # bs2" "n + 20 \<le> j"
      "p = of_nat (lo + extent bs1 + 12)" "kheap s' = Some h'" "heap_inv h' (ram s') lo (bs1 @ carve (n + 20) j @ bs2)"
      "\<forall>x. (unat x < ol_lo (m_index h2) \<or> ol_hi (m_index h2) \<le> unat x)
        \<and> (unat x < lo + extent bs1 \<or> lo + extent bs1 + j \<le> unat x) \<longrightarrow> ram s' x = ram ?s x"
    by (elim exE conjE) (rule that)
  have "bs2 = []"
  proof (cases bs2 rule: rev_cases)
    case (snoc ys y)
    with A(2) have "bs = bs1 @ (j, True) # ys" by simp
    then have "(j, True) \<in> set (bs @ [(k, True)])" by simp
    with small A(3) show ?thesis by (meson not_less)
  qed
  with A(2) have pos: "bs1 = bs" "j = k + d" "bs2 = []" by simp_all
  have st: "s' = s\<lparr>kheap := Some h', ram := ram s'\<rparr>" and ix: "index_place h' = index_place h"
    using Alloc_state [OF inv2(2) large_hole_found [OF inv2(1) last] A(1)] Alloc_index [OF inv2(2) large_hole_found [OF inv2(1) last] A(1,5)]
      A(5) g(3,4) by (simp_all add: index_place_def)
  have inv': "heap_inv h' (ram s') lo (bs @ carve (n + 20) (k + d))" using A(6) by (simp add: pos)
  have "extent (carve (n + 20) (k + d)) = k + d" using enough by (simp add: carve_def)
  then have "unat (m_endAddress h') = unat (m_endAddress h2)" using heap_invD(7) [OF inv'] heap_invD(7) [OF g(2)] by simp
  then have e: "m_endAddress h' = m_endAddress h + of_nat d" unfolding g(5) [symmetric] by (simp add: word_eq_unat)
  have ord: "ol_lo (m_index h) \<le> ol_hi (m_index h)" "ol_hi (m_index h) \<le> lo"
    using heap_invD(3) [OF inv] by (simp_all add: ol_lo_def ol_hi_def)
  have "ram s' x = m1 x" if "unat x < ol_lo (m_index h) \<or> ol_hi (m_index h) \<le> unat x \<and> unat x < lo + extent bs" for x
  proof -
    have "unat x < lo + extent bs" using that ord by linarith
    then show ?thesis using A(7) g(3,7) that pos(1) by auto
  qed
  moreover have "Alloc (Suc fuel) (of_nat n) False s = Inr (of_nat (lo + extent bs + 12), s\<lparr>kheap := Some h', ram := ram s'\<rparr>)"
    using g(1) A(1,4) st pos(1) unfolding fuel' by (simp only:)
  ultimately show ?thesis using inv' e ix g(6) by blast
qed

text \<open>The pages \<open>a\<close>, \<dots>, \<open>b - 1\<close> show the frames from \<open>f\<close> on.\<close>

definition pages_on_frames :: "memory \<Rightarrow> u32 \<Rightarrow> nat \<Rightarrow> nat \<Rightarrow> nat \<Rightarrow> bool" where
  "pages_on_frames m dir a b f \<longleftrightarrow> (\<forall>x. 4096 * a \<le> unat x \<and> unat x < 4096 * b \<longrightarrow>
     translate m (dir + 4096) x = Some (of_nat (f + (unat x div 4096 - a)) * 0x1000 + x mod 0x1000))"

lemma grown_heap_translate:
  assumes grow: "can_grow dir f a b h d s" and m: "grown h dir a b f s m1"
    and low: "\<And>y. unat y < unat (placement_address s) \<Longrightarrow> m y = m1 y"
  shows "pages_on_frames m dir a b f" and "q < 1048576 \<Longrightarrow> entry m dir q = entry m1 dir q"
    and "unat x < 4096 * a \<Longrightarrow> translate m (dir + 4096) x = translate (ram s) (dir + 4096) x"
proof -
  have ok: "paging_ok dir (s\<lparr>ram := m1, kheap := None\<rparr>)" and g: "growable dir f s"
    using m grow by (simp_all add: grown_def can_grow_def growable_def)
  then have T: "translate m (dir + 4096) x = translate m1 (dir + 4096) x" for x
    using translate_same [of dir "s\<lparr>ram := m1, kheap := None\<rparr>" m x] low by simp
  show "pages_on_frames m dir a b f" unfolding pages_on_frames_def T using grown_translated [OF m] by metis
  show "entry m dir q = entry m1 dir q" if "q < 1048576" using entry_below [OF ok that, of m] low by simp
  show "translate m (dir + 4096) x = translate (ram s) (dir + 4096) x" if "unat x < 4096 * a"
    unfolding T by (rule grown_kept [OF g m that])
qed

text \<open>
  C13: how a heap grows whose last block is a hole, which ends on a page boundary, and behind whose end the
  pages have page tables and no frames, with as many free frames (\<open>can_grow\<close>): a request without
  alignment for which no hole is large enough, but the expansion is, makes Alloc map the pages behind the
  end to the free frames, extend the last hole over them and serve the request from that hole. The
  invariant holds for the larger heap, every address of the new pages is translated and the others as
  before, and the memory of the blocks in front of the last hole is kept.
\<close>

theorem Alloc_grows_heap:
  assumes heap: "kheap s = Some h" and inv: "heap_inv h (ram s) lo (bs @ [(k, True)])"
    and small: "\<forall>j. (j, True) \<in> set (bs @ [(k, True)]) \<longrightarrow> j < n + 20"
    and grow: "can_grow dir f a b h d s" and d: "d = expansion h (heap_length h + (of_nat n + 20))"
    and enough: "n + 20 \<le> d" and fuel: "b - a < fuel"
  shows "\<exists>s' h'. Alloc (Suc fuel) (of_nat n) False s = Inr (of_nat (lo + extent bs + 12), s') \<and> kheap s' = Some h'
    \<and> heap_inv h' (ram s') lo (bs @ [(n + 20, False), (k + d - (n + 20), True)])
    \<and> m_endAddress h' = m_endAddress h + of_nat d
    \<and> pages_on_frames (ram s') dir a b f
    \<and> (\<forall>x. unat x < 4096 * a \<longrightarrow> translate (ram s') (dir + 4096) x = translate (ram s) (dir + 4096) x)
    \<and> (\<forall>x. ol_hi (m_index h) \<le> unat x \<and> unat x < lo + extent bs \<longrightarrow> ram s' x = ram s x)"
proof -
  obtain h' m m1 where A: "Alloc (Suc fuel) (of_nat n) False s = Inr (of_nat (lo + extent bs + 12), s\<lparr>kheap := Some h', ram := m\<rparr>)"
      "heap_inv h' m lo (bs @ carve (n + 20) (k + d))" "m_endAddress h' = m_endAddress h + of_nat d" "grown h dir a b f s m1"
      "\<forall>x. unat x < ol_lo (m_index h) \<or> ol_hi (m_index h) \<le> unat x \<and> unat x < lo + extent bs \<longrightarrow> m x = m1 x"
    using Alloc_grows [OF assms] by (elim exE conjE) (rule that)
  note T = grown_heap_translate [OF grow A(4)]
  have "20 \<le> k" using heap_invD(1) [OF inv] by (auto simp: blocks_append)
  then have "carve (n + 20) (k + d) = [(n + 20, False), (k + d - (n + 20), True)]" using enough by (simp add: carve_def)
  moreover have low: "m y = m1 y" if "unat y < unat (placement_address s)" for y
    using that grow A(5) by (simp add: can_grow_def)
  moreover have "m x = ram s x" if "ol_hi (m_index h) \<le> unat x" "unat x < lo + extent bs" for x
  proof -
    have "unat (placement_address s) \<le> unat x" using that(1) grow by (simp add: can_grow_def ol_lo_def ol_hi_def)
    then show ?thesis using A(4,5) that by (simp add: grown_def)
  qed
  ultimately show ?thesis using A(1-3) T(1,3) [of m]
    by (intro exI [of _ "s\<lparr>kheap := Some h', ram := m\<rparr>"] exI [of _ h']) simp
qed

subsection \<open>The heap of the kernel grows\<close>

lemma expansion_even:
  assumes "even (heap_length h)" and "even n" and "n + 20 \<le> 4294967295"
  shows "expansion h (heap_length h + (of_nat n + 20)) = n + 20"
proof -
  have "even (of_nat (n + 20) :: u32)" using assms(2,3) by (subst even_of_nat32) simp_all
  with assms(1) have "expand_round (heap_length h + of_nat (n + 20)) = heap_length h + of_nat (n + 20)"
    by (intro expand_round_even) simp
  moreover have "unat (of_nat (n + 20) :: u32) = n + 20" using assms(3) by (rule unat_of_nat_le)
  ultimately show ?thesis by (simp add: expansion_def add.commute)
qed

text \<open>The heap of the kernel right after initialise_paging can grow to the end of its page table.\<close>

lemma booted_can_grow:
  assumes boot: "boot_memory s" "4096 < fuel" and P: "unat (placement_address s) \<le> 0xB00000"
    and n: "even n" "n + 20 \<le> 0x300000"
  obtains s1 h j where "initialise_paging fuel junk s = Inr s1" "kheap s1 = Some h" "heap_inv h (ram s1) 0xC0080000 boot_blocks"
    "m_endAddress h = 0xC0100000" "m_startAddress h = 0xCFFFF000"
    "can_grow (kernel_directory s1) (j + 256) 0xC0100 (0xC0100 + (n + 20 + 4095) div 4096) h (n + 20) s1"
    "expansion h (heap_length h + (of_nat n + 20)) = n + 20" "frame_limit s1 = 4096" "j \<le> 0xB10"
    "unmapped (ram s1) (kernel_directory s1) 0xC0100 0xC0400"
    "\<forall>x. 0xC0000000 \<le> unat x \<and> unat x < 0xC0100000 \<longrightarrow> translate (ram s1) (kernel_directory s1 + 4096) x \<noteq> None"
proof -
  obtain s1 h j where r: "initialise_paging fuel junk s = Inr s1" "kheap s1 = Some h" "heap_inv h (ram s1) 0xC0080000 boot_blocks"
      "\<forall>x. 0xC0000000 \<le> unat x \<and> unat x < 0xC0100000 \<longrightarrow>
         translate (ram s1) (kernel_directory s1 + 4096) x = Some (x - 0xC0000000 + of_nat (4096 * j))"
      "index_place h = (0xC0000000, 0x20000, 0xCFFFF000)" "growable (kernel_directory s1) (j + 256) s1" "frame_limit s1 = 4096"
      "unmapped (ram s1) (kernel_directory s1) 0xC0100 0xC0400" "unat (placement_address s1) \<le> 0xC0000000"
      "4096 * j \<le> unat (placement_address s) + 0x10000"
    using initialise_paging_spec [OF boot, of junk] by (elim exE conjE) (rule that; assumption)
  have "unat (m_endAddress h) = unat (0xC0100000 :: u32)" using heap_invD(7) [OF r(3)] by (simp add: boot_blocks_def)
  then have e: "m_endAddress h = 0xC0100000" by (simp only: word_eq_unat)
  have st: "m_startAddress h = 0xCFFFF000" "ol_lo (m_index h) = 0xC0000000" using r(5) by (simp_all add: index_place_def ol_lo_def)
  have len: "heap_length h = 0xF0101000" by (simp add: heap_length_def e st)
  have j: "j \<le> 0xB10" using r(10) P by simp
  have ex: "expansion h (heap_length h + (of_nat n + 20)) = n + 20" by (rule expansion_even) (use n len in simp_all)
  show thesis
  proof (rule that [of s1 h j])
    have "(n + 20 + 4095) div 4096 \<le> 768" using n(2) by linarith
    then show "can_grow (kernel_directory s1) (j + 256) 0xC0100 (0xC0100 + (n + 20 + 4095) div 4096) h (n + 20) s1"
      using r(6-9) j e n(2) len st by (simp add: can_grow_def unmapped_def)
    show "\<forall>x. 0xC0000000 \<le> unat x \<and> unat x < 0xC0100000 \<longrightarrow> translate (ram s1) (kernel_directory s1 + 4096) x \<noteq> None"
      using r(4) by simp
  qed (rule r(1-3,7,8) e st(1) ex j)+
qed

text \<open>A kernel in blank memory, for the witnesses.\<close>

definition demo_kernel :: kernel where
  "demo_kernel = empty_bitmap_kernel (\<lambda>_. 0)\<lparr>placement_address := 0x200000\<rparr>"

lemma demo_kernel: "boot_memory demo_kernel" "unat (placement_address demo_kernel) \<le> 0xB00000"
  by (simp_all add: boot_memory_def demo_kernel_def empty_bitmap_kernel_def)

theorem Alloc_grows_heap_witness:
  "\<exists>s1 s2 j. initialise_paging 5000 demo_junk demo_kernel = Inr s1 \<and> Alloc 5000 0x80000 False s1 = Inr (0xC0083018, s2)
     \<and> pages_on_frames (ram s2) (kernel_directory s1) 0xC0100 0xC0181 j"
proof -
  have n: "even (0x80000 :: nat)" "0x80000 + 20 \<le> (0x300000 :: nat)" "(4096 :: nat) < 5000" "0xC0181 - 0xC0100 < (4999 :: nat)" by simp_all
  obtain s1 h j where r: "initialise_paging 5000 demo_junk demo_kernel = Inr s1" "kheap s1 = Some h"
      "heap_inv h (ram s1) 0xC0080000 boot_blocks"
      "can_grow (kernel_directory s1) (j + 256) 0xC0100 (0xC0100 + (0x80000 + 20 + 4095) div 4096) h (0x80000 + 20) s1"
      "expansion h (heap_length h + (of_nat 0x80000 + 20)) = 0x80000 + 20"
    by (rule booted_can_grow [OF demo_kernel(1) n(3) demo_kernel(2) n(1,2), of demo_junk])
  have b: "0xC0100 + (0x80000 + 20 + 4095) div 4096 = (0xC0181 :: nat)" by simp
  have bs: "boot_blocks = [(4084, True), (8216, False)] @ [(511988, True)]" by (simp add: boot_blocks_def)
  have small: "\<forall>i. (i, True) \<in> set ([(4084, True), (8216, False)] @ [(511988 :: nat, True)]) \<longrightarrow> i < 0x80000 + 20" by simp
  from Alloc_grows_heap [OF r(2) r(3) [unfolded bs] small r(4) [unfolded b] r(5) [symmetric] order_refl n(4)]
  obtain s2 where "Alloc (Suc 4999) (of_nat 0x80000) False s1 = Inr (of_nat (0xC0080000 + extent [(4084, True), (8216, False)] + 12), s2)"
      "pages_on_frames (ram s2) (kernel_directory s1) 0xC0100 0xC0181 (j + 256)"
    by (elim exE conjE) (rule that)
  moreover have "Suc 4999 = 5000" "of_nat (0xC0080000 + extent [(4084, True), (8216, False)] + 12) = (0xC0083018 :: u32)" by simp_all
  ultimately have "Alloc 5000 0x80000 False s1 = Inr (0xC0083018, s2)" by (simp only: of_nat_numeral)
  then show ?thesis using r(1) \<open>pages_on_frames _ _ _ _ _\<close> by blast
qed

text \<open>The new pages have frames; the pages behind them, in the same page table, stay free.\<close>

lemma grown_entries:
  assumes g: "grown h dir a b f s m" and ab: "a < b" and bc: "b \<le> c" and c: "c \<le> 1048576"
    and un: "unmapped (ram s) dir a c" and table: "\<forall>q. a \<le> q \<and> q < c \<longrightarrow> q div 1024 = a div 1024"
    and f: "0 < f" "f + (b - a) \<le> 1048576"
  shows "\<forall>q. a \<le> q \<and> q < b \<longrightarrow> page_Frame (entry m dir q) \<noteq> 0" and "unmapped m dir b c"
proof -
  show new: "\<forall>q. a \<le> q \<and> q < b \<longrightarrow> page_Frame (entry m dir q) \<noteq> 0"
  proof (intro allI impI)
    fix q assume q: "a \<le> q \<and> q < b"
    then have "unat (of_nat (f + (q - a)) :: u32) = f + (q - a)" using f(2) by (intro unat_of_nat_le) linarith
    then have "unat (of_nat (f + (q - a)) :: u32) \<noteq> 0" using f(1) by linarith
    then have "of_nat (f + (q - a)) \<noteq> (0 :: u32)" by (simp only: unat_eq_0 not_False_eq_True)
    moreover have "page_Frame (entry m dir q) = of_nat (f + (q - a))" using g q by (simp add: grown_def page_entry_def)
    ultimately show "page_Frame (entry m dir q) \<noteq> 0" by simp
  qed
  have "page_Frame (entry m dir a) \<noteq> 0" using new ab by simp
  then have "dir_Table m dir (of_nat (a div 1024)) \<noteq> 0" by (auto simp: entry_def split: if_splits)
  moreover have "entry m dir q = 0" if "b \<le> q" "q < c" for q
    using g un that ab c by (simp add: grown_def unmapped_def)
  moreover have "q div 1024 = a div 1024" if "b \<le> q" "q < c" for q
    by (rule table [rule_format]) (use that ab in simp)
  ultimately show "unmapped m dir b c" unfolding unmapped_def by metis
qed

text \<open>
  The heap after a request of \<open>n\<close> bytes, more than its last hole holds: the end is no longer on a page
  boundary, but all of the heap is mapped.
\<close>

definition grown_blocks :: "nat \<Rightarrow> block list" where
  "grown_blocks n = [(4084, True), (8216, False), (n + 20, False), (511988, True)]"

lemma booted_grows:
  assumes boot: "boot_memory s" "4096 < fuel" and P: "unat (placement_address s) \<le> 0xB00000"
    and n: "even n" "511988 < n + 20" "n + 20 \<le> 0x300000"
  defines "b \<equiv> 0xC0100 + (n + 20 + 4095) div 4096"
  obtains s1 s2 h j where "initialise_paging fuel junk s = Inr s1"
    "kmalloc fuel (of_nat n) False False s1 = Inr (0xC0083018, None, s2)" "kheap s2 = Some h"
    "heap_inv h (ram s2) 0xC0080000 (grown_blocks n)" "m_endAddress h = 0xC0100000 + of_nat (n + 20)"
    "m_startAddress h = 0xCFFFF000" "growable (kernel_directory s2) (j + (b - 0xC0100)) s2" "j \<le> 0xC10" "frame_limit s2 = 4096"
    "unmapped (ram s2) (kernel_directory s2) b 0xC0400"
    "\<forall>q. 0xC0100 \<le> q \<and> q < b \<longrightarrow> page_Frame (entry (ram s2) (kernel_directory s2) q) \<noteq> 0"
    "\<forall>x. 0xC0000000 \<le> unat x \<and> unat x < 4096 * b \<longrightarrow> translate (ram s2) (kernel_directory s2 + 4096) x \<noteq> None"
proof -
  obtain s1 h j where r: "initialise_paging fuel junk s = Inr s1" "kheap s1 = Some h" "heap_inv h (ram s1) 0xC0080000 boot_blocks"
      "m_endAddress h = 0xC0100000" "m_startAddress h = 0xCFFFF000"
      "can_grow (kernel_directory s1) (j + 256) 0xC0100 (0xC0100 + (n + 20 + 4095) div 4096) h (n + 20) s1"
      "expansion h (heap_length h + (of_nat n + 20)) = n + 20" "frame_limit s1 = 4096" "j \<le> 0xB10"
      "unmapped (ram s1) (kernel_directory s1) 0xC0100 0xC0400"
      "\<forall>x. 0xC0000000 \<le> unat x \<and> unat x < 0xC0100000 \<longrightarrow> translate (ram s1) (kernel_directory s1 + 4096) x \<noteq> None"
    by (rule booted_can_grow [OF boot P n(1,3), of junk])
  note grow = r(6) [folded b_def]
  have b: "b - 0xC0100 \<le> 768" "0xC0100 \<le> b" "b \<le> 0xC0400" unfolding b_def using n(3) by simp_all
  obtain f where f: "fuel = Suc f" "b - 0xC0100 < f" using boot(2) b(1) by (cases fuel) auto
  have bs: "boot_blocks = [(4084, True), (8216, False)] @ [(511988, True)]" by (simp add: boot_blocks_def)
  have small: "\<forall>i. (i, True) \<in> set ([(4084, True), (8216, False)] @ [(511988 :: nat, True)]) \<longrightarrow> i < n + 20" using n(2) by simp
  from Alloc_grows [OF r(2) r(3) [unfolded bs] small grow r(7) [symmetric] order_refl f(2)]
  obtain h' m m1 where A: "Alloc fuel (of_nat n) False s1 = Inr (0xC0083018, s1\<lparr>kheap := Some h', ram := m\<rparr>)"
      "heap_inv h' m 0xC0080000 ([(4084, True), (8216, False)] @ carve (n + 20) (511988 + (n + 20)))"
      "m_endAddress h' = m_endAddress h + of_nat (n + 20)" "index_place h' = index_place h"
      "grown h (kernel_directory s1) 0xC0100 b (j + 256) s1 m1"
      "\<forall>x. unat x < ol_lo (m_index h) \<or> ol_hi (m_index h) \<le> unat x \<and> unat x < 0xC0080000 + 12300 \<longrightarrow> m x = m1 x"
    unfolding f(1) by auto
  let ?s2 = "s1\<lparr>kheap := Some h', ram := m\<rparr>" and ?dir = "kernel_directory s1"
  have low: "m x = m1 x" if "unat x < unat (placement_address s1)" for x
    using that grow A(6) by (simp add: can_grow_def)
  note T = grown_heap_translate [OF grow A(5) low]
  have G: "growable ?dir (j + 256 + (b - 0xC0100)) (s1\<lparr>ram := m1\<rparr>)" using A(5) by (simp add: grown_def)
  have "0xC0100 < b" using n(2) by (simp add: b_def)
  moreover have "\<forall>q. 0xC0100 \<le> q \<and> q < 0xC0400 \<longrightarrow> q div 1024 = (0xC0100 :: nat) div 1024" by auto
  ultimately have new: "\<forall>q. 0xC0100 \<le> q \<and> q < b \<longrightarrow> page_Frame (entry m1 ?dir q) \<noteq> 0" "unmapped m1 ?dir b 0xC0400"
    using grown_entries [OF A(5) _ b(3) _ r(10)] b(1) r(9) by auto
  show thesis
  proof (rule that [of s1 ?s2 h' "j + 256"])
    show "initialise_paging fuel junk s = Inr s1" by (rule r(1))
    show "kmalloc fuel (of_nat n) False False s1 = Inr (0xC0083018, None, ?s2)"
      using A(1) r(2) by (simp add: kmalloc_def kmalloc_with_def)
    show "heap_inv h' (ram ?s2) 0xC0080000 (grown_blocks n)" using A(2) by (simp add: carve_def grown_blocks_def)
    show "m_endAddress h' = 0xC0100000 + of_nat (n + 20)" "m_startAddress h' = 0xCFFFF000"
      using A(3,4) r(4,5) by (simp_all add: index_place_def)
    show "growable (kernel_directory ?s2) (j + 256 + (b - 0xC0100)) ?s2"
      using growable_below(1) [OF G, of ?s2] low G by (simp add: growable_def)
    show "unmapped (ram ?s2) (kernel_directory ?s2) b 0xC0400"
      using new(2) growable_below(2) [OF G, of ?s2 b "0xC0400"] low G by (simp add: growable_def)
    show "\<forall>q. 0xC0100 \<le> q \<and> q < b \<longrightarrow> page_Frame (entry (ram ?s2) (kernel_directory ?s2) q) \<noteq> 0"
      using new(1) T(2) b(3) by simp
    show "\<forall>x. 0xC0000000 \<le> unat x \<and> unat x < 4096 * b \<longrightarrow> translate (ram ?s2) (kernel_directory ?s2 + 4096) x \<noteq> None"
    proof (intro allI impI)
      fix x :: u32 assume x: "0xC0000000 \<le> unat x \<and> unat x < 4096 * b"
      then show "translate (ram ?s2) (kernel_directory ?s2 + 4096) x \<noteq> None"
        using T(1) [unfolded pages_on_frames_def] T(3) [of x] r(11) by (cases "unat x < 4096 * 0xC0100") simp_all
    qed
  qed (use r(8,9) in \<open>simp_all add: frame_limit_def\<close>)
qed

text \<open>
  C12: once paging is set up, kmalloc serves a request of an even size that is too large for the
  memory of the heap, as long as it ends within the page table of the heap. The heap is extended by
  the block, the invariant holds, and every address from the start of the heap to its new end is
  translated.
\<close>

theorem kmalloc_grows_booted_heap:
  assumes "boot_memory s" and "4096 < fuel" and "unat (placement_address s) \<le> 0xB00000"
    and "even n" and "511988 < n + 20" and "n + 20 \<le> 0x300000"
  shows "\<exists>s1 s2 h. initialise_paging fuel junk s = Inr s1
    \<and> kmalloc fuel (of_nat n) False False s1 = Inr (0xC0083018, None, s2) \<and> kheap s2 = Some h
    \<and> heap_inv h (ram s2) 0xC0080000 [(4084, True), (8216, False), (n + 20, False), (511988, True)]
    \<and> m_endAddress h = 0xC0100000 + of_nat (n + 20)
    \<and> (\<forall>x. 0xC0000000 \<le> unat x \<and> unat x < 0xC0100000 + (n + 20) \<longrightarrow>
         translate (ram s2) (kernel_directory s2 + 4096) x \<noteq> None)"
proof -
  obtain s1 s2 h where r: "initialise_paging fuel junk s = Inr s1"
      "kmalloc fuel (of_nat n) False False s1 = Inr (0xC0083018, None, s2)" "kheap s2 = Some h"
      "heap_inv h (ram s2) 0xC0080000 (grown_blocks n)" "m_endAddress h = 0xC0100000 + of_nat (n + 20)"
      "\<forall>x. 0xC0000000 \<le> unat x \<and> unat x < 4096 * (0xC0100 + (n + 20 + 4095) div 4096) \<longrightarrow>
         translate (ram s2) (kernel_directory s2 + 4096) x \<noteq> None"
    by (rule booted_grows [OF assms, of junk])
  define t where "t = (n + 20 + 4095) div 4096"
  have "n + 20 \<le> 4096 * t" unfolding t_def by linarith
  then have "translate (ram s2) (kernel_directory s2 + 4096) x \<noteq> None"
    if "0xC0000000 \<le> unat x" "unat x < 0xC0100000 + (n + 20)" for x
    using that by (intro r(6) [folded t_def, rule_format] conjI) (simp_all add: distrib_left)
  then show ?thesis using r(1-5) unfolding grown_blocks_def by blast
qed

theorem kmalloc_grows_booted_heap_witness:
  "\<exists>s1 s2. initialise_paging 5000 demo_junk demo_kernel = Inr s1
     \<and> kmalloc 5000 0x80000 False False s1 = Inr (0xC0083018, None, s2)
     \<and> translate (ram s2) (kernel_directory s2 + 4096) 0xC0180010 \<noteq> None"
proof -
  have n: "even (0x80000 :: nat)" "511988 < 0x80000 + (20 :: nat)" "0x80000 + 20 \<le> (0x300000 :: nat)" "(4096 :: nat) < 5000" by simp_all
  obtain s1 s2 where r: "initialise_paging 5000 demo_junk demo_kernel = Inr s1"
      "kmalloc 5000 (of_nat 0x80000) False False s1 = Inr (0xC0083018, None, s2)"
      "\<forall>x. 0xC0000000 \<le> unat x \<and> unat x < 0xC0100000 + (0x80000 + 20) \<longrightarrow>
         translate (ram s2) (kernel_directory s2 + 4096) x \<noteq> None"
    using kmalloc_grows_booted_heap [OF demo_kernel(1) n(4) demo_kernel(2) n(1-3), of demo_junk] by (elim exE conjE) (rule that; assumption)
  have "translate (ram s2) (kernel_directory s2 + 4096) 0xC0180010 \<noteq> None" by (intro r(3) [rule_format]) simp
  with r(1,2) show ?thesis by auto
qed

subsection \<open>An end between two page boundaries\<close>

lemma alloc_frame_there: "page_Frame (load32 (ram s) page) \<noteq> 0 \<Longrightarrow> alloc_frame page k w s = Inr s"
  by (simp add: alloc_frame_def)

text \<open>
  C14: Expand counts the pages from the old end of the heap in steps of a page and does not round an
  even size. When the old end lies inside a page, which is mapped, and the new one crosses a page
  boundary that the count does not reach, the last page of the heap stays unmapped: the end address
  has been moved, and the last byte of the heap is not translated.
\<close>

theorem Expand_leaves_page_unmapped:
  assumes heap: "kheap s = Some h" and g: "growable dir n s" and E: "m_endAddress h = of_nat a * 0x1000 + of_nat r"
    and r: "r < 4096" and there: "page_Frame (entry (ram s) dir a) \<noteq> 0"
    and d: "d = expansion h new_size" "0 < d" "unat (heap_length h) + d + 8192 \<le> 4294967295"
    and c: "c = (d + 4095) div 4096" "a + c < 1048575" "c < fuel" "n + c \<le> frame_limit s"
    and un: "unmapped (ram s) dir (Suc a) (Suc (a + c))" and over: "4096 * c < r + d"
  shows "\<exists>m. Expand fuel heap_alloc new_size s
      = Inr (s\<lparr>ram := m, kheap := Some (h\<lparr>m_endAddress := m_endAddress h + of_nat d\<rparr>)\<rparr>)
    \<and> translate m (dir + 4096) (m_endAddress h + of_nat d - 1) = None"
proof -
  have d': "unat (heap_length h) + expansion h new_size \<le> 4294967295" using d by simp
  note N = expansion_length [OF d', folded d(1)]
  obtain f where f: "fuel = Suc f" "c - 1 < f" using c(1,3) d(2) by (cases fuel) auto
  have c1: "0 < c" "d \<le> 4096 * c" "4096 * c < d + 4096" using c(1) d(2) by linarith+
  have a: "a < 1048576" "dir_Table (ram s) dir (of_nat (a div 1024)) \<noteq> 0"
    using c(2) there by (auto simp: entry_def split: if_splits)
  have addr: "m_startAddress h + heap_length h = of_nat a * 0x1000 + of_nat r" using N(3) E by simp
  have old: "load32 (ram s) (entry_at (ram s) dir a) = entry (ram s) dir a" using a(2) by (simp add: entry_def)
  have step: "expand_loop fuel heap_alloc (expand_round new_size) (heap_length h) s
      = expand_loop f heap_alloc (expand_round new_size) (heap_length h + 0x1000) s"
  proof -
    have "heap_length h < expand_round new_size" using N(1) d(2) by (simp add: word_less_unat)
    moreover have "get_page heap_alloc (m_startAddress h + heap_length h) True (kernel_directory s) s = Inr (entry_at (ram s) dir a, s)"
      unfolding addr using get_page_inside [OF a(1) r a(2)] g by (simp add: growable_def)
    moreover have "alloc_frame (entry_at (ram s) dir a) k w s = Inr s" for k w
      using there by (intro alloc_frame_there) (simp add: old)
    ultimately show ?thesis using heap by (simp add: f(1))
  qed
  have up: "unat (heap_length h + 0x1000) = unat (heap_length h) + 4096" using d(3) by (subst unat_add_no_wrap) auto
  have "\<exists>m. expand_loop f heap_alloc (expand_round new_size) (heap_length h + 0x1000) s = Inr (s\<lparr>ram := m\<rparr>)
      \<and> grown h dir (Suc a) (a + c) n s m"
  proof (rule expand_loop_maps [OF _ r _ g])
    show "m_startAddress h + (heap_length h + 0x1000) = of_nat (Suc a) * 0x1000 + of_nat r"
      using addr by (simp add: algebra_simps)
    show "unmapped (ram s) dir (Suc a) (a + c)" using un by (simp add: unmapped_def)
    show "Suc a \<le> a + c" "a + c - Suc a < f" "n + (a + c - Suc a) \<le> frame_limit s" "a + c < 1048576"
      using c(2,4) c1(1) f(2) by linarith+
    show "unat (expand_round new_size) + 4096 \<le> 4294967295" "kheap s = Some h" using d(3) N(1) heap by linarith+
    show "unat (expand_round new_size) \<le> unat (heap_length h + 0x1000) + 4096 * (a + c - Suc a)"
      "unat (heap_length h + 0x1000) + 4096 * (a + c - Suc a) < unat (expand_round new_size) + 4096"
      unfolding up N(1) using c1 by linarith+
  qed
  then obtain m where m: "expand_loop f heap_alloc (expand_round new_size) (heap_length h + 0x1000) s = Inr (s\<lparr>ram := m\<rparr>)"
      "grown h dir (Suc a) (a + c) n s m" by blast
  have "Expand fuel heap_alloc new_size s = Inr (s\<lparr>ram := m, kheap := Some (h\<lparr>m_endAddress := m_endAddress h + of_nat d\<rparr>)\<rparr>)"
    using m(1) step N(2) heap by (simp add: Expand_def Let_def)
  moreover have "entry m dir (a + c) = 0" using m(2) un c(2) c1(1) by (simp add: grown_def unmapped_def)
  moreover have "unat (m_endAddress h + of_nat d - 1) div 4096 = a + c"
  proof -
    have "m_endAddress h + of_nat d - 1 = of_nat (4096 * a + (r + d - 1))" using d(2) by (simp add: E of_nat_diff algebra_simps)
    moreover have "4096 * a + (r + d - 1) \<le> 4294967295" using c(2) c1 r by linarith
    ultimately have "unat (m_endAddress h + of_nat d - 1) = 4096 * a + (r + d - 1)" by (simp only: unat_of_nat_le)
    moreover have "(4096 * a + (r + d - 1)) div 4096 = a + c" using over c1 r by (intro div_nat_eqI) simp_all
    ultimately show ?thesis by simp
  qed
  moreover have "paging_ok dir (s\<lparr>ram := m, kheap := None\<rparr>)" using m(2) by (simp add: grown_def growable_def)
  note t = paging_okD(6) [OF this, simplified]
  ultimately show ?thesis by (intro exI [of _ m]) (simp add: translate_entry [OF t] page_flag_def Let_def)
qed

theorem Expand_leaves_page_unmapped_witness:
  "\<exists>s1 s2 h m. initialise_paging 5000 demo_junk demo_kernel = Inr s1
     \<and> kmalloc 5000 0x80000 False False s1 = Inr (0xC0083018, None, s2) \<and> kheap s2 = Some h
     \<and> Expand 5000 (Alloc 5000) (heap_length h + 0x1000) s2 = Inr (s2\<lparr>ram := m, kheap := Some (h\<lparr>m_endAddress := 0xC0181014\<rparr>)\<rparr>)
     \<and> translate m (kernel_directory s2 + 4096) 0xC0181013 = None"
proof -
  have n: "even (0x80000 :: nat)" "511988 < 0x80000 + (20 :: nat)" "0x80000 + 20 \<le> (0x300000 :: nat)" "(4096 :: nat) < 5000" by simp_all
  have b: "0xC0100 + (0x80000 + 20 + 4095) div 4096 = (0xC0181 :: nat)" by simp
  obtain s1 s2 h j where r: "initialise_paging 5000 demo_junk demo_kernel = Inr s1"
      "kmalloc 5000 (of_nat 0x80000) False False s1 = Inr (0xC0083018, None, s2)" "kheap s2 = Some h"
      "m_endAddress h = 0xC0100000 + of_nat (0x80000 + 20)" "m_startAddress h = 0xCFFFF000"
      "growable (kernel_directory s2) (j + (0xC0181 - 0xC0100)) s2" "j \<le> 0xC10" "frame_limit s2 = 4096"
      "unmapped (ram s2) (kernel_directory s2) 0xC0181 0xC0400"
      "\<forall>q. 0xC0100 \<le> q \<and> q < 0xC0181 \<longrightarrow> page_Frame (entry (ram s2) (kernel_directory s2) q) \<noteq> 0"
    by (rule booted_grows [OF demo_kernel(1) n(4) demo_kernel(2) n(1-3), of demo_junk, unfolded b])
  have len: "heap_length h = 0xF0181014" by (simp add: heap_length_def r(4,5))
  have "expansion h (heap_length h + (of_nat 4076 + 20)) = 4076 + 20" by (rule expansion_even) (simp_all add: len)
  then have d: "4096 = expansion h (heap_length h + 0x1000)" by simp
  have "m_endAddress h = of_nat 0xC0180 * 0x1000 + of_nat 20" by (simp add: r(4))
  moreover have "unmapped (ram s2) (kernel_directory s2) (Suc 0xC0180) (Suc (0xC0180 + 1))" using r(9) by (simp add: unmapped_def)
  moreover have "page_Frame (entry (ram s2) (kernel_directory s2) 0xC0180) \<noteq> 0" using r(10) by simp
  ultimately obtain m where "Expand 5000 (Alloc 5000) (heap_length h + 0x1000) s2
        = Inr (s2\<lparr>ram := m, kheap := Some (h\<lparr>m_endAddress := m_endAddress h + of_nat 4096\<rparr>)\<rparr>)"
      "translate m (kernel_directory s2 + 4096) (m_endAddress h + of_nat 4096 - 1) = None"
    using Expand_leaves_page_unmapped [OF r(3,6) _ _ _ d, of "0xC0180" 20 1 5000 "Alloc 5000"] r(7,8) len by auto
  then show ?thesis using r(1-4) by auto
qed

subsection \<open>A full heap at the end of its page table\<close>

text \<open>One round: the request for the missing page table is made on the unchanged state.\<close>

lemma Alloc_asks_for_table:
  assumes heap: "kheap s = Some h" and none: "FindSmallestHole h (ram s) (n + 20) align = -1"
    and table: "dir_Table (ram s) (kernel_directory s) (m_endAddress h div 0x1000 div 1024) = 0"
    and more: "heap_length h < expand_round (heap_length h + (n + 20))"
    and again: "Alloc fuel 0x1000 True s = Inl OutOfFuel"
  shows "Alloc (Suc fuel) n align s = Inl OutOfFuel"
proof -
  have "expand_loop fuel (Alloc fuel) (expand_round (heap_length h + (n + 20))) (heap_length h) s = Inl OutOfFuel"
  proof (cases fuel)
    case (Suc f)
    have "m_startAddress h + heap_length h = m_endAddress h" by (simp add: heap_length_def)
    then have "get_page (Alloc fuel) (m_startAddress h + heap_length h) True (kernel_directory s) s = Inl OutOfFuel"
      using table again heap by (simp add: get_page_def kmalloc_with_def sizeof_PageTable_def Let_def del: Alloc.simps)
    then show ?thesis using heap more Suc by (simp del: Alloc.simps)
  qed simp
  then have "Expand fuel (Alloc fuel) (heap_length h + (n + 20)) s = Inl OutOfFuel"
    using heap by (simp add: Expand_def Let_def del: Alloc.simps)
  then show ?thesis using heap none by (simp add: heap_sizes Let_def add.assoc)
qed

text \<open>
  C15: when no hole can hold a page table and the end of the heap has reached an address whose page
  table does not exist, no request that needs new memory ever returns: Expand asks get_page for the
  page, get_page asks kmalloc for the table, and this request expands the heap at the same place.
\<close>

theorem Alloc_without_table_never_returns:
  assumes heap: "kheap s = Some h" and none: "FindSmallestHole h (ram s) (n + 20) align = -1"
    and no_table: "FindSmallestHole h (ram s) (0x1000 + 20) True = -1"
    and table: "dir_Table (ram s) (kernel_directory s) (m_endAddress h div 0x1000 div 1024) = 0"
    and more: "heap_length h < expand_round (heap_length h + (n + 20))"
      "heap_length h < expand_round (heap_length h + (0x1000 + 20))"
  shows "Alloc fuel n align s = Inl OutOfFuel"
proof -
  have "Alloc f 0x1000 True s = Inl OutOfFuel" for f
  proof (induction f)
    case (Suc f)
    then show ?case by (rule Alloc_asks_for_table [OF heap no_table table more(2)])
  qed simp
  then show ?thesis using Alloc_asks_for_table [OF heap none table more(1)] by (cases fuel) (simp_all del: Alloc.simps(2))
qed

lemma full_heap_no_hole:
  assumes inv: "heap_inv h m lo bs" and full: "\<forall>b \<in> set bs. \<not> snd b"
  shows "FindSmallestHole h m n align = -1"
proof (rule ccontr)
  define i where "i = FindSmallestHole h m n align"
  assume "FindSmallestHole h m n align \<noteq> -1"
  note f = FindSmallestHole_found [OF i_def [symmetric] this [folded i_def]]
  obtain bs1 k bs2 where "bs = bs1 @ (k, True) # bs2" using hole_in_index [OF inv f(1)] by blast
  then show False using full by auto
qed

lemma boot_heap_place: "index_place (fst boot_heap) = (0xC0000000, 0x20000, 0xCFFFF000)"
  and boot_heap_low: "unat x < 0xC0000000 \<Longrightarrow> ram boot_kernel x = 0"
proof -
  have start: "even KHEAP_START" "unat KHEAP_START + 0x80000 + 20 \<le> unat (KHEAP_START + KHEAP_INITIAL_SIZE)"
    "unat KHEAP_START = 0xC0000000"
    by (simp_all add: KHEAP_START_def KHEAP_INITIAL_SIZE_def)
  have init: "Heap_init demo_junk KHEAP_START (KHEAP_START + KHEAP_INITIAL_SIZE) 0xCFFFF000 False False (\<lambda>_. 0)
      = (fst boot_heap, snd boot_heap)"
    by (simp add: boot_heap_def)
  note H = Heap_init_heap_inv [OF start(1,2) init]
  show "index_place (fst boot_heap) = (0xC0000000, 0x20000, 0xCFFFF000)"
    using H(3,4,6) by (simp add: index_place_def KHEAP_START_def)
  show "unat x < 0xC0000000 \<Longrightarrow> ram boot_kernel x = 0"
    using same_outside_byte [OF H(7), of x] start(3) by (simp add: boot_kernel_def empty_bitmap_kernel_def)
qed

theorem Alloc_without_table_never_returns_witness:
  "\<exists>s. Alloc 1 0x7FFEC False boot_kernel = Inr (0xC008000C, s) \<and> (\<forall>fuel. Alloc fuel 100 False s = Inl OutOfFuel)"
proof -
  have hole: "((0x80000 :: nat), True) \<in> set [(0x80000, True)]" "0x7FFEC + 20 \<le> (0x80000 :: nat)" by simp_all
  from Alloc_spec [OF boot_kernel_inv(2,1) hole, of 0] obtain p s h bs1 k bs2 where
      r: "Alloc (Suc 0) (of_nat 0x7FFEC) False boot_kernel = Inr (p, s)" "[(0x80000, True)] = bs1 @ (k, True) # bs2"
      "p = of_nat (0xC0080000 + extent bs1 + 12)" "kheap s = Some h" "heap_inv h (ram s) 0xC0080000 (bs1 @ carve (0x7FFEC + 20) k @ bs2)"
      "\<forall>x. (unat x < ol_lo (m_index (fst boot_heap)) \<or> ol_hi (m_index (fst boot_heap)) \<le> unat x)
         \<and> (unat x < 0xC0080000 + extent bs1 \<or> 0xC0080000 + extent bs1 + k \<le> unat x) \<longrightarrow> ram s x = ram boot_kernel x"
    by (elim exE conjE) (rule that; assumption)
  have one: "bs1 = []" "k = 0x80000" "bs2 = []" using r(2) by (cases bs1; simp)+
  have inv: "heap_inv h (ram s) 0xC0080000 [(0x80000, False)]" using r(5) one by (simp add: carve_def)
  have none: "FindSmallestHole h (ram s) n align = -1" for n align by (rule full_heap_no_hole [OF inv]) simp
  have found: "FindSmallestHole (fst boot_heap) (ram boot_kernel) (of_nat 0x7FFEC + 20) False \<noteq> -1"
    by (rule large_hole_found [OF boot_kernel_inv(1) hole])
  have "index_place h = (0xC0000000, 0x20000, 0xCFFFF000)"
    using Alloc_index [OF boot_kernel_inv(2) found r(1,4)] boot_heap_place by simp
  moreover have "unat (m_endAddress h) = unat (0xC0100000 :: u32)" using heap_invD(7) [OF inv] by simp
  then have e: "m_endAddress h = 0xC0100000" by (simp only: word_eq_unat)
  ultimately have len: "heap_length h = 0xF0101000" by (simp add: heap_length_def index_place_def)
  have "s = boot_kernel\<lparr>kheap := kheap s, ram := ram s\<rparr>" by (rule Alloc_state [OF boot_kernel_inv(2) found r(1)])
  then obtain u m where "s = boot_kernel\<lparr>kheap := u, ram := m\<rparr>" by blast
  then have dir: "kernel_directory s = 0" by (simp add: boot_kernel_def empty_bitmap_kernel_def)
  have lo: "ol_lo (m_index (fst boot_heap)) = 0xC0000000" using boot_heap_place by (simp add: index_place_def ol_lo_def)
  have "load32 (ram s) 3072 = load32 (\<lambda>_. 0) 3072"
    by (rule load32_bytes) (use r(6) lo one boot_heap_low in simp_all)
  then have "dir_Table (ram s) (kernel_directory s) (m_endAddress h div 0x1000 div 1024) = 0"
    by (simp add: dir e dir_Table_def)
  from Alloc_without_table_never_returns [OF r(4) none none this] len
  have "Alloc fuel 100 False s = Inl OutOfFuel" for fuel by (simp add: expand_round_def int_of_bool_def)
  moreover have "Alloc 1 0x7FFEC False boot_kernel = Inr (0xC008000C, s)" using r(1,3) one by (simp del: Alloc.simps)
  ultimately show ?thesis by blast
qed

end
