(* ===== verification/Heap_Contract.thy ===== *)
theory Heap_Contract
  imports Heap_Growth
begin

text \<open>
  Free of \<^verbatim>\<open>kernel/Heap.cpp\<close> when the freed block and the hole behind it reach the end of the heap:
  Contract of the same file gives the pages behind the new end back and moves the end address.
\<close>

subsection \<open>Giving frames back\<close>

lemma clear_frame_ram:
  assumes "bitmap_ok s" and "unat f < 0x100000" and "256 \<le> frame_limit s"
  shows "\<exists>m. clear_frame f s = s\<lparr>ram := m\<rparr>
    \<and> same_outside (unat (frames s)) (unat (frames s) + 4 * unat (INDEX_FROM_BIT (nframes s))) (ram s) m"
proof -
  let ?h = "(frames s, unat (INDEX_FROM_BIT (nframes s)))" and ?g = "f div 0x1000"
  have g: "unat ?g < 256" using assms(2) by (simp add: unat_div less_mult_imp_div_less)
  have idx: "INDEX_FROM_BIT ?g = of_nat (unat ?g div 32)" by (simp add: word_eq_unat unat_INDEX unat_of_nat_le order.trans [OF div_le_dividend unat_le_max32])
  have k: "unat ?g div 32 < snd ?h" using g assms(3) by (simp add: frame_limit_def less_mult_imp_div_less)
  obtain w where "clear_frame f s = s\<lparr>ram := arr_put ?h (ram s) (unat ?g div 32) w\<rparr>"
    unfolding clear_frame_def Let_def set_frame_word_def arr_put_def idx by simp
  moreover have "arr_wf ?h" using assms(1) by (simp add: bitmap_ok_def)
  ultimately show ?thesis using k by (auto simp: same_outside_def arr_put_frame)
qed

lemma page_Frame_small: "unat (page_Frame e) < 0x100000"
proof -
  have "drop_bit 12 (unat e) = unat e div 4096" by (simp add: drop_bit_eq_div)
  then have "unat (page_Frame e) = unat e div 4096" by (simp add: page_Frame_def unsigned_drop_bit_eq take_bit_nat_eq_self unat_lt_2p32)
  then show ?thesis using unat_lt_2p32 [of e] by (simp add: less_mult_imp_div_less)
qed

lemma with_Frame_zero: "page_Frame e = 0 \<Longrightarrow> with_Frame 0 e = e"
proof (rule bit_word_eqI)
  fix i assume z: "page_Frame e = 0" and "i < LENGTH(32)"
  have "\<not> bit e i" if "12 \<le> i"
  proof -
    have "bit (page_Frame e) (i - 12) = bit e i" using that by (simp add: page_Frame_def bit_simps)
    with z show ?thesis by simp
  qed
  then show "bit (with_Frame 0 e) i = bit e i" by (cases "i < 12") (auto simp: with_Frame_def bit_simps)
qed

lemma free_frame_kheap: "free_frame page (s\<lparr>kheap := x\<rparr>) = (free_frame page s)\<lparr>kheap := x\<rparr>"
  by (simp add: free_frame_def update_page_def clear_frame_def set_frame_word_def frame_word_def Let_def)

text \<open>The entry of the page keeps its flags, Present among them, and loses its frame.\<close>

lemma free_frame_entry:
  assumes ok: "paging_ok dir s" and q: "q < 1048576" and table: "dir_Table (ram s) dir (of_nat (q div 1024)) \<noteq> 0"
    and lim: "256 \<le> frame_limit s"
  shows "\<exists>m. free_frame (entry_at (ram s) dir q) s = s\<lparr>ram := m\<rparr> \<and> paging_ok dir (s\<lparr>ram := m\<rparr>)
    \<and> entry m dir q = with_Frame 0 (entry (ram s) dir q)
    \<and> (\<forall>r < 1048576. r \<noteq> q \<longrightarrow> entry m dir r = entry (ram s) dir r)
    \<and> (\<forall>i < 1024. dir_Table m dir (of_nat i) = dir_Table (ram s) dir (of_nat i))
    \<and> (\<forall>x. unat (placement_address s) \<le> unat x \<longrightarrow> m x = ram s x)"
proof (cases "page_Frame (entry (ram s) dir q) = 0")
  case True
  then have "free_frame (entry_at (ram s) dir q) s = s\<lparr>ram := ram s\<rparr>" using table by (simp add: free_frame_def entry_def)
  then show ?thesis using ok with_Frame_zero [OF True] by (intro exI [of _ "ram s"]) simp
next
  case False
  note o = paging_okD [OF ok]
  let ?e = "entry_at (ram s) dir q" and ?f = "page_Frame (entry (ram s) dir q)"
  note w = table_word(2,3) [OF o(6) unat_le_max32 q table]
  have sep: "page_separate s ?e" using w o(4) unat_lt_2p32 [of "placement_address s"] unfolding page_separate_def by linarith
  obtain m1 where m1: "clear_frame ?f s = s\<lparr>ram := m1\<rparr>"
      "same_outside (unat (frames s)) (unat (frames s) + 4 * unat (INDEX_FROM_BIT (nframes s))) (ram s) m1"
    using clear_frame_ram [OF o(2) page_Frame_small lim] by blast
  have e: "load32 (ram s) ?e = entry (ram s) dir q" using table by (simp add: entry_def)
  have "load32 m1 ?e = load32 (ram s) ?e"
    using w o(4) unat_le_max32 [of "placement_address s"] same_outside_byte [OF m1(2)] by (intro load32_bytes) auto
  then have e1: "load32 m1 ?e = entry (ram s) dir q" using e by simp
  define m where "m = store32 m1 ?e (with_Frame 0 (entry (ram s) dir q))"
  have "free_frame ?e s = s\<lparr>ram := m\<rparr>"
    using False m1(1) e e1 by (simp add: free_frame_def update_page_def m_def Let_def)
  moreover have "same_outside (unat ?e) (unat ?e + 4) m1 m"
    unfolding m_def by (rule same_outside_store32) (use sep in \<open>simp_all add: page_separate_def\<close>)
  note W = entry_written [OF ok q table m1(2) this]
  moreover have "entry m dir q = with_Frame 0 (entry (ram s) dir q)" unfolding W(2) by (simp add: m_def mem_simps)
  ultimately show ?thesis by blast
qed

subsection \<open>Contract\<close>

lemma contract_loop_frees:
  assumes N: "0x1000 \<le> unat N" and b: "a + c \<le> 1048576"
  shows "paging_ok dir (s\<lparr>kheap := None\<rparr>) \<Longrightarrow> kernel_directory s = dir \<Longrightarrow> 256 \<le> frame_limit s \<Longrightarrow> kheap s = Some h \<Longrightarrow>
    m_startAddress h + i = of_nat (a + c) * 0x1000 - 0x1000 \<Longrightarrow> c < fuel \<Longrightarrow> unat i \<le> unat N + 4096 * c \<Longrightarrow>
    (0 < c \<Longrightarrow> unat N + 4096 * (c - 1) < unat i) \<Longrightarrow>
    (\<And>q. a \<le> q \<Longrightarrow> q < a + c \<Longrightarrow> dir_Table (ram s) dir (of_nat (q div 1024)) \<noteq> 0) \<Longrightarrow>
    \<exists>m. contract_loop fuel N i s = Inr (s\<lparr>ram := m\<rparr>) \<and> paging_ok dir (s\<lparr>ram := m, kheap := None\<rparr>)
      \<and> (\<forall>q. a \<le> q \<and> q < a + c \<longrightarrow> entry m dir q = with_Frame 0 (entry (ram s) dir q))
      \<and> (\<forall>q < 1048576. q < a \<or> a + c \<le> q \<longrightarrow> entry m dir q = entry (ram s) dir q)
      \<and> (\<forall>x. unat (placement_address s) \<le> unat x \<longrightarrow> m x = ram s x)"
  using b
proof (induction c arbitrary: fuel i s)
  case 0
  then obtain f where "fuel = Suc f" by (cases fuel) auto
  moreover have "\<not> N < i" using "0.prems"(7) by (simp add: word_less_unat)
  moreover have "s\<lparr>kheap := None, ram := ram s\<rparr> = s\<lparr>kheap := None\<rparr>" by simp
  ultimately show ?case using "0.prems"(1) by (intro exI [of _ "ram s"]) auto
next
  case (Suc c)
  obtain f where f: "fuel = Suc f" "c < f" using Suc.prems(6) by (cases fuel) auto
  let ?q = "a + c" and ?s = "s\<lparr>kheap := None\<rparr>"
  have q: "?q < 1048576" using Suc.prems(10) by simp
  have table: "dir_Table (ram s) dir (of_nat (?q div 1024)) \<noteq> 0" using Suc.prems(9) [of ?q] by simp
  have lim: "256 \<le> frame_limit ?s" using Suc.prems(3) by (simp add: frame_limit_def)
  obtain m where m: "free_frame (entry_at (ram s) dir ?q) ?s = ?s\<lparr>ram := m\<rparr>" "paging_ok dir (?s\<lparr>ram := m\<rparr>)"
      "entry m dir ?q = with_Frame 0 (entry (ram s) dir ?q)" "\<forall>r < 1048576. r \<noteq> ?q \<longrightarrow> entry m dir r = entry (ram s) dir r"
      "\<forall>i < 1024. dir_Table m dir (of_nat i) = dir_Table (ram s) dir (of_nat i)"
      "\<forall>x. unat (placement_address s) \<le> unat x \<longrightarrow> m x = ram s x"
    using free_frame_entry [OF Suc.prems(1) q _ lim] table by auto
  let ?t = "s\<lparr>ram := m\<rparr>"
  have "free_frame (entry_at (ram s) dir ?q) (?s\<lparr>kheap := kheap s\<rparr>) = (?s\<lparr>ram := m\<rparr>)\<lparr>kheap := kheap s\<rparr>"
    by (rule free_frame_kheap [where page = "entry_at (ram s) dir ?q" and s = ?s and x = "kheap s", unfolded m(1)])
  then have ff: "free_frame (entry_at (ram s) dir ?q) s = ?t" by simp
  have order: "?t\<lparr>kheap := None\<rparr> = ?s\<lparr>ram := m\<rparr>" by simp
  have addr: "m_startAddress h + i = of_nat ?q * 0x1000" using Suc.prems(5) by (simp add: algebra_simps)
  have less: "unat N + 4096 * c < unat i" using Suc.prems(8) by simp
  have ui: "unat (i - 0x1000) = unat i - 4096" using less N by (subst unat_sub_no_wrap) auto
  have "\<exists>m'. contract_loop f N (i - 0x1000) ?t = Inr (?t\<lparr>ram := m'\<rparr>) \<and> paging_ok dir (?t\<lparr>ram := m', kheap := None\<rparr>)
      \<and> (\<forall>q. a \<le> q \<and> q < a + c \<longrightarrow> entry m' dir q = with_Frame 0 (entry (ram ?t) dir q))
      \<and> (\<forall>q < 1048576. q < a \<or> a + c \<le> q \<longrightarrow> entry m' dir q = entry (ram ?t) dir q)
      \<and> (\<forall>x. unat (placement_address ?t) \<le> unat x \<longrightarrow> m' x = ram ?t x)"
  proof (rule Suc.IH)
    show "paging_ok dir (?t\<lparr>kheap := None\<rparr>)" unfolding order by (rule m(2))
    show "dir_Table (ram ?t) dir (of_nat (q div 1024)) \<noteq> 0" if "a \<le> q" "q < a + c" for q
      using Suc.prems(9) [of q] m(5) that q by simp
    show "256 \<le> frame_limit ?t" "a + c \<le> 1048576" using Suc.prems(3,10) by (simp_all add: frame_limit_def)
    show "m_startAddress h + (i - 0x1000) = of_nat (a + c) * 0x1000 - 0x1000" using addr by (simp add: algebra_simps)
    show "unat (i - 0x1000) \<le> unat N + 4096 * c" using ui Suc.prems(7) by simp
    show "unat N + 4096 * (c - 1) < unat (i - 0x1000)" if "0 < c" using that less ui by (cases c) simp_all
  qed (use Suc.prems(2,4) f in simp_all)
  then obtain m' where m': "contract_loop f N (i - 0x1000) ?t = Inr (s\<lparr>ram := m'\<rparr>)" "paging_ok dir (s\<lparr>ram := m', kheap := None\<rparr>)"
      "\<forall>q. a \<le> q \<and> q < a + c \<longrightarrow> entry m' dir q = with_Frame 0 (entry m dir q)"
      "\<forall>q < 1048576. q < a \<or> a + c \<le> q \<longrightarrow> entry m' dir q = entry m dir q"
      "\<forall>x. unat (placement_address s) \<le> unat x \<longrightarrow> m' x = m x" by auto
  have "contract_loop fuel N i s = Inr (s\<lparr>ram := m'\<rparr>)"
    using less addr get_page_there [OF q table, of "Alloc 0" False] ff m'(1) Suc.prems(2,4)
    by (simp add: f(1) word_less_unat del: Alloc.simps)
  moreover have "entry m' dir p = with_Frame 0 (entry (ram s) dir p)" if "a \<le> p" "p < a + Suc c" for p
    using m'(3,4) m(3,4) that q by (cases "p = ?q") simp_all
  moreover have "entry m' dir p = entry (ram s) dir p" if "p < 1048576" "p < a \<or> a + Suc c \<le> p" for p
    using m'(4) m(4) that by auto
  ultimately show ?case using m'(2,5) m(6) by (intro exI [of _ m']) simp
qed

lemma Contract_frees:
  assumes heap: "kheap s = Some h" and ok: "paging_ok dir (s\<lparr>kheap := None\<rparr>)" "kernel_directory s = dir" "256 \<le> frame_limit s"
    and E: "m_endAddress h = of_nat b * 0x1000" "b < 1048576" and e: "e < 4096 * b"
    and N: "N = of_nat e - m_startAddress h" "\<not> bit N 12" "HEAP_MIN_SIZE \<le> N" "unat N + (4096 * b - e) \<le> 4294967295"
    and tables: "\<And>q. e div 4096 < q \<Longrightarrow> q < b \<Longrightarrow> dir_Table (ram s) dir (of_nat (q div 1024)) \<noteq> 0"
  shows "\<exists>m. Contract N s = Inr (N, s\<lparr>ram := m, kheap := Some (h\<lparr>m_endAddress := of_nat e\<rparr>)\<rparr>)
    \<and> paging_ok dir (s\<lparr>ram := m, kheap := None\<rparr>)
    \<and> (\<forall>q. e div 4096 < q \<and> q < b \<longrightarrow> entry m dir q = with_Frame 0 (entry (ram s) dir q))
    \<and> (\<forall>x. unat (placement_address s) \<le> unat x \<longrightarrow> m x = ram s x)"
proof -
  define a c where "a = Suc (e div 4096)" and "c = b - a"
  have "e = 4096 * (e div 4096) + e mod 4096" "e mod 4096 < 4096" by simp_all
  then have ea: "e < 4096 * a" "4096 * a \<le> e + 4096" unfolding a_def mult_Suc_right by linarith+
  have ab: "a \<le> b" using e unfolding a_def by (simp add: Suc_le_eq less_mult_imp_div_less mult.commute)
  have b: "a + c = b" using ab by (simp add: c_def)
  have "N + of_nat (4096 * b - e) = heap_length h"
    using e by (simp add: N(1) heap_length_def E(1) of_nat_diff less_imp_le algebra_simps)
  moreover have "unat (N + of_nat (4096 * b - e)) = unat N + (4096 * b - e)"
    using N(4) by (subst unat_add_no_wrap) (simp_all add: unat_of_nat_le)
  ultimately have len: "unat (heap_length h) = unat N + (4096 * b - e)" by simp
  have min: "0x70000 \<le> unat N" using N(3) by (simp add: HEAP_MIN_SIZE_def word_le_unat)
  have ui: "unat (heap_length h - 0x1000) = unat N + (4096 * b - e) - 4096"
    using len min by (subst unat_sub_no_wrap) auto
  have i: "unat (heap_length h - 0x1000) \<le> unat N + 4096 * c" "0 < c \<Longrightarrow> unat N + 4096 * (c - 1) < unat (heap_length h - 0x1000)"
    unfolding ui using ea b e min by linarith+
  have round: "contract_round N = N" using N(2,3) by (simp add: contract_round_eq)
  have "\<exists>m. contract_loop (Suc (unat (heap_length h - 0x1000))) N (heap_length h - 0x1000) s = Inr (s\<lparr>ram := m\<rparr>)
      \<and> paging_ok dir (s\<lparr>ram := m, kheap := None\<rparr>)
      \<and> (\<forall>q. a \<le> q \<and> q < a + c \<longrightarrow> entry m dir q = with_Frame 0 (entry (ram s) dir q))
      \<and> (\<forall>q < 1048576. q < a \<or> a + c \<le> q \<longrightarrow> entry m dir q = entry (ram s) dir q)
      \<and> (\<forall>x. unat (placement_address s) \<le> unat x \<longrightarrow> m x = ram s x)"
  proof (rule contract_loop_frees [OF _ _ ok heap])
    show "m_startAddress h + (heap_length h - 0x1000) = of_nat (a + c) * 0x1000 - 0x1000"
      unfolding b using E(1) by (simp add: heap_length_def)
    show "c < Suc (unat (heap_length h - 0x1000))" using i(2) by (cases "c = 0") simp_all
    show "dir_Table (ram s) dir (of_nat (q div 1024)) \<noteq> 0" if "a \<le> q" "q < a + c" for q
      using that b by (intro tables) (simp_all add: a_def)
  qed (use min b E(2) i in simp_all)
  then obtain m where "contract_loop (Suc (unat (heap_length h - 0x1000))) N (heap_length h - 0x1000) s = Inr (s\<lparr>ram := m\<rparr>)"
      "paging_ok dir (s\<lparr>ram := m, kheap := None\<rparr>)"
      "\<forall>q. e div 4096 < q \<and> q < b \<longrightarrow> entry m dir q = with_Frame 0 (entry (ram s) dir q)"
      "\<forall>x. unat (placement_address s) \<le> unat x \<longrightarrow> m x = ram s x"
    unfolding b by (auto simp: a_def Suc_le_eq)
  moreover have "m_startAddress h + N = of_nat e" by (simp add: N(1))
  ultimately show ?thesis using heap by (intro exI [of _ m]) (simp add: Contract_def Let_def round del: contract_loop.simps)
qed

subsection \<open>Free at the end of the heap\<close>

text \<open>The merge with the hole on the right, which ends the heap.\<close>

lemma merged_at_end:
  assumes inv: "heap_inv h m lo (bs1 @ [(n, False), (k, True)])" and guard: "guard_below m lo bs1"
    and no_hole: "\<And>bs0 j. bs1 \<noteq> bs0 @ [(j, True)]" and a: "a = lo + extent bs1"
  obtains ix m' where "free_merge h m (of_nat (a + 12)) = (of_nat a, m_endAddress h - 8, of_nat (a + n), True, h\<lparr>m_index := ix\<rparr>, m')"
    "ol_wf ix" "ol_room ix" "ol_lo ix = ol_lo (m_index h)" "ol_hi ix = ol_hi (m_index h)" "of_nat (a + n) \<notin> set (ol_items ix m')"
    "header_size m' (of_nat a) = of_nat (n + k)" "header_is_hole m' (of_nat a) = 1"
    "same_outside (ol_lo (m_index h)) (a + n) m m'"
proof -
  note inv' = heap_invD [OF inv]
  define m2 where "m2 = set_size (set_is_hole m (of_nat a) True) (of_nat a) (of_nat n + of_nat k)"
  obtain i where i: "free_merge h m (of_nat (a + 12)) =
      (of_nat a, of_nat (a + n) + header_size m2 (of_nat (a + n)) - 8, of_nat (a + n), True,
       h\<lparr>m_index := fst (Remove (m_index h) m2 i)\<rparr>, snd (Remove (m_index h) m2 i))"
      "i < Size (m_index h)" "ol_items (m_index h) m2 ! unat i = of_nat (a + n)"
      "ol_items (m_index h) m2 = ol_items (m_index h) m" "same_outside a (a + n) m m2"
    unfolding m2_def by (rule free_right_run [OF inv guard no_hole a])
  obtain ix m' where del: "Remove (m_index h) m2 i = (ix, m')" by fastforce
  have E: "a + n + k = unat (m_endAddress h)" "20 \<le> n" "20 \<le> k" "header_ok m (a + n) k True"
    using inv'(1,7) by (simp_all add: blocks_append a add.assoc)
  then have bd: "a + n + k \<le> 4294967295" using unat_le_max32 [of "m_endAddress h"] by simp
  have "header_ok m2 (a + n) k True" using header_ok_frame [OF i(5), of "a + n"] E bd by simp
  then have "header_size m2 (of_nat (a + n)) = of_nat k" by (simp add: header_ok_def)
  moreover have "m_endAddress h = of_nat (a + n + k)" unfolding E(1) by simp
  ultimately have foot: "of_nat (a + n) + header_size m2 (of_nat (a + n)) - 8 = m_endAddress h - 8" by simp
  note D = ol.items_del [OF inv'(2) i(2) del] ol.del_keeps [OF del]
  have fr: "same_outside (ol_lo (m_index h)) (ol_hi (m_index h)) m2 m'" using D by blast
  have lo: "ol_lo (m_index h) \<le> ol_hi (m_index h)" "ol_hi (m_index h) \<le> a" using inv'(3) a by (simp_all add: ol_lo_def ol_hi_def)
  have ua: "unat (of_nat a :: u32) = a" using bd by (intro unat_of_nat_le) simp
  show thesis
  proof (rule that [of ix m'])
    show "free_merge h m (of_nat (a + 12)) = (of_nat a, m_endAddress h - 8, of_nat (a + n), True, h\<lparr>m_index := ix\<rparr>, m')"
      unfolding i(1) foot del fst_conv snd_conv ..
    show "of_nat (a + n) \<notin> set (ol_items ix m')"
      using ol.set_del [OF inv'(2) i(2) del] inv'(5) i(3,4) by simp
    have "header_size m' (of_nat a) = header_size m2 (of_nat a)" "header_is_hole m' (of_nat a) = header_is_hole m2 (of_nat a)"
      by (rule header_frame [OF fr]; unfold ua, use bd E lo in auto)+
    then show "header_size m' (of_nat a) = of_nat (n + k)" "header_is_hole m' (of_nat a) = 1" by (simp_all add: m2_def)
    have "same_outside (ol_lo (m_index h)) (a + n) m m2" "same_outside (ol_lo (m_index h)) (a + n) m2 m'"
      by (rule same_outside_mono [OF i(5)], use lo in linarith, simp) (rule same_outside_mono [OF fr], use lo in auto)
    then show "same_outside (ol_lo (m_index h)) (a + n) m m'" by (rule same_outside_trans)
  qed (use D in auto)
qed

lemma Free_at_end_run:
  assumes heap: "kheap s = Some h" and p: "p \<noteq> 0"
    and merge: "free_merge h (ram s) p = (header, m_endAddress h - 8, t, True, h\<lparr>m_index := ix\<rparr>, m1)"
    and contract: "Contract (header - m_startAddress h) (s\<lparr>kheap := Some (h\<lparr>m_index := ix\<rparr>), ram := m1\<rparr>)
      = Inr (N, s\<lparr>ram := m2, kheap := Some (h\<lparr>m_index := ix, m_endAddress := e\<rparr>)\<rparr>)"
    and gone: "header_size m2 header = heap_length h - N" and t: "t \<notin> set (ol_items ix m2)"
    and ins: "Insert ix m2 header = (ix3, m3)"
  shows "Free p s = Inr (s\<lparr>ram := m3, kheap := Some (h\<lparr>m_index := ix3, m_endAddress := e\<rparr>)\<rparr>)"
proof -
  have none: "\<not> scan (\<lambda>i. GetItemAtIndex ix m2 i = t) (Size ix) 0 < Size ix"
  proof
    assume "scan (\<lambda>i. GetItemAtIndex ix m2 i = t) (Size ix) 0 < Size ix"
    note found = this ol.search_spec(1) [where ix = ix and m = m2 and p = "\<lambda>x. x = t", OF this]
    then have "ol_items ix m2 ! unat (scan (\<lambda>i. GetItemAtIndex ix m2 i = t) (Size ix) 0) \<in> set (ol_items ix m2)"
      using ol.size_items [of ix m2] by (intro nth_mem) (simp add: word_less_unat)
    with found(2) t show False by simp
  qed
  have len: "heap_length (h\<lparr>m_index := ix\<rparr>) = heap_length h" by (simp add: heap_length_def)
  show ?thesis
    using heap p merge contract gone none ins by (simp add: Free_def heap_sizes Let_def len)
qed

text \<open>
  The paging of a heap that ends on a page boundary: the pages from the address \<open>a\<close> to the end are mapped.
\<close>

definition shrinkable :: "u32 \<Rightarrow> nat \<Rightarrow> nat \<Rightarrow> Heap \<Rightarrow> kernel \<Rightarrow> bool" where
  "shrinkable dir a b h s \<longleftrightarrow> paging_ok dir (s\<lparr>kheap := None\<rparr>) \<and> kernel_directory s = dir \<and> 256 \<le> frame_limit s
     \<and> m_endAddress h = of_nat b * 0x1000 \<and> b < 1048576 \<and> unat (placement_address s) \<le> ol_lo (m_index h)
     \<and> (\<forall>q. a div 4096 < q \<and> q < b \<longrightarrow> page_flag Present (entry (ram s) dir q))"

lemma present_table: "page_flag Present (entry m dir q) \<Longrightarrow> dir_Table m dir (of_nat (q div 1024)) \<noteq> 0"
  by (auto simp: entry_def page_flag_def)

text \<open>Contract after the merge, which changed the index and the memory of the heap only.\<close>

lemma Contract_merged:
  assumes paging: "shrinkable dir a b h s" and a: "a < 4096 * b" and low: "\<And>x. unat x < unat (placement_address s) \<Longrightarrow> m1 x = ram s x"
    and N: "N = of_nat a - m_startAddress h" "\<not> bit N 12" "HEAP_MIN_SIZE \<le> N" "unat N + (4096 * b - a) \<le> 4294967295"
  obtains m2 where "Contract N (s\<lparr>kheap := Some (h\<lparr>m_index := ix\<rparr>), ram := m1\<rparr>)
      = Inr (N, s\<lparr>ram := m2, kheap := Some (h\<lparr>m_index := ix, m_endAddress := of_nat a\<rparr>)\<rparr>)"
    "\<forall>q. a div 4096 < q \<and> q < b \<longrightarrow> entry m2 dir q = with_Frame 0 (entry (ram s) dir q)"
    "same_outside 0 (unat (placement_address s)) m1 m2" "paging_ok dir (s\<lparr>ram := m2, kheap := None\<rparr>)"
proof -
  let ?s = "s\<lparr>kheap := Some (h\<lparr>m_index := ix\<rparr>), ram := m1\<rparr>"
  have P: "paging_ok dir (s\<lparr>kheap := None\<rparr>)" "kernel_directory s = dir" "256 \<le> frame_limit s" "m_endAddress h = of_nat b * 0x1000"
      "b < 1048576" "\<And>q. a div 4096 < q \<Longrightarrow> q < b \<Longrightarrow> page_flag Present (entry (ram s) dir q)"
    using paging by (simp_all add: shrinkable_def)
  have ok: "paging_ok dir (?s\<lparr>kheap := None\<rparr>)" by (rule paging_ok_below [OF P(1)]) (simp_all add: low)
  have ent: "entry m1 dir q = entry (ram s) dir q" if "q < 1048576" for q
    using entry_below [OF P(1) that, of m1] low by simp
  have C: "kheap ?s = Some (h\<lparr>m_index := ix\<rparr>)" "kernel_directory ?s = dir" "256 \<le> frame_limit ?s"
      "m_endAddress (h\<lparr>m_index := ix\<rparr>) = of_nat b * 0x1000" "N = of_nat a - m_startAddress (h\<lparr>m_index := ix\<rparr>)"
    using P(2-4) N(1) by (simp_all add: frame_limit_def)
  have tabs: "dir_Table (ram ?s) dir (of_nat (q div 1024)) \<noteq> 0" if "a div 4096 < q" "q < b" for q
    using P(5) P(6) [of q] ent [of q] that by (intro present_table) simp
  obtain m2 where m2: "Contract N ?s = Inr (N, s\<lparr>ram := m2, kheap := Some (h\<lparr>m_index := ix, m_endAddress := of_nat a\<rparr>)\<rparr>)"
      "\<And>q. a div 4096 < q \<Longrightarrow> q < b \<Longrightarrow> entry m2 dir q = with_Frame 0 (entry m1 dir q)"
      "\<And>x. unat (placement_address s) \<le> unat x \<Longrightarrow> m2 x = m1 x" "paging_ok dir (s\<lparr>ram := m2, kheap := None\<rparr>)"
    using Contract_frees [OF C(1) ok C(2-4) P(5) a C(5) N(2-4) tabs] by auto
  have "\<forall>q. a div 4096 < q \<and> q < b \<longrightarrow> entry m2 dir q = with_Frame 0 (entry (ram s) dir q)" using m2(2) ent P(5) by simp
  moreover have "same_outside 0 (unat (placement_address s)) m1 m2" using m2(3) by (simp add: same_outside_def)
  ultimately show thesis using that m2(1,4) by blast
qed

lemma hole_behind_end:
  assumes "a \<le> 4294967295" and mem: "of_nat a \<in> set (ol_items (m_index h) m)" and e: "m_endAddress h = of_nat a"
  shows "\<not> heap_inv h m lo bs"
proof
  assume "heap_inv h m lo bs"
  note bad = heap_invD [OF this]
  have ua: "unat (of_nat a :: u32) = a" using assms(1) by (rule unat_of_nat_le)
  from mem bad(6) have "of_nat a \<in> (of_nat ` set (holes lo bs) :: u32 set)" by simp
  then obtain x where x: "x \<in> set (holes lo bs)" "of_nat a = (of_nat x :: u32)" by (rule imageE)
  have le: "x + 20 \<le> a" using holes_bounds [OF bad(1) x(1)] ua e by simp
  then have "unat (of_nat x :: u32) = x" using assms(1) by (intro unat_of_nat_le) simp
  then have "x = a" using x(2) ua by metis
  with le show False by simp
qed

text \<open>A page that lost its frame and stayed present shows frame 0.\<close>

lemma translate_freed:
  assumes ok: "paging_ok dir (s\<lparr>kheap := None\<rparr>)" and low: "\<And>y. unat y < unat (placement_address s) \<Longrightarrow> m y = ram s y"
    and e: "entry (ram s) dir (unat x div 4096) = with_Frame 0 e" "page_flag Present e"
  shows "translate m (dir + 4096) x = Some (x mod 0x1000)"
proof -
  have "paging_ok dir (s\<lparr>ram := m, kheap := None\<rparr>)" by (rule paging_ok_below [OF ok]) (simp_all add: low)
  from paging_okD(6) [OF this] have t: "tables_ok m dir (unat dir + 8196) (unat (placement_address s))" by simp
  have "unat x div 4096 < 1048576" using unat_lt_2p32 [of x] by linarith
  then have "entry m dir (unat x div 4096) = with_Frame 0 e" using entry_below [OF ok, of _ m] low e(1) by simp
  then show ?thesis using e(2) by (simp add: translate_entry [OF t] Let_def page_flag_with_Frame page_Frame_with_Frame)
qed

text \<open>
  C16: when Free merges the freed block with the hole behind it and this hole ends the heap, the heap is
  cut off at the header of the block, but the block is entered in the index as a hole of its full
  size: the index then has a hole behind the end of the heap, and no tiling satisfies the invariant.
  The pages behind the first one lose their frames and stay present, so all their addresses show
  the first page of physical memory.
\<close>

theorem Free_at_end_leaves_hole_outside:
  assumes heap: "kheap s = Some h" and inv: "heap_inv h (ram s) lo (bs1 @ [(n, False), (k, True)])"
    and guard: "guard_below (ram s) lo bs1" and left: "\<forall>bs0 j. bs1 \<noteq> bs0 @ [(j, True)]"
    and a: "a = lo + extent bs1" and paging: "shrinkable dir a b h s"
    and N: "N = of_nat a - m_startAddress h" "\<not> bit N 12" "HEAP_MIN_SIZE \<le> N" "unat N + (n + k) \<le> 4294967295"
  shows "\<exists>s' h'. Free (of_nat (a + 12)) s = Inr s' \<and> kheap s' = Some h' \<and> m_endAddress h' = of_nat a
    \<and> of_nat a \<in> set (ol_items (m_index h') (ram s')) \<and> header_size (ram s') (of_nat a) = of_nat (n + k)
    \<and> (\<forall>lo' bs'. \<not> heap_inv h' (ram s') lo' bs')
    \<and> (\<forall>x. 4096 * (a div 4096 + 1) \<le> unat x \<and> unat x < a + n + k \<longrightarrow>
         translate (ram s') (dir + 4096) x = Some (x mod 0x1000))"
proof -
  note inv' = heap_invD [OF inv]
  have P: "paging_ok dir (s\<lparr>kheap := None\<rparr>)" "kernel_directory s = dir" "256 \<le> frame_limit s" "m_endAddress h = of_nat b * 0x1000"
      "b < 1048576" "unat (placement_address s) \<le> ol_lo (m_index h)"
      "\<And>q. a div 4096 < q \<Longrightarrow> q < b \<Longrightarrow> page_flag Present (entry (ram s) dir q)"
    using paging by (simp_all add: shrinkable_def)
  have E: "a + n + k = 4096 * b" "20 \<le> n" "20 \<le> k"
    using inv'(1,7) P(4,5) unat_page [of b] by (simp_all add: blocks_append a add.assoc)
  have bd: "a + n + k \<le> 4294967295" using E(1) P(5) by simp
  obtain ix m1 where M: "free_merge h (ram s) (of_nat (a + 12)) = (of_nat a, m_endAddress h - 8, of_nat (a + n), True, h\<lparr>m_index := ix\<rparr>, m1)"
      "ol_wf ix" "ol_room ix" "ol_lo ix = ol_lo (m_index h)" "ol_hi ix = ol_hi (m_index h)" "of_nat (a + n) \<notin> set (ol_items ix m1)"
      "header_size m1 (of_nat a) = of_nat (n + k)" "header_is_hole m1 (of_nat a) = 1" "same_outside (ol_lo (m_index h)) (a + n) (ram s) m1"
    by (rule merged_at_end [OF inv guard left [rule_format] a])
  have low1: "m1 x = ram s x" if "unat x < unat (placement_address s)" for x
    using that P(6) same_outside_byte [OF M(9), of x] by simp
  have N4: "unat N + (4096 * b - a) \<le> 4294967295" "a < 4096 * b" using N(4) E by (simp_all flip: E(1))
  obtain m2 where m2: "Contract N (s\<lparr>kheap := Some (h\<lparr>m_index := ix\<rparr>), ram := m1\<rparr>)
        = Inr (N, s\<lparr>ram := m2, kheap := Some (h\<lparr>m_index := ix, m_endAddress := of_nat a\<rparr>)\<rparr>)"
      "\<forall>q. a div 4096 < q \<and> q < b \<longrightarrow> entry m2 dir q = with_Frame 0 (entry (ram s) dir q)"
      "same_outside 0 (unat (placement_address s)) m1 m2" "paging_ok dir (s\<lparr>ram := m2, kheap := None\<rparr>)"
    by (rule Contract_merged [OF paging N4(2) low1 N(1-3) N4(1)])
  have hi: "ol_hi ix \<le> a" "unat (placement_address s) \<le> ol_lo ix" "ol_lo ix \<le> ol_hi ix"
    using inv'(3) a P(6) M(4,5) by (simp_all add: ol_lo_def ol_hi_def)
  have ua: "unat (of_nat a :: u32) = a" using bd by (intro unat_of_nat_le) simp
  have size2: "header_size m2 (of_nat a) = of_nat (n + k)"
    using header_frame(3) [OF m2(3), of "of_nat a"] M(7) hi bd E ua by simp
  have items2: "ol_items ix m2 = ol_items ix m1" by (rule ol.items_frame [OF M(2) m2(3)]) (use hi in simp)
  obtain ix3 m3 where ins: "Insert ix m2 (of_nat a) = (ix3, m3)" by fastforce
  have fr3: "same_outside (ol_lo ix) (ol_hi ix) m2 m3" using ol.items_ins [OF M(2,3) ins] by blast
  have "m_endAddress h = of_nat (a + n + k)" unfolding E(1) P(4) by simp
  then have len: "heap_length h - N = of_nat (n + k)" by (simp add: heap_length_def N(1))
  have "(of_nat (a + 12) :: u32) \<noteq> 0" using bd E unat_of_nat_le [of "a + 12"] by (auto simp del: of_nat_add)
  then have run: "Free (of_nat (a + 12)) s = Inr (s\<lparr>ram := m3, kheap := Some (h\<lparr>m_index := ix3, m_endAddress := of_nat a\<rparr>)\<rparr>)"
    by (rule Free_at_end_run [OF heap _ M(1) m2(1) [unfolded N(1)] _ _ ins])
       (use len M(6) in \<open>simp_all only: items2 size2 N(1) not_False_eq_True\<close>)
  have mem: "of_nat a \<in> set (ol_items ix3 m3)" unfolding ol.set_ins [OF M(2,3) ins] by (rule insertI1)
  have size3: "header_size m3 (of_nat a) = of_nat (n + k)"
    using header_frame(3) [OF fr3, of "of_nat a"] size2 hi bd E ua by simp
  have out: "\<not> heap_inv (h\<lparr>m_index := ix3, m_endAddress := of_nat a\<rparr>) m3 lo' bs'" for lo' bs'
    by (rule hole_behind_end [of a]) (use bd mem in simp_all)
  have "translate m3 (dir + 4096) x = Some (x mod 0x1000)" if x: "4096 * (a div 4096 + 1) \<le> unat x" "unat x < a + n + k" for x
  proof -
    have "a div 4096 + 1 \<le> unat x div 4096" using x(1) by (simp add: less_eq_div_iff_mult_less_eq mult.commute)
    moreover have "unat x div 4096 < b" using x(2) unfolding E(1) by (simp add: div_less_iff_less_mult mult.commute)
    ultimately have q: "a div 4096 < unat x div 4096" "unat x div 4096 < b" by simp_all
    have low3: "m3 y = m2 y" if "unat y < unat (placement_address s)" for y
      using that hi(2) same_outside_byte [OF fr3, of y] by simp
    show ?thesis by (rule translate_freed [OF m2(4)]) (use low3 m2(2) q P(7) [OF q] in simp_all)
  qed
  then show ?thesis using run mem size3 out by auto
qed

text \<open>A block in front of the last hole of the kernel's heap, right after initialise_paging.\<close>

lemma booted_block:
  obtains s1 s2 h2 where "initialise_paging 5000 demo_junk demo_kernel = Inr s1"
    "kmalloc 5000 5000 False False s1 = Inr (0xC0083018, None, s2)" "kheap s2 = Some h2"
    "heap_inv h2 (ram s2) 0xC0080000 ([(4084, True), (8216, False)] @ [(5020, False), (506968, True)])"
    "m_startAddress h2 = 0xCFFFF000" "shrinkable (kernel_directory s1) 0xC008300C 0xC0100 h2 s2"
proof -
  obtain s1 h j where r: "initialise_paging 5000 demo_junk demo_kernel = Inr s1" "kheap s1 = Some h"
      "heap_inv h (ram s1) 0xC0080000 boot_blocks" "m_startAddress h = 0xCFFFF000"
      "can_grow (kernel_directory s1) (j + 256) 0xC0100 (0xC0100 + (0 + 20 + 4095) div 4096) h (0 + 20) s1" "frame_limit s1 = 4096"
      "\<forall>x. 0xC0000000 \<le> unat x \<and> unat x < 0xC0100000 \<longrightarrow> translate (ram s1) (kernel_directory s1 + 4096) x \<noteq> None"
    by (rule booted_can_grow [OF demo_kernel(1) _ demo_kernel(2), of 5000 0 demo_junk]) simp_all
  let ?dir = "kernel_directory s1"
  have g: "growable ?dir (j + 256) s1" "unat (placement_address s1) \<le> ol_lo (m_index h)" using r(5) by (simp_all add: can_grow_def)
  have hole: "(511988, True) \<in> set boot_blocks" "5000 + 20 \<le> (511988 :: nat)" by (simp_all add: boot_blocks_def)
  from Alloc_spec [OF r(2,3) hole, of 4999] obtain p s2 h2 bs1 k bs2 where A:
      "Alloc (Suc 4999) (of_nat 5000) False s1 = Inr (p, s2)" "boot_blocks = bs1 @ (k, True) # bs2" "5000 + 20 \<le> k"
      "p = of_nat (0xC0080000 + extent bs1 + 12)" "kheap s2 = Some h2" "heap_inv h2 (ram s2) 0xC0080000 (bs1 @ carve (5000 + 20) k @ bs2)"
      "\<forall>x. (unat x < ol_lo (m_index h) \<or> ol_hi (m_index h) \<le> unat x)
         \<and> (unat x < 0xC0080000 + extent bs1 \<or> 0xC0080000 + extent bs1 + k \<le> unat x) \<longrightarrow> ram s2 x = ram s1 x"
    by (elim exE conjE) (rule that; assumption)
  have pos: "bs1 = [(4084, True), (8216, False)]" "k = 511988" "bs2 = []"
    using A(2,3) by (auto simp: boot_blocks_def Cons_eq_append_conv)
  note found = large_hole_found [OF r(3) hole]
  have st: "s2 = s1\<lparr>kheap := kheap s2, ram := ram s2\<rparr>" by (rule Alloc_state [OF r(2) found A(1)])
  have ix: "index_place h2 = index_place h" by (rule Alloc_index [OF r(2) found A(1,5)])
  have inv: "heap_inv h2 (ram s2) 0xC0080000 ([(4084, True), (8216, False)] @ [(5020, False), (506968, True)])"
    using A(6) by (simp add: pos carve_def)
  have lo: "ol_lo (m_index h) \<le> 0xC0080000" using heap_invD(3) [OF r(3)] by (simp add: ol_lo_def ol_hi_def)
  have low: "ram s2 x = ram s1 x" if "unat x < unat (placement_address s1)" for x using A(7) g(2) lo that by simp
  obtain u m where s2: "s2 = s1\<lparr>kheap := u, ram := m\<rparr>" using st by blast
  have "growable ?dir (j + 256) s2" by (rule growable_below(1) [OF g(1)]) (use low g(1) in \<open>simp_all add: s2 growable_def\<close>)
  then have ok: "paging_ok ?dir (s2\<lparr>kheap := None\<rparr>)" by (simp add: growable_def)
  have dirs: "kernel_directory s2 = ?dir" "frame_limit s2 = 4096" "placement_address s2 = placement_address s1"
    using r(6) by (simp_all add: s2 frame_limit_def)
  have "unat (m_endAddress h2) = unat (0xC0100000 :: u32)" using heap_invD(7) [OF inv] by simp
  then have e: "m_endAddress h2 = 0xC0100000" by (simp only: word_eq_unat)
  have ok1: "paging_ok ?dir (s1\<lparr>kheap := None\<rparr>)" using g(1) by (simp add: growable_def)
  have t: "tables_ok (ram s1) ?dir (unat ?dir + 8196) (unat (placement_address s1))" using paging_okD(6) [OF ok1] by simp
  have present: "page_flag Present (entry (ram s2) ?dir q)" if q: "0xC0083 < q" "q < 0xC0100" for q
  proof -
    have uq: "unat (of_nat q * 0x1000 :: u32) = 4096 * q" using q by (intro unat_page) simp
    then have "translate (ram s1) (?dir + 4096) (of_nat q * 0x1000) \<noteq> None" using r(7) q by simp
    then have "page_flag Present (entry (ram s1) ?dir q)"
      by (simp add: translate_entry [OF t] uq Let_def split: if_splits)
    moreover have "entry (ram s2) ?dir q = entry (ram s1) ?dir q" using entry_below [OF ok1, of q "ram s2"] low q by simp
    ultimately show ?thesis by simp
  qed
  have "unat (placement_address s2) \<le> ol_lo (m_index h2)" using g(2) ix dirs(3) by (simp add: index_place_def ol_lo_def)
  with ok dirs e present have shrink: "shrinkable ?dir 0xC008300C 0xC0100 h2 s2" by (simp add: shrinkable_def)
  have "kmalloc 5000 5000 False False s1 = Inr (0xC0083018, None, s2)"
    using A(1,4) r(2) pos(1) by (simp add: kmalloc_def kmalloc_with_def del: Alloc.simps)
  then show thesis using that [OF r(1) _ A(5) inv _ shrink] ix r(4) by (simp add: index_place_def)
qed

theorem Free_at_end_leaves_hole_outside_witness:
  "\<exists>s1 s2 s3 h. initialise_paging 5000 demo_junk demo_kernel = Inr s1
     \<and> kmalloc 5000 5000 False False s1 = Inr (0xC0083018, None, s2) \<and> kfree 0xC0083018 s2 = Inr s3
     \<and> kheap s3 = Some h \<and> m_endAddress h = 0xC008300C \<and> 0xC008300C \<in> set (ol_items (m_index h) (ram s3))
     \<and> translate (ram s3) (kernel_directory s1 + 4096) 0xC0084000 = Some 0"
proof -
  obtain s1 s2 h2 where b: "initialise_paging 5000 demo_junk demo_kernel = Inr s1"
      "kmalloc 5000 5000 False False s1 = Inr (0xC0083018, None, s2)" "kheap s2 = Some h2"
      "heap_inv h2 (ram s2) 0xC0080000 ([(4084, True), (8216, False)] @ [(5020, False), (506968, True)])"
      "m_startAddress h2 = 0xCFFFF000" "shrinkable (kernel_directory s1) 0xC008300C 0xC0100 h2 s2"
    by (rule booted_block)
  have h: "guard_below (ram s2) 0xC0080000 [(4084, True), (8216, False)]" "\<forall>bs0 j. [(4084, True), (8216, False)] \<noteq> bs0 @ [(j, True)]"
      "0xC008300C = 0xC0080000 + extent [(4084, True), (8216, False)]" "(0xF008400C :: u32) = of_nat 0xC008300C - m_startAddress h2"
      "\<not> bit (0xF008400C :: u32) 12" "HEAP_MIN_SIZE \<le> 0xF008400C" "unat (0xF008400C :: u32) + (5020 + 506968) \<le> 4294967295"
    using b(5) by (simp_all add: guard_below_def HEAP_MIN_SIZE_def)
  from Free_at_end_leaves_hole_outside [OF b(3,4) h(1-3) b(6) h(4-7)] obtain s3 h3 where r:
      "Free (of_nat (0xC008300C + 12)) s2 = Inr s3" "kheap s3 = Some h3" "m_endAddress h3 = of_nat 0xC008300C"
      "of_nat 0xC008300C \<in> set (ol_items (m_index h3) (ram s3))"
      "\<forall>x. 4096 * (0xC008300C div 4096 + 1) \<le> unat x \<and> unat x < 0xC008300C + 5020 + 506968 \<longrightarrow>
         translate (ram s3) (kernel_directory s1 + 4096) x = Some (x mod 0x1000)"
    by (elim exE conjE) (rule that; assumption)
  have "translate (ram s3) (kernel_directory s1 + 4096) 0xC0084000 = Some (0xC0084000 mod 0x1000)"
    by (rule r(5) [rule_format]) simp
  moreover have "kfree 0xC0083018 s2 = Inr s3" using r(1) b(3) by (simp add: kfree_def)
  ultimately show ?thesis using b(1,2) r(2-4) by auto
qed

end
