(* ===== verification/Frame_Allocator.thy ===== *)
theory Frame_Allocator
  imports Page_Frames
begin

text \<open>
  \<^verbatim>\<open>kernel/PageFrameAllocator.cpp\<close>: the frame allocator as a file of its own, with its own bitmap
  pointer and frame count. The Makefile does not link it, the kernel uses the functions of the same
  names of \<^verbatim>\<open>kernel/paging.cpp\<close>. It is modelled from its source, over its own state, and shown to agree
  with those on every state and every branch, to be a frame pool, and to give out every frame once.
\<close>

subsection \<open>State and operations\<close>

record allocator =
  pfa_ram :: memory
  pfa_frames :: u32
  pfa_nframes :: u32

definition pfa_word :: "allocator \<Rightarrow> u32 \<Rightarrow> u32" where
  "pfa_word s idx = load32 (pfa_ram s) (pfa_frames s + 4 * idx)"

definition pfa_store :: "u32 \<Rightarrow> u32 \<Rightarrow> allocator \<Rightarrow> allocator" where
  "pfa_store a w s = s\<lparr>pfa_ram := store32 (pfa_ram s) a w\<rparr>"

definition pfa_set_frame :: "u32 \<Rightarrow> allocator \<Rightarrow> allocator" where
  "pfa_set_frame frame_addr s =
     (let frame = frame_addr div 0x1000; idx = INDEX_FROM_BIT frame; off = OFFSET_FROM_BIT frame
      in pfa_store (pfa_frames s + 4 * idx) (pfa_word s idx OR push_bit (unat off) 1) s)"

definition pfa_clear_frame :: "u32 \<Rightarrow> allocator \<Rightarrow> allocator" where
  "pfa_clear_frame frame_addr s =
     (let frame = frame_addr div 0x1000; idx = INDEX_FROM_BIT frame; off = OFFSET_FROM_BIT frame
      in pfa_store (pfa_frames s + 4 * idx) (pfa_word s idx AND NOT (push_bit (unat off) 1)) s)"

definition pfa_test_frame :: "u32 \<Rightarrow> allocator \<Rightarrow> u32" where
  "pfa_test_frame frame_addr s =
     (let frame = frame_addr div 0x1000; idx = INDEX_FROM_BIT frame; off = OFFSET_FROM_BIT frame
      in pfa_word s idx AND push_bit (unat off) 1)"

text \<open>
  The loops of first_frame as searches through the values of their counters, which stay below \<open>2^32\<close>.
  Behind the last word control flows off the end of the function.
\<close>

definition pfa_free_bit :: "u32 \<Rightarrow> nat option" where
  "pfa_free_bit w = find (\<lambda>j. w AND push_bit j 1 = 0) [0..<32]"

primrec pfa_scan :: "allocator \<Rightarrow> nat list \<Rightarrow> fault + u32" where
  "pfa_scan s [] = Inl MissingReturn"
| "pfa_scan s (i # is) =
     (if pfa_word s (of_nat i) \<noteq> 0xFFFFFFFF then
        (case pfa_free_bit (pfa_word s (of_nat i)) of
           Some j \<Rightarrow> Inr (of_nat i * 4 * 8 + of_nat j)
         | None \<Rightarrow> pfa_scan s is)
      else pfa_scan s is)"

definition pfa_first_frame :: "allocator \<Rightarrow> fault + u32" where
  "pfa_first_frame s = pfa_scan s [0..<unat (INDEX_FROM_BIT (pfa_nframes s))]"

definition pfa_update_page :: "(u32 \<Rightarrow> u32) \<Rightarrow> u32 \<Rightarrow> allocator \<Rightarrow> allocator" where
  "pfa_update_page g page s = pfa_store page (g (load32 (pfa_ram s) page)) s"

definition pfa_alloc_frame :: "u32 \<Rightarrow> bool \<Rightarrow> bool \<Rightarrow> allocator \<Rightarrow> fault + allocator" where
  "pfa_alloc_frame page isKernel isWritable s =
     (if page_Frame (load32 (pfa_ram s) page) \<noteq> 0 then Inr s
      else rbind (pfa_first_frame s) (\<lambda>idx.
        if idx = -1 then Inl (Spin ''No free frames!'')
        else let s = pfa_set_frame (idx * 0x1000) s;
                 s = pfa_update_page (with_flag Present True) page s;
                 s = pfa_update_page (with_flag ReadWrite isWritable) page s;
                 s = pfa_update_page (with_flag User (\<not> isKernel)) page s;
                 s = pfa_update_page (with_Frame idx) page s
             in Inr s))"

definition pfa_free_frame :: "u32 \<Rightarrow> allocator \<Rightarrow> allocator" where
  "pfa_free_frame page s =
     (let frame = page_Frame (load32 (pfa_ram s) page)
      in if frame = 0 then s
         else pfa_update_page (with_Frame 0) page (pfa_clear_frame frame s))"

subsection \<open>Agreement with paging.cpp\<close>

definition allocator_of :: "kernel \<Rightarrow> allocator" where
  "allocator_of s = \<lparr>pfa_ram = ram s, pfa_frames = frames s, pfa_nframes = nframes s\<rparr>"

lemma allocator_of_sel [simp]:
  "pfa_ram (allocator_of s) = ram s" "pfa_frames (allocator_of s) = frames s" "pfa_nframes (allocator_of s) = nframes s"
  "pfa_word (allocator_of s) = frame_word s"
  by (simp_all add: allocator_of_def pfa_word_def frame_word_def fun_eq_iff)

lemma pfa_store_of: "pfa_store a w (allocator_of s) = allocator_of (s\<lparr>ram := store32 (ram s) a w\<rparr>)"
  by (simp add: pfa_store_def allocator_of_def)

lemma pfa_set_frame_of: "pfa_set_frame a (allocator_of s) = allocator_of (set_frame a s)"
  by (simp add: pfa_set_frame_def set_frame_def set_frame_word_def Let_def pfa_store_of)

lemma pfa_clear_frame_of: "pfa_clear_frame a (allocator_of s) = allocator_of (clear_frame a s)"
  by (simp add: pfa_clear_frame_def clear_frame_def set_frame_word_def Let_def pfa_store_of)

lemma pfa_update_page_of: "pfa_update_page g p (allocator_of s) = allocator_of (update_page g p s)"
  by (simp add: pfa_update_page_def update_page_def pfa_store_of)

text \<open>The searches agree: both deliver the lowest clear bit.\<close>

lemma first_clear_bit_find:
  "j \<le> 32 \<Longrightarrow> first_clear_bit w j = map_option of_nat (find (\<lambda>i. w AND push_bit i 1 = 0) [unat j..<32])"
proof (induction w j rule: first_clear_bit.induct)
  case (1 w j)
  show ?case
  proof (cases "j < 32")
    case True
    then have u: "unat (j + 1) = Suc (unat j)" "unat j < 32" "j + 1 \<le> 32"
      using unat_plus_one [of j 32] inc_le [of j 32] by (simp_all add: word_less_unat)
    then show ?thesis
      using "1.IH" [OF True refl] True by (simp add: first_clear_bit.simps [of w j] upt_conv_Cons)
  next
    case False
    then have "\<not> unat j < 32" by (simp add: word_less_unat)
    then show ?thesis using False by (simp add: first_clear_bit.simps [of w j])
  qed
qed

lemma pfa_free_bit_first: "map_option of_nat (pfa_free_bit w) = first_clear_bit w 0"
  by (simp add: pfa_free_bit_def first_clear_bit_find)

lemma pfa_scan_of:
  "first_frame_from s i = pfa_scan (allocator_of s) [unat i..<unat (INDEX_FROM_BIT (nframes s))]"
proof (induction s i rule: first_frame_from.induct)
  case (1 s i)
  show ?case
  proof (cases "i < INDEX_FROM_BIT (nframes s)")
    case True
    then have u: "unat (i + 1) = Suc (unat i)" by (rule unat_plus_one)
    have less: "unat i < unat (INDEX_FROM_BIT (nframes s))" using True by (simp add: word_less_unat)
    have b: "first_clear_bit (frame_word s i) 0 = map_option of_nat (pfa_free_bit (frame_word s i))"
      by (simp add: pfa_free_bit_first)
    show ?thesis
      using "1.IH" True less u b
      by (cases "pfa_free_bit (frame_word s i)") (simp_all add: first_frame_from.simps [of s i] upt_conv_Cons)
  next
    case False
    then show ?thesis by (simp add: first_frame_from.simps [of s i] word_less_unat)
  qed
qed

lemma pfa_first_frame_of: "pfa_first_frame (allocator_of s) = first_frame s"
  by (simp add: pfa_first_frame_def first_frame_def pfa_scan_of)

lemma pfa_alloc_frame_of:
  "pfa_alloc_frame page k w (allocator_of s) = map_sum id allocator_of (alloc_frame page k w s)"
  by (cases "first_frame s")
     (simp_all add: pfa_alloc_frame_def alloc_frame_def pfa_first_frame_of pfa_set_frame_of pfa_update_page_of Let_def)

lemma pfa_free_frame_of: "pfa_free_frame page (allocator_of s) = allocator_of (free_frame page s)"
  by (simp add: pfa_free_frame_def free_frame_def pfa_clear_frame_of pfa_update_page_of Let_def)

text \<open>
  The frame allocator of PageFrameAllocator.cpp and the one of paging.cpp do the same to the
  bitmap and the page table entries, on every state and also where they fail, so the kernel behaves the
  same with either of them linked.
\<close>

lemma frame_allocators_agree:
  "allocator_of (set_frame a s) = pfa_set_frame a (allocator_of s)
    \<and> allocator_of (clear_frame a s) = pfa_clear_frame a (allocator_of s)
    \<and> test_frame a s = pfa_test_frame a (allocator_of s)
    \<and> first_frame s = pfa_first_frame (allocator_of s)
    \<and> map_sum id allocator_of (alloc_frame page isKernel isWritable s) = pfa_alloc_frame page isKernel isWritable (allocator_of s)
    \<and> allocator_of (free_frame page s) = pfa_free_frame page (allocator_of s)"
  by (simp add: pfa_set_frame_of pfa_clear_frame_of pfa_first_frame_of pfa_alloc_frame_of pfa_free_frame_of
      test_frame_def pfa_test_frame_def Let_def)

subsection \<open>The allocator is a frame pool\<close>

definition kernel_with :: "allocator \<Rightarrow> kernel" where
  "kernel_with r = empty_bitmap_kernel (pfa_ram r)\<lparr>frames := pfa_frames r, nframes := pfa_nframes r\<rparr>"

lemma allocator_of_kernel_with [simp]: "allocator_of (kernel_with r) = r"
  by (simp add: allocator_of_def kernel_with_def empty_bitmap_kernel_def)

definition pfa_used :: "allocator \<Rightarrow> nat \<Rightarrow> bool" where
  "pfa_used r f \<longleftrightarrow> bit (pfa_word r (of_nat (f div 32))) (f mod 32)"

definition pfa_limit :: "allocator \<Rightarrow> nat" where
  "pfa_limit r = 32 * unat (INDEX_FROM_BIT (pfa_nframes r))"

definition pfa_ok :: "allocator \<Rightarrow> bool" where
  "pfa_ok r \<longleftrightarrow> pfa_nframes r \<le> 0x100000 \<and> arr_wf (pfa_frames r, unat (INDEX_FROM_BIT (pfa_nframes r)))"

lemma pfa_view:
  "pfa_used (allocator_of s) f = frame_used s f" "pfa_limit (allocator_of s) = frame_limit s" "pfa_ok (allocator_of s) = bitmap_ok s"
  by (simp_all add: pfa_used_def frame_used_def pfa_limit_def frame_limit_def pfa_ok_def bitmap_ok_def)

lemma allocator_cases: obtains s where "r = allocator_of s"
  using allocator_of_kernel_with [of r] by metis

interpretation copied: frame_pool pfa_used pfa_limit pfa_ok
    "\<lambda>f. pfa_set_frame (of_nat f * 0x1000)" "\<lambda>f. pfa_clear_frame (of_nat f * 0x1000)"
    "\<lambda>s. map_sum id unat (pfa_first_frame s)"
proof
  fix r f g e
  obtain s where r: "r = allocator_of s" by (rule allocator_cases)
  note [simp] = r pfa_view pfa_set_frame_of pfa_clear_frame_of pfa_first_frame_of
  show "pfa_ok (pfa_set_frame (of_nat f * 0x1000) r) \<and> pfa_limit (pfa_set_frame (of_nat f * 0x1000) r) = pfa_limit r"
    if "pfa_ok r" "f < pfa_limit r" using that pool.claim_ok [of s f] by simp
  show "pfa_used (pfa_set_frame (of_nat f * 0x1000) r) g \<longleftrightarrow> g = f \<or> pfa_used r g"
    if "pfa_ok r" "f < pfa_limit r" "g < pfa_limit r" using that pool.used_claim [of s f g] by simp
  show "pfa_ok (pfa_clear_frame (of_nat f * 0x1000) r) \<and> pfa_limit (pfa_clear_frame (of_nat f * 0x1000) r) = pfa_limit r"
    if "pfa_ok r" "f < pfa_limit r" using that pool.release_ok [of s f] by simp
  show "pfa_used (pfa_clear_frame (of_nat f * 0x1000) r) g \<longleftrightarrow> g \<noteq> f \<and> pfa_used r g"
    if "pfa_ok r" "f < pfa_limit r" "g < pfa_limit r" using that pool.used_release [of s f g] by simp
  show "f < pfa_limit r \<and> \<not> pfa_used r f \<and> (\<forall>g < f. pfa_used r g)"
    if "pfa_ok r" "map_sum id unat (pfa_first_frame r) = Inr f" using that pool.pick_free [of s f] by simp
  show "e = MissingReturn \<and> (\<forall>g < pfa_limit r. pfa_used r g)"
    if "pfa_ok r" "map_sum id unat (pfa_first_frame r) = Inl e" using that pool.pick_none [of s e] by simp
qed

subsection \<open>Every frame is given out once\<close>

text \<open>A page table entry apart from the bitmap, in terms of the addresses of both.\<close>

definition pfa_page :: "allocator \<Rightarrow> u32 \<Rightarrow> bool" where
  "pfa_page r p \<longleftrightarrow> unat p + 4 \<le> 4294967295
     \<and> (unat p + 4 \<le> unat (pfa_frames r) \<or> unat (pfa_frames r) + 4 * unat (INDEX_FROM_BIT (pfa_nframes r)) \<le> unat p)"

definition frame_of :: "allocator \<Rightarrow> u32 \<Rightarrow> nat" where
  "frame_of r p = unat (page_Frame (load32 (pfa_ram r) p))"

definition entries_apart :: "u32 \<Rightarrow> u32 \<Rightarrow> bool" where
  "entries_apart p q \<longleftrightarrow> unat p + 4 \<le> unat q \<or> unat q + 4 \<le> unat p"

primrec pfa_alloc_all :: "bool \<Rightarrow> bool \<Rightarrow> u32 list \<Rightarrow> allocator \<Rightarrow> fault + allocator" where
  "pfa_alloc_all isKernel isWritable [] r = Inr r"
| "pfa_alloc_all isKernel isWritable (p # ps) r =
     rbind (pfa_alloc_frame p isKernel isWritable r) (pfa_alloc_all isKernel isWritable ps)"

text \<open>One request: the lowest free frame, and nothing changes but the entry and the bitmap.\<close>

lemma pfa_alloc_one:
  assumes ok: "pfa_ok r" and sep: "pfa_page r p" and blank: "page_Frame (load32 (pfa_ram r) p) = 0"
    and free: "copied.free_set r \<noteq> {}"
  shows "\<exists>r'. pfa_alloc_frame p isKernel isWritable r = Inr r' \<and> pfa_ok r' \<and> frame_of r' p = Min (copied.free_set r)
    \<and> copied.free_set r' = copied.free_set r - {Min (copied.free_set r)}
    \<and> pfa_limit r' = pfa_limit r \<and> pfa_frames r' = pfa_frames r \<and> pfa_nframes r' = pfa_nframes r
    \<and> (\<forall>q. pfa_page r q \<and> entries_apart p q \<longrightarrow> load32 (pfa_ram r') q = load32 (pfa_ram r) q)"
proof -
  obtain s where r: "r = allocator_of s" by (rule allocator_cases)
  let ?f = "Min (copied.free_set r)"
  have mem: "?f \<in> copied.free_set r" using free by (intro Min_in) simp_all
  then have f: "?f < frame_limit s" "\<not> frame_used s ?f" by (simp_all add: copied.free_set_def r pfa_view)
  have below: "frame_used s g" if "g < ?f" for g
  proof (rule ccontr)
    assume "\<not> frame_used s g"
    then have "g \<in> copied.free_set r" using that f(1) by (simp add: copied.free_set_def r pfa_view)
    then show False using Min_le [OF copied.finite_free_set] that by (meson not_less)
  qed
  have ok': "bitmap_ok s" "page_separate s p" "page_Frame (load32 (ram s) p) = 0"
    using ok sep blank by (auto simp: r pfa_view pfa_page_def page_separate_def)
  obtain s' m1 m2 where s': "alloc_frame p isKernel isWritable s = Inr s'" "page_Frame (load32 (ram s') p) = of_nat ?f"
      "\<forall>g < frame_limit s. frame_used s' g \<longleftrightarrow> g = ?f \<or> frame_used s g" "bitmap_ok s'" "s' = s\<lparr>ram := m2\<rparr>"
      "same_outside (unat p) (unat p + 4) m1 m2"
      "same_outside (unat (frames s)) (unat (frames s) + 4 * unat (INDEX_FROM_BIT (nframes s))) (ram s) m1"
    using alloc_frame_spec [OF ok' f, of isKernel isWritable] below by blast
  have lim: "frame_limit s' = frame_limit s" by (simp add: s'(5) frame_limit_def)
  have "unat (of_nat ?f :: u32) = ?f" using frame_limit_le [OF ok'(1)] f(1) by (intro unat_of_nat32) linarith
  then have "frame_of (allocator_of s') p = ?f" using s'(2) by (simp add: frame_of_def)
  moreover have "copied.free_set (allocator_of s') = copied.free_set r - {?f}"
    using s'(3) lim by (auto simp: copied.free_set_def r pfa_view)
  moreover have "load32 (ram s') q = load32 (ram s) q" if "pfa_page r q" "entries_apart p q" for q
  proof -
    have "load32 m2 q = load32 m1 q" "load32 m1 q = load32 (ram s) q"
      using that by (auto intro!: same_outside_load32 [OF s'(6)] same_outside_load32 [OF s'(7)]
          simp: pfa_page_def entries_apart_def r)
    then show ?thesis by (simp add: s'(5))
  qed
  ultimately show ?thesis
    using s'(1,4) lim by (intro exI [of _ "allocator_of s'"]) (simp add: r pfa_alloc_frame_of pfa_view s'(5))
qed

lemma pfa_alloc_all_spec:
  "pfa_ok r \<Longrightarrow> \<forall>p \<in> set ps. pfa_page r p \<and> page_Frame (load32 (pfa_ram r) p) = 0 \<Longrightarrow> sorted_wrt entries_apart ps \<Longrightarrow>
   length ps \<le> card (copied.free_set r) \<Longrightarrow>
   \<exists>r'. pfa_alloc_all isKernel isWritable ps r = Inr r' \<and> pfa_ok r' \<and> pfa_limit r' = pfa_limit r
     \<and> distinct (map (frame_of r') ps) \<and> set (map (frame_of r') ps) \<subseteq> copied.free_set r
     \<and> copied.free_set r' = copied.free_set r - set (map (frame_of r') ps)
     \<and> (\<forall>q. pfa_page r q \<and> (\<forall>p \<in> set ps. entries_apart p q) \<longrightarrow> load32 (pfa_ram r') q = load32 (pfa_ram r) q)"
proof (induction ps arbitrary: r)
  case (Cons p ps)
  let ?f = "Min (copied.free_set r)"
  have p: "pfa_page r p" "page_Frame (load32 (pfa_ram r) p) = 0" and ne: "copied.free_set r \<noteq> {}"
    using Cons.prems(2,4) by auto
  obtain r1 where r1: "pfa_alloc_frame p isKernel isWritable r = Inr r1" "pfa_ok r1" "frame_of r1 p = ?f"
      "copied.free_set r1 = copied.free_set r - {?f}" "pfa_limit r1 = pfa_limit r" "pfa_frames r1 = pfa_frames r" "pfa_nframes r1 = pfa_nframes r"
      "\<forall>q. pfa_page r q \<and> entries_apart p q \<longrightarrow> load32 (pfa_ram r1) q = load32 (pfa_ram r) q"
    using pfa_alloc_one [OF Cons.prems(1) p ne, of isKernel isWritable] by blast
  have mem: "?f \<in> copied.free_set r" using ne by (intro Min_in) simp_all
  have page: "pfa_page r1 q = pfa_page r q" for q using r1(6,7) by (simp add: pfa_page_def)
  have "\<forall>q \<in> set ps. pfa_page r1 q \<and> page_Frame (load32 (pfa_ram r1) q) = 0"
    using Cons.prems(2,3) r1(8) by (simp add: page)
  moreover have "length ps \<le> card (copied.free_set r1)" using Cons.prems(4) mem by (simp add: r1(4))
  ultimately obtain r' where r': "pfa_alloc_all isKernel isWritable ps r1 = Inr r'" "pfa_ok r'" "pfa_limit r' = pfa_limit r1"
      "distinct (map (frame_of r') ps)" "set (map (frame_of r') ps) \<subseteq> copied.free_set r1"
      "copied.free_set r' = copied.free_set r1 - set (map (frame_of r') ps)"
      "\<forall>q. pfa_page r1 q \<and> (\<forall>p \<in> set ps. entries_apart p q) \<longrightarrow> load32 (pfa_ram r') q = load32 (pfa_ram r1) q"
    using Cons.IH [OF r1(2)] Cons.prems(3) by auto
  have "\<forall>q \<in> set ps. entries_apart q p" using Cons.prems(3) by (auto simp: entries_apart_def)
  then have "load32 (pfa_ram r') p = load32 (pfa_ram r1) p" using r'(7) p(1) page by blast
  then have "frame_of r' p = ?f" using r1(3) by (simp add: frame_of_def)
  moreover have "load32 (pfa_ram r') q = load32 (pfa_ram r) q" if "pfa_page r q" "\<forall>u \<in> set (p # ps). entries_apart u q" for q
    using r'(7) r1(8) that page by auto
  moreover have "distinct (map (frame_of r') (p # ps))" "set (map (frame_of r') (p # ps)) \<subseteq> copied.free_set r"
      "copied.free_set r' = copied.free_set r - set (map (frame_of r') (p # ps))"
    using r'(4-6) r1(4) mem \<open>frame_of r' p = ?f\<close> by auto
  moreover have "pfa_alloc_all isKernel isWritable (p # ps) r = Inr r'" using r1(1) r'(1) by simp
  ultimately show ?case using r1(5) r'(2,3) by (intro exI [of _ r']) (simp del: set_map list.map pfa_alloc_all.simps)
qed simp

text \<open>
  C21: a sequence of requests to the allocator of PageFrameAllocator.cpp, for blank page table entries
  that do not overlap each other or the bitmap, succeeds as long as there are free frames. No two
  pages get the same frame, every frame given out was free and is marked as used afterwards, and the
  marks of the other frames are as before.
\<close>

theorem frames_given_out_once:
  assumes "pfa_ok r" and "\<forall>p \<in> set ps. pfa_page r p \<and> page_Frame (load32 (pfa_ram r) p) = 0"
    and "sorted_wrt entries_apart ps" and "length ps \<le> card {f. f < pfa_limit r \<and> \<not> pfa_used r f}"
  shows "\<exists>r'. pfa_alloc_all isKernel isWritable ps r = Inr r' \<and> distinct (map (frame_of r') ps)
    \<and> (\<forall>p \<in> set ps. frame_of r' p < pfa_limit r \<and> \<not> pfa_used r (frame_of r' p))
    \<and> (\<forall>f < pfa_limit r. pfa_used r' f \<longleftrightarrow> pfa_used r f \<or> f \<in> set (map (frame_of r') ps))"
proof -
  obtain r' where r': "pfa_alloc_all isKernel isWritable ps r = Inr r'" "pfa_limit r' = pfa_limit r"
      "distinct (map (frame_of r') ps)" "set (map (frame_of r') ps) \<subseteq> copied.free_set r"
      "copied.free_set r' = copied.free_set r - set (map (frame_of r') ps)"
    using pfa_alloc_all_spec [OF assms(1-3), of isKernel isWritable] assms(4) unfolding copied.free_set_def [symmetric] by blast
  have "pfa_used r' f \<longleftrightarrow> f \<notin> copied.free_set r'" "pfa_used r f \<longleftrightarrow> f \<notin> copied.free_set r" if "f < pfa_limit r" for f
    using that r'(2) by (simp_all add: copied.free_set_def)
  then have "\<forall>f < pfa_limit r. pfa_used r' f \<longleftrightarrow> pfa_used r f \<or> f \<in> set (map (frame_of r') ps)" using r'(5) by auto
  moreover have "\<forall>p \<in> set ps. frame_of r' p < pfa_limit r \<and> \<not> pfa_used r (frame_of r' p)"
    using r'(4) by (auto simp: copied.free_set_def)
  ultimately show ?thesis using r'(1,3) by blast
qed

theorem frames_given_out_once_witness:
  "\<exists>r. pfa_alloc_all True False [0x3000, 0x3004] \<lparr>pfa_ram = (\<lambda>_. 0), pfa_frames = 0x2000, pfa_nframes = 64\<rparr> = Inr r
     \<and> frame_of r 0x3000 \<noteq> frame_of r 0x3004"
proof -
  let ?r = "\<lparr>pfa_ram = (\<lambda>_. 0), pfa_frames = 0x2000, pfa_nframes = 64\<rparr>"
  have "pfa_ok ?r" by (simp add: pfa_ok_def arr_wf_def INDEX_FROM_BIT_def)
  moreover have "\<forall>p \<in> set [0x3000, 0x3004]. pfa_page ?r p \<and> page_Frame (load32 (pfa_ram ?r) p) = 0"
    by (simp add: pfa_page_def page_Frame_def INDEX_FROM_BIT_def)
  moreover have "sorted_wrt entries_apart [0x3000, 0x3004]" by (simp add: entries_apart_def)
  moreover have "{f. f < pfa_limit ?r \<and> \<not> pfa_used ?r f} = {..< 64}"
    by (auto simp: pfa_limit_def pfa_used_def pfa_word_def INDEX_FROM_BIT_def)
  then have "length [0x3000 :: u32, 0x3004] \<le> card {f. f < pfa_limit ?r \<and> \<not> pfa_used ?r f}" by simp
  ultimately show ?thesis
    using frames_given_out_once [of ?r "[0x3000, 0x3004]" True False] by auto
qed

end
