(* ===== verification/Spec2Isabelle.thy ===== *)
theory Spec2Isabelle
  imports Start_Up Task_Resume Stack_Move Heap_Contract Frame_Allocator
begin

text \<open>
  \<^bold>\<open>A verification library for the loris kernel\<close>

  loris is a small kernel for 32-bit Intel processors, written in C++. Started by a multiboot loader,
  it sets up segments and interrupts, programs the timer, turns on paging with a heap behind it,
  creates a first task, forks a second one, and mounts the ramdisk the loader put in memory. Interrupt
  requests then drive the scheduler and the keyboard.

  \<^bold>\<open>The model.\<close> Memory is a function from 32-bit addresses to bytes (\<open>memory\<close>); the structures of the
  program (heap headers and footers, page directories, tasks, file nodes, descriptor tables, the text
  screen, C strings, the arguments of printf) are read and written in it at their offsets, with
  little-endian words of HOL-Library.Word, so that overlap and wrap-around are those of the machine.
  Global variables are fields of records. Functions take the state they use and return it changed.
  What the compiled code may do wrong is a value: the sum \<open>fault + 'a\<close> has as faults a missing
  return, a call of a bad pointer, a division by zero, an endless loop (\<open>Spin\<close>), a CR3
  that does not address the kernel's page tables (\<open>BadDirectory\<close>) and exhausted fuel.
  Loops with a bound on the counter are terminating functions; loops over C strings and format
  strings, which may run forever, are partial functions with the value \<open>None\<close> in that case, and the
  theorems about them show that a value is returned.

  \<^bold>\<open>Theories and sources\<close> (paths below \<^verbatim>\<open>src\<close>).
  \<^item> Loris_Prelude: words, memory with \<open>load8/16/32\<close> and \<open>store8/16/32\<close>, \<open>same_outside\<close> (frames), the sum
    type of faults, and the collections of simplification rules the other theories use.
  \<^item> Libc_String: \<^verbatim>\<open>libc/string/*.cpp\<close>. Copying against \<open>blit\<close>, strings against \<open>cstr\<close>.
  \<^item> Word_Arrays: the locale \<open>word_array\<close> of arrays in memory. Its instances are the element array of the
    ordered list (\<open>w32\<close>) and the cells of the screen (\<open>screen\<close>).
  \<^item> Ordered_List: \<^verbatim>\<open>Util/OrderedList.h\<close>. The locale \<open>ordered_index\<close> states what the heap needs from its
    index; \<open>ol\<close> interprets it on Insert, Remove, Size and GetItemAtIndex.
  \<^item> Kernel_Heap, Heap_Invariant, Heap_Free: \<^verbatim>\<open>kernel/Heap.h\<close> and the parts of \<^verbatim>\<open>kernel/Heap.cpp\<close> that work on
    the heap object and memory only. The abstraction is a list of blocks, each a length and a flag, that
    tiles the range of the heap (\<open>blocks\<close>, \<open>heap_inv\<close>).
  \<^item> Kernel_State, Page_Frames: the record \<open>kernel\<close> and the frame bitmap of \<^verbatim>\<open>kernel/paging.cpp\<close> with the page
    entries of \<^verbatim>\<open>kernel/paging.h\<close>. The locale \<open>frame_pool\<close> is a set of used frames; \<open>pool\<close> interprets it.
    Frame_Allocator: \<^verbatim>\<open>kernel/PageFrameAllocator.cpp\<close>, a copy of this code that is not linked, over its own
    globals; \<open>copied\<close> interprets the locale on it, from which it follows that it gives out every frame once.
  \<^item> Memory_Manager, Heap_Properties: get_page, kmalloc (\<^verbatim>\<open>kernel/kmalloc.cpp\<close>), Expand, Alloc, Contract and
    Free, which call each other: growing the heap needs page tables, which are allocated in turn. The
    properties of the heap operations are in Heap_Properties.
  \<^item> Paging, Paging_Properties: page directories, cloning and initialise_paging of \<^verbatim>\<open>kernel/paging.cpp\<close>,
    copy_page_physical of \<^verbatim>\<open>kernel/PagingAssembly.S\<close>.
  \<^item> Address_Space, Identity_Map, Paging_Setup: \<open>translate\<close> is the walk of the processor through a page
    directory; the loops of initialise_paging against it, and the state paging starts with.
  \<^item> Heap_Growth: Alloc when no hole is large enough, with Expand and the page tables together; \<open>growable\<close> (in
    Address_Space) is the state of paging it starts from, \<open>grown\<close> what Expand does to it. Heap_Contract: Free
    of a block at the end of the heap, with Contract and the page tables.
  \<^item> Block_Pool: the locale \<open>block_pool\<close> is the contract of kmalloc for a client that keeps several blocks.
    \<open>placement\<close> interprets it before the heap exists and \<open>heap\<close> afterwards.
  \<^item> Heap_Aligned: requests to the heap for memory on a page boundary.
  \<^item> Tasking, Scheduler, Fork: \<^verbatim>\<open>kernel/Task.cpp\<close> and perform_task_switch. The locale \<open>round_robin\<close> is the
    scheduler on an abstract queue, interpreted as \<open>rr\<close> on the linked list of tasks. \<open>memory_observer\<close> is
    any part of the kernel's state that memory management leaves alone, \<open>quiet_alloc\<close> an allocator that does;
    \<open>tasks\<close> and \<open>directories\<close> interpret the one on the globals of tasks and of paging, \<open>alloc\<close> and
    \<open>directories_alloc\<close> the other on Alloc. First_Tasks creates the
    first two tasks from the state initialise_paging leaves. Task_Resume follows tasks that were
    suspended inside switch_task; Stack_Move is the unreachable end of move_stack.
  \<^item> File_System, Ramdisk, Ramdisk_Mount: \<^verbatim>\<open>kernel/FIleSystem\<close>, from the dispatch through function pointers to
    the ramdisk, and its mounting on top of the allocator's contract.
  \<^item> Terminal, Screen, Formatted_Output: \<^verbatim>\<open>kernel/arch/i386/tty.cpp\<close> and \<^verbatim>\<open>libc/stdio/stdio.cpp\<close>. The
    specification is an abstract screen of 2000 cells with a cursor, and \<open>render\<close> for formats. Also
    \<^verbatim>\<open>libc/stdlib/abort.cpp\<close> and \<^verbatim>\<open>kernel/StdLib.cpp\<close>, which print a message and loop.
  \<^item> Descriptor_Tables, Interrupts, Interrupt_Properties, Interrupt_Stubs: the tables, the dispatchers and the
    stubs of \<^verbatim>\<open>kernel/arch/i386\<close>, \<^verbatim>\<open>kernel/Timer.cpp\<close>, \<^verbatim>\<open>kernel/Keyboard.h\<close> and \<^verbatim>\<open>kernel/io.cpp\<close>.
  \<^item> Interrupt_Run: \<open>irq_step\<close>, the step relation of the machine under interrupt requests, and its
    invariant \<open>machine_ok\<close>.
  \<^item> Boot, Kernel_Boot: kernel_main of \<^verbatim>\<open>kernel/kernel.cpp\<close>, which calls all of the above, first up to the
    timer and then to its end. \<open>next_fetch\<close> is the processor after initialise_paging: it goes on
    only if CR3 holds the physical address of the kernel's directory or of the current one.
  \<^item> Start_Up: \<^verbatim>\<open>boot.S\<close>, \<^verbatim>\<open>crti.S\<close> and \<^verbatim>\<open>crtn.S\<close> around kernel_main, and \<^verbatim>\<open>kernel/ReadEIP.s\<close>.

  \<^bold>\<open>What is shown.\<close>
  \<^item> The heap: the constructor establishes the invariant, Alloc and Free keep it where they do, the
    search finds the tightest hole, sequences of requests get disjoint blocks. Where the code breaks its own
    invariant (merging with a hole on the right, growing behind used blocks, requests whose size wraps
    around) that is stated and proved as well. A request for a page boundary is served where the hole has
    room for the move, and \<open>Alloc_aligned_overruns\<close> is what happens where it has not. A request
    no hole is large enough for makes the heap grow: the pages behind its end get the next free frames, the
    last hole is extended, and the invariant holds again. As Expand does not round an even size, the heap
    then ends inside a page, and the next expansion may leave its last page unmapped
    (\<open>Expand_leaves_page_unmapped\<close>). A missing page table is allocated from the heap that is
    being expanded, which never ends when that is full (\<open>Alloc_without_table_never_returns\<close>).
    Freeing the block in front of the last hole cuts the heap off at the block and enters it in the index
    all the same (\<open>Free_at_end_leaves_hole_outside\<close>).
  \<^item> Paging: the lowest free frame is allocated and marked, missing page tables are created, the
    kernel's tables are shared by a clone; after initialise_paging the walk maps the memory in use to itself
    and the heap to the frames behind it. The bitmap of the frames has 128 bytes and is used as 512 (finding
    at \<^verbatim>\<open>paging.cpp:144\<close>); \<open>boot_memory\<close> therefore asks for zeros where
    the other bytes lie.
  \<^item> Tasks: a switch saves and restores contexts; the scheduler takes the tasks in turn, each with the context
    saved when it was last left and in its own directory; the child of a fork is switched to with the
    registers and the directory of the fork and sees 0. But a task that was suspended inside switch_task
    does not come back from it.
  \<^item> Files: every file of a ramdisk is found under its name and reads back as its contents; what a read does for
    every offset and size, and when an overflow makes it leave the file.
  \<^item> Output: printf shows what the reference renders.
  \<^item> Interrupts: gates and segments decode to what was asked for, requests are acknowledged, the
    interrupted program does not notice, and no sequence of requests leads to a fault.
  \<^item> Boot: kmalloc does not set the physical address of the directory that initialise_paging switches to
    (finding at \<^verbatim>\<open>kmalloc.cpp:12\<close>), so CR3 gets the uninitialised value of a variable, plus 4096.
    On every machine that is \<open>bootable\<close> kernel_main gets past that exactly when the value lies in one of
    two pages, those of the kernel's directory and of its clone. It then runs to its end, with paging and the
    heap set up, the greeting on the screen, two tasks and every file of the ramdisk served
    (\<open>booted\<close>); otherwise it ends in BadDirectory. \<open>kernel_starts\<close> adds what boot.S does before
    and the interrupts that come after, as long as CR3 stays with a directory of the kernel.
  \<^item> Strings: memmove, strcpy and strcmp against lists of bytes.

  \<^bold>\<open>Fuel.\<close> Alloc calls Expand, which calls get_page, kmalloc and Alloc again; Alloc takes
  fuel for the depth of these calls. A request for which the heap has a hole needs one unit, and the theorems
  about it hold for every positive amount. A request that makes the heap grow by pages that have a page table
  needs one unit for each page and one for the second attempt; Alloc_grows_heap asks for more units than pages.
  The identity map of initialise_paging takes at most one round for each of the 4096 pages below 16 MB and uses
  fuel for each, so fuel above 4096 is enough for the whole boot sequence. The ready queue may be cyclic in a
  corrupt memory; \<open>last_task\<close> and the string functions are therefore partial.

  \<^bold>\<open>Not modelled.\<close> The linker script and the sections gcc adds to \<open>_init\<close>; the
  addresses they determine are arguments (record \<open>image\<close>). The address behind the call of read_eip
  and the values of ESP and EBP are arguments of fork and switch_task. The stack frames of C++ functions are not
  in the memory of the model; only the words boot.S and the interrupt stubs push are. \<open>translate\<close>
  models the walk through the page tables, but memory accesses do not go through it: linear and physical memory
  are separate fields of the kernel state, so a write to a frame does not show at the addresses mapped to it. What
  CR3 addresses is checked where paging is turned on (\<open>next_fetch\<close>) and, for the theorem about the start, at
  every step that follows (\<open>mapped_step\<close>), not in switch_task itself.
  Interrupts arrive between, not during, the operations. page_fault is declared and not defined;
  \<^verbatim>\<open>InterruptManager.h\<close> declares functions that are not defined.
\<close>

end
